(* ===== verification/Prelude.thy ===== *)
theory Prelude
  imports Main "HOL-Library.Word"
begin

section \<open>Shared vocabulary of the development\<close>

text \<open>
  Rust strings and byte slices are modelled as HOL strings: a list of bytes, so that
  \<open>length\<close> is Rust's \<open>str::len\<close>. The helpers below are the standard-library string
  operations the sources use (split, trim, strip\_prefix, ASCII classes, integer parsing), each
  with the lemmas that carry the component proofs. Results of fallible code are values of a sum
  type, \<open>Inl\<close> for the error.
\<close>

named_theorems handler_defs \<open>definitions of handlers, unfolded by the proofs about them\<close>
named_theorems str_simps \<open>evaluation rules of the string helpers\<close>

subsection \<open>Results\<close>

text \<open>The \<open>?\<close> operator of Rust: stop at the first error.\<close>

definition bind_r :: "'e + 'a \<Rightarrow> ('a \<Rightarrow> 'e + 'b) \<Rightarrow> 'e + 'b" where
  "bind_r r f = (case r of Inl e \<Rightarrow> Inl e | Inr a \<Rightarrow> f a)"

lemma bind_r_simps [simp]: "bind_r (Inl e) f = Inl e" "bind_r (Inr a) f = f a"
  by (simp_all add: bind_r_def)

lemma bind_r_Inr_iff: "bind_r r f = Inr b \<longleftrightarrow> (\<exists>a. r = Inr a \<and> f a = Inr b)"
  by (cases r) auto

lemma bind_r_Inl_iff: "bind_r r f = Inl e \<longleftrightarrow> r = Inl e \<or> (\<exists>a. r = Inr a \<and> f a = Inl e)"
  by (cases r) auto

text \<open>\<open>Option::ok\_or\_else\<close> and a guarded early return.\<close>

definition ok_or :: "'e \<Rightarrow> 'a option \<Rightarrow> 'e + 'a" where
  "ok_or e v = (case v of None \<Rightarrow> Inl e | Some a \<Rightarrow> Inr a)"

definition guard_r :: "bool \<Rightarrow> 'e \<Rightarrow> 'e + unit" where
  "guard_r ok e = (if ok then Inr () else Inl e)"

lemma ok_or_simps [simp]: "ok_or e None = Inl e" "ok_or e (Some a) = Inr a"
  by (simp_all add: ok_or_def)

lemma ok_or_Inr_iff [simp]: "ok_or e v = Inr a \<longleftrightarrow> v = Some a"
  by (cases v) auto

lemma guard_r_simps [simp]: "guard_r True e = Inr ()" "guard_r False e = Inl e"
  by (simp_all add: guard_r_def)

lemma guard_r_Inr_iff [simp]: "guard_r b e = Inr u \<longleftrightarrow> b"
  by (simp add: guard_r_def)

lemma guard_r_Inl_iff [simp]: "guard_r b e = Inl e' \<longleftrightarrow> \<not> b \<and> e' = e"
  by (auto simp: guard_r_def)

text \<open>\<open>Option::map(f).transpose()\<close> and a loop that stops at the first error.\<close>

definition transpose_opt :: "('a \<Rightarrow> 'e + 'b) \<Rightarrow> 'a option \<Rightarrow> 'e + 'b option" where
  "transpose_opt f v =
     (case v of None \<Rightarrow> Inr None | Some a \<Rightarrow> bind_r (f a) (\<lambda>b. Inr (Some b)))"

fun all_ok :: "('a \<Rightarrow> 'e + unit) \<Rightarrow> 'a list \<Rightarrow> 'e + unit" where
  "all_ok f [] = Inr ()"
| "all_ok f (x # xs) = bind_r (f x) (\<lambda>_. all_ok f xs)"

lemma all_ok_Inr_iff: "all_ok f xs = Inr u \<longleftrightarrow> (\<forall>x\<in>set xs. f x = Inr ())"
  by (induction xs) (auto simp: bind_r_Inr_iff)

subsection \<open>Bytes and ASCII classes\<close>

definition byte_of :: "char \<Rightarrow> nat" where
  "byte_of c = of_char c"

definition is_ascii_digit :: "char \<Rightarrow> bool" where
  "is_ascii_digit c \<longleftrightarrow> 48 \<le> byte_of c \<and> byte_of c \<le> 57"

definition is_ascii_lowercase :: "char \<Rightarrow> bool" where
  "is_ascii_lowercase c \<longleftrightarrow> 97 \<le> byte_of c \<and> byte_of c \<le> 122"

definition is_ascii_uppercase :: "char \<Rightarrow> bool" where
  "is_ascii_uppercase c \<longleftrightarrow> 65 \<le> byte_of c \<and> byte_of c \<le> 90"

definition is_ascii_alphabetic :: "char \<Rightarrow> bool" where
  "is_ascii_alphabetic c \<longleftrightarrow> is_ascii_lowercase c \<or> is_ascii_uppercase c"

definition is_ascii_alphanumeric :: "char \<Rightarrow> bool" where
  "is_ascii_alphanumeric c \<longleftrightarrow> is_ascii_alphabetic c \<or> is_ascii_digit c"

definition is_lower_hex :: "char \<Rightarrow> bool" where
  "is_lower_hex c \<longleftrightarrow> is_ascii_digit c \<or> 97 \<le> byte_of c \<and> byte_of c \<le> 102"

definition is_ascii_hexdigit :: "char \<Rightarrow> bool" where
  "is_ascii_hexdigit c \<longleftrightarrow> is_lower_hex c \<or> 65 \<le> byte_of c \<and> byte_of c \<le> 70"

definition is_ascii_control :: "char \<Rightarrow> bool" where
  "is_ascii_control c \<longleftrightarrow> byte_of c < 32 \<or> byte_of c = 127"

definition is_ascii_whitespace :: "char \<Rightarrow> bool" where
  "is_ascii_whitespace c \<longleftrightarrow> byte_of c \<in> {9, 10, 12, 13, 32}"

definition is_ascii :: "string \<Rightarrow> bool" where
  "is_ascii s \<longleftrightarrow> list_all (\<lambda>c. byte_of c < 128) s"

definition to_lower_char :: "char \<Rightarrow> char" where
  "to_lower_char c = (if is_ascii_uppercase c then char_of (byte_of c + 32) else c)"

definition to_upper_char :: "char \<Rightarrow> char" where
  "to_upper_char c = (if is_ascii_lowercase c then char_of (byte_of c - 32) else c)"

definition to_ascii_lowercase :: "string \<Rightarrow> string" where
  "to_ascii_lowercase s = map to_lower_char s"

definition to_ascii_uppercase :: "string \<Rightarrow> string" where
  "to_ascii_uppercase s = map to_upper_char s"

definition eq_ignore_ascii_case :: "string \<Rightarrow> string \<Rightarrow> bool" where
  "eq_ignore_ascii_case a b \<longleftrightarrow> to_ascii_lowercase a = to_ascii_lowercase b"

lemmas ascii_defs =
  is_ascii_digit_def is_ascii_lowercase_def is_ascii_uppercase_def is_ascii_alphabetic_def
  is_ascii_alphanumeric_def is_lower_hex_def is_ascii_hexdigit_def is_ascii_control_def
  is_ascii_whitespace_def is_ascii_def to_lower_char_def to_upper_char_def
  to_ascii_lowercase_def to_ascii_uppercase_def eq_ignore_ascii_case_def byte_of_def

lemma to_lower_char_not_upper: "\<not> is_ascii_uppercase (to_lower_char c)"
proof (cases "is_ascii_uppercase c")
  case True
  then have "byte_of c + 32 < 256" "97 \<le> byte_of c + 32"
    by (auto simp: is_ascii_uppercase_def)
  then have "byte_of (to_lower_char c) = byte_of c + 32"
    using True by (simp add: to_lower_char_def byte_of_def)
  then show ?thesis
    using True by (simp add: is_ascii_uppercase_def)
qed (simp add: to_lower_char_def)

lemma to_ascii_lowercase_idem [simp]:
  "to_ascii_lowercase (to_ascii_lowercase s) = to_ascii_lowercase s"
  using to_lower_char_not_upper
  by (auto simp: to_ascii_lowercase_def to_lower_char_def [of "to_lower_char _"])

lemma length_to_ascii_lowercase [simp]: "length (to_ascii_lowercase s) = length s"
  by (simp add: to_ascii_lowercase_def)

subsection \<open>Prefixes, suffixes, substrings\<close>

definition starts_with :: "string \<Rightarrow> string \<Rightarrow> bool" where
  "starts_with s p \<longleftrightarrow> take (length p) s = p"

definition ends_with :: "string \<Rightarrow> string \<Rightarrow> bool" where
  "ends_with s p \<longleftrightarrow> starts_with (rev s) (rev p)"

definition strip_prefix :: "string \<Rightarrow> string \<Rightarrow> string option" where
  "strip_prefix s p = (if starts_with s p then Some (drop (length p) s) else None)"

fun contains_str :: "string \<Rightarrow> string \<Rightarrow> bool" where
  "contains_str [] p \<longleftrightarrow> p = []"
| "contains_str (c # s) p \<longleftrightarrow> starts_with (c # s) p \<or> contains_str s p"

lemma starts_with_iff: "starts_with s p \<longleftrightarrow> (\<exists>r. s = p @ r)"
  unfolding starts_with_def by (metis append_eq_conv_conj append_take_drop_id)

lemma ends_with_iff: "ends_with s p \<longleftrightarrow> (\<exists>r. s = r @ p)"
proof
  assume "ends_with s p"
  then obtain r where "rev s = rev p @ r"
    by (auto simp: ends_with_def starts_with_iff)
  then have "s = rev r @ p" by (metis rev_append rev_rev_ident)
  then show "\<exists>r. s = r @ p" ..
qed (auto simp: ends_with_def starts_with_iff)

lemma strip_prefix_Some_iff: "strip_prefix s p = Some r \<longleftrightarrow> s = p @ r"
  by (auto simp: strip_prefix_def starts_with_iff)

lemma strip_prefix_append [simp]: "strip_prefix (p @ r) p = Some r"
  by (simp add: strip_prefix_Some_iff)

lemma contains_str_iff: "contains_str s p \<longleftrightarrow> (\<exists>a b. s = a @ p @ b)"
proof (induction s)
  case (Cons c s)
  have "(\<exists>a b. c # s = a @ p @ b) \<longleftrightarrow> (\<exists>b. c # s = p @ b) \<or> (\<exists>a b. s = a @ p @ b)"
  proof
    assume "\<exists>a b. c # s = a @ p @ b"
    then obtain a b where "c # s = a @ p @ b" by blast
    then show "(\<exists>b. c # s = p @ b) \<or> (\<exists>a b. s = a @ p @ b)"
      by (cases a) auto
  next
    assume "(\<exists>b. c # s = p @ b) \<or> (\<exists>a b. s = a @ p @ b)"
    then show "\<exists>a b. c # s = a @ p @ b"
      by (metis append.left_neutral append_Cons)
  qed
  with Cons show ?case by (simp add: starts_with_iff)
qed simp

lemma contains_single: "contains_str s [c] \<longleftrightarrow> c \<in> set s"
  by (auto simp: contains_str_iff in_set_conv_decomp)

subsection \<open>Splitting and joining\<close>

text \<open>\<open>str::split\<close> on one character always yields at least one piece.\<close>

fun split_on :: "char \<Rightarrow> string \<Rightarrow> string list" where
  "split_on d [] = [[]]"
| "split_on d (c # s) =
     (if c = d then [] # split_on d s
      else (case split_on d s of [] \<Rightarrow> [[c]] | p # ps \<Rightarrow> (c # p) # ps))"

fun join_with :: "string \<Rightarrow> string list \<Rightarrow> string" where
  "join_with sep [] = []"
| "join_with sep [p] = p"
| "join_with sep (p # q # ps) = p @ sep @ join_with sep (q # ps)"

definition split_once :: "char \<Rightarrow> string \<Rightarrow> (string \<times> string) option" where
  "split_once d s =
     (if d \<in> set s then Some (takeWhile (\<lambda>c. c \<noteq> d) s, tl (dropWhile (\<lambda>c. c \<noteq> d) s))
      else None)"

definition rsplit_once :: "char \<Rightarrow> string \<Rightarrow> (string \<times> string) option" where
  "rsplit_once d s =
     (case split_once d (rev s) of None \<Rightarrow> None | Some (b, a) \<Rightarrow> Some (rev a, rev b))"

text \<open>\<open>str::split\<close> on a character class, and \<open>str::split\_ascii\_whitespace\<close>.\<close>

fun split_by :: "(char \<Rightarrow> bool) \<Rightarrow> string \<Rightarrow> string list" where
  "split_by P [] = [[]]"
| "split_by P (c # s) =
     (if P c then [] # split_by P s
      else (case split_by P s of [] \<Rightarrow> [[c]] | p # ps \<Rightarrow> (c # p) # ps))"

definition split_ascii_whitespace :: "string \<Rightarrow> string list" where
  "split_ascii_whitespace s = filter (\<lambda>p. p \<noteq> []) (split_by is_ascii_whitespace s)"

lemma split_on_not_Nil [simp]: "split_on d s \<noteq> []"
  by (induction s) (auto split: list.splits)

lemma join_split_on: "join_with [d] (split_on d s) = s"
proof (induction s)
  case (Cons c s)
  obtain p ps where sp: "split_on d s = p # ps"
    by (metis split_on_not_Nil neq_Nil_conv)
  with Cons show ?case
    by (cases ps) auto
qed simp

lemma split_on_no_delim: "p \<in> set (split_on d s) \<Longrightarrow> d \<notin> set p"
  by (induction s arbitrary: p) (auto split: if_splits list.splits)

lemma split_on_subset: "p \<in> set (split_on d s) \<Longrightarrow> set p \<subseteq> set s"
  by (induction s arbitrary: p) (fastforce split: if_splits list.splits)+

lemma split_on_id: "d \<notin> set s \<Longrightarrow> split_on d s = [s]"
  by (induction s) auto

lemma split_on_append_delim:
  "d \<notin> set p \<Longrightarrow> split_on d (p @ d # s) = p # split_on d s"
  by (induction p) auto

lemma split_on_join:
  "ps \<noteq> [] \<Longrightarrow> (\<And>p. p \<in> set ps \<Longrightarrow> d \<notin> set p) \<Longrightarrow> split_on d (join_with [d] ps) = ps"
  by (induction "[d]" ps rule: join_with.induct)
     (auto simp: split_on_id split_on_append_delim)

lemma split_once_Some_iff:
  "split_once d s = Some (a, b) \<longleftrightarrow> s = a @ d # b \<and> d \<notin> set a"
proof
  assume h: "split_once d s = Some (a, b)"
  then have mem: "d \<in> set s" and a: "a = takeWhile (\<lambda>c. c \<noteq> d) s"
    and b: "b = tl (dropWhile (\<lambda>c. c \<noteq> d) s)"
    by (auto simp: split_once_def split: if_splits)
  obtain r where r: "dropWhile (\<lambda>c. c \<noteq> d) s = d # r"
  proof -
    obtain x y where xy: "s = x @ d # y" "d \<notin> set x"
      using mem by (meson split_list_first)
    then have "\<forall>c\<in>set x. c \<noteq> d" by blast
    then have "dropWhile (\<lambda>c. c \<noteq> d) s = d # y"
      using xy(1) by (simp add: dropWhile_append2)
    then show thesis by (rule that)
  qed
  have "s = a @ d # b"
    using takeWhile_dropWhile_id [of "\<lambda>c. c \<noteq> d" s] r a b by simp
  moreover have "d \<notin> set a" using a by (auto dest: set_takeWhileD)
  ultimately show "s = a @ d # b \<and> d \<notin> set a" by simp
next
  assume h: "s = a @ d # b \<and> d \<notin> set a"
  then have "\<forall>c\<in>set a. c \<noteq> d" by blast
  with h show "split_once d s = Some (a, b)"
    by (simp add: split_once_def takeWhile_append2 dropWhile_append2)
qed

lemma split_once_None_iff [simp]: "split_once d s = None \<longleftrightarrow> d \<notin> set s"
  by (simp add: split_once_def)

lemma rsplit_once_Some_iff:
  "rsplit_once d s = Some (a, b) \<longleftrightarrow> s = a @ d # b \<and> d \<notin> set b"
proof -
  have "rsplit_once d s = Some (a, b) \<longleftrightarrow> split_once d (rev s) = Some (rev b, rev a)"
  proof (cases "split_once d (rev s)")
    case None
    then show ?thesis by (simp only: rsplit_once_def option.case option.distinct)
  next
    case (Some p)
    then show ?thesis by (cases p) (auto simp: rsplit_once_def)
  qed
  also have "\<dots> \<longleftrightarrow> rev s = rev b @ d # rev a \<and> d \<notin> set b"
    by (simp add: split_once_Some_iff)
  also have "rev s = rev b @ d # rev a \<longleftrightarrow> s = a @ d # b"
    by (metis append.assoc append_Cons append_Nil rev.simps(2) rev_append rev_rev_ident)
  finally show ?thesis .
qed

lemma rsplit_once_None_iff [simp]: "rsplit_once d s = None \<longleftrightarrow> d \<notin> set s"
  by (cases "split_once d (rev s)") (auto simp: rsplit_once_def split_once_def split: if_splits)

subsection \<open>Trimming\<close>

definition trim_end_matches :: "char \<Rightarrow> string \<Rightarrow> string" where
  "trim_end_matches d s = rev (dropWhile (\<lambda>c. c = d) (rev s))"

definition trim_start_matches :: "char \<Rightarrow> string \<Rightarrow> string" where
  "trim_start_matches d s = dropWhile (\<lambda>c. c = d) s"

text \<open>
  \<open>str::trim\<close> removes Unicode white space; on UTF-8 bytes that is a leading (trailing)
  occurrence of one of the encodings below, repeatedly.
\<close>

definition ws_encodings :: "string list" where
  "ws_encodings =
     map (\<lambda>n. [char_of (n :: nat)]) [9, 10, 11, 12, 13, 32]
     @ [[CHR 0xC2, CHR 0x85], [CHR 0xC2, CHR 0xA0], [CHR 0xE1, CHR 0x9A, CHR 0x80]]
     @ map (\<lambda>n. [CHR 0xE2, CHR 0x80, char_of (n :: nat)])
         [128, 129, 130, 131, 132, 133, 134, 135, 136, 137, 138, 168, 169, 175]
     @ [[CHR 0xE2, CHR 0x81, CHR 0x9F], [CHR 0xE3, CHR 0x80, CHR 0x80]]"

fun strip_any :: "string list \<Rightarrow> string \<Rightarrow> string option" where
  "strip_any [] s = None"
| "strip_any (w # ws) s =
     (if w \<noteq> [] \<and> starts_with s w then Some (drop (length w) s) else strip_any ws s)"

lemma strip_any_shorter: "strip_any ws s = Some r \<Longrightarrow> length r < length s"
  by (induction ws) (auto simp: starts_with_iff split: if_splits)

lemma strip_any_suffix: "strip_any ws s = Some r \<Longrightarrow> \<exists>w. s = w @ r"
  by (induction ws) (auto simp: starts_with_iff split: if_splits)

function trim_with :: "string list \<Rightarrow> string \<Rightarrow> string" where
  "trim_with ws s = (case strip_any ws s of None \<Rightarrow> s | Some r \<Rightarrow> trim_with ws r)"
  by pat_completeness auto
termination
  by (relation "measure (length \<circ> snd)") (auto dest: strip_any_shorter)

declare trim_with.simps [simp del]

definition trim_start :: "string \<Rightarrow> string" where
  "trim_start s = trim_with ws_encodings s"

definition trim_end :: "string \<Rightarrow> string" where
  "trim_end s = rev (trim_with (map rev ws_encodings) (rev s))"

definition trim :: "string \<Rightarrow> string" where
  "trim s = trim_end (trim_start s)"

lemma trim_with_suffix: "\<exists>w. s = w @ trim_with ws s"
proof (induction ws s rule: trim_with.induct)
  case (1 ws s)
  show ?case
  proof (cases "strip_any ws s")
    case None
    then show ?thesis by (subst trim_with.simps) simp
  next
    case (Some r)
    with 1 obtain v where "r = v @ trim_with ws r" by blast
    moreover obtain w where "s = w @ r" using strip_any_suffix [OF Some] by blast
    moreover have "trim_with ws s = trim_with ws r"
      using Some by (simp add: trim_with.simps [of ws s])
    ultimately have "s = (w @ v) @ trim_with ws s" by simp
    then show ?thesis ..
  qed
qed

lemma trim_infix: "\<exists>a b. s = a @ trim s @ b"
proof -
  obtain a where a: "s = a @ trim_start s"
    using trim_with_suffix by (auto simp: trim_start_def)
  obtain w where "rev (trim_start s) = w @ trim_with (map rev ws_encodings) (rev (trim_start s))"
    using trim_with_suffix by blast
  then have "trim_start s = trim s @ rev w"
    by (metis rev_append rev_rev_ident trim_def trim_end_def)
  with a show ?thesis by metis
qed

lemma length_trim_le: "length (trim s) \<le> length s"
  by (metis trim_infix length_append le_add1 le_add2 order_trans)

lemma set_trim_subset: "set (trim s) \<subseteq> set s"
proof -
  obtain a b where "s = a @ trim s @ b" using trim_infix by blast
  then have "set s = set a \<union> set (trim s) \<union> set b" by (metis set_append sup_assoc)
  then show ?thesis by blast
qed

text \<open>A text that starts and ends with a printing ASCII character is trimmed already.\<close>

definition is_graphic :: "char \<Rightarrow> bool" where
  "is_graphic c \<longleftrightarrow> 33 \<le> byte_of c \<and> byte_of c \<le> 126"

lemma strip_any_None:
  "(\<forall>w\<in>set ws. w = [] \<or> hd w \<noteq> hd s) \<Longrightarrow> strip_any ws s = None"
  by (induction ws) (auto simp: starts_with_iff neq_Nil_conv)

lemma ws_not_graphic:
  "\<forall>w\<in>set ws_encodings. w \<noteq> [] \<and> \<not> is_graphic (hd w) \<and> \<not> is_graphic (last w)"
  by (simp add: ws_encodings_def is_graphic_def byte_of_def)

lemma trim_with_graphic:
  "\<forall>w\<in>set ws. \<not> is_graphic (hd w) \<Longrightarrow> is_graphic (hd s) \<Longrightarrow> trim_with ws s = s"
  using strip_any_None [of ws s] by (subst trim_with.simps) (metis option.case(1))

lemma trim_graphic: "s \<noteq> [] \<Longrightarrow> is_graphic (hd s) \<Longrightarrow> is_graphic (last s) \<Longrightarrow> trim s = s"
proof -
  assume s: "s \<noteq> []" "is_graphic (hd s)" "is_graphic (last s)"
  have "trim_start s = s"
    using s ws_not_graphic by (simp add: trim_start_def trim_with_graphic)
  moreover have "trim_with (map rev ws_encodings) (rev s) = rev s"
    using s ws_not_graphic by (intro trim_with_graphic) (auto simp: hd_rev)
  ultimately show ?thesis by (simp add: trim_def trim_end_def)
qed

subsection \<open>Machine integers\<close>

type_synonym u64 = "64 word"
type_synonym i64 = "64 word"

text \<open>\<open>usize\<close> is 64 bits wide on every supported target.\<close>

definition u64_max :: nat where
  "u64_max = 2 ^ 64 - 1"

definition checked_add :: "nat \<Rightarrow> nat \<Rightarrow> nat option" where
  "checked_add a b = (if a + b \<le> u64_max then Some (a + b) else None)"

definition saturating_add :: "nat \<Rightarrow> nat \<Rightarrow> nat" where
  "saturating_add a b = min (a + b) u64_max"

lemma checked_add_Some_iff: "checked_add a b = Some c \<longleftrightarrow> c = a + b \<and> a + b \<le> u64_max"
  by (auto simp: checked_add_def)

text \<open>\<open>str::parse::<u64>\<close>: an optional plus sign, at least one digit, no overflow.\<close>

definition digit_val :: "char \<Rightarrow> nat" where
  "digit_val c = byte_of c - 48"

fun digits_val :: "nat \<Rightarrow> string \<Rightarrow> nat" where
  "digits_val acc [] = acc"
| "digits_val acc (c # s) = digits_val (10 * acc + digit_val c) s"

definition parse_u64 :: "string \<Rightarrow> nat option" where
  "parse_u64 s =
     (let t = (if s \<noteq> [] \<and> hd s = CHR ''+'' then tl s else s)
      in if t \<noteq> [] \<and> list_all is_ascii_digit t \<and> digits_val 0 t \<le> u64_max
         then Some (digits_val 0 t) else None)"

lemma parse_u64_bound: "parse_u64 s = Some n \<Longrightarrow> n \<le> u64_max"
  by (auto simp: parse_u64_def Let_def split: if_splits)

fun show_nat_rev :: "nat \<Rightarrow> string" where
  "show_nat_rev n =
     (if n < 10 then [char_of (48 + n)] else char_of (48 + n mod 10) # show_nat_rev (n div 10))"

declare show_nat_rev.simps [simp del]

definition show_nat :: "nat \<Rightarrow> string" where
  "show_nat n = rev (show_nat_rev n)"

definition show_int :: "int \<Rightarrow> string" where
  "show_int i = (if i < 0 then ''-'' @ show_nat (nat (- i)) else show_nat (nat i))"

lemma digits_val_append: "digits_val acc (a @ b) = digits_val (digits_val acc a) b"
  by (induction a arbitrary: acc) auto

lemma show_nat_digits: "list_all is_ascii_digit (show_nat n)"
proof -
  have "list_all is_ascii_digit (show_nat_rev n)"
  proof (induction n rule: show_nat_rev.induct)
    case (1 n)
    have "\<And>m :: nat. m < 10 \<Longrightarrow> is_ascii_digit (char_of (48 + m))"
      by (simp add: is_ascii_digit_def byte_of_def)
    with 1 show ?case by (subst show_nat_rev.simps) auto
  qed
  then show ?thesis by (simp add: show_nat_def)
qed

lemma digits_val_show_nat: "digits_val 0 (show_nat n) = n"
proof (induction n rule: show_nat_rev.induct)
  case (1 n)
  have d: "\<And>m :: nat. m < 10 \<Longrightarrow> digit_val (char_of (48 + m)) = m"
    by (simp add: digit_val_def byte_of_def)
  show ?case
  proof (cases "n < 10")
    case True
    then show ?thesis
      using d by (simp add: show_nat_def show_nat_rev.simps [of n])
  next
    case False
    with 1 have "digits_val 0 (rev (show_nat_rev (n div 10))) = n div 10"
      by (simp add: show_nat_def)
    with False show ?thesis
      using d [of "n mod 10"]
      by (simp add: show_nat_def show_nat_rev.simps [of n] digits_val_append)
  qed
qed

lemma show_nat_not_Nil [simp]: "show_nat n \<noteq> []"
  by (simp add: show_nat_def show_nat_rev.simps [of n])

lemma show_nat_inj: "show_nat a = show_nat b \<Longrightarrow> a = b"
  by (metis digits_val_show_nat)

lemma parse_u64_show_nat: "n \<le> u64_max \<Longrightarrow> parse_u64 (show_nat n) = Some n"
proof -
  assume n: "n \<le> u64_max"
  obtain c s where cs: "show_nat n = c # s" by (metis show_nat_not_Nil neq_Nil_conv)
  have "c \<noteq> CHR ''+''"
    using show_nat_digits [of n] cs by (auto simp: is_ascii_digit_def byte_of_def)
  then have "hd (show_nat n) \<noteq> CHR ''+''" using cs by simp
  then show ?thesis
    using n by (simp add: parse_u64_def show_nat_digits digits_val_show_nat)
qed

text \<open>\<open>as i64\<close> and \<open>as u64\<close>: reinterpretation of the 64 bits.\<close>

definition as_i64 :: "nat \<Rightarrow> int" where
  "as_i64 n = sint (word_of_nat n :: i64)"

definition as_u64 :: "int \<Rightarrow> nat" where
  "as_u64 i = unat (word_of_int i :: u64)"

text \<open>Release builds wrap on overflow.\<close>

definition wrap_i64 :: "int \<Rightarrow> int" where
  "wrap_i64 i = sint (word_of_int i :: i64)"

definition i64_max :: int where
  "i64_max = 2 ^ 63 - 1"

lemma as_u64_nonneg: "0 \<le> i \<Longrightarrow> i \<le> i64_max \<Longrightarrow> as_u64 i = nat i"
  by (simp add: as_u64_def i64_max_def unat_word_ariths unsigned_of_int take_bit_int_eq_self nat_take_bit_eq)

lemma wrap_i64_id: "- (2 ^ 63) \<le> i \<Longrightarrow> i \<le> i64_max \<Longrightarrow> wrap_i64 i = i"
  by (simp add: wrap_i64_def i64_max_def signed_of_int signed_take_bit_int_eq_self)

lemma wrap_i64_max: "wrap_i64 (i64_max + 1) = - (2 ^ 63)"
  by (simp add: wrap_i64_def i64_max_def)

lemma wrap_i64_le: "wrap_i64 i \<le> i64_max"
  using sint_lt [of "word_of_int i :: i64"] by (simp add: wrap_i64_def i64_max_def)

lemma as_i64_small: "int n \<le> i64_max \<Longrightarrow> as_i64 n = int n"
  by (simp add: as_i64_def i64_max_def signed_of_nat signed_take_bit_int_eq_self)

text \<open>\<open>str::parse::<i64>\<close>.\<close>

definition parse_i64 :: "string \<Rightarrow> int option" where
  "parse_i64 s =
     (let neg = (s \<noteq> [] \<and> hd s = CHR ''-'');
          t = (if s \<noteq> [] \<and> (hd s = CHR ''+'' \<or> hd s = CHR ''-'') then tl s else s);
          v = (if neg then - int (digits_val 0 t) else int (digits_val 0 t))
      in if t \<noteq> [] \<and> list_all is_ascii_digit t \<and> - (2 ^ 63) \<le> v \<and> v \<le> i64_max then Some v else None)"

text \<open>Association lists as the tables' index: the first match.\<close>

lemma find_Some_iff': "List.find P xs = Some x \<Longrightarrow> x \<in> set xs \<and> P x"
  by (induction xs) (auto split: if_splits)

lemma find_None_iff': "List.find P xs = None \<longleftrightarrow> (\<forall>x\<in>set xs. \<not> P x)"
  by (induction xs) auto

end
