(* ===== verification/PackageIntake.thy ===== *)
theory PackageIntake
  imports Prelude
begin

section \<open>Package intake admission (\<^verbatim>\<open>src/package_intake.rs\<close>)\<close>

text \<open>
  The pure admission rules: immutable security evidence in, a publication decision out. The types
  are the source's, \<open>evaluate\<close> follows its early returns. \<open>admissible\<close> is the abstract
  specification: it builds the requests of each decision from evidence issued for their digests.
\<close>

datatype intake_state =
  Received | Quarantined | Evaluated | PendingApprovalState | RejectedState | PublishableState
  | Published

datatype risk_decision = Clear | RequireApproval | RiskReject

datatype approval_decision = Approved | ApprovalRejectedDecision

record digest_bindings =
  b_artifact_digest :: string
  b_source_digest :: string
  b_policy_digest :: string
  b_risk_receipt_digest :: string
  b_rebuild_receipt_digest :: string

record rebuild_evidence =
  receipt_digest :: string
  rb_artifact_digest :: string
  rb_source_digest :: string
  rebuilt_artifact_digest :: string
  declared_file_manifest_digest :: string
  dependency_lock_digest :: string
  matched :: bool

record risk_evidence =
  rk_artifact_digest :: string
  rk_source_digest :: string
  rk_policy_digest :: string
  risk_receipt_digest :: string
  rk_decision :: risk_decision

record approval_evidence =
  bindings :: digest_bindings
  ap_decision :: approval_decision

record admission_request =
  current_state :: intake_state
  artifact_digest :: string
  source_digest :: string
  policy_digest :: string
  rebuild :: "rebuild_evidence option"
  risk :: "risk_evidence option"
  approval :: "approval_evidence option"

datatype admission_decision = Quarantine | PendingApproval | Reject | Publishable

datatype admission_reason =
  InvalidState | MissingRebuildEvidence | RebuildIdentityMismatch | RebuildArtifactMismatch
  | MissingRiskEvidence | RiskIdentityMismatch | RiskRejected | MissingApproval
  | ApprovalIdentityMismatch | ApprovalRejected | AllRequiredEvidenceBound

record admission_outcome =
  decision :: admission_decision
  reason :: admission_reason

definition outcome :: "admission_decision \<Rightarrow> admission_reason \<Rightarrow> admission_outcome" where
  "outcome d r = \<lparr>decision = d, reason = r\<rparr>"

definition reject :: "admission_reason \<Rightarrow> admission_outcome" where
  "reject r = outcome Reject r"

definition bindings_match_request :: "digest_bindings \<Rightarrow> admission_request \<Rightarrow> bool" where
  "bindings_match_request b q \<longleftrightarrow>
     b_artifact_digest b = artifact_digest q
     \<and> b_source_digest b = source_digest q
     \<and> b_policy_digest b = policy_digest q"

definition rebuild_matches_request :: "rebuild_evidence \<Rightarrow> admission_request \<Rightarrow> bool" where
  "rebuild_matches_request rb q \<longleftrightarrow>
     rb_artifact_digest rb = artifact_digest q \<and> rb_source_digest rb = source_digest q"

definition risk_matches_request :: "risk_evidence \<Rightarrow> admission_request \<Rightarrow> bool" where
  "risk_matches_request rk q \<longleftrightarrow>
     rk_artifact_digest rk = artifact_digest q
     \<and> rk_source_digest rk = source_digest q
     \<and> rk_policy_digest rk = policy_digest q"

definition validate_rebuild :: "admission_request \<Rightarrow> admission_outcome + rebuild_evidence" where
  "validate_rebuild q =
     (case rebuild q of
        None \<Rightarrow> Inl (outcome Quarantine MissingRebuildEvidence)
      | Some rb \<Rightarrow>
          if \<not> rebuild_matches_request rb q then Inl (reject RebuildIdentityMismatch)
          else if \<not> matched rb \<or> rebuilt_artifact_digest rb \<noteq> artifact_digest q
            then Inl (reject RebuildArtifactMismatch)
          else Inr rb)"

definition validate_risk :: "admission_request \<Rightarrow> admission_outcome + risk_evidence" where
  "validate_risk q =
     (case risk q of
        None \<Rightarrow> Inl (outcome Quarantine MissingRiskEvidence)
      | Some rk \<Rightarrow>
          if \<not> risk_matches_request rk q then Inl (reject RiskIdentityMismatch) else Inr rk)"

definition evaluate_approval ::
    "admission_request \<Rightarrow> rebuild_evidence \<Rightarrow> risk_evidence \<Rightarrow> admission_outcome" where
  "evaluate_approval q rb rk =
     (case approval q of
        None \<Rightarrow> outcome PendingApproval MissingApproval
      | Some ap \<Rightarrow>
          if \<not> bindings_match_request (bindings ap) q
             \<or> b_risk_receipt_digest (bindings ap) \<noteq> risk_receipt_digest rk
             \<or> b_rebuild_receipt_digest (bindings ap) \<noteq> receipt_digest rb
            then reject ApprovalIdentityMismatch
          else if ap_decision ap \<noteq> Approved then reject ApprovalRejected
          else outcome Publishable AllRequiredEvidenceBound)"

definition evaluate :: "admission_request \<Rightarrow> admission_outcome" where
  "evaluate q =
     (if current_state q \<notin> {Quarantined, Evaluated, PendingApprovalState}
        then reject InvalidState
      else
        (case validate_rebuild q of
           Inl out \<Rightarrow> out
         | Inr rb \<Rightarrow>
             (case validate_risk q of
                Inl out \<Rightarrow> out
              | Inr rk \<Rightarrow>
                  (case rk_decision rk of
                     RiskReject \<Rightarrow> reject RiskRejected
                   | RequireApproval \<Rightarrow> evaluate_approval q rb rk
                   | Clear \<Rightarrow> outcome Publishable AllRequiredEvidenceBound))))"

subsection \<open>Abstract specification\<close>

text \<open>
  The specification does not decide, it builds: evidence is issued for one artifact \<open>a\<close>, one source \<open>s\<close>
  and one policy \<open>p\<close>, and a request is admissible for a decision when it is put together from evidence
  issued for its own three digests. Reproducing the artifact is part of the rebuild evidence, and an
  approval names the receipts of the very evidence it approves.
\<close>

definition issued_rebuild :: "string \<Rightarrow> string \<Rightarrow> string \<Rightarrow> string \<Rightarrow> string \<Rightarrow> rebuild_evidence" where
  "issued_rebuild a s receipt files lock =
     \<lparr>receipt_digest = receipt, rb_artifact_digest = a, rb_source_digest = s, rebuilt_artifact_digest = a,
      declared_file_manifest_digest = files, dependency_lock_digest = lock, matched = True\<rparr>"

definition issued_risk :: "string \<Rightarrow> string \<Rightarrow> string \<Rightarrow> string \<Rightarrow> risk_decision \<Rightarrow> risk_evidence" where
  "issued_risk a s p receipt d =
     \<lparr>rk_artifact_digest = a, rk_source_digest = s, rk_policy_digest = p, risk_receipt_digest = receipt,
      rk_decision = d\<rparr>"

definition issued_approval :: "string \<Rightarrow> string \<Rightarrow> string \<Rightarrow> string \<Rightarrow> string \<Rightarrow> approval_evidence" where
  "issued_approval a s p risk_receipt rebuild_receipt =
     \<lparr>bindings = \<lparr>b_artifact_digest = a, b_source_digest = s, b_policy_digest = p,
        b_risk_receipt_digest = risk_receipt, b_rebuild_receipt_digest = rebuild_receipt\<rparr>, ap_decision = Approved\<rparr>"

inductive admissible :: "admission_request \<Rightarrow> admission_decision \<Rightarrow> bool" where
  without_rebuild: "st \<in> {Quarantined, Evaluated, PendingApprovalState} \<Longrightarrow>
    admissible \<lparr>current_state = st, artifact_digest = a, source_digest = s, policy_digest = p,
      rebuild = None, risk = any_risk, approval = any_approval\<rparr> Quarantine"
| without_risk: "st \<in> {Quarantined, Evaluated, PendingApprovalState} \<Longrightarrow>
    admissible \<lparr>current_state = st, artifact_digest = a, source_digest = s, policy_digest = p,
      rebuild = Some (issued_rebuild a s r files lock), risk = None, approval = any_approval\<rparr> Quarantine"
| without_approval: "st \<in> {Quarantined, Evaluated, PendingApprovalState} \<Longrightarrow>
    admissible \<lparr>current_state = st, artifact_digest = a, source_digest = s, policy_digest = p,
      rebuild = Some (issued_rebuild a s r files lock), risk = Some (issued_risk a s p k RequireApproval),
      approval = None\<rparr> PendingApproval"
| approved: "st \<in> {Quarantined, Evaluated, PendingApprovalState} \<Longrightarrow>
    admissible \<lparr>current_state = st, artifact_digest = a, source_digest = s, policy_digest = p,
      rebuild = Some (issued_rebuild a s r files lock), risk = Some (issued_risk a s p k RequireApproval),
      approval = Some (issued_approval a s p k r)\<rparr> Publishable"
| cleared: "st \<in> {Quarantined, Evaluated, PendingApprovalState} \<Longrightarrow>
    admissible \<lparr>current_state = st, artifact_digest = a, source_digest = s, policy_digest = p,
      rebuild = Some (issued_rebuild a s r files lock), risk = Some (issued_risk a s p k Clear),
      approval = any_approval\<rparr> Publishable"

lemmas intake_defs =
  outcome_def reject_def bindings_match_request_def rebuild_matches_request_def
  risk_matches_request_def

lemmas evaluate_defs =
  intake_defs evaluate_def validate_rebuild_def validate_risk_def evaluate_approval_def

lemma admissible_evaluate: "admissible q d \<Longrightarrow> decision (evaluate q) = d \<and> d \<noteq> Reject"
  by (induction rule: admissible.induct)
     (auto simp: evaluate_defs issued_rebuild_def issued_risk_def issued_approval_def)

text \<open>Evidence that passes a check is the evidence issued for the request.\<close>

lemma validate_rebuild_Inr:
  "validate_rebuild q = Inr rb \<Longrightarrow> rebuild q = Some rb \<and> rb = issued_rebuild (artifact_digest q) (source_digest q)
     (receipt_digest rb) (declared_file_manifest_digest rb) (dependency_lock_digest rb)"
  by (auto simp: validate_rebuild_def rebuild_matches_request_def issued_rebuild_def split: option.splits if_splits)

lemma validate_risk_Inr:
  "validate_risk q = Inr rk \<Longrightarrow> risk q = Some rk \<and> rk = issued_risk (artifact_digest q) (source_digest q)
     (policy_digest q) (risk_receipt_digest rk) (rk_decision rk)"
  by (auto simp: validate_risk_def risk_matches_request_def issued_risk_def split: option.splits if_splits)

lemma validate_rebuild_Inl:
  "validate_rebuild q = Inl out \<Longrightarrow> decision out = Reject \<or> decision out = Quarantine \<and> rebuild q = None"
  by (auto simp: validate_rebuild_def intake_defs split: option.splits if_splits)

lemma validate_risk_Inl:
  "validate_risk q = Inl out \<Longrightarrow> decision out = Reject \<or> decision out = Quarantine \<and> risk q = None"
  by (auto simp: validate_risk_def intake_defs split: option.splits if_splits)

lemma evaluate_approval_cases:
  "decision (evaluate_approval q rb rk) = Reject
   \<or> decision (evaluate_approval q rb rk) = PendingApproval \<and> approval q = None
   \<or> decision (evaluate_approval q rb rk) = Publishable \<and> approval q = Some (issued_approval (artifact_digest q)
       (source_digest q) (policy_digest q) (risk_receipt_digest rk) (receipt_digest rb))"
  by (cases "approval q")
     (auto simp: evaluate_approval_def intake_defs issued_approval_def intro!: approval_evidence.equality digest_bindings.equality)

lemma request_eta:
  "q = \<lparr>current_state = current_state q, artifact_digest = artifact_digest q, source_digest = source_digest q,
     policy_digest = policy_digest q, rebuild = rebuild q, risk = risk q, approval = approval q\<rparr>"
  by simp

lemma evaluate_admissible:
  assumes "decision (evaluate q) \<noteq> Reject"
  shows "admissible q (decision (evaluate q))"
proof -
  have open_state: "current_state q \<in> {Quarantined, Evaluated, PendingApprovalState}"
    using assms by (auto simp: evaluate_def intake_defs split: if_splits)
  show ?thesis
  proof (cases "validate_rebuild q")
    case (Inl out)
    then have "decision (evaluate q) = Quarantine" "rebuild q = None"
      using assms open_state validate_rebuild_Inl [OF Inl] by (auto simp: evaluate_def)
    then show ?thesis using without_rebuild [OF open_state] request_eta [of q] by metis
  next
    case rb: (Inr rb)
    show ?thesis
    proof (cases "validate_risk q")
      case (Inl out)
      then have "decision (evaluate q) = Quarantine" "risk q = None"
        using assms open_state rb validate_risk_Inl [OF Inl] by (auto simp: evaluate_def)
      then show ?thesis using without_risk [OF open_state] request_eta [of q] validate_rebuild_Inr [OF rb] by metis
    next
      case rk: (Inr rk)
      note known = validate_rebuild_Inr [OF rb] validate_risk_Inr [OF rk]
      show ?thesis
      proof (cases "rk_decision rk")
        case Clear
        then have "decision (evaluate q) = Publishable" using open_state rb rk by (auto simp: evaluate_def outcome_def)
        then show ?thesis using cleared [OF open_state] request_eta [of q] known Clear by metis
      next
        case RiskReject
        then have "decision (evaluate q) = Reject" using open_state rb rk by (auto simp: evaluate_def intake_defs)
        then show ?thesis using assms by simp
      next
        case RequireApproval
        then have "evaluate q = evaluate_approval q rb rk" using open_state rb rk by (auto simp: evaluate_def)
        then show ?thesis
          using evaluate_approval_cases [of q rb rk] assms without_approval [OF open_state] approved [OF open_state]
            request_eta [of q] known RequireApproval by metis
      qed
    qed
  qed
qed

subsection \<open>Properties\<close>

text \<open>C11. Refinement: the decision procedure publishes, parks for approval or quarantines a package exactly
  when the abstract specification says so, and rejects every other request. A publishable request is one
  put together from evidence issued for its own artifact, source and policy: a rebuild that reproduced
  the artifact, and a risk assessment that is clear, or that asks for approval together with an approval
  of these digests and of the receipts of that rebuild and that assessment.\<close>

theorem evaluate_refines_admissible:
  "admissible q d \<longleftrightarrow> decision (evaluate q) = d \<and> d \<noteq> Reject"
  using admissible_evaluate evaluate_admissible by blast

inductive_cases admissibleE: "admissible q Publishable"

text \<open>No replay: the same evidence never admits two different artifacts, sources or
  policies. If a request is publishable, the request with another artifact, source or policy
  digest and the same evidence is not.\<close>

theorem evidence_is_not_replayable:
  assumes "decision (evaluate q) = Publishable"
    and "a \<noteq> artifact_digest q \<or> s \<noteq> source_digest q \<or> p \<noteq> policy_digest q"
  shows "decision (evaluate (q\<lparr>artifact_digest := a, source_digest := s, policy_digest := p\<rparr>))
           \<noteq> Publishable"
proof
  let ?q = "q\<lparr>artifact_digest := a, source_digest := s, policy_digest := p\<rparr>"
  assume "decision (evaluate ?q) = Publishable"
  then have "admissible ?q Publishable" using evaluate_admissible [of ?q] by simp
  moreover have "admissible q Publishable" using evaluate_admissible [of q] assms(1) by simp
  ultimately show False
    using assms(2) by (elim admissibleE) (auto simp: issued_rebuild_def issued_risk_def)
qed

definition sample_request :: admission_request where
  "sample_request =
     \<lparr>current_state = Evaluated, artifact_digest = ''a'', source_digest = ''s'',
      policy_digest = ''p'',
      rebuild = Some \<lparr>receipt_digest = ''r'', rb_artifact_digest = ''a'', rb_source_digest = ''s'',
        rebuilt_artifact_digest = ''a'', declared_file_manifest_digest = ''m'',
        dependency_lock_digest = ''l'', matched = True\<rparr>,
      risk = Some \<lparr>rk_artifact_digest = ''a'', rk_source_digest = ''s'', rk_policy_digest = ''p'',
        risk_receipt_digest = ''k'', rk_decision = RequireApproval\<rparr>,
      approval = Some \<lparr>bindings = \<lparr>b_artifact_digest = ''a'', b_source_digest = ''s'',
        b_policy_digest = ''p'', b_risk_receipt_digest = ''k'', b_rebuild_receipt_digest = ''r''\<rparr>,
        ap_decision = Approved\<rparr>\<rparr>"

theorem evidence_is_not_replayable_witness:
  "decision (evaluate sample_request) = Publishable \<and>
   decision (evaluate (sample_request\<lparr>artifact_digest := ''b'', source_digest := ''s'',
     policy_digest := ''p''\<rparr>)) \<noteq> Publishable"
proof -
  have h: "decision (evaluate sample_request) = Publishable" by code_simp
  show ?thesis
    using h evidence_is_not_replayable [OF h, of "''b''" "''s''" "''p''"]
    by (simp add: sample_request_def)
qed

end
