(* ===== verification/RegistryHost.thy ===== *)
theory RegistryHost
  imports Prelude
begin

section \<open>The registry virtual-host boundary (\<^verbatim>\<open>src/registry_host.rs\<close>)\<close>

text \<open>
  A total function maps every host, method and path to bypass, allow, reject-route or
  reject-method before a handler runs. The middleware \<open>enforce_registry_host\<close> runs the
  inner service exactly on bypass and allow.
\<close>

datatype boundary_decision =
  Bypass
  | Allow (route: string) (mutating: bool)
  | RejectRoute
  | RejectMethod (allow: string)

record route_spec =
  name :: string
  methods :: "string list"

definition READ :: "string list" where "READ = [''GET'', ''HEAD'', ''OPTIONS'']"
definition POST :: "string list" where "POST = [''POST'', ''OPTIONS'']"
definition PUT :: "string list" where "PUT = [''PUT'', ''OPTIONS'']"
definition VERSION :: "string list" where "VERSION = [''GET'', ''HEAD'', ''PUT'', ''OPTIONS'']"

lemmas method_defs = READ_def POST_def PUT_def VERSION_def

definition strip_port :: "string \<Rightarrow> string" where
  "strip_port host =
     (if starts_with host ''['' then host
      else (case rsplit_once (CHR '':'') host of
              Some (nm, port) \<Rightarrow> if list_all is_ascii_digit port then nm else host
            | None \<Rightarrow> host))"

definition is_registry_host :: "string \<Rightarrow> bool" where
  "is_registry_host raw_host =
     (let host = trim_end_matches (CHR ''.'') (strip_port raw_host)
      in host = ''registry.zpkg.net''
         \<or> starts_with host ''registry.'' \<and> ends_with host ''.zpkg.net'')"

definition slug :: "string \<Rightarrow> bool" where
  "slug v \<longleftrightarrow> v \<noteq> [] \<and> length v \<le> 128
     \<and> list_all (\<lambda>part. part \<noteq> []
          \<and> list_all (\<lambda>b. is_ascii_lowercase b \<or> is_ascii_digit b) part)
         (split_on (CHR ''-'') v)"

definition version_segment :: "string \<Rightarrow> bool" where
  "version_segment v \<longleftrightarrow> v \<noteq> [] \<and> length v \<le> 128
     \<and> list_all (\<lambda>b. is_ascii_alphanumeric b \<or> b \<in> {CHR ''.'', CHR ''+'', CHR ''-''}) v"

definition file_segment :: "string \<Rightarrow> bool" where
  "file_segment v \<longleftrightarrow> v \<noteq> [] \<and> v \<noteq> ''.'' \<and> v \<noteq> ''..'' \<and> length v \<le> 255
     \<and> list_all (\<lambda>b. \<not> is_ascii_control b) v"

definition sha256_segment :: "string \<Rightarrow> bool" where
  "sha256_segment v \<longleftrightarrow> length v = 64 \<and> list_all is_lower_hex v"

definition resolution_digest :: "string \<Rightarrow> bool" where
  "resolution_digest v =
     (case strip_prefix v ''sha256:'' of None \<Rightarrow> False | Some d \<Rightarrow> sha256_segment d)"

definition allow_header :: "string list \<Rightarrow> string" where
  "allow_header ms =
     (if ms = READ then ''GET, HEAD, OPTIONS''
      else if ms = POST then ''POST, OPTIONS''
      else if ms = PUT then ''PUT, OPTIONS''
      else if ms = VERSION then ''GET, HEAD, PUT, OPTIONS''
      else ''OPTIONS'')"

definition spec :: "string \<Rightarrow> string list \<Rightarrow> route_spec" where
  "spec n ms = \<lparr>name = n, methods = ms\<rparr>"

text \<open>The slice patterns of \<open>registry_route\<close>, in the order of the source.\<close>

definition package_route :: "string list \<Rightarrow> route_spec option" where
  "package_route segs =
     (case segs of
        [] \<Rightarrow> Some (spec ''list_packages'' READ)
      | [org, package] \<Rightarrow>
          if slug org \<and> slug package then Some (spec ''get_package'' READ) else None
      | [org, package, a] \<Rightarrow>
          if a = ''embedding'' \<and> slug org \<and> slug package
          then Some (spec ''embedding'' PUT) else None
      | [org, package, a, version] \<Rightarrow>
          if a = ''versions'' \<and> slug org \<and> slug package \<and> version_segment version
          then Some (spec ''version'' VERSION) else None
      | [org, package, a, version, b] \<Rightarrow>
          if a = ''versions'' \<and> slug org \<and> slug package \<and> version_segment version
          then (if b = ''yank'' then Some (spec ''yank'' POST)
                else if b = ''dependency-graph'' then Some (spec ''declared_graph'' READ)
                else None)
          else None
      | [org, package, a, version, b, c, format] \<Rightarrow>
          if a = ''versions'' \<and> b = ''dependency-graph'' \<and> c = ''export''
             \<and> slug org \<and> slug package \<and> version_segment version \<and> slug format
          then Some (spec ''declared_graph_export'' READ) else None
      | _ \<Rightarrow> None)"

definition org_route :: "string list \<Rightarrow> route_spec option" where
  "org_route segs =
     (case segs of
        [] \<Rightarrow> Some (spec ''claim_org'' POST)
      | [org, a] \<Rightarrow>
          if a = ''audit'' \<and> slug org then Some (spec ''audit'' READ) else None
      | [org, a, b] \<Rightarrow>
          if a = ''audit'' \<and> b = ''verify'' \<and> slug org
          then Some (spec ''audit_verify'' READ) else None
      | _ \<Rightarrow> None)"

definition files_route :: "string list \<Rightarrow> route_spec option" where
  "files_route segs =
     (case segs of
        org # package # version # rest \<Rightarrow>
          if slug org \<and> slug package \<and> version_segment version \<and> rest \<noteq> []
             \<and> list_all file_segment rest
          then Some (spec ''files'' READ) else None
      | _ \<Rightarrow> None)"

definition v1_route :: "string \<Rightarrow> string list \<Rightarrow> route_spec option" where
  "v1_route kind args =
     (if kind = ''packages'' then package_route args
      else if kind = ''artifacts'' then
        (case args of
           [digest] \<Rightarrow> if sha256_segment digest then Some (spec ''artifact'' READ) else None
         | _ \<Rightarrow> None)
      else if kind = ''files'' then files_route args
      else if kind = ''search'' then
        (if args = [] then Some (spec ''search'' READ)
         else if args = [''semantic''] then Some (spec ''semantic_search'' POST)
         else None)
      else if kind = ''orgs'' then org_route args
      else if kind = ''resolutions'' then
        (case args of
           [digest, a] \<Rightarrow>
             if a = ''dependency-graph'' \<and> resolution_digest digest
             then Some (spec ''resolution_graph'' READ) else None
         | _ \<Rightarrow> None)
      else None)"

definition segment_route :: "string list \<Rightarrow> route_spec option" where
  "segment_route segs =
     (case segs of
        [v] \<Rightarrow> if v = ''healthz'' then Some (spec ''healthz'' READ) else None
      | v # kind # args \<Rightarrow> if v = ''v1'' then v1_route kind args else None
      | [] \<Rightarrow> None)"

definition path_refused :: "string \<Rightarrow> bool" where
  "path_refused path \<longleftrightarrow>
     path = [] \<or> length path > 2048 \<or> CHR 0x25 \<in> set path \<or> contains_str path ''..''
     \<or> CHR 0x5C \<in> set path \<or> contains_str path ''//''"

definition path_segments :: "string \<Rightarrow> string list option" where
  "path_segments path =
     (case strip_prefix path ''/'' of
        None \<Rightarrow> None
      | Some r \<Rightarrow> Some (split_on (CHR ''/'') (trim_end_matches (CHR ''/'') r)))"

definition registry_route :: "string \<Rightarrow> route_spec option" where
  "registry_route path =
     (if path_refused path then None
      else (case path_segments path of None \<Rightarrow> None | Some segs \<Rightarrow> segment_route segs))"

definition decide :: "string option \<Rightarrow> string \<Rightarrow> string \<Rightarrow> boundary_decision" where
  "decide host method path =
     (if \<not> (case host of None \<Rightarrow> False | Some h \<Rightarrow> is_registry_host h) then Bypass
      else (case registry_route path of
              None \<Rightarrow> RejectRoute
            | Some rs \<Rightarrow>
                if method \<notin> set (methods rs) then RejectMethod (allow_header (methods rs))
                else Allow (name rs) (method \<notin> {''GET'', ''HEAD'', ''OPTIONS''})))"

text \<open>
  The request as the middleware reads it: the first \<open>Host\<close> header (\<open>None\<close> when absent or
  not visible ASCII) and the authority of the request target.
\<close>

definition request_host :: "string option \<Rightarrow> string option" where
  "request_host host_header =
     map_option (\<lambda>v. to_ascii_lowercase (trim_end_matches (CHR ''.'') (trim v))) host_header"

datatype 'r boundary_result = Passed 'r | Problem nat string "string option"

definition enforce_registry_host ::
    "string option \<Rightarrow> string option \<Rightarrow> string \<Rightarrow> string \<Rightarrow> (unit \<Rightarrow> 'r) \<Rightarrow> 'r boundary_result" where
  "enforce_registry_host host_header authority method path inner =
     (let host = (case request_host host_header of
                    Some h \<Rightarrow> Some h
                  | None \<Rightarrow> map_option to_ascii_lowercase authority)
      in case decide host method path of
           Bypass \<Rightarrow> Passed (inner ())
         | Allow _ _ \<Rightarrow> Passed (inner ())
         | RejectRoute \<Rightarrow> Problem 404 ''not_registry_route'' None
         | RejectMethod a \<Rightarrow> Problem 405 ''method_not_allowed'' (Some a))"

subsection \<open>Lemmas on the route table\<close>

text \<open>Every specification the patterns can return; facts about a matched route are checked on it.\<close>

definition route_table :: "route_spec list" where
  "route_table =
     [spec ''healthz'' READ, spec ''list_packages'' READ, spec ''get_package'' READ,
      spec ''version'' VERSION, spec ''yank'' POST, spec ''embedding'' PUT,
      spec ''declared_graph'' READ, spec ''declared_graph_export'' READ, spec ''artifact'' READ,
      spec ''files'' READ, spec ''search'' READ, spec ''semantic_search'' POST,
      spec ''claim_org'' POST, spec ''audit'' READ, spec ''audit_verify'' READ,
      spec ''resolution_graph'' READ]"

lemma package_route_range: "package_route args = Some rs \<Longrightarrow> rs \<in> set route_table"
  unfolding package_route_def by (simp add: route_table_def split: list.splits if_splits)

lemma org_route_range: "org_route args = Some rs \<Longrightarrow> rs \<in> set route_table"
  unfolding org_route_def by (simp add: route_table_def split: list.splits if_splits)

lemma files_route_range: "files_route args = Some rs \<Longrightarrow> rs \<in> set route_table"
  unfolding files_route_def by (simp add: route_table_def split: list.splits if_splits)

lemma v1_route_range:
  assumes "v1_route kind args = Some rs"
  shows "rs \<in> set route_table"
proof (cases "kind = ''packages'' \<or> kind = ''files'' \<or> kind = ''orgs''")
  case True
  then show ?thesis
    using assms package_route_range files_route_range org_route_range
    by (elim disjE) (simp_all add: v1_route_def)
next
  case False
  then show ?thesis
    using assms by (simp add: v1_route_def route_table_def split: list.splits if_splits)
qed

lemma segment_route_range: "segment_route segs = Some rs \<Longrightarrow> rs \<in> set route_table"
  unfolding segment_route_def
  by (simp add: v1_route_range split: list.splits if_splits) (simp add: route_table_def)

lemma spec_simps [simp]: "name (spec n ms) = n" "methods (spec n ms) = ms"
  by (simp_all add: spec_def)

lemma route_table_methods: "\<forall>rs\<in>set route_table. methods rs \<in> {READ, POST, PUT, VERSION}"
  by (simp add: route_table_def)

lemma route_table_writes:
  "\<forall>rs\<in>set route_table. \<forall>m\<in>set (methods rs).
    m \<notin> {''GET'', ''HEAD'', ''OPTIONS''} \<longleftrightarrow>
    (name rs, m) \<in> {(''version'', ''PUT''), (''yank'', ''POST''), (''embedding'', ''PUT''),
      (''semantic_search'', ''POST''), (''claim_org'', ''POST'')}"
  by (simp add: route_table_def method_defs)

lemma segment_route_methods:
  "segment_route segs = Some rs \<Longrightarrow> methods rs \<in> {READ, POST, PUT, VERSION}"
  using route_table_methods segment_route_range by blast

lemma segment_route_writes:
  "segment_route segs = Some rs \<Longrightarrow> m \<in> set (methods rs) \<Longrightarrow>
   m \<notin> {''GET'', ''HEAD'', ''OPTIONS''} \<longleftrightarrow>
    (name rs, m) \<in> {(''version'', ''PUT''), (''yank'', ''POST''), (''embedding'', ''PUT''),
      (''semantic_search'', ''POST''), (''claim_org'', ''POST'')}"
  by (rule route_table_writes [rule_format, OF segment_route_range])

lemma allow_header_join:
  "ms \<in> {READ, POST, PUT, VERSION} \<Longrightarrow> allow_header ms = join_with '', '' ms"
  by (auto simp: allow_header_def method_defs)

lemma registry_route_Some:
  "registry_route p = Some rs \<longleftrightarrow>
     \<not> path_refused p \<and> (\<exists>segs. path_segments p = Some segs \<and> segment_route segs = Some rs)"
  by (auto simp: registry_route_def split: option.splits)

lemma trim_end_matches_append:
  "p \<noteq> [] \<Longrightarrow> last p \<noteq> d \<Longrightarrow> trim_end_matches d (p @ r) = p @ trim_end_matches d r"
proof (induction r rule: rev_induct)
  case Nil
  then show ?case
    by (cases p rule: rev_cases) (auto simp: trim_end_matches_def)
next
  case (snoc x r)
  then show ?case by (simp add: trim_end_matches_def)
qed

lemma trim_end_replicate: "trim_end_matches d (replicate k d) = []"
  by (simp add: trim_end_matches_def)

lemma registry_host_spellings:
  assumes "mid = [] \<or> last mid = CHR ''.''" "CHR '':'' \<notin> set mid" "list_all is_ascii_digit port"
  shows "is_registry_host (''registry.'' @ mid @ ''zpkg.net'' @ replicate k (CHR ''.'') @ CHR '':'' # port)"
    (is "is_registry_host ?h")
proof -
  let ?n = "''registry.'' @ mid @ ''zpkg.net''"
  have "CHR '':'' \<notin> set port"
    using assms(3) by (auto simp: list_all_iff is_ascii_digit_def byte_of_def)
  then have "rsplit_once (CHR '':'') ?h = Some (?n @ replicate k (CHR ''.''), port)"
    by (simp add: rsplit_once_Some_iff)
  then have sp: "strip_port ?h = ?n @ replicate k (CHR ''.'')"
    using assms(3) by (simp add: strip_port_def starts_with_def)
  have t: "trim_end_matches (CHR ''.'') (?n @ replicate k (CHR ''.'')) = ?n"
    by (subst trim_end_matches_append) (simp_all add: trim_end_replicate)
  have s: "starts_with ?n ''registry.''" by (simp add: starts_with_def)
  have e: "ends_with ?n ''.zpkg.net''"
  proof -
    have "\<exists>r. ''registry.'' @ mid = r @ ''.''"
      using assms(1) by (cases mid rule: rev_cases) auto
    then obtain r where "''registry.'' @ mid = r @ ''.''" ..
    then have "?n = r @ ''.zpkg.net''" by (metis append.assoc append_Cons append_Nil)
    then show ?thesis by (auto simp: ends_with_iff)
  qed
  show ?thesis
    unfolding is_registry_host_def Let_def sp t by (simp only: s e simp_thms)
qed

lemmas boundary_eval =
  decide_def is_registry_host_def strip_port_def rsplit_once_def split_once_def
  trim_end_matches_def starts_with_def ends_with_def strip_prefix_def registry_route_def
  path_refused_def path_segments_def segment_route_def v1_route_def package_route_def org_route_def
  files_route_def slug_def version_segment_def allow_header_def method_defs ascii_defs

subsection \<open>The machine-registry surface\<close>

text \<open>
  What a registry host serves, written out without the functions of the source: the words that may stand
  in a path, one rule per route with its methods, the spelling of a path and the spellings of the host.
  Character classes are those of the standard library.
\<close>

definition slug_word :: "string \<Rightarrow> bool" where
  "slug_word v \<longleftrightarrow> length v \<le> 128 \<and> (\<exists>parts. parts \<noteq> [] \<and> v = join_with ''-'' parts
     \<and> (\<forall>w\<in>set parts. w \<noteq> [] \<and> (\<forall>c\<in>set w. is_ascii_lowercase c \<or> is_ascii_digit c)))"

definition version_word :: "string \<Rightarrow> bool" where
  "version_word v \<longleftrightarrow> 1 \<le> length v \<and> length v \<le> 128
     \<and> (\<forall>c\<in>set v. is_ascii_lowercase c \<or> is_ascii_uppercase c \<or> is_ascii_digit c \<or> c \<in> set ''.+-'')"

definition digest_word :: "string \<Rightarrow> bool" where
  "digest_word v \<longleftrightarrow> length v = 64 \<and> (\<forall>c\<in>set v. is_ascii_digit c \<or> c \<in> set ''abcdef'')"

definition file_word :: "string \<Rightarrow> bool" where
  "file_word v \<longleftrightarrow> v \<notin> {[], ''.'', ''..''} \<and> length v \<le> 255 \<and> (\<forall>c\<in>set v. \<not> is_ascii_control c \<and> c \<noteq> CHR ''/'')"

inductive machine_route :: "string list \<Rightarrow> string \<Rightarrow> string list \<Rightarrow> bool" where
  "machine_route [''healthz''] ''healthz'' [''GET'', ''HEAD'', ''OPTIONS'']"
| "machine_route [''v1'', ''packages''] ''list_packages'' [''GET'', ''HEAD'', ''OPTIONS'']"
| "slug_word org \<Longrightarrow> slug_word package \<Longrightarrow>
     machine_route [''v1'', ''packages'', org, package] ''get_package'' [''GET'', ''HEAD'', ''OPTIONS'']"
| "slug_word org \<Longrightarrow> slug_word package \<Longrightarrow> version_word version \<Longrightarrow>
     machine_route [''v1'', ''packages'', org, package, ''versions'', version] ''version'' [''GET'', ''HEAD'', ''PUT'', ''OPTIONS'']"
| "slug_word org \<Longrightarrow> slug_word package \<Longrightarrow> version_word version \<Longrightarrow>
     machine_route [''v1'', ''packages'', org, package, ''versions'', version, ''yank''] ''yank'' [''POST'', ''OPTIONS'']"
| "slug_word org \<Longrightarrow> slug_word package \<Longrightarrow>
     machine_route [''v1'', ''packages'', org, package, ''embedding''] ''embedding'' [''PUT'', ''OPTIONS'']"
| "slug_word org \<Longrightarrow> slug_word package \<Longrightarrow> version_word version \<Longrightarrow>
     machine_route [''v1'', ''packages'', org, package, ''versions'', version, ''dependency-graph''] ''declared_graph''
       [''GET'', ''HEAD'', ''OPTIONS'']"
| "slug_word org \<Longrightarrow> slug_word package \<Longrightarrow> version_word version \<Longrightarrow> slug_word format \<Longrightarrow>
     machine_route [''v1'', ''packages'', org, package, ''versions'', version, ''dependency-graph'', ''export'', format]
       ''declared_graph_export'' [''GET'', ''HEAD'', ''OPTIONS'']"
| "digest_word digest \<Longrightarrow> machine_route [''v1'', ''artifacts'', digest] ''artifact'' [''GET'', ''HEAD'', ''OPTIONS'']"
| "slug_word org \<Longrightarrow> slug_word package \<Longrightarrow> version_word version \<Longrightarrow> file_word f \<Longrightarrow> \<forall>g\<in>set fs. file_word g \<Longrightarrow>
     machine_route (''v1'' # ''files'' # org # package # version # f # fs) ''files'' [''GET'', ''HEAD'', ''OPTIONS'']"
| "machine_route [''v1'', ''search''] ''search'' [''GET'', ''HEAD'', ''OPTIONS'']"
| "machine_route [''v1'', ''search'', ''semantic''] ''semantic_search'' [''POST'', ''OPTIONS'']"
| "machine_route [''v1'', ''orgs''] ''claim_org'' [''POST'', ''OPTIONS'']"
| "slug_word org \<Longrightarrow> machine_route [''v1'', ''orgs'', org, ''audit''] ''audit'' [''GET'', ''HEAD'', ''OPTIONS'']"
| "slug_word org \<Longrightarrow> machine_route [''v1'', ''orgs'', org, ''audit'', ''verify''] ''audit_verify'' [''GET'', ''HEAD'', ''OPTIONS'']"
| "digest_word digest \<Longrightarrow> machine_route [''v1'', ''resolutions'', ''sha256:'' @ digest, ''dependency-graph''] ''resolution_graph''
     [''GET'', ''HEAD'', ''OPTIONS'']"

text \<open>A path spells its segments once: no escapes, no backslashes, no empty or climbing parts.\<close>

definition spells :: "string \<Rightarrow> string list \<Rightarrow> bool" where
  "spells p segs \<longleftrightarrow> p \<in> {''/'' @ join_with ''/'' segs, ''/'' @ join_with ''/'' segs @ ''/''} \<and> length p \<le> 2048
     \<and> CHR 0x25 \<notin> set p \<and> CHR 0x5C \<notin> set p \<and> (\<nexists>a b. p = a @ ''..'' @ b) \<and> (\<nexists>a b. p = a @ ''//'' @ b)"

definition machine_request :: "string \<Rightarrow> string \<Rightarrow> string \<Rightarrow> bool" where
  "machine_request m p r \<longleftrightarrow> (\<exists>segs ms. spells p segs \<and> machine_route segs r ms \<and> m \<in> set ms)"

text \<open>The registry host and its regional names, with any trailing dots and any port.\<close>

definition registry_name :: "string \<Rightarrow> bool" where
  "registry_name h \<longleftrightarrow> (\<exists>region dots port. (region = [] \<or> last region = CHR ''.'') \<and> CHR '':'' \<notin> set region
     \<and> list_all is_ascii_digit port
     \<and> h \<in> {''registry.'' @ region @ ''zpkg.net'' @ replicate dots (CHR ''.''),
            ''registry.'' @ region @ ''zpkg.net'' @ replicate dots (CHR ''.'') @ '':'' @ port})"

lemma slug_word_iff: "slug v \<longleftrightarrow> slug_word v"
proof
  assume "slug v"
  then show "slug_word v"
    unfolding slug_word_def slug_def
    by (intro conjI exI [of _ "split_on (CHR ''-'') v"]) (auto simp: list_all_iff join_split_on)
next
  assume "slug_word v"
  then obtain parts where v: "length v \<le> 128" "parts \<noteq> []" "v = join_with ''-'' parts"
      "\<forall>w\<in>set parts. w \<noteq> [] \<and> (\<forall>c\<in>set w. is_ascii_lowercase c \<or> is_ascii_digit c)"
    by (auto simp: slug_word_def)
  have "CHR ''-'' \<notin> set w" if "w \<in> set parts" for w
  proof
    assume "CHR ''-'' \<in> set w"
    then have "is_ascii_lowercase CHR ''-'' \<or> is_ascii_digit CHR ''-''" using v(4) that by blast
    then show False by (simp add: is_ascii_lowercase_def is_ascii_digit_def byte_of_def)
  qed
  then have "split_on (CHR ''-'') v = parts" using v by (simp add: split_on_join)
  moreover from this have "v \<noteq> []" using v(4) by auto
  ultimately show "slug v" using v by (auto simp: slug_def list_all_iff)
qed

lemma version_word_iff: "version_segment v \<longleftrightarrow> version_word v"
  by (auto simp: version_segment_def version_word_def is_ascii_alphanumeric_def is_ascii_alphabetic_def list_all_iff Suc_le_eq)

lemma byte_of_eq: "byte_of c = byte_of d \<longleftrightarrow> c = d"
  by (simp add: byte_of_def)

lemma is_lower_hex_iff: "is_lower_hex c \<longleftrightarrow> is_ascii_digit c \<or> c \<in> set ''abcdef''"
proof -
  have "c \<in> set ''abcdef'' \<longleftrightarrow> byte_of c \<in> byte_of ` set ''abcdef''" by (auto simp: byte_of_eq)
  also have "\<dots> \<longleftrightarrow> byte_of c \<in> {97, 98, 99, 100, 101, 102}" by (simp add: byte_of_def)
  also have "\<dots> \<longleftrightarrow> 97 \<le> byte_of c \<and> byte_of c \<le> 102" unfolding insert_iff empty_iff by presburger
  finally show ?thesis by (simp only: is_lower_hex_def)
qed

lemma digest_word_iff: "sha256_segment v \<longleftrightarrow> digest_word v"
  unfolding sha256_segment_def digest_word_def list_all_iff is_lower_hex_iff by blast

lemma file_word_iff: "CHR ''/'' \<notin> set v \<Longrightarrow> file_segment v \<longleftrightarrow> file_word v"
  by (auto simp: file_segment_def file_word_def list_all_iff)

lemmas word_iffs = slug_word_iff version_word_iff digest_word_iff

lemma resolution_digest_iff: "resolution_digest v \<longleftrightarrow> (\<exists>d. v = ''sha256:'' @ d \<and> digest_word d)"
proof (cases "strip_prefix v ''sha256:''")
  case None
  then have "v \<noteq> ''sha256:'' @ d" for d using strip_prefix_Some_iff [of v "''sha256:''" d] by (metis option.distinct(1))
  then show ?thesis unfolding resolution_digest_def None by simp
next
  case (Some d)
  then have "v = ''sha256:'' @ d" by (simp only: strip_prefix_Some_iff)
  then show ?thesis unfolding resolution_digest_def digest_word_iff Some by simp
qed

lemmas route_defs = segment_route_def v1_route_def package_route_def org_route_def files_route_def spec_def method_defs word_iffs

lemma package_route_machine:
  "package_route args = Some rs \<Longrightarrow> machine_route (''v1'' # ''packages'' # args) (name rs) (methods rs)"
  by (auto simp: route_defs split: list.splits if_splits intro: machine_route.intros)

lemma org_route_machine:
  "org_route args = Some rs \<Longrightarrow> machine_route (''v1'' # ''orgs'' # args) (name rs) (methods rs)"
  by (auto simp: route_defs split: list.splits if_splits intro: machine_route.intros)

lemma files_route_machine:
  "files_route args = Some rs \<Longrightarrow> \<forall>s\<in>set args. CHR ''/'' \<notin> set s \<Longrightarrow> machine_route (''v1'' # ''files'' # args) (name rs) (methods rs)"
  by (auto simp: route_defs list_all_iff file_word_iff neq_Nil_conv split: list.splits if_splits intro!: machine_route.intros)

lemma v1_route_machine:
  assumes "v1_route kind args = Some rs" "\<forall>s\<in>set args. CHR ''/'' \<notin> set s"
  shows "machine_route (''v1'' # kind # args) (name rs) (methods rs)"
proof (cases "kind = ''packages'' \<or> kind = ''files'' \<or> kind = ''orgs''")
  case True
  then show ?thesis
    using assms package_route_machine files_route_machine org_route_machine by (elim disjE) (simp_all add: v1_route_def)
next
  case False
  then show ?thesis
    using assms(1)
    by (auto simp: v1_route_def spec_def method_defs digest_word_iff resolution_digest_iff simp del: append_Cons append.simps
        split: list.splits if_splits intro: machine_route.intros)
qed

lemma segment_route_machine:
  "segment_route segs = Some rs \<Longrightarrow> \<forall>s\<in>set segs. CHR ''/'' \<notin> set s \<Longrightarrow> machine_route segs (name rs) (methods rs)"
  by (auto simp: segment_route_def spec_def READ_def v1_route_machine split: list.splits if_splits intro: machine_route.intros)

lemma file_words: "file_word f \<Longrightarrow> file_segment f"
  using file_word_iff [of f] by (auto simp: file_word_def)

lemma machine_segment_route: "machine_route segs r ms \<Longrightarrow> segment_route segs = Some (spec r ms)"
  by (induction rule: machine_route.induct)
     (simp_all add: segment_route_def v1_route_def package_route_def org_route_def files_route_def method_defs word_iffs
       resolution_digest_iff list_all_iff file_words)

lemma set_join_with: "c \<in> set (join_with sep ps) \<Longrightarrow> c \<in> set sep \<or> (\<exists>p\<in>set ps. c \<in> set p)"
  by (induction sep ps rule: join_with.induct) auto

lemma no_slash:
  "slug_word v \<Longrightarrow> CHR ''/'' \<notin> set v" "version_word v \<Longrightarrow> CHR ''/'' \<notin> set v" "digest_word v \<Longrightarrow> CHR ''/'' \<notin> set v"
  "file_word v \<Longrightarrow> CHR ''/'' \<notin> set v"
proof -
  have slash: "\<not> is_ascii_lowercase CHR ''/''" "\<not> is_ascii_uppercase CHR ''/''" "\<not> is_ascii_digit CHR ''/''"
    by (simp_all add: is_ascii_lowercase_def is_ascii_uppercase_def is_ascii_digit_def byte_of_def)
  show "slug_word v \<Longrightarrow> CHR ''/'' \<notin> set v"
  proof
    assume "slug_word v" "CHR ''/'' \<in> set v"
    moreover from this obtain part where "part \<in> set (split_on (CHR ''-'') v)" "CHR ''/'' \<in> set part"
      using set_join_with [of "CHR ''/''" "''-''" "split_on (CHR ''-'') v"] by (auto simp: join_split_on)
    ultimately show False using slash by (auto simp: slug_word_iff [symmetric] slug_def list_all_iff)
  qed
  show "version_word v \<Longrightarrow> CHR ''/'' \<notin> set v" "digest_word v \<Longrightarrow> CHR ''/'' \<notin> set v" "file_word v \<Longrightarrow> CHR ''/'' \<notin> set v"
    using slash by (auto simp: version_word_def digest_word_def file_word_def)
qed

lemma words_nonempty: "slug_word v \<Longrightarrow> v \<noteq> []" "digest_word v \<Longrightarrow> v \<noteq> []" "version_word v \<Longrightarrow> v \<noteq> []" "file_word v \<Longrightarrow> v \<noteq> []"
  by (auto simp: slug_word_iff [symmetric] slug_def digest_word_def version_word_def file_word_def)

lemma machine_route_words:
  "machine_route segs r ms \<Longrightarrow> segs \<noteq> [] \<and> (\<forall>s\<in>set segs. s \<noteq> [] \<and> CHR ''/'' \<notin> set s)"
  by (induction rule: machine_route.induct) (auto simp: no_slash words_nonempty)

text \<open>Reading a path undoes spelling it.\<close>

lemma path_refused_iff:
  "path_refused p \<longleftrightarrow> p = [] \<or> length p > 2048 \<or> CHR 0x25 \<in> set p \<or> CHR 0x5C \<in> set p \<or> (\<exists>a b. p = a @ ''..'' @ b)
     \<or> (\<exists>a b. p = a @ ''//'' @ b)"
  by (auto simp only: path_refused_def contains_str_iff)

lemma trim_end_split: "\<exists>k. s = trim_end_matches d s @ replicate k d"
proof (induction s rule: rev_induct)
  case (snoc c s)
  then obtain k where k: "s = trim_end_matches d s @ replicate k d" by blast
  show ?case
  proof (cases "c = d")
    case True
    then have "trim_end_matches d (s @ [c]) = trim_end_matches d s" by (simp add: trim_end_matches_def)
    then have "s @ [c] = trim_end_matches d (s @ [c]) @ replicate (Suc k) d"
      using k True by (metis append_assoc replicate_append_same replicate_Suc)
    then show ?thesis by blast
  next
    case False
    then have "trim_end_matches d (s @ [c]) = s @ [c]" by (simp add: trim_end_matches_def)
    then show ?thesis by (intro exI [of _ 0]) simp
  qed
qed (simp add: trim_end_matches_def)

lemma spells_path:
  assumes "\<not> path_refused p" "path_segments p = Some segs"
  shows "spells p segs"
proof -
  obtain r where r: "p = ''/'' @ r" and segs: "segs = split_on (CHR ''/'') (trim_end_matches (CHR ''/'') r)"
    using assms(2) by (auto simp: path_segments_def strip_prefix_Some_iff simp del: append_Cons append.simps split: option.splits)
  obtain k where k: "r = trim_end_matches (CHR ''/'') r @ replicate k CHR ''/''" using trim_end_split by blast
  have "k < 2"
  proof (rule ccontr)
    assume "\<not> k < 2"
    then obtain j where "k = Suc (Suc j)" by (metis Suc_lessI less_2_cases_iff not_less_eq old.nat.exhaust One_nat_def)
    then have "replicate k CHR ''/'' = ''//'' @ replicate j CHR ''/''" by simp
    then have "p = (''/'' @ trim_end_matches (CHR ''/'') r) @ ''//'' @ replicate j CHR ''/''" using r k by (metis append_assoc)
    then show False using assms(1) path_refused_iff by blast
  qed
  then have "replicate k CHR ''/'' \<in> {[], ''/''}" by (cases k) auto
  then have "r \<in> {join_with ''/'' segs, join_with ''/'' segs @ ''/''}" using k segs by (auto simp: join_split_on)
  then show ?thesis using assms(1) r by (auto simp: spells_def path_refused_iff)
qed

lemma path_spelled:
  assumes "spells p segs" "segs \<noteq> []" "\<forall>s\<in>set segs. s \<noteq> [] \<and> CHR ''/'' \<notin> set s"
  shows "\<not> path_refused p \<and> path_segments p = Some segs"
proof -
  let ?j = "join_with ''/'' segs"
  have j: "split_on (CHR ''/'') ?j = segs" using assms(2,3) by (simp add: split_on_join)
  have last: "?j \<noteq> [] \<and> last ?j \<noteq> CHR ''/''"
    using assms(2,3) by (induction segs rule: induct_list012) (auto dest: last_in_set)
  obtain k where k: "p = ''/'' @ ?j @ replicate k CHR ''/''"
    using assms(1) unfolding spells_def by (metis append_Nil2 insert_iff replicate_0 replicate_Suc singletonD)
  have "trim_end_matches (CHR ''/'') (?j @ replicate k CHR ''/'') = ?j"
    using last by (simp add: trim_end_matches_append trim_end_replicate)
  then have "path_segments p = Some segs" unfolding path_segments_def k strip_prefix_append using j by simp
  moreover have "p \<noteq> []" using k by simp
  ultimately show ?thesis using assms(1) by (auto simp: spells_def path_refused_iff)
qed

lemma registry_route_machine:
  "(\<exists>rs. registry_route p = Some rs \<and> name rs = r \<and> m \<in> set (methods rs)) \<longleftrightarrow> machine_request m p r"
proof
  assume "\<exists>rs. registry_route p = Some rs \<and> name rs = r \<and> m \<in> set (methods rs)"
  then obtain rs segs where rs: "name rs = r" "m \<in> set (methods rs)" and segs: "\<not> path_refused p" "path_segments p = Some segs"
      "segment_route segs = Some rs"
    unfolding registry_route_Some by blast
  have "\<forall>s\<in>set segs. CHR ''/'' \<notin> set s"
    using segs(2) by (auto simp: path_segments_def dest: split_on_no_delim split: option.splits)
  then show "machine_request m p r"
    using segment_route_machine [OF segs(3)] spells_path [OF segs(1,2)] rs unfolding machine_request_def by blast
next
  assume "machine_request m p r"
  then obtain segs ms where segs: "spells p segs" "machine_route segs r ms" "m \<in> set ms" by (auto simp: machine_request_def)
  then have "\<not> path_refused p" "path_segments p = Some segs"
    using path_spelled [OF segs(1)] machine_route_words [OF segs(2)] by blast+
  then show "\<exists>rs. registry_route p = Some rs \<and> name rs = r \<and> m \<in> set (methods rs)"
    using machine_segment_route [OF segs(2)] segs(3) unfolding registry_route_Some by (intro exI [of _ "spec r ms"]) simp
qed

lemma strip_port_plain: "CHR '':'' \<notin> set n \<Longrightarrow> strip_port n = n"
  by (simp add: strip_port_def rsplit_once_def split_once_def)

lemma strip_port_colon: "CHR '':'' \<notin> set n \<Longrightarrow> n \<noteq> [] \<Longrightarrow> hd n \<noteq> CHR ''['' \<Longrightarrow> strip_port (n @ '':'') = n"
  using rsplit_once_Some_iff [of "CHR '':''" "n @ '':''" n "[]"]
  by (cases n) (auto simp: strip_port_def starts_with_def)

lemma registry_name_host: "registry_name h \<Longrightarrow> is_registry_host h"
proof -
  assume "registry_name h"
  then obtain region dots port where *: "region = [] \<or> last region = CHR ''.''" "CHR '':'' \<notin> set region"
      "list_all is_ascii_digit port" and h: "h = ''registry.'' @ region @ ''zpkg.net'' @ replicate dots (CHR ''.'')
        \<or> h = ''registry.'' @ region @ ''zpkg.net'' @ replicate dots (CHR ''.'') @ '':'' @ port"
    unfolding registry_name_def by blast
  have host: "is_registry_host (''registry.'' @ region @ ''zpkg.net'' @ replicate dots (CHR ''.'') @ CHR '':'' # [])"
    using registry_host_spellings [OF *(1,2), of "[]" dots] by simp
  let ?n = "''registry.'' @ region @ ''zpkg.net'' @ replicate dots (CHR ''.'')"
  have "CHR '':'' \<notin> set ?n" "?n \<noteq> []" "hd ?n \<noteq> CHR ''[''" using *(2) by (simp_all add: set_replicate_conv_if)
  then have "strip_port ?n = ?n" "strip_port (?n @ '':'') = ?n"
    using strip_port_plain [of ?n] strip_port_colon [of ?n] by blast+
  then have "is_registry_host ?n = is_registry_host (?n @ '':'')" by (simp only: is_registry_host_def)
  then have "is_registry_host ?n" using host by simp
  then show ?thesis using h registry_host_spellings [OF *, of dots] by auto
qed

subsection \<open>Properties\<close>

text \<open>C12. Confinement: for a registry host, in any spelling of its name, the middleware runs the inner service
  exactly on the machine-registry requests: one of the sixteen routes with one of its methods, on a path
  of well-formed segments without percent escapes, backslashes, dot-dot or empty segments, with at most
  one slash at the end. Every other request is answered by the middleware itself, with 404 or 405.\<close>

theorem registry_host_confined:
  assumes "registry_name h"
    and "(case request_host header of Some h' \<Rightarrow> Some h' | None \<Rightarrow> map_option to_ascii_lowercase authority) = Some h"
  shows "(if \<exists>r. machine_request m p r then enforce_registry_host header authority m p inner = Passed (inner ())
    else \<exists>st code allow. enforce_registry_host header authority m p inner = Problem st code allow \<and> st \<in> {404, 405})"
proof -
  have run: "enforce_registry_host header authority m p inner =
      (case decide (Some h) m p of Bypass \<Rightarrow> Passed (inner ()) | Allow _ _ \<Rightarrow> Passed (inner ())
       | RejectRoute \<Rightarrow> Problem 404 ''not_registry_route'' None | RejectMethod a \<Rightarrow> Problem 405 ''method_not_allowed'' (Some a))"
    using assms(2) unfolding enforce_registry_host_def Let_def by (simp only:)
  show ?thesis
    unfolding run registry_route_machine [symmetric]
    by (cases "registry_route p") (auto simp: decide_def registry_name_host [OF assms(1)])
qed

theorem registry_host_confined_witness:
  "enforce_registry_host None (Some ''registry.zpkg.net'') ''GET'' ''/v1/orgs/acme/audit'' (\<lambda>_. ''reply'') = Passed ''reply''"
proof -
  have slug: "slug_word ''acme''"
    unfolding slug_word_iff [symmetric] by (simp add: boundary_eval)
  have "machine_request ''GET'' ''/v1/orgs/acme/audit'' ''audit''"
    unfolding machine_request_def
  proof (intro exI conjI)
    show "machine_route [''v1'', ''orgs'', ''acme'', ''audit''] ''audit'' [''GET'', ''HEAD'', ''OPTIONS'']"
      using slug by (rule machine_route.intros)
    show "spells ''/v1/orgs/acme/audit'' [''v1'', ''orgs'', ''acme'', ''audit'']"
      by (simp add: spells_def contains_str_iff [symmetric] starts_with_def flip: append_Cons)
  qed simp
  then have "\<exists>r. machine_request ''GET'' ''/v1/orgs/acme/audit'' r" by blast
  moreover have "registry_name ''registry.zpkg.net''"
    unfolding registry_name_def by (intro exI [of _ "[]"] exI [of _ 0]) simp
  moreover have "request_host None = None" by (simp add: request_host_def)
  moreover have "to_ascii_lowercase ''registry.zpkg.net'' = ''registry.zpkg.net''" by (simp add: ascii_defs)
  ultimately show ?thesis
    using registry_host_confined [of "''registry.zpkg.net''" "Some ''registry.zpkg.net''" None "''GET''"
        "''/v1/orgs/acme/audit''" "\<lambda>_. ''reply''"] by (auto split: if_splits)
qed

text \<open>The write surface of a registry host is exactly five route and method pairs, and a
  request admitted as non-mutating uses GET, HEAD or OPTIONS.\<close>

theorem registry_host_write_surface:
  assumes "decide (Some h) m p = Allow r b"
  shows "(b \<longleftrightarrow> (r, m) \<in> {(''version'', ''PUT''), (''yank'', ''POST''), (''embedding'', ''PUT''),
      (''semantic_search'', ''POST''), (''claim_org'', ''POST'')})
    \<and> (b \<longleftrightarrow> m \<notin> {''GET'', ''HEAD'', ''OPTIONS''})"
proof -
  from assms obtain segs rs where rs: "segment_route segs = Some rs" "m \<in> set (methods rs)"
      "r = name rs" and b: "b = (m \<notin> {''GET'', ''HEAD'', ''OPTIONS''})"
    by (auto simp: decide_def registry_route_Some split: option.splits if_splits)
  show ?thesis
    unfolding b rs(3) using segment_route_writes [OF rs(1,2)] by (simp only: simp_thms)
qed

theorem registry_host_write_surface_witness:
  "decide (Some ''registry.zpkg.net'') ''POST'' ''/v1/orgs'' = Allow ''claim_org'' True \<and>
   (''claim_org'', ''POST'') \<in> {(''version'', ''PUT''), (''yank'', ''POST''), (''embedding'', ''PUT''),
      (''semantic_search'', ''POST''), (''claim_org'', ''POST'')}"
proof -
  have d: "decide (Some ''registry.zpkg.net'') ''POST'' ''/v1/orgs'' = Allow ''claim_org'' True"
    by (simp add: boundary_eval)
  show ?thesis using d registry_host_write_surface [OF d] by simp
qed

text \<open>A wrong method is a controlled state: the reply's \<^verbatim>\<open>Allow\<close> header lists exactly the
  methods of the route that matched, and the refused method is not among them.\<close>

theorem wrong_method_lists_allowed:
  assumes "decide host m p = RejectMethod a"
  shows "\<exists>rs. registry_route p = Some rs \<and> m \<notin> set (methods rs)
     \<and> a = join_with '', '' (methods rs) \<and> ''OPTIONS'' \<in> set (methods rs)"
proof -
  from assms obtain rs where rs: "registry_route p = Some rs" "m \<notin> set (methods rs)"
      "a = allow_header (methods rs)"
    by (auto simp: decide_def split: option.splits if_splits)
  then have "methods rs \<in> {READ, POST, PUT, VERSION}"
    by (auto simp: registry_route_Some dest: segment_route_methods)
  with rs show ?thesis by (auto simp: allow_header_join method_defs)
qed

theorem wrong_method_lists_allowed_witness:
  "decide (Some ''registry.zpkg.net'') ''DELETE'' ''/v1/packages'' = RejectMethod ''GET, HEAD, OPTIONS''
   \<and> (\<exists>rs. registry_route ''/v1/packages'' = Some rs \<and> ''DELETE'' \<notin> set (methods rs))"
proof -
  have d: "decide (Some ''registry.zpkg.net'') ''DELETE'' ''/v1/packages''
      = RejectMethod ''GET, HEAD, OPTIONS''"
    by (simp add: boundary_eval)
  show ?thesis using d wrong_method_lists_allowed [OF d] by blast
qed

text \<open>The boundary cannot be escaped by spelling the host differently: any regional label, any
  number of trailing dots and any numeric port still select the registry surface.\<close>

theorem registry_host_spelling_robust:
  assumes "mid = [] \<or> last mid = CHR ''.''" and "CHR '':'' \<notin> set mid"
    and "list_all is_ascii_digit port"
  shows "decide (Some (''registry.'' @ mid @ ''zpkg.net'' @ replicate k (CHR ''.'') @ CHR '':'' # port))
           m p \<noteq> Bypass"
  using registry_host_spellings [OF assms] by (simp add: decide_def split: option.splits)

theorem registry_host_spelling_robust_witness:
  "decide (Some ''registry.aws.zpkg.net..:443'') ''GET'' ''/v1/account/me'' \<noteq> Bypass"
  using registry_host_spelling_robust [of "''aws.''" "''443''" 2 "''GET''" "''/v1/account/me''"]
  by (simp add: ascii_defs numeral_2_eq_2)

end
