(* ===== verification/F64.thy ===== *)
theory F64
  imports Prelude "HOL-Library.Log_Nat" Complex_Main
begin

section \<open>Binary64 rounding\<close>

text \<open>
  The rate limiter computes with \<open>f64\<close>. A finite non-negative double is its rational value;
  every operation is the exact operation followed by \<open>rnd\<close>, round to nearest with ties to even
  on the binary64 grid (53 significant bits, subnormals below). The exponent is not bounded above:
  where an intermediate result would overflow to infinity the code takes a minimum or a saturating
  cast next, and both give the same value for any number beyond the range.

  What the code relies on is the interface \<open>monotone_rounding\<close>: rounding is monotone and exact on
  the integers that fit the significand. \<open>rnd\<close> is its interpretation.
\<close>

definition ilog2 :: "rat \<Rightarrow> int" where
  "ilog2 x =
     (let (p, q) = quotient_of x;
          e = int (floorlog 2 (nat p)) - int (floorlog 2 (nat q))
      in if 2 powi e \<le> x then e else e - 1)"

definition ulp_exp :: "rat \<Rightarrow> int" where
  "ulp_exp x = max (ilog2 x - 52) (-1074)"

definition round_half_even :: "rat \<Rightarrow> int" where
  "round_half_even y =
     (let f = \<lfloor>y\<rfloor>; d = y - of_int f
      in if d < 1 / 2 then f else if d > 1 / 2 then f + 1 else if even f then f else f + 1)"

definition rnd :: "rat \<Rightarrow> rat" where
  "rnd x = (if x \<le> 0 then 0
            else of_int (round_half_even (x / 2 powi ulp_exp x)) * 2 powi ulp_exp x)"

locale monotone_rounding =
  fixes rd :: "rat \<Rightarrow> rat"
  assumes rd_mono: "0 \<le> x \<Longrightarrow> x \<le> y \<Longrightarrow> rd x \<le> rd y"
    and rd_nat: "n \<le> 2 ^ 53 \<Longrightarrow> rd (of_nat n) = of_nat n"
begin

lemma rd_0 [simp]: "rd 0 = 0"
  using rd_nat [of 0] by simp

lemma rd_1 [simp]: "rd 1 = 1"
  using rd_nat [of 1] by simp

lemma rd_nonneg: "0 \<le> x \<Longrightarrow> 0 \<le> rd x"
  using rd_mono [of 0 x] by simp

lemma rd_le_nat: "0 \<le> x \<Longrightarrow> x \<le> of_nat n \<Longrightarrow> n \<le> 2 ^ 53 \<Longrightarrow> rd x \<le> of_nat n"
  using rd_mono [of x "of_nat n"] by (simp add: rd_nat)

lemma rd_ge_nat: "of_nat n \<le> x \<Longrightarrow> n \<le> 2 ^ 53 \<Longrightarrow> of_nat n \<le> rd x"
  using rd_mono [of "of_nat n" x] by (simp add: rd_nat)

end

subsection \<open>The rounding of the model satisfies the interface\<close>

lemma ilog2_bounds:
  assumes "0 < x"
  shows "2 powi ilog2 x \<le> x" "x < 2 powi (ilog2 x + 1)"
proof -
  obtain p q where pq: "quotient_of x = (p, q)" by fastforce
  have x: "x = of_int p / of_int q" and q: "0 < q"
    using pq by (auto simp: quotient_of_div quotient_of_denom_pos)
  have p: "0 < p" using assms x q by (simp add: zero_less_divide_iff)
  define a where "a = floorlog 2 (nat p)"
  define b where "b = floorlog 2 (nat q)"
  have fa: "2 ^ (a - 1) \<le> nat p" "nat p < 2 ^ a" and fb: "2 ^ (b - 1) \<le> nat q" "nat q < 2 ^ b"
    using floorlog_bounds [of "nat p" 2] floorlog_bounds [of "nat q" 2] p q
    by (auto simp: a_def b_def)
  have ab: "1 \<le> a" "1 \<le> b" using fa fb p q by (auto intro: ccontr simp: not_le)
  have pw: "2 powi (int n) = (2::rat) ^ n" for n by (simp add: power_int_of_nat)
  have nat_rat: "n \<le> nat k \<Longrightarrow> 0 < k \<Longrightarrow> (of_nat n :: rat) \<le> of_int k"
      "nat k < n \<Longrightarrow> 0 < k \<Longrightarrow> (of_int k :: rat) < of_nat n" for n k
    by (metis int_nat_eq of_int_of_nat_eq of_nat_le_iff less_imp_le,
        metis int_nat_eq of_int_of_nat_eq of_nat_less_iff less_imp_le)
  have P: "(2::rat) ^ (a - 1) \<le> of_int p" "of_int p < (2::rat) ^ a"
    and Q: "(2::rat) ^ (b - 1) \<le> of_int q" "of_int q < (2::rat) ^ b"
    using nat_rat(1) [where k = p, OF fa(1) p] nat_rat(2) [where k = p, OF fa(2) p]
      nat_rat(1) [where k = q, OF fb(1) q] nat_rat(2) [where k = q, OF fb(2) q] by simp_all
  let ?e = "int a - int b"
  have up: "x < 2 powi (?e + 1)"
  proof -
    have "x < 2 ^ a / 2 ^ (b - 1)"
      unfolding x using P(2) Q(1) q p by (intro frac_less) auto
    also have "\<dots> = 2 powi (int a - int (b - 1))"
      by (simp add: power_int_diff pw)
    also have "int a - int (b - 1) = ?e + 1" using ab by simp
    finally show ?thesis .
  qed
  have lo: "2 powi (?e - 1) \<le> x"
  proof -
    have "?e - 1 = int (a - 1) - int b" using ab by simp
    then have "(2::rat) powi (?e - 1) = 2 powi (int (a - 1) - int b)" by (simp only:)
    also have "\<dots> = (2::rat) ^ (a - 1) / 2 ^ b" by (simp add: power_int_diff pw del: of_nat_diff)
    also have "\<dots> \<le> x"
      unfolding x using P(1) Q(2) q p by (intro frac_le) auto
    finally show ?thesis .
  qed
  have il: "ilog2 x = (if 2 powi ?e \<le> x then ?e else ?e - 1)"
    by (simp add: ilog2_def pq a_def b_def)
  show "2 powi ilog2 x \<le> x" using lo by (simp add: il)
  show "x < 2 powi (ilog2 x + 1)" using up by (simp add: il)
qed

lemma ilog2_mono_strict:
  assumes "0 < x" "x \<le> y" shows "ilog2 x \<le> ilog2 y"
proof (rule ccontr)
  assume "\<not> ilog2 x \<le> ilog2 y"
  then have "2 powi (ilog2 y + 1) \<le> (2 :: rat) powi ilog2 x"
    by (intro power_int_increasing) auto
  moreover have "2 powi ilog2 x \<le> x" "y < 2 powi (ilog2 y + 1)"
    using ilog2_bounds assms by auto
  ultimately show False using assms by linarith
qed

lemma round_half_even_of_int [simp]: "round_half_even (of_int n) = n"
  by (simp add: round_half_even_def)

lemma round_half_even_mono: "x \<le> y \<Longrightarrow> round_half_even x \<le> round_half_even y"
proof -
  assume xy: "x \<le> y"
  then have f: "\<lfloor>x\<rfloor> \<le> \<lfloor>y\<rfloor>" by (rule floor_mono)
  have b: "\<lfloor>z\<rfloor> \<le> round_half_even z" "round_half_even z \<le> \<lfloor>z\<rfloor> + 1" for z
    by (auto simp: round_half_even_def Let_def)
  show ?thesis
  proof (cases "\<lfloor>x\<rfloor> = \<lfloor>y\<rfloor>")
    case True
    then show ?thesis using xy by (auto simp: round_half_even_def Let_def)
  next
    case False
    with f have "\<lfloor>x\<rfloor> + 1 \<le> \<lfloor>y\<rfloor>" by simp
    then show ?thesis using b(2) [of x] b(1) [of y] by linarith
  qed
qed

lemma power_int_two_ge:
  "e \<le> k \<Longrightarrow> \<exists>n. (2::rat) powi k = of_int n * 2 powi e"
proof -
  assume "e \<le> k"
  then have "(2::rat) powi k = 2 powi (int (nat (k - e)) + e)" by simp
  also have "\<dots> = 2 ^ nat (k - e) * 2 powi e"
    by (simp only: power_int_add [OF disjI1] power_int_of_nat rel_simps simp_thms)
  finally have "(2::rat) powi k = of_int (2 ^ nat (k - e)) * 2 powi e" by simp
  then show ?thesis by blast
qed

lemma rnd_grid: "0 < x \<Longrightarrow> x = of_int n * 2 powi ulp_exp x \<Longrightarrow> rnd x = x"
proof -
  assume x: "0 < x" "x = of_int n * 2 powi ulp_exp x"
  then have "x / 2 powi ulp_exp x = of_int n" by (metis nonzero_mult_div_cancel_right power_int_not_zero zero_neq_numeral)
  then show "rnd x = x" using x by (simp add: rnd_def)
qed

lemma rnd_mono_pos:
  assumes "0 < x" "x \<le> y" shows "rnd x \<le> rnd y"
proof (cases "ulp_exp x = ulp_exp y")
  case True
  have pos: "(0::rat) < 2 powi ulp_exp y" by simp
  have "x / 2 powi ulp_exp y \<le> y / 2 powi ulp_exp y"
    using assms pos by (simp add: divide_right_mono less_imp_le)
  then have "round_half_even (x / 2 powi ulp_exp y) \<le> round_half_even (y / 2 powi ulp_exp y)"
    by (rule round_half_even_mono)
  then show ?thesis using assms True pos by (simp add: rnd_def mult_right_mono)
next
  case False
  let ?B = "(2::rat) powi ilog2 y"
  have le: "ilog2 x \<le> ilog2 y" using assms by (rule ilog2_mono_strict)
  with False have lt: "ulp_exp x < ulp_exp y" "ulp_exp y = ilog2 y - 52" "ilog2 x < ilog2 y"
    by (auto simp: ulp_exp_def)
  have xB: "x \<le> ?B"
  proof -
    have "x < 2 powi (ilog2 x + 1)" using ilog2_bounds assms by blast
    also have "\<dots> \<le> ?B" using lt(3) by (intro power_int_increasing) auto
    finally show ?thesis by simp
  qed
  have By: "?B \<le> y" using ilog2_bounds assms by auto
  have below: "rnd x \<le> ?B"
  proof -
    have "ulp_exp x \<le> ilog2 y" using lt by simp
    then obtain n where n: "?B = of_int n * 2 powi ulp_exp x" using power_int_two_ge by blast
    have pos: "(0::rat) < 2 powi ulp_exp x" by simp
    have "x / 2 powi ulp_exp x \<le> of_int n"
      using xB n pos by (simp add: pos_divide_le_eq)
    then have "round_half_even (x / 2 powi ulp_exp x) \<le> n"
      using round_half_even_mono [of _ "of_int n"] by simp
    then show ?thesis using n pos assms by (simp add: rnd_def mult_right_mono)
  qed
  have above: "?B \<le> rnd y"
  proof -
    have "ulp_exp y \<le> ilog2 y" using lt by simp
    then obtain n where n: "?B = of_int n * 2 powi ulp_exp y" using power_int_two_ge by blast
    have pos: "(0::rat) < 2 powi ulp_exp y" by simp
    have "of_int n \<le> y / 2 powi ulp_exp y"
      using By n pos by (simp add: pos_le_divide_eq)
    then have "n \<le> round_half_even (y / 2 powi ulp_exp y)"
      using round_half_even_mono [of "of_int n"] by simp
    then show ?thesis using n pos assms by (simp add: rnd_def mult_right_mono)
  qed
  from below above show ?thesis by simp
qed

lemma rnd_nat_exact: "n \<le> 2 ^ 53 \<Longrightarrow> rnd (of_nat n) = of_nat n"
proof (cases "n = 0")
  case True
  then show ?thesis by (simp add: rnd_def)
next
  case False
  assume n: "n \<le> 2 ^ 53"
  let ?x = "of_nat n :: rat"
  have x: "0 < ?x" "1 \<le> ?x" using False by auto
  have lo: "0 \<le> ilog2 ?x"
  proof (rule ccontr)
    assume "\<not> 0 \<le> ilog2 ?x"
    then have "2 powi (ilog2 ?x + 1) \<le> (2::rat) powi 0" by (intro power_int_increasing) auto
    then show False using ilog2_bounds(2) [OF x(1)] x(2) by simp
  qed
  have hi: "ilog2 ?x \<le> 53"
  proof (rule ccontr)
    assume "\<not> ilog2 ?x \<le> 53"
    then have "2 powi 54 \<le> (2::rat) powi ilog2 ?x" by (intro power_int_increasing) auto
    also have "\<dots> \<le> ?x" using ilog2_bounds(1) [OF x(1)] .
    also have "\<dots> \<le> 2 ^ 53" using n by (metis of_nat_le_iff of_nat_numeral of_nat_power)
    finally show False by simp
  qed
  show ?thesis
  proof (cases "ilog2 ?x \<le> 52")
    case True
    then have "ulp_exp ?x \<le> 0" by (simp add: ulp_exp_def)
    then obtain k where "(2::rat) powi 0 = of_int k * 2 powi ulp_exp ?x"
      using power_int_two_ge by blast
    then have "?x = of_int (int n * k) * 2 powi ulp_exp ?x" by simp
    then show ?thesis by (rule rnd_grid [OF x(1)])
  next
    case False
    with hi have il: "ilog2 ?x = 53" by simp
    have "(2::rat) ^ 53 \<le> ?x" using ilog2_bounds(1) [OF x(1)] by (simp add: il)
    then have "2 ^ 53 \<le> n" by (metis of_nat_le_iff of_nat_numeral of_nat_power)
    with n have nn: "n = 2 ^ 53" by simp
    have "ulp_exp ?x = 1" by (simp add: ulp_exp_def il)
    then have "?x = of_int (2 ^ 52) * 2 powi ulp_exp ?x" by (simp add: nn)
    then show ?thesis by (rule rnd_grid [OF x(1)])
  qed
qed

interpretation f64: monotone_rounding rnd
proof
  fix x y :: rat
  assume "0 \<le> x" "x \<le> y"
  then show "rnd x \<le> rnd y"
  proof (cases "x = 0")
    case True
    have "0 \<le> rnd y"
    proof (cases "0 < y")
      case True
      then have "round_half_even (0 / 2 powi ulp_exp y) \<le> round_half_even (y / 2 powi ulp_exp y)"
        by (intro round_half_even_mono) simp
      then have "0 \<le> round_half_even (y / 2 powi ulp_exp y)"
        using round_half_even_of_int [of 0] by simp
      then show ?thesis by (simp add: rnd_def)
    qed (simp add: rnd_def)
    with True show ?thesis by (simp add: rnd_def)
  next
    case False
    with \<open>0 \<le> x\<close> \<open>x \<le> y\<close> show ?thesis by (intro rnd_mono_pos) auto
  qed
next
  fix n :: nat
  assume "n \<le> 2 ^ 53"
  then show "rnd (of_nat n) = of_nat n" by (rule rnd_nat_exact)
qed

subsection \<open>Durations\<close>

text \<open>\<open>Duration::as_secs_f64\<close> on a duration in nanoseconds.\<close>

definition as_secs_f64 :: "nat \<Rightarrow> rat" where
  "as_secs_f64 d =
     rnd (rnd (of_nat (d div 10 ^ 9)) + rnd (of_nat (d mod 10 ^ 9) / 10 ^ 9))"

lemma as_secs_f64_0 [simp]: "as_secs_f64 0 = 0"
  by (simp add: as_secs_f64_def)

lemma as_secs_f64_nonneg [simp]: "0 \<le> as_secs_f64 d"
  by (simp add: as_secs_f64_def f64.rd_nonneg)

lemma as_secs_f64_mono:
  assumes "d \<le> e" "e < 2 ^ 53 * 10 ^ 9"
  shows "as_secs_f64 d \<le> as_secs_f64 e"
proof -
  let ?s = "\<lambda>d. d div 10 ^ 9 :: nat" and ?n = "\<lambda>d. rnd (of_nat (d mod 10 ^ 9) / 10 ^ 9)"
  have s: "?s d \<le> ?s e" "?s e < 2 ^ 53"
    using assms by (auto intro: div_le_mono simp: less_mult_imp_div_less)
  have n: "0 \<le> ?n k" "?n k \<le> 1" for k
  proof -
    show "0 \<le> ?n k" by (simp add: f64.rd_nonneg)
    have "of_nat (k mod 10 ^ 9) / 10 ^ 9 \<le> (1::rat)"
      by (simp add: divide_le_eq_1)
    then show "?n k \<le> 1" using f64.rd_le_nat [of "of_nat (k mod 10 ^ 9) / 10 ^ 9" 1] by simp
  qed
  have "of_nat (?s d) + ?n d \<le> of_nat (?s e) + ?n e"
  proof (cases "?s d = ?s e")
    case True
    then have "d mod 10 ^ 9 \<le> e mod 10 ^ 9"
      using assms(1) by (metis div_mult_mod_eq nat_add_left_cancel_le)
    then have "?n d \<le> ?n e" by (intro f64.rd_mono) (auto simp: divide_right_mono)
    with True show ?thesis by simp
  next
    case False
    with s(1) have "?s d + 1 \<le> ?s e" by simp
    then have "of_nat (?s d) + 1 \<le> (of_nat (?s e) :: rat)"
      by (metis of_nat_1 of_nat_add of_nat_le_iff)
    with n(2) [of d] n(1) [of e] show ?thesis by linarith
  qed
  moreover have "rnd (of_nat (?s d)) = of_nat (?s d)" "rnd (of_nat (?s e)) = of_nat (?s e)"
    using s by (auto intro: f64.rd_nat)
  ultimately show ?thesis
    unfolding as_secs_f64_def using n(1) [of d] by (intro f64.rd_mono) auto
qed

end
