(* ===== verification/RateLimit.thy ===== *)
theory RateLimit
  imports F64 "HOL-Library.AList"
begin

section \<open>Per-credential rate limiting (\<^verbatim>\<open>src/ratelimit.rs\<close>)\<close>

text \<open>
  A token bucket per credential. Instants are nanoseconds, token balances are binary64 values
  (theory \<open>F64\<close>), the hash map is an association list with distinct keys. The two mutexes make
  every check and every sweep one atomic step; an operation takes the instant that was sampled
  under the clock mutex. \<open>None\<close> is the panic of the \<open>expect\<close> in \<open>check_serialized\<close>.
\<close>

definition IDLE_EVICTION :: nat where "IDLE_EVICTION = 600 * 10 ^ 9"
definition MAX_BUCKETS :: nat where "MAX_BUCKETS = 100000"

record bucket =
  tokens :: rat
  last_seen :: nat

record rate_limiter =
  buckets :: "(string \<times> bucket) list"
  clock :: nat
  burst :: rat
  per_second :: rat
  max_buckets :: nat

datatype decision = Allow | Deny (retry_after_secs: nat)

text \<open>The configured rate as parsed from the environment: any double.\<close>

datatype f64_value = NaN | Infinite bool | Finite rat

definition new_with_limit :: "nat \<Rightarrow> nat \<Rightarrow> f64_value \<Rightarrow> nat \<Rightarrow> rate_limiter" where
  "new_with_limit now b rate limit =
     \<lparr>buckets = [], clock = now, burst = of_nat (max b 1),
      per_second = (case rate of Finite r \<Rightarrow> if r > 0 then r else 1 | _ \<Rightarrow> 1),
      max_buckets = max limit 1\<rparr>"

definition new :: "nat \<Rightarrow> nat \<Rightarrow> f64_value \<Rightarrow> rate_limiter" where
  "new now b rate = new_with_limit now b rate MAX_BUCKETS"

definition safe_to_forget :: "rate_limiter \<Rightarrow> bucket \<Rightarrow> nat \<Rightarrow> bool" where
  "safe_to_forget l b now =
     (if now < last_seen b then False
      else let idle = now - last_seen b
           in if idle < IDLE_EVICTION then False
              else burst l \<le> rnd (tokens b + rnd (as_secs_f64 idle * per_second l)))"

definition retain_unsafe :: "rate_limiter \<Rightarrow> nat \<Rightarrow> rate_limiter" where
  "retain_unsafe l now =
     l\<lparr>buckets := filter (\<lambda>(k, b). \<not> safe_to_forget l b now) (buckets l)\<rparr>"

definition refill :: "rate_limiter \<Rightarrow> bucket \<Rightarrow> nat \<Rightarrow> rat" where
  "refill l b now =
     min (rnd (tokens b + rnd (as_secs_f64 (now - last_seen b) * per_second l))) (burst l)"

definition retry_after :: "rate_limiter \<Rightarrow> rat \<Rightarrow> nat" where
  "retry_after l t =
     min (nat (max \<lceil>rnd (rnd (1 - t) / per_second l)\<rceil> 1)) u64_max"

definition charge :: "rate_limiter \<Rightarrow> string \<Rightarrow> nat \<Rightarrow> (decision \<times> rate_limiter) option" where
  "charge l key now =
     (let b = (case map_of (buckets l) key of
                 Some b \<Rightarrow> b
               | None \<Rightarrow> \<lparr>tokens = burst l, last_seen = now\<rparr>)
      in if now < last_seen b then None
         else let t = refill l b now
              in if 1 \<le> t
                 then Some (Allow, l\<lparr>buckets := AList.update key
                        \<lparr>tokens = rnd (t - 1), last_seen = now\<rparr> (buckets l)\<rparr>)
                 else Some (Deny (retry_after l t), l\<lparr>buckets := AList.update key
                        \<lparr>tokens = t, last_seen = now\<rparr> (buckets l)\<rparr>))"

definition check_serialized ::
    "rate_limiter \<Rightarrow> string \<Rightarrow> nat \<Rightarrow> (decision \<times> rate_limiter) option" where
  "check_serialized l key now =
     (if now < clock l then Some (Deny 1, l)
      else
        let l1 = l\<lparr>clock := now\<rparr>
        in if map_of (buckets l1) key = None \<and> max_buckets l1 \<le> length (buckets l1)
           then let l2 = retain_unsafe l1 now
                in if max_buckets l2 \<le> length (buckets l2) then Some (Deny 1, l2)
                   else charge l2 key now
           else charge l1 key now)"

definition sweep_serialized :: "rate_limiter \<Rightarrow> nat \<Rightarrow> rate_limiter" where
  "sweep_serialized l now =
     (if now < clock l then l else retain_unsafe (l\<lparr>clock := now\<rparr>) now)"

text \<open>
  The middleware: requests without a limiter or a bearer token pass untouched, the others are
  charged against the hash of the token.
\<close>

datatype 'r layer_result = Forwarded 'r | TooManyRequests nat

definition layer ::
    "(string \<Rightarrow> string) \<Rightarrow> rate_limiter option \<Rightarrow> string option \<Rightarrow> nat \<Rightarrow> (unit \<Rightarrow> 'r)
      \<Rightarrow> ('r layer_result \<times> rate_limiter option) option" where
  "layer hash_token limiter bearer now inner =
     (case limiter of
        None \<Rightarrow> Some (Forwarded (inner ()), None)
      | Some l \<Rightarrow>
          (case bearer of
             None \<Rightarrow> Some (Forwarded (inner ()), Some l)
           | Some token \<Rightarrow>
               (case check_serialized l (hash_token token) now of
                  None \<Rightarrow> None
                | Some (Allow, l') \<Rightarrow> Some (Forwarded (inner ()), Some l')
                | Some (Deny s, l') \<Rightarrow> Some (TooManyRequests s, Some l'))))"

subsection \<open>Invariant\<close>

definition bucket_ok :: "rate_limiter \<Rightarrow> bucket \<Rightarrow> bool" where
  "bucket_ok l b \<longleftrightarrow> 0 \<le> tokens b \<and> tokens b \<le> burst l \<and> last_seen b \<le> clock l"

definition limiter_ok :: "rate_limiter \<Rightarrow> bool" where
  "limiter_ok l \<longleftrightarrow>
     distinct (map fst (buckets l)) \<and> (\<forall>(k, b)\<in>set (buckets l). bucket_ok l b)
     \<and> length (buckets l) \<le> max_buckets l \<and> 0 < per_second l
     \<and> (\<exists>n. burst l = of_nat n \<and> 1 \<le> n \<and> n \<le> 2 ^ 32)"

lemma limiter_okD:
  assumes "limiter_ok l"
  shows "distinct (map fst (buckets l))" "0 < per_second l" "1 \<le> burst l"
    "length (buckets l) \<le> max_buckets l"
    "map_of (buckets l) k = Some b \<Longrightarrow> bucket_ok l b"
  using assms by (auto simp: limiter_ok_def dest: map_of_SomeD)

lemma burst_nat:
  assumes "limiter_ok l" obtains n where "burst l = of_nat n" "1 \<le> n" "n \<le> 2 ^ 32"
  using assms by (auto simp: limiter_ok_def)

lemma new_ok: "b < 2 ^ 32 \<Longrightarrow> limiter_ok (new_with_limit now b rate limit)"
  by (auto simp: limiter_ok_def new_with_limit_def split: f64_value.splits
      intro!: exI [of _ "max b 1"])

lemma retain_ok:
  assumes "limiter_ok l" shows "limiter_ok (retain_unsafe l now)"
proof -
  let ?f = "filter (\<lambda>(k, b). \<not> safe_to_forget l b now) (buckets l)"
  have "length ?f \<le> length (buckets l)" by (rule length_filter_le)
  then have "length ?f \<le> max_buckets l" using limiter_okD(4) [OF assms] by (rule le_trans)
  with assms show ?thesis
    by (auto simp: limiter_ok_def retain_unsafe_def bucket_ok_def intro: distinct_map_filter)
qed

lemma clock_forward_ok: "limiter_ok l \<Longrightarrow> clock l \<le> now \<Longrightarrow> limiter_ok (l\<lparr>clock := now\<rparr>)"
  by (fastforce simp: limiter_ok_def bucket_ok_def)

lemma update_ok:
  assumes "limiter_ok l" "bucket_ok l b"
    "map_of (buckets l) key = None \<Longrightarrow> length (buckets l) < max_buckets l"
  shows "limiter_ok (l\<lparr>buckets := AList.update key b (buckets l)\<rparr>)"
proof -
  have len: "length (AList.update key b xs) =
      (if map_of xs key = None then Suc (length xs) else length xs)"
    if "distinct (map fst xs)" for xs :: "(string \<times> bucket) list"
    using that by (induction xs) auto
  have "(k, c) \<in> set (AList.update key b xs) \<Longrightarrow> (k, c) \<in> set xs \<or> c = b" for k c and xs
    by (induction xs) (auto split: if_splits)
  then have "\<forall>(k, c)\<in>set (AList.update key b (buckets l)). bucket_ok l c"
    using assms(1,2) by (fastforce simp: limiter_ok_def)
  moreover have "bucket_ok (l\<lparr>buckets := x\<rparr>) c = bucket_ok l c" for x c
    by (simp add: bucket_ok_def)
  ultimately show ?thesis
    using assms len [OF limiter_okD(1) [OF assms(1)]]
    by (auto simp: limiter_ok_def distinct_update)
qed

lemma refill_bounds:
  assumes "limiter_ok l" "0 \<le> tokens b"
  shows "0 \<le> refill l b now" "refill l b now \<le> burst l"
proof -
  have "0 \<le> rnd (as_secs_f64 (now - last_seen b) * per_second l)"
    using limiter_okD(2) [OF assms(1)] by (intro f64.rd_nonneg) simp
  then have "0 \<le> rnd (tokens b + rnd (as_secs_f64 (now - last_seen b) * per_second l))"
    using assms(2) by (intro f64.rd_nonneg) simp
  then show "0 \<le> refill l b now" "refill l b now \<le> burst l"
    using limiter_okD(3) [OF assms(1)] by (auto simp: refill_def)
qed

lemma debit_bounds:
  assumes "1 \<le> t" "t \<le> of_nat n" "n \<le> 2 ^ 32"
  shows "0 \<le> rnd (t - 1)" "rnd (t - 1) \<le> of_nat (n - 1)"
proof -
  have n: "1 \<le> n"
  proof (rule ccontr)
    assume "\<not> 1 \<le> n"
    then show False using assms(1,2) by simp
  qed
  show "0 \<le> rnd (t - 1)" using assms(1) by (intro f64.rd_nonneg) simp
  show "rnd (t - 1) \<le> of_nat (n - 1)"
    using assms n by (intro f64.rd_le_nat) (auto simp: of_nat_diff)
qed

lemma charge_ok:
  assumes ok: "limiter_ok l" and clk: "clock l = now"
    and room: "map_of (buckets l) key = None \<Longrightarrow> length (buckets l) < max_buckets l"
  obtains d b where "charge l key now = Some (d, l\<lparr>buckets := AList.update key b (buckets l)\<rparr>)"
    "bucket_ok l b" "last_seen b = now"
proof -
  let ?b = "case map_of (buckets l) key of
    Some b \<Rightarrow> b | None \<Rightarrow> \<lparr>tokens = burst l, last_seen = now\<rparr>"
  have b: "bucket_ok l ?b"
    using limiter_okD(3,5) [OF ok] clk by (auto simp: bucket_ok_def split: option.splits)
  then have seen: "\<not> now < last_seen ?b" using clk by (simp add: bucket_ok_def not_less)
  let ?t = "refill l ?b now"
  have t: "0 \<le> ?t" "?t \<le> burst l"
    using refill_bounds [OF ok] b by (auto simp: bucket_ok_def)
  obtain n where n: "burst l = of_nat n" "n \<le> 2 ^ 32" using burst_nat [OF ok] by metis
  show thesis
  proof (cases "1 \<le> ?t")
    case True
    have "rnd (?t - 1) \<le> of_nat (n - 1)" "0 \<le> rnd (?t - 1)"
      using debit_bounds [OF True, of n] t n by auto
    then have "bucket_ok l \<lparr>tokens = rnd (?t - 1), last_seen = now\<rparr>"
      using n clk by (auto simp: bucket_ok_def intro: order_trans)
    with True seen show thesis
      by (intro that) (auto simp: charge_def Let_def)
  next
    case False
    have "bucket_ok l \<lparr>tokens = ?t, last_seen = now\<rparr>"
      using t clk by (simp add: bucket_ok_def)
    with False seen show thesis
      by (intro that) (auto simp: charge_def Let_def)
  qed
qed

lemma retain_simps [simp]:
  "clock (retain_unsafe l now) = clock l" "burst (retain_unsafe l now) = burst l"
  "per_second (retain_unsafe l now) = per_second l"
  "max_buckets (retain_unsafe l now) = max_buckets l"
  by (simp_all add: retain_unsafe_def)

text \<open>The three ways a check can go.\<close>

lemma check_cases:
  assumes ok: "limiter_ok l"
  obtains (rewind) "now < clock l" "check_serialized l key now = Some (Deny 1, l)"
  | (full) l2 where "clock l \<le> now" "l2 = retain_unsafe (l\<lparr>clock := now\<rparr>) now"
      "map_of (buckets l) key = None" "limiter_ok l2"
      "check_serialized l key now = Some (Deny 1, l2)" "max_buckets l2 \<le> length (buckets l2)"
  | (charged) l2 where "clock l \<le> now"
      "l2 = l\<lparr>clock := now\<rparr> \<or> l2 = retain_unsafe (l\<lparr>clock := now\<rparr>) now"
      "limiter_ok l2" "clock l2 = now"
      "map_of (buckets l2) key = None \<Longrightarrow> length (buckets l2) < max_buckets l2"
      "check_serialized l key now = charge l2 key now"
proof (cases "now < clock l")
  case True
  then show thesis by (intro rewind) (simp_all add: check_serialized_def)
next
  case False
  let ?l1 = "l\<lparr>clock := now\<rparr>" let ?l2 = "retain_unsafe ?l1 now"
  have ok1: "limiter_ok ?l1" using ok False by (simp add: clock_forward_ok)
  then have ok2: "limiter_ok ?l2" by (rule retain_ok)
  show thesis
  proof (cases "map_of (buckets l) key = None \<and> max_buckets l \<le> length (buckets l)")
    case no_room: True
    show thesis
    proof (cases "max_buckets ?l2 \<le> length (buckets ?l2)")
      case True
      with no_room False ok2 show thesis
        by (intro full) (auto simp: check_serialized_def Let_def)
    next
      case room: False
      with no_room False ok2 show thesis
        by (intro charged [of ?l2]) (auto simp: check_serialized_def Let_def)
    qed
  next
    case room: False
    with False ok1 show thesis
      by (intro charged [of ?l1]) (auto simp: check_serialized_def Let_def)
  qed
qed

lemma check_ok:
  assumes "limiter_ok l"
  shows "\<exists>d l'. check_serialized l key now = Some (d, l') \<and> limiter_ok l' \<and> clock l \<le> clock l'"
proof (cases rule: check_cases [OF assms, of now key, case_names rewind full charged])
  case (full l2)
  then show ?thesis by simp
next
  case (charged l2)
  obtain d b where c: "charge l2 key now = Some (d, l2\<lparr>buckets := AList.update key b (buckets l2)\<rparr>)"
      "bucket_ok l2 b"
    using charge_ok [OF charged(3,4,5)] by metis
  moreover have "limiter_ok (l2\<lparr>buckets := AList.update key b (buckets l2)\<rparr>)"
    using charged(3,5) c(2) by (intro update_ok)
  ultimately show ?thesis using charged by simp
qed (use assms in simp)

lemma sweep_ok: "limiter_ok l \<Longrightarrow> limiter_ok (sweep_serialized l now)"
  by (simp add: sweep_serialized_def retain_ok clock_forward_ok)

subsection \<open>Reachable limiters\<close>

inductive reachable :: "rate_limiter \<Rightarrow> bool" where
  start: "b < 2 ^ 32 \<Longrightarrow> reachable (new_with_limit t0 b rate limit)"
| check: "reachable l \<Longrightarrow> check_serialized l key now = Some (d, l') \<Longrightarrow> reachable l'"
| sweep: "reachable l \<Longrightarrow> reachable (sweep_serialized l now)"

lemma reachable_ok: "reachable l \<Longrightarrow> limiter_ok l"
proof (induction rule: reachable.induct)
  case (check l key now d l')
  then show ?case using check_ok [of l key now] by simp
qed (auto intro: new_ok sweep_ok)

subsection \<open>Available tokens\<close>

definition avail :: "rate_limiter \<Rightarrow> string \<Rightarrow> nat \<Rightarrow> rat" where
  "avail l key now =
     (case map_of (buckets l) key of None \<Rightarrow> burst l | Some b \<Rightarrow> refill l b now)"

lemma refill_fresh: "limiter_ok l \<Longrightarrow> refill l \<lparr>tokens = burst l, last_seen = now\<rparr> now = burst l"
  by (elim burst_nat) (simp add: refill_def f64.rd_nat)

lemma charge_avail:
  assumes "limiter_ok l" "clock l = now"
    "map_of (buckets l) key = None \<Longrightarrow> length (buckets l) < max_buckets l"
  shows "charge l key now = Some
    (if 1 \<le> avail l key now then Allow else Deny (retry_after l (avail l key now)),
     l\<lparr>buckets := AList.update key
        \<lparr>tokens = (if 1 \<le> avail l key now then rnd (avail l key now - 1) else avail l key now),
         last_seen = now\<rparr> (buckets l)\<rparr>)"
proof (cases "map_of (buckets l) key")
  case None
  then show ?thesis
    using refill_fresh [OF assms(1)] by (simp add: charge_def avail_def Let_def)
next
  case (Some b)
  then have "\<not> now < last_seen b"
    using limiter_okD(5) [OF assms(1) Some] assms(2) by (simp add: bucket_ok_def)
  then show ?thesis using Some by (simp add: charge_def avail_def Let_def)
qed

lemma avail_le_burst: "limiter_ok l \<Longrightarrow> avail l key now \<le> burst l"
  by (simp add: avail_def refill_def split: option.split)

lemma avail_nonneg: "limiter_ok l \<Longrightarrow> 0 \<le> avail l key now"
  using limiter_okD(3,5)
  by (fastforce simp: avail_def bucket_ok_def intro: refill_bounds split: option.split)

lemma filter_lookup:
  assumes "distinct (map fst table)"
  shows "map_of (filter keep table) key =
    Option.bind (map_of table key) (\<lambda>row. if keep (key, row) then Some row else None)"
  using assms
proof (induction table)
  case (Cons entry table)
  obtain key' row where e: "entry = (key', row)" by fastforce
  show ?case
  proof (cases "key' = key")
    case True
    then have "map_of table key = None"
      using Cons.prems e by (simp add: map_of_eq_None_iff)
    then show ?thesis using Cons e True by simp
  next
    case False
    then show ?thesis using Cons e by simp
  qed
qed simp

text \<open>Forgetting a bucket is invisible: a bucket that is safe to forget is full from then on.\<close>

lemma projected_mono:
  assumes "limiter_ok l" "0 \<le> tokens b" "last_seen b \<le> s" "s \<le> t" "t < 2 ^ 53 * 10 ^ 9"
  shows "rnd (tokens b + rnd (as_secs_f64 (s - last_seen b) * per_second l))
      \<le> rnd (tokens b + rnd (as_secs_f64 (t - last_seen b) * per_second l))"
proof -
  have "as_secs_f64 (s - last_seen b) \<le> as_secs_f64 (t - last_seen b)"
    using assms(4,5) by (intro as_secs_f64_mono) auto
  then have "rnd (as_secs_f64 (s - last_seen b) * per_second l)
      \<le> rnd (as_secs_f64 (t - last_seen b) * per_second l)"
    using limiter_okD(2) [OF assms(1)] by (intro f64.rd_mono) (auto intro: mult_right_mono)
  then show ?thesis
    using assms(2) limiter_okD(2) [OF assms(1)]
    by (intro f64.rd_mono) (auto intro!: add_nonneg_nonneg f64.rd_nonneg)
qed

lemma safe_later:
  assumes "limiter_ok l" "0 \<le> tokens b" "safe_to_forget l b s" "s \<le> t" "t < 2 ^ 53 * 10 ^ 9"
  shows "safe_to_forget l b t"
proof -
  have "last_seen b \<le> s" using assms(3) by (simp add: safe_to_forget_def Let_def split: if_splits)
  from projected_mono [OF assms(1,2) this assms(4,5)] show ?thesis
    using assms(3,4) by (auto simp: safe_to_forget_def Let_def split: if_splits)
qed

lemma safe_bucket_full:
  assumes ok: "limiter_ok l" and b: "0 \<le> tokens b" and safe: "safe_to_forget l b s"
    and st: "s \<le> t" "t < 2 ^ 53 * 10 ^ 9"
  shows "refill l b t = burst l"
  using safe_later [OF assms] by (auto simp: refill_def safe_to_forget_def Let_def split: if_splits)

lemma refill_cong:
  "burst l = burst l' \<Longrightarrow> per_second l = per_second l' \<Longrightarrow> refill l b t = refill l' b t"
  by (simp add: refill_def)

lemma avail_retain:
  assumes ok: "limiter_ok l" and st: "s \<le> t" "t < 2 ^ 53 * 10 ^ 9"
  shows "avail (retain_unsafe l s) key t = avail l key t"
proof (cases "map_of (buckets l) key")
  case None
  then show ?thesis
    by (simp add: avail_def retain_unsafe_def filter_lookup limiter_okD(1) [OF ok])
next
  case (Some b)
  have "0 \<le> tokens b" using limiter_okD(5) [OF ok Some] by (simp add: bucket_ok_def)
  then have "safe_to_forget l b s \<Longrightarrow> refill l b t = burst l"
    using safe_bucket_full ok st by blast
  with Some show ?thesis
    by (auto simp: avail_def retain_unsafe_def filter_lookup limiter_okD(1) [OF ok]
        intro: refill_cong)
qed

lemma avail_clock [simp]: "avail (l\<lparr>clock := c\<rparr>) key t = avail l key t"
  by (simp add: avail_def refill_def split: option.split)

lemma avail_charged:
  assumes "limiter_ok l"
  shows "avail (l\<lparr>buckets := AList.update key \<lparr>tokens = x, last_seen = now\<rparr> (buckets l)\<rparr>) k now =
    (if k = key then min (rnd x) (burst l) else avail l k now)"
  by (simp add: avail_def refill_def update_conv' split: option.split)

subsection \<open>Runs of checks\<close>

fun run_checks :: "rate_limiter \<Rightarrow> (string \<times> nat) list \<Rightarrow> (decision list \<times> rate_limiter) option" where
  "run_checks l [] = Some ([], l)"
| "run_checks l ((key, now) # rs) =
     (case check_serialized l key now of
        None \<Rightarrow> None
      | Some (d, l') \<Rightarrow>
          (case run_checks l' rs of None \<Rightarrow> None | Some (ds, l'') \<Rightarrow> Some (d # ds, l'')))"

definition allows :: "string \<Rightarrow> string list \<Rightarrow> decision list \<Rightarrow> nat" where
  "allows key ks ds = length (filter (\<lambda>(k, d). k = key \<and> d = Allow) (zip ks ds))"

lemma check_avail_step:
  assumes ok: "limiter_ok l" and t: "now < 2 ^ 53 * 10 ^ 9"
    and c: "check_serialized l k now = Some (d, l')"
    and m: "avail l key now \<le> of_nat m" "m \<le> 2 ^ 32"
  shows "(k = key \<and> d = Allow \<longrightarrow> 1 \<le> m) \<and>
    avail l' key now \<le> of_nat (if k = key \<and> d = Allow then m - 1 else m)"
proof (cases rule: check_cases [OF ok, of now k, case_names rewind full charged])
  case rewind
  with c m show ?thesis by auto
next
  case (full l2)
  have "avail l2 key now = avail l key now"
    using avail_retain [of "l\<lparr>clock := now\<rparr>" now now key] full(1,2) ok t
    by (simp add: clock_forward_ok)
  with full c m show ?thesis by auto
next
  case (charged l2)
  have same: "avail l2 j now = avail l j now" for j
    using charged(1,2) avail_retain [of "l\<lparr>clock := now\<rparr>" now now j] ok t
    by (auto simp: clock_forward_ok)
  let ?a = "avail l2 k now"
  let ?x = "if 1 \<le> ?a then rnd (?a - 1) else ?a"
  have ch: "charge l2 k now = Some (if 1 \<le> ?a then Allow else Deny (retry_after l2 ?a),
      l2\<lparr>buckets := AList.update k \<lparr>tokens = ?x, last_seen = now\<rparr> (buckets l2)\<rparr>)"
    using charge_avail [OF charged(3,4,5)] .
  with c charged(6) have d: "d = (if 1 \<le> ?a then Allow else Deny (retry_after l2 ?a))"
    and l': "l' = l2\<lparr>buckets := AList.update k \<lparr>tokens = ?x, last_seen = now\<rparr> (buckets l2)\<rparr>"
    by auto
  have av: "avail l' key now = (if key = k then min (rnd ?x) (burst l2) else avail l2 key now)"
    unfolding l' by (rule avail_charged [OF charged(3)])
  show ?thesis
  proof (cases "k = key")
    case False
    then show ?thesis using av same m d by simp
  next
    case True
    have a: "?a \<le> of_nat m" using m same True by simp
    have a0: "0 \<le> ?a" by (rule avail_nonneg [OF charged(3)])
    show ?thesis
    proof (cases "1 \<le> ?a")
      case allow: True
      then have "(1 :: rat) \<le> of_nat m" using a by linarith
      then have m1: "1 \<le> m" by simp
      have x: "0 \<le> rnd (?a - 1)" "rnd (?a - 1) \<le> of_nat (m - 1)"
        using debit_bounds [OF allow a m(2)] by auto
      then have "rnd (rnd (?a - 1)) \<le> of_nat (m - 1)"
        using m(2) by (intro f64.rd_le_nat [OF x]) auto
      with True allow m1 d av show ?thesis by simp
    next
      case deny: False
      have "rnd ?a \<le> of_nat m" using a a0 m(2) by (intro f64.rd_le_nat) auto
      with True deny d av show ?thesis by simp
    qed
  qed
qed

lemma run_allows_le:
  assumes "limiter_ok l" "now < 2 ^ 53 * 10 ^ 9" "avail l key now \<le> of_nat m" "m \<le> 2 ^ 32"
    "run_checks l (map (\<lambda>k. (k, now)) ks) = Some (ds, l')"
  shows "allows key ks ds \<le> m"
  using assms
proof (induction ks arbitrary: l m ds)
  case Nil
  then show ?case by (simp add: allows_def)
next
  case (Cons k ks)
  from Cons.prems(5) obtain d l1 ds1 where
      c: "check_serialized l k now = Some (d, l1)" and ds: "ds = d # ds1"
      and r: "run_checks l1 (map (\<lambda>k. (k, now)) ks) = Some (ds1, l')"
    by (auto split: option.splits)
  have ok1: "limiter_ok l1" using check_ok [OF Cons.prems(1), of k now] c by simp
  let ?m = "if k = key \<and> d = Allow then m - 1 else m"
  have s: "k = key \<and> d = Allow \<longrightarrow> 1 \<le> m" "avail l1 key now \<le> of_nat ?m"
    using check_avail_step [OF Cons.prems(1,2) c Cons.prems(3,4)] by auto
  have "allows key ks ds1 \<le> ?m"
    using Cons.prems(2,4) by (intro Cons.IH [OF ok1 _ s(2) _ r]) auto
  with s(1) ds show ?case by (auto simp: allows_def)
qed

subsection \<open>What may not be forgotten\<close>

text \<open>
  The buckets that are not safe to forget at an instant. They decide every check: whether a table
  also holds buckets that could be forgotten makes no difference, even when the table is full.
\<close>

definition remembered :: "rate_limiter \<Rightarrow> nat \<Rightarrow> bucket option \<Rightarrow> bucket option" where
  "remembered l t found = Option.bind found (\<lambda>b. if safe_to_forget l b t then None else Some b)"

definition live :: "rate_limiter \<Rightarrow> nat \<Rightarrow> string \<Rightarrow> bucket option" where
  "live l t key = remembered l t (map_of (buckets l) key)"

definition verdict :: "rate_limiter \<Rightarrow> (string \<Rightarrow> bucket option) \<Rightarrow> string \<Rightarrow> nat \<Rightarrow> decision \<times> bucket option" where
  "verdict l table key t =
     (case table key of
        None \<Rightarrow> if max_buckets l \<le> card (dom table) then (Deny 1, None)
                else (Allow, Some \<lparr>tokens = rnd (burst l - 1), last_seen = t\<rparr>)
      | Some b \<Rightarrow> let a = refill l b t
                  in if 1 \<le> a then (Allow, Some \<lparr>tokens = rnd (a - 1), last_seen = t\<rparr>)
                     else (Deny (retry_after l a), Some \<lparr>tokens = a, last_seen = t\<rparr>))"

lemma safe_cong:
  "burst l = burst l' \<Longrightarrow> per_second l = per_second l' \<Longrightarrow> safe_to_forget l b t = safe_to_forget l' b t"
  by (simp add: safe_to_forget_def)

lemma remembered_cong:
  "burst l = burst l' \<Longrightarrow> per_second l = per_second l' \<Longrightarrow> remembered l t f = remembered l' t f"
  by (simp add: remembered_def safe_cong [of l l'])

lemma live_retain: "limiter_ok l \<Longrightarrow> map_of (buckets (retain_unsafe l t)) = live l t"
  by (intro ext)
     (auto simp: live_def remembered_def retain_unsafe_def filter_lookup limiter_okD(1)
       intro!: arg_cong2 [where f = Option.bind])

lemma live_card:
  assumes "limiter_ok l"
  shows "length (buckets (retain_unsafe l t)) = card (dom (live l t))"
proof -
  have "distinct (map fst (buckets (retain_unsafe l t)))" by (rule limiter_okD(1) [OF retain_ok [OF assms]])
  then have "length (map fst (buckets (retain_unsafe l t))) = card (set (map fst (buckets (retain_unsafe l t))))"
    by (rule distinct_card [symmetric])
  then show ?thesis by (simp add: live_retain [OF assms, symmetric] dom_map_of_conv_image_fst)
qed

lemma live_known:
  assumes "limiter_ok l" "map_of (buckets l) key \<noteq> None" "live l t key = None"
  shows "card (dom (live l t)) < max_buckets l"
proof -
  obtain b where b: "map_of (buckets l) key = Some b" "safe_to_forget l b t"
    using assms(2,3) by (auto simp: live_def remembered_def split: if_splits)
  then have "length (buckets (retain_unsafe l t)) < length (buckets l)"
    using map_of_SomeD [OF b(1)] unfolding retain_unsafe_def by (auto intro!: length_filter_less)
  then show ?thesis using limiter_okD(4) [OF assms(1)] by (simp add: live_card [OF assms(1)])
qed

lemma live_later:
  assumes "limiter_ok l" "t \<le> t'" "t' < 2 ^ 53 * 10 ^ 9"
  shows "remembered l t' (live l t key) = live l t' key"
  using assms safe_later [OF assms(1) _ _ assms(2,3)] limiter_okD(5) [OF assms(1)]
  by (cases "map_of (buckets l) key") (auto simp: live_def remembered_def bucket_ok_def)

lemma live_clock [simp]: "live (l\<lparr>clock := c\<rparr>) t = live l t"
  by (simp add: live_def remembered_cong [of "l\<lparr>clock := c\<rparr>" l] fun_eq_iff)

text \<open>The rows that may not be forgotten at a later instant, after a check.\<close>

definition live_after :: "rate_limiter \<Rightarrow> (string \<Rightarrow> bucket option) \<Rightarrow> string \<Rightarrow> nat \<Rightarrow> nat \<Rightarrow> string \<Rightarrow> bucket option" where
  "live_after l table key t t' j =
     remembered l t' (case snd (verdict l table key t) of None \<Rightarrow> table j | Some b \<Rightarrow> if j = key then Some b else table j)"

definition same_settings :: "rate_limiter \<Rightarrow> rate_limiter \<Rightarrow> bool" where
  "same_settings l m \<longleftrightarrow> burst l = burst m \<and> per_second l = per_second m \<and> max_buckets l = max_buckets m"

lemma verdict_cong: "same_settings l m \<Longrightarrow> verdict l table key t = verdict m table key t"
  using refill_cong [of l m] by (simp add: verdict_def same_settings_def retry_after_def Let_def split: option.split)

lemma live_after_cong: "same_settings l m \<Longrightarrow> live_after l table key t t' = live_after m table key t t'"
proof -
  assume same: "same_settings l m"
  then have "burst l = burst m" "per_second l = per_second m" by (simp_all add: same_settings_def)
  from remembered_cong [OF this] show ?thesis
    by (simp add: live_after_def verdict_cong [OF same] fun_eq_iff)
qed

lemma avail_live:
  assumes "limiter_ok l" "t < 2 ^ 53 * 10 ^ 9"
  shows "avail l key t = (case live l t key of None \<Rightarrow> burst l | Some b \<Rightarrow> refill l b t)"
proof (cases "map_of (buckets l) key")
  case (Some b)
  then have "0 \<le> tokens b" using limiter_okD(5) [OF assms(1)] by (simp add: bucket_ok_def)
  then have "safe_to_forget l b t \<Longrightarrow> refill l b t = burst l" using safe_bucket_full assms by blast
  then show ?thesis using Some by (simp add: avail_def live_def remembered_def)
qed (simp add: avail_def live_def remembered_def)

lemma check_live:
  assumes ok: "limiter_ok l" and t: "clock l \<le> t" "t < 2 ^ 53 * 10 ^ 9"
  shows "\<exists>l'. check_serialized l key t = Some (fst (verdict l (live l t) key t), l') \<and> limiter_ok l' \<and> clock l' = t
    \<and> same_settings l l' \<and> (\<forall>t'. t \<le> t' \<and> t' < 2 ^ 53 * 10 ^ 9 \<longrightarrow> live l' t' = live_after l (live l t) key t t')"
proof -
  let ?l1 = "l\<lparr>clock := t\<rparr>" let ?r = "retain_unsafe ?l1 t" and ?table = "live l t"
  have ok1: "limiter_ok ?l1" using ok t(1) by (rule clock_forward_ok)
  have r: "map_of (buckets ?r) = ?table" "length (buckets ?r) = card (dom ?table)"
    using live_retain [OF ok1, of t] live_card [OF ok1, of t] by simp_all
  show ?thesis
  proof (cases rule: check_cases [OF ok, of t key, case_names rewind full charged])
    case (full l2)
    have none: "?table key = None" using full(3) by (simp add: live_def remembered_def)
    then have v: "verdict l ?table key t = (Deny 1, None)" using full(2,6) r(2) by (simp add: verdict_def)
    have "live l2 t' = live_after l ?table key t t'" for t'
      using full(2) r(1) remembered_cong [of l2 l] by (simp add: live_after_def v live_def fun_eq_iff)
    then show ?thesis using full v by (intro exI [of _ l2]) (simp add: same_settings_def)
  next
    case (charged l2)
    have settings: "same_settings l l2" "burst l2 = burst l" using charged(2) by (auto simp: same_settings_def)
    have known: "map_of (buckets l2) j = None \<Longrightarrow> ?table j = None" for j
      using charged(2) r(1) by (auto simp: live_def remembered_def)
    have rest: "remembered l t' (map_of (buckets l2) j) = remembered l t' (?table j)"
      if "t \<le> t'" "t' < 2 ^ 53 * 10 ^ 9" for j t'
      using charged(2) r(1) live_later [OF ok that, of j] by (auto simp: live_def)
    have avail: "avail l2 key t = (case ?table key of None \<Rightarrow> burst l | Some b \<Rightarrow> refill l b t)"
      using charged(2) avail_retain [OF ok1 _ t(2), of t key] avail_live [OF ok t(2), of key] by auto
    have room: "card (dom ?table) < max_buckets l" if "?table key = None"
    proof (cases "map_of (buckets l) key")
      case None
      then have "length (buckets l2) < max_buckets l"
        using charged(2,5) r(1) that by auto
      moreover have "card (dom ?table) \<le> length (buckets l2)"
        using charged(2) r(2) length_filter_le [of "\<lambda>(k, b). \<not> safe_to_forget ?l1 b t" "buckets l"]
        by (auto simp: retain_unsafe_def)
      ultimately show ?thesis by simp
    qed (use live_known [OF ok _ that] in simp)
    let ?d = "fst (verdict l ?table key t)"
    let ?a = "avail l2 key t" and ?tokens = "if 1 \<le> avail l2 key t then rnd (avail l2 key t - 1) else avail l2 key t"
    let ?b = "\<lparr>tokens = ?tokens, last_seen = t\<rparr>"
    have retry: "retry_after l2 = retry_after l"
      using settings(1) by (simp add: retry_after_def same_settings_def fun_eq_iff)
    have "verdict l ?table key t = (if 1 \<le> ?a then Allow else Deny (retry_after l ?a), Some ?b)"
      using room limiter_okD(3) [OF ok] avail by (cases "?table key") (simp_all add: verdict_def Let_def)
    then obtain b where b: "snd (verdict l ?table key t) = Some b"
        "charge l2 key t = Some (?d, l2\<lparr>buckets := AList.update key b (buckets l2)\<rparr>)"
      using charge_avail [OF charged(3,4,5)] retry by auto
    let ?l' = "l2\<lparr>buckets := AList.update key b (buckets l2)\<rparr>"
    have check: "check_serialized l key t = Some (?d, ?l')" using charged(6) b(2) by simp
    then have "limiter_ok ?l'" using check_ok [OF ok, of key t] by simp
    moreover have "live ?l' t' = live_after l ?table key t t'" if "t \<le> t'" "t' < 2 ^ 53 * 10 ^ 9" for t'
      using rest [OF that] b(1) settings remembered_cong [of ?l' l] remembered_cong [of l2 l]
      by (simp add: live_def live_after_def update_conv' same_settings_def fun_eq_iff)
    ultimately show ?thesis using check charged(4) settings(1)
      by (intro exI [of _ ?l']) (simp add: same_settings_def)
  qed (use t in simp)
qed

text \<open>Limiters that remember the same decide the same, request after request.\<close>

lemma runs_alike:
  assumes "limiter_ok l" "limiter_ok m" "clock l = clock m" "same_settings l m"
    "\<forall>t. clock l \<le> t \<and> t < 2 ^ 53 * 10 ^ 9 \<longrightarrow> live l t = live m t"
    "\<forall>r\<in>set rs. snd r < 2 ^ 53 * 10 ^ 9"
  shows "\<exists>ds l' m'. run_checks l rs = Some (ds, l') \<and> run_checks m rs = Some (ds, m')"
  using assms
proof (induction rs arbitrary: l m)
  case (Cons r rs)
  obtain key t where r: "r = (key, t)" by fastforce
  show ?case
  proof (cases "t < clock l")
    case True
    then have "check_serialized l key t = Some (Deny 1, l)" "check_serialized m key t = Some (Deny 1, m)"
      using Cons.prems(3) by (simp_all add: check_serialized_def)
    moreover obtain ds l' m' where "run_checks l rs = Some (ds, l')" "run_checks m rs = Some (ds, m')"
      using Cons.IH [OF Cons.prems(1-5)] Cons.prems(6) by auto
    ultimately show ?thesis using r by simp
  next
    case False
    then have t: "clock l \<le> t" "clock m \<le> t" "t < 2 ^ 53 * 10 ^ 9" using Cons.prems(3,6) r by auto
    obtain l1 where l: "check_serialized l key t = Some (fst (verdict l (live l t) key t), l1)" "limiter_ok l1"
        "clock l1 = t" "same_settings l l1"
        "\<forall>t'. t \<le> t' \<and> t' < 2 ^ 53 * 10 ^ 9 \<longrightarrow> live l1 t' = live_after l (live l t) key t t'"
      using check_live [OF Cons.prems(1) t(1,3), of key] by blast
    obtain m1 where m: "check_serialized m key t = Some (fst (verdict m (live m t) key t), m1)" "limiter_ok m1"
        "clock m1 = t" "same_settings m m1"
        "\<forall>t'. t \<le> t' \<and> t' < 2 ^ 53 * 10 ^ 9 \<longrightarrow> live m1 t' = live_after m (live m t) key t t'"
      using check_live [OF Cons.prems(2) t(2,3), of key] by blast
    have same: "live m t = live l t" using Cons.prems(5) t by simp
    have "same_settings l1 m1" using l(4) m(4) Cons.prems(4) by (simp add: same_settings_def)
    moreover have "\<forall>t'. clock l1 \<le> t' \<and> t' < 2 ^ 53 * 10 ^ 9 \<longrightarrow> live l1 t' = live m1 t'"
      using l(3,5) m(5) same live_after_cong [OF Cons.prems(4)] by simp
    ultimately obtain ds l' m' where "run_checks l1 rs = Some (ds, l')" "run_checks m1 rs = Some (ds, m')"
      using Cons.IH [OF l(2) m(2)] l(3) m(3) Cons.prems(6) by auto
    then show ?thesis using r l(1) m(1) same verdict_cong [OF Cons.prems(4)] by simp
  qed
qed simp

lemma run_from_clock:
  assumes "clock l \<le> s" "\<forall>r\<in>set rs. s \<le> snd r"
  shows "map_option fst (run_checks (l\<lparr>clock := s\<rparr>) rs) = map_option fst (run_checks l rs)"
proof (cases rs)
  case (Cons r rest)
  obtain key t where r: "r = (key, t)" by fastforce
  then have "check_serialized (l\<lparr>clock := s\<rparr>) key t = check_serialized l key t"
    using assms Cons by (auto simp: check_serialized_def)
  then show ?thesis using Cons r by simp
qed simp

subsection \<open>Properties\<close>

text \<open>In every limiter reachable from start-up by checks and sweeps at arbitrary instants, a
  check never panics and the limiter stays well formed: balances within zero and the burst
  ceiling, at most the configured number of buckets, and a clock that never moves backwards.\<close>

theorem reachable_check_never_panics:
  assumes "reachable l"
  shows "\<exists>d l'. check_serialized l key now = Some (d, l') \<and> limiter_ok l' \<and> clock l \<le> clock l'
    \<and> (now < clock l \<longrightarrow> d = Deny 1 \<and> l' = l)"
proof -
  have ok: "limiter_ok l" using assms by (rule reachable_ok)
  obtain d l' where c: "check_serialized l key now = Some (d, l')" "limiter_ok l'" "clock l \<le> clock l'"
    using check_ok [OF ok] by blast
  moreover have "now < clock l \<longrightarrow> d = Deny 1 \<and> l' = l"
    using c(1) by (auto simp: check_serialized_def)
  ultimately show ?thesis by blast
qed

theorem reachable_check_never_panics_witness:
  "\<exists>d l'. check_serialized (new_with_limit 0 3 (Finite 1) 2) ''tok'' 5 = Some (d, l') \<and> limiter_ok l'"
  using reachable_check_never_panics [OF reachable.start, of 3 0 "Finite 1" 2 "''tok''" 5] by auto

text \<open>C18. The burst ceiling: among any sequence of requests at one instant, of any credentials in
  any order, one credential is allowed at most the configured burst.\<close>

theorem burst_ceiling:
  assumes "reachable l" and "now < 2 ^ 53 * 10 ^ 9" and "burst l = of_nat n"
    and "run_checks l (map (\<lambda>k. (k, now)) ks) = Some (ds, l')"
  shows "allows key ks ds \<le> n"
proof -
  have ok: "limiter_ok l" using assms(1) by (rule reachable_ok)
  then have "n \<le> 2 ^ 32" using assms(3) by (elim burst_nat) simp
  then show ?thesis
    using assms avail_le_burst [OF ok] by (intro run_allows_le [OF ok assms(2) _ _ assms(4)]) auto
qed

lemma run_checks_total: "limiter_ok l \<Longrightarrow> \<exists>ds l'. run_checks l rs = Some (ds, l')"
proof (induction rs arbitrary: l)
  case (Cons r rs)
  obtain k t where r: "r = (k, t)" by fastforce
  obtain d l1 where c: "check_serialized l k t = Some (d, l1)" "limiter_ok l1"
    using check_ok [OF Cons.prems] by blast
  then obtain ds l' where "run_checks l1 rs = Some (ds, l')" using Cons.IH by blast
  with c r show ?case by simp
qed simp

theorem burst_ceiling_witness:
  "\<exists>ds l'. run_checks (new_with_limit 0 2 (Finite 1) 9) (map (\<lambda>k. (k, 7)) [''a'', ''b'', ''a'', ''a''])
      = Some (ds, l') \<and> allows ''a'' [''a'', ''b'', ''a'', ''a''] ds \<le> 2"
proof -
  let ?l = "new_with_limit 0 2 (Finite 1) 9"
  have r: "reachable ?l" by (rule reachable.start) simp
  obtain ds l' where
    run: "run_checks ?l (map (\<lambda>k. (k, 7)) [''a'', ''b'', ''a'', ''a'']) = Some (ds, l')"
    using run_checks_total [OF reachable_ok [OF r]] by blast
  have b: "burst ?l = of_nat 2" by (simp add: new_with_limit_def)
  show ?thesis using run burst_ceiling [OF r _ b run] by simp
qed

text \<open>C19. Eviction is invisible: sweeping idle buckets at any instant changes no decision of any later
  check. For every reachable limiter, and every sequence of requests of any credentials at instants
  not before the sweep (below the 53 bits of seconds that a double holds exactly), the swept
  limiter and the limiter that was not swept answer the whole sequence alike; this includes
  credentials that are new when the table is full. So spent capacity is never forgotten before it
  has fully refilled.\<close>

theorem sweep_is_invisible:
  assumes "reachable l" and "\<forall>(key, t)\<in>set requests. s \<le> t \<and> t < 2 ^ 53 * 10 ^ 9"
  shows "\<exists>ds l' m'. run_checks l requests = Some (ds, l')
    \<and> run_checks (sweep_serialized l s) requests = Some (ds, m')"
proof -
  have ok: "limiter_ok l" using assms(1) by (rule reachable_ok)
  show ?thesis
  proof (cases "s < clock l")
    case True
    then show ?thesis using run_checks_total [OF ok, of requests] by (simp add: sweep_serialized_def)
  next
    case False
    let ?l1 = "l\<lparr>clock := s\<rparr>" let ?w = "retain_unsafe ?l1 s"
    have ok1: "limiter_ok ?l1" using ok False by (simp add: clock_forward_ok)
    have "live ?w t = live ?l1 t" if "s \<le> t" "t < 2 ^ 53 * 10 ^ 9" for t
      using live_retain [OF ok1, of s] live_later [OF ok1 that] remembered_cong [of ?w ?l1]
      by (simp add: live_def [of ?w] fun_eq_iff)
    moreover have "same_settings ?w ?l1" by (simp add: same_settings_def)
    ultimately obtain ds m' l' where run: "run_checks ?w requests = Some (ds, m')" "run_checks ?l1 requests = Some (ds, l')"
      using runs_alike [OF retain_ok [OF ok1] ok1, of s requests] assms(2) by fastforce
    have "map_option fst (run_checks ?l1 requests) = map_option fst (run_checks l requests)"
      using False assms(2) by (intro run_from_clock) auto
    then obtain l'' where "run_checks l requests = Some (ds, l'')"
      using run(2) by (cases "run_checks l requests") auto
    then show ?thesis using run(1) False by (simp add: sweep_serialized_def)
  qed
qed

text \<open>A table of one bucket whose credential has spent its burst; ten minutes later the sweep drops it, and
  another credential then finds room either way.\<close>

theorem sweep_is_invisible_witness:
  "\<exists>l ds l' m'. buckets l \<noteq> [] \<and> max_buckets l = length (buckets l) \<and> buckets (sweep_serialized l (600 * 10 ^ 9)) = []
     \<and> run_checks l [(''b'', 600 * 10 ^ 9), (''a'', 601 * 10 ^ 9)] = Some (ds, l')
     \<and> run_checks (sweep_serialized l (600 * 10 ^ 9)) [(''b'', 600 * 10 ^ 9), (''a'', 601 * 10 ^ 9)] = Some (ds, m')"
proof -
  let ?start = "new_with_limit 0 1 (Finite 1) 1"
  let ?l = "?start\<lparr>buckets := [(''a'', \<lparr>tokens = 0, last_seen = 0\<rparr>)]\<rparr>"
  have fresh: "refill ?start \<lparr>tokens = 1, last_seen = 0\<rparr> 0 = 1"
    by (simp add: refill_def new_with_limit_def)
  have "check_serialized ?start ''a'' 0 = Some (Allow, ?l)"
    using fresh by (simp add: check_serialized_def charge_def new_with_limit_def)
  then have l: "reachable ?l" by (rule reachable.check [OF reachable.start, rotated]) simp
  have six: "rnd 600 = 600" using f64.rd_nat [of 600] by simp
  then have "as_secs_f64 (600 * 10 ^ 9) = 600" by (simp add: as_secs_f64_def)
  then have "buckets (sweep_serialized ?l (600 * 10 ^ 9)) = []"
    using six
    by (simp add: sweep_serialized_def retain_unsafe_def safe_to_forget_def IDLE_EVICTION_def new_with_limit_def)
  then show ?thesis
    using sweep_is_invisible [OF l, of "[(''b'', 600 * 10 ^ 9), (''a'', 601 * 10 ^ 9)]" "600 * 10 ^ 9"]
    by (intro exI [of _ ?l]) (simp add: new_with_limit_def)
qed

text \<open>A refusal always tells the caller to wait at least one second, and the advertised delay
  fits the 64-bit field.\<close>

theorem deny_backs_off:
  assumes "check_serialized l key now = Some (Deny s, l')"
  shows "1 \<le> s \<and> s \<le> u64_max"
proof -
  have "1 \<le> retry_after v x \<and> retry_after v x \<le> u64_max" for v x
    by (auto simp: retry_after_def u64_max_def)
  then show ?thesis
    using assms
    by (auto simp: check_serialized_def charge_def Let_def u64_max_def split: if_splits)
qed

theorem deny_backs_off_witness:
  "check_serialized (new_with_limit 9 2 NaN 9) ''a'' 7 = Some (Deny 1, new_with_limit 9 2 NaN 9)
   \<and> (1::nat) \<le> 1 \<and> 1 \<le> u64_max"
proof -
  have c: "check_serialized (new_with_limit 9 2 NaN 9) ''a'' 7 = Some (Deny 1, new_with_limit 9 2 NaN 9)"
    by (simp add: check_serialized_def new_with_limit_def)
  show ?thesis using c deny_backs_off [OF c] by simp
qed

end
