(* ===== verification/ApiError.thy ===== *)
theory ApiError
  imports Prelude
begin

section \<open>Error values of the handlers (\<^verbatim>\<open>src/error.rs\<close>)\<close>

text \<open>
  Every handler fails with an \<open>ApiErr\<close>: an HTTP status, a stable code and a message. The
  constructors and the conversions from database and internal errors are one definition each;
  \<open>into_response\<close> is the only place an error becomes a response.
\<close>

record api_err =
  status :: nat
  err_code :: string
  message :: string

type_synonym 'a api_result = "api_err + 'a"

type_synonym uuid = "128 word"

definition api_err :: "nat \<Rightarrow> string \<Rightarrow> string \<Rightarrow> api_err" where
  "api_err s c m = \<lparr>status = s, err_code = c, message = m\<rparr>"

definition not_found :: "string \<Rightarrow> api_err" where
  "not_found what = api_err 404 ''not_found'' (what @ '' not found'')"

definition bad_request :: "string \<Rightarrow> string \<Rightarrow> api_err" where
  "bad_request c m = api_err 400 c m"

definition unauthorized :: api_err where
  "unauthorized = api_err 401 ''unauthorized'' ''missing or invalid bearer token''"

definition forbidden :: "string \<Rightarrow> string \<Rightarrow> api_err" where
  "forbidden c m = api_err 403 c m"

definition conflict :: "string \<Rightarrow> string \<Rightarrow> api_err" where
  "conflict c m = api_err 409 c m"

definition service_unavailable :: "string \<Rightarrow> string \<Rightarrow> api_err" where
  "service_unavailable c m = api_err 503 c m"

text \<open>\<open>From<DbErr>\<close> and \<open>From<anyhow::Error>\<close>: the cause is logged, never shown.\<close>

definition from_db_err :: api_err where
  "from_db_err = api_err 500 ''internal'' ''internal database error''"

definition from_anyhow :: api_err where
  "from_anyhow = api_err 500 ''internal'' ''internal error''"

record http_response =
  resp_status :: nat
  resp_headers :: "(string \<times> string) list"
  resp_body :: "string \<times> string"

definition into_response :: "api_err \<Rightarrow> http_response" where
  "into_response e =
     \<lparr>resp_status = status e,
      resp_headers = [(''content-type'', ''application/json''),
                      (''cache-control'', ''private, no-store'')],
      resp_body = (err_code e, message e)\<rparr>"

lemmas api_err_defs =
  api_err_def not_found_def bad_request_def unauthorized_def forbidden_def conflict_def
  service_unavailable_def from_db_err_def from_anyhow_def

lemma err_status [simp]:
  "status (not_found w) = 404" "status (bad_request c m) = 400" "status unauthorized = 401"
  "status (forbidden c m) = 403" "status (conflict c m) = 409"
  "status (service_unavailable c m) = 503" "status from_db_err = 500" "status from_anyhow = 500"
  by (simp_all add: api_err_defs)

lemma err_code [simp]:
  "err_code (not_found w) = ''not_found''" "err_code (bad_request c m) = c"
  "err_code unauthorized = ''unauthorized''" "err_code (forbidden c m) = c"
  "err_code (conflict c m) = c" "err_code (service_unavailable c m) = c"
  "err_code from_db_err = ''internal''" "err_code from_anyhow = ''internal''"
  by (simp_all add: api_err_defs)

end
