(* ===== verification/Database.thy ===== *)
theory Database
  imports ApiError
begin

section \<open>The relational schema (\<^verbatim>\<open>src/entities\<close>, \<^verbatim>\<open>migration/src\<close>)\<close>

text \<open>
  One record per SeaORM entity, one list per table and one function per kind of write the handlers
  issue. A write checks what the schema declares: primary keys and unique indexes raise
  \<open>UniqueConstraintViolation\<close>, foreign keys and updates of a missing row raise another
  database error. The locale \<open>keyed_table\<close> states once what a table with unique keys promises
  and is interpreted for every table.
\<close>

subsection \<open>Column types\<close>

text \<open>JSON columns; numbers keep their spelling. Instants are microseconds since the epoch.\<close>

datatype json =
    JNull
  | JBool bool
  | JNumber string
  | JString string
  | JArray "json list"
  | JObject "(string \<times> json) list"

type_synonym datetime = int

subsection \<open>Rows\<close>

record org_row =
  o_id :: uuid
  o_slug :: string
  o_created_at :: datetime
  o_created_by_token :: "uuid option"

record token_row =
  t_id :: uuid
  t_name :: string
  t_token_hash :: string
  t_org_id :: "uuid option"
  t_role :: string
  t_created_at :: datetime
  t_expires_at :: "datetime option"
  t_revoked_at :: "datetime option"

record package_row =
  p_id :: uuid
  p_org_id :: uuid
  p_name :: string
  p_description :: "string option"
  p_vcs :: string
  p_repo_url :: string
  p_version_scheme :: string
  p_tags :: json
  p_created_at :: datetime
  p_index_sequence :: int
  p_signed_index :: "json option"

record version_row =
  v_id :: uuid
  v_package_id :: uuid
  v_version :: string
  v_sha256 :: string
  v_size :: int
  v_format :: string
  v_vcs_tag :: string
  v_vcs_commit :: "string option"
  v_artifact_key :: string
  v_yanked :: bool
  v_published_at :: datetime
  v_mirrors :: json
  v_signatures :: json

record retirement_row =
  r_version_id :: uuid
  r_reason :: string
  r_message :: string
  r_retired_at :: datetime

record key_row =
  k_id :: uuid
  k_org_id :: uuid
  k_key_id :: string
  k_algorithm :: string
  k_public_key_multibase :: string
  k_state :: string
  k_revoked_reason :: "string option"
  k_enrolled_at :: datetime

record audit_row =
  a_id :: uuid
  a_org_id :: uuid
  a_at :: datetime
  a_action :: string
  a_subject :: string
  a_actor_token_id :: "uuid option"
  a_actor_token_name :: string
  a_actor_role :: string
  a_detail :: "string option"
  a_seq :: int
  a_entry_hash :: string
  a_prev_hash :: "string option"

record db =
  orgs :: "org_row list"
  tokens :: "token_row list"
  packages :: "package_row list"
  versions :: "version_row list"
  retirements :: "retirement_row list"
  publisher_keys :: "key_row list"
  audit_log :: "audit_row list"

definition empty_db :: db where
  "empty_db = \<lparr>orgs = [], tokens = [], packages = [], versions = [], retirements = [],
     publisher_keys = [], audit_log = []\<rparr>"

subsection \<open>Unique keys\<close>

text \<open>Two rows clash when they share a primary key or a unique index entry.\<close>

definition org_clash :: "org_row \<Rightarrow> org_row \<Rightarrow> bool" where
  "org_clash a b \<longleftrightarrow> o_id a = o_id b \<or> o_slug a = o_slug b"

definition token_clash :: "token_row \<Rightarrow> token_row \<Rightarrow> bool" where
  "token_clash a b \<longleftrightarrow> t_id a = t_id b \<or> t_token_hash a = t_token_hash b"

definition package_clash :: "package_row \<Rightarrow> package_row \<Rightarrow> bool" where
  "package_clash a b \<longleftrightarrow> p_id a = p_id b \<or> p_org_id a = p_org_id b \<and> p_name a = p_name b"

definition version_clash :: "version_row \<Rightarrow> version_row \<Rightarrow> bool" where
  "version_clash a b \<longleftrightarrow>
     v_id a = v_id b \<or> v_package_id a = v_package_id b \<and> v_version a = v_version b"

definition key_clash :: "key_row \<Rightarrow> key_row \<Rightarrow> bool" where
  "key_clash a b \<longleftrightarrow> k_id a = k_id b \<or> k_org_id a = k_org_id b \<and> k_key_id a = k_key_id b"

definition audit_clash :: "audit_row \<Rightarrow> audit_row \<Rightarrow> bool" where
  "audit_clash a b \<longleftrightarrow> a_id a = a_id b \<or> a_org_id a = a_org_id b \<and> a_seq a = a_seq b"

lemmas clash_defs =
  org_clash_def token_clash_def package_clash_def version_clash_def key_clash_def audit_clash_def

definition keyed :: "('r \<Rightarrow> 'r \<Rightarrow> bool) \<Rightarrow> 'r list \<Rightarrow> bool" where
  "keyed clash rows \<longleftrightarrow> sorted_wrt (\<lambda>a b. \<not> clash a b) rows"

datatype db_err = UniqueConstraintViolation | RecordNotUpdated | ForeignKeyViolation | ConnectionLost

definition insert_row :: "('r \<Rightarrow> 'r \<Rightarrow> bool) \<Rightarrow> 'r \<Rightarrow> 'r list \<Rightarrow> db_err + 'r list" where
  "insert_row clash row rows =
     (if list_ex (clash row) rows then Inl UniqueConstraintViolation else Inr (rows @ [row]))"

definition update_row :: "('r \<Rightarrow> uuid) \<Rightarrow> uuid \<Rightarrow> ('r \<Rightarrow> 'r) \<Rightarrow> 'r list \<Rightarrow> db_err + 'r list" where
  "update_row pk i f rows =
     (if list_ex (\<lambda>row. pk row = i) rows
      then Inr (map (\<lambda>row. if pk row = i then f row else row) rows)
      else Inl RecordNotUpdated)"

locale keyed_table =
  fixes clash :: "'r \<Rightarrow> 'r \<Rightarrow> bool" and pk :: "'r \<Rightarrow> uuid"
  assumes clash_sym: "clash a b \<Longrightarrow> clash b a"
    and clash_pk: "pk a = pk b \<Longrightarrow> clash a b"
begin

lemma keyed_insert:
  assumes "keyed clash rows" "insert_row clash row rows = Inr rows'"
  shows "keyed clash rows' \<and> rows' = rows @ [row]"
proof -
  have rows': "rows' = rows @ [row]" and "\<forall>x\<in>set rows. \<not> clash row x"
    using assms(2) by (auto simp: insert_row_def list_ex_iff split: if_splits)
  then have "\<forall>x\<in>set rows. \<not> clash x row" using clash_sym by blast
  then show ?thesis using assms(1) rows' by (simp add: keyed_def sorted_wrt_append)
qed

lemma keyed_unique:
  assumes "keyed clash rows" "a \<in> set rows" "b \<in> set rows" "clash a b"
  shows "a = b"
  using assms
proof (induction rows)
  case (Cons r rows)
  have "\<forall>x\<in>set rows. \<not> clash r x \<and> \<not> clash x r"
    using Cons.prems(1) clash_sym by (auto simp: keyed_def)
  with Cons show ?case by (auto simp: keyed_def)
qed simp

lemma keyed_distinct: "keyed clash rows \<Longrightarrow> distinct rows"
  by (induction rows) (auto simp: keyed_def clash_pk)

lemma keyed_update:
  assumes ok: "keyed clash rows" and upd: "update_row pk i f rows = Inr rows'"
    and same: "\<And>row other. clash (f row) other = clash row other"
  shows "keyed clash rows'"
proof -
  let ?g = "\<lambda>row. if pk row = i then f row else row"
  have "clash (?g a) (?g b) = clash a b" for a b
    using same clash_sym by (smt (verit))
  then have "keyed clash (map ?g rows)"
    using ok by (simp add: keyed_def sorted_wrt_map)
  then show ?thesis using upd by (auto simp: update_row_def split: if_splits)
qed

lemma keyed_find:
  assumes "keyed clash rows" "row \<in> set rows" "P row"
    and "\<And>other. P other \<Longrightarrow> clash row other"
  shows "List.find P rows = Some row"
proof (cases "List.find P rows")
  case None
  then show ?thesis using assms(2,3) by (auto simp: find_None_iff')
next
  case (Some r)
  then have "r \<in> set rows" "P r" by (auto dest: find_Some_iff')
  then show ?thesis using keyed_unique assms Some by metis
qed

end

interpretation org_table: keyed_table org_clash o_id
  by unfold_locales (auto simp: clash_defs)

interpretation token_table: keyed_table token_clash t_id
  by unfold_locales (auto simp: clash_defs)

interpretation package_table: keyed_table package_clash p_id
  by unfold_locales (auto simp: clash_defs)

interpretation version_table: keyed_table version_clash v_id
  by unfold_locales (auto simp: clash_defs)

interpretation key_table: keyed_table key_clash k_id
  by unfold_locales (auto simp: clash_defs)

interpretation audit_table: keyed_table audit_clash a_id
  by unfold_locales (auto simp: clash_defs)

subsection \<open>Writes\<close>

text \<open>
  The writes the handlers issue. An update names the row by primary key and the columns that were
  set (SeaORM writes only those); the upsert is \<open>INSERT \<dots> ON CONFLICT (org\_id, name) DO
  UPDATE\<close>.
\<close>

datatype db_write =
    InsertOrg org_row
  | InsertToken token_row
  | SetTokenRevoked uuid "datetime option"
  | UpsertPackage package_row
  | SetPackageSequence uuid int
  | SetPackageIndex uuid "json option" int
  | InsertVersion version_row
  | SetVersionYanked uuid bool
  | InsertKey key_row
  | SetKeyState uuid string "string option"
  | InsertAudit audit_row

definition refresh_package :: "package_row \<Rightarrow> package_row \<Rightarrow> package_row" where
  "refresh_package new old =
     old\<lparr>p_description := p_description new, p_vcs := p_vcs new, p_repo_url := p_repo_url new,
         p_version_scheme := p_version_scheme new, p_tags := p_tags new\<rparr>"

definition same_package_key :: "package_row \<Rightarrow> package_row \<Rightarrow> bool" where
  "same_package_key a b \<longleftrightarrow> p_org_id a = p_org_id b \<and> p_name a = p_name b"

definition upsert_row :: "package_row \<Rightarrow> package_row list \<Rightarrow> db_err + package_row list" where
  "upsert_row row rows =
     (if list_ex (same_package_key row) rows
      then Inr (map (\<lambda>old. if same_package_key row old then refresh_package row old else old) rows)
      else insert_row package_clash row rows)"

definition has_org :: "db \<Rightarrow> uuid \<Rightarrow> bool" where
  "has_org d i \<longleftrightarrow> list_ex (\<lambda>r. o_id r = i) (orgs d)"

definition has_token :: "db \<Rightarrow> uuid \<Rightarrow> bool" where
  "has_token d i \<longleftrightarrow> list_ex (\<lambda>r. t_id r = i) (tokens d)"

definition has_package :: "db \<Rightarrow> uuid \<Rightarrow> bool" where
  "has_package d i \<longleftrightarrow> list_ex (\<lambda>r. p_id r = i) (packages d)"

definition fk :: "bool \<Rightarrow> db_err + 'a \<Rightarrow> db_err + 'a" where
  "fk present r = (if present then r else Inl ForeignKeyViolation)"

fun apply_write :: "db_write \<Rightarrow> db \<Rightarrow> db_err + db" where
  "apply_write (InsertOrg r) d =
     fk (case o_created_by_token r of None \<Rightarrow> True | Some t \<Rightarrow> has_token d t)
       (bind_r (insert_row org_clash r (orgs d)) (\<lambda>rs. Inr (d\<lparr>orgs := rs\<rparr>)))"
| "apply_write (InsertToken r) d =
     fk (case t_org_id r of None \<Rightarrow> True | Some i \<Rightarrow> has_org d i)
       (bind_r (insert_row token_clash r (tokens d)) (\<lambda>rs. Inr (d\<lparr>tokens := rs\<rparr>)))"
| "apply_write (SetTokenRevoked i at) d =
     bind_r (update_row t_id i (\<lambda>r. r\<lparr>t_revoked_at := at\<rparr>) (tokens d)) (\<lambda>rs. Inr (d\<lparr>tokens := rs\<rparr>))"
| "apply_write (UpsertPackage r) d =
     fk (has_org d (p_org_id r))
       (bind_r (upsert_row r (packages d)) (\<lambda>rs. Inr (d\<lparr>packages := rs\<rparr>)))"
| "apply_write (SetPackageSequence i n) d =
     bind_r (update_row p_id i (\<lambda>r. r\<lparr>p_index_sequence := n\<rparr>) (packages d))
       (\<lambda>rs. Inr (d\<lparr>packages := rs\<rparr>))"
| "apply_write (SetPackageIndex i doc n) d =
     bind_r (update_row p_id i (\<lambda>r. r\<lparr>p_signed_index := doc, p_index_sequence := n\<rparr>) (packages d))
       (\<lambda>rs. Inr (d\<lparr>packages := rs\<rparr>))"
| "apply_write (InsertVersion r) d =
     fk (has_package d (v_package_id r))
       (bind_r (insert_row version_clash r (versions d)) (\<lambda>rs. Inr (d\<lparr>versions := rs\<rparr>)))"
| "apply_write (SetVersionYanked i b) d =
     bind_r (update_row v_id i (\<lambda>r. r\<lparr>v_yanked := b\<rparr>) (versions d))
       (\<lambda>rs. Inr (d\<lparr>versions := rs\<rparr>))"
| "apply_write (InsertKey r) d =
     fk (has_org d (k_org_id r))
       (bind_r (insert_row key_clash r (publisher_keys d)) (\<lambda>rs. Inr (d\<lparr>publisher_keys := rs\<rparr>)))"
| "apply_write (SetKeyState i st why) d =
     bind_r (update_row k_id i (\<lambda>r. r\<lparr>k_state := st, k_revoked_reason := why\<rparr>) (publisher_keys d))
       (\<lambda>rs. Inr (d\<lparr>publisher_keys := rs\<rparr>))"
| "apply_write (InsertAudit r) d =
     fk (has_org d (a_org_id r))
       (bind_r (insert_row audit_clash r (audit_log d)) (\<lambda>rs. Inr (d\<lparr>audit_log := rs\<rparr>)))"

fun apply_all :: "db_write list \<Rightarrow> db \<Rightarrow> db_err + db" where
  "apply_all [] d = Inr d"
| "apply_all (w # ws) d = bind_r (apply_write w d) (apply_all ws)"

text \<open>The schema invariant: every table is keyed.\<close>

definition schema_ok :: "db \<Rightarrow> bool" where
  "schema_ok d \<longleftrightarrow>
     keyed org_clash (orgs d) \<and> keyed token_clash (tokens d) \<and> keyed package_clash (packages d)
     \<and> keyed version_clash (versions d) \<and> keyed key_clash (publisher_keys d)
     \<and> keyed audit_clash (audit_log d)"

lemma fk_simps [simp]: "fk True r = r" "fk False r = Inl ForeignKeyViolation"
  by (simp_all add: fk_def)

lemma fk_Inr_iff [simp]: "fk b r = Inr d \<longleftrightarrow> b \<and> r = Inr d"
  by (simp add: fk_def)

lemma apply_all_append: "apply_all (xs @ ys) d = bind_r (apply_all xs d) (apply_all ys)"
  by (induction xs arbitrary: d) (auto simp: bind_r_def split: sum.splits)

lemma apply_all_snoc: "apply_all (xs @ [x]) d = bind_r (apply_all xs d) (apply_write x)"
  by (cases "apply_all xs d") (auto simp: apply_all_append bind_r_def split: sum.splits)

lemma keyed_upsert:
  assumes "keyed package_clash rows" "upsert_row row rows = Inr rows'"
  shows "keyed package_clash rows'"
proof (cases "list_ex (same_package_key row) rows")
  case True
  have "package_clash (if P a then refresh_package row a else a) (if P b then refresh_package row b else b)
      = package_clash a b" for P a b
    by (simp add: package_clash_def refresh_package_def)
  with True assms show ?thesis
    by (auto simp: upsert_row_def keyed_def sorted_wrt_map)
next
  case False
  with assms show ?thesis
    using package_table.keyed_insert by (auto simp: upsert_row_def)
qed

lemma apply_write_schema_ok:
  assumes "schema_ok d" "apply_write w d = Inr d'"
  shows "schema_ok d'"
proof (cases w)
  case (InsertOrg r)
  then show ?thesis using assms org_table.keyed_insert
    by (auto simp: schema_ok_def bind_r_Inr_iff)
next
  case (InsertToken r)
  then show ?thesis using assms token_table.keyed_insert
    by (auto simp: schema_ok_def bind_r_Inr_iff)
next
  case (SetTokenRevoked i at)
  then obtain rs where "update_row t_id i (\<lambda>r. r\<lparr>t_revoked_at := at\<rparr>) (tokens d) = Inr rs" "d' = d\<lparr>tokens := rs\<rparr>"
    using assms(2) by (auto simp: bind_r_Inr_iff)
  then show ?thesis using assms(1) token_table.keyed_update [of "tokens d" i _ rs]
    by (simp add: schema_ok_def token_clash_def)
next
  case (UpsertPackage r)
  then show ?thesis using assms keyed_upsert by (auto simp: schema_ok_def bind_r_Inr_iff)
next
  case (SetPackageSequence i n)
  then obtain rs where "update_row p_id i (\<lambda>r. r\<lparr>p_index_sequence := n\<rparr>) (packages d) = Inr rs"
    "d' = d\<lparr>packages := rs\<rparr>" using assms(2) by (auto simp: bind_r_Inr_iff)
  then show ?thesis using assms(1) package_table.keyed_update [of "packages d" i _ rs]
    by (simp add: schema_ok_def package_clash_def)
next
  case (SetPackageIndex i doc n)
  then obtain rs where
    "update_row p_id i (\<lambda>r. r\<lparr>p_signed_index := doc, p_index_sequence := n\<rparr>) (packages d) = Inr rs"
    "d' = d\<lparr>packages := rs\<rparr>" using assms(2) by (auto simp: bind_r_Inr_iff)
  then show ?thesis using assms(1) package_table.keyed_update [of "packages d" i _ rs]
    by (simp add: schema_ok_def package_clash_def)
next
  case (InsertVersion r)
  then show ?thesis using assms version_table.keyed_insert
    by (auto simp: schema_ok_def bind_r_Inr_iff)
next
  case (SetVersionYanked i b)
  then obtain rs where "update_row v_id i (\<lambda>r. r\<lparr>v_yanked := b\<rparr>) (versions d) = Inr rs"
    "d' = d\<lparr>versions := rs\<rparr>" using assms(2) by (auto simp: bind_r_Inr_iff)
  then show ?thesis using assms(1) version_table.keyed_update [of "versions d" i _ rs]
    by (simp add: schema_ok_def version_clash_def)
next
  case (InsertKey r)
  then show ?thesis using assms key_table.keyed_insert
    by (auto simp: schema_ok_def bind_r_Inr_iff)
next
  case (SetKeyState i st why)
  then obtain rs where
    "update_row k_id i (\<lambda>r. r\<lparr>k_state := st, k_revoked_reason := why\<rparr>) (publisher_keys d) = Inr rs"
    "d' = d\<lparr>publisher_keys := rs\<rparr>" using assms(2) by (auto simp: bind_r_Inr_iff)
  then show ?thesis using assms(1) key_table.keyed_update [of "publisher_keys d" i _ rs]
    by (simp add: schema_ok_def key_clash_def)
next
  case (InsertAudit r)
  then show ?thesis using assms audit_table.keyed_insert
    by (auto simp: schema_ok_def bind_r_Inr_iff)
qed

lemma apply_all_schema_ok: "schema_ok d \<Longrightarrow> apply_all ws d = Inr d' \<Longrightarrow> schema_ok d'"
  by (induction ws arbitrary: d) (auto simp: bind_r_Inr_iff dest: apply_write_schema_ok)

text \<open>The effect of a successful write, per kind.\<close>

lemma insert_row_Inr_iff:
  "insert_row clash r rs = Inr rs' \<longleftrightarrow> (\<forall>a\<in>set rs. \<not> clash r a) \<and> rs' = rs @ [r]"
  by (auto simp: insert_row_def list_ex_iff)

lemma update_row_Inr_iff:
  "update_row pk i f rs = Inr rs' \<longleftrightarrow>
     (\<exists>r\<in>set rs. pk r = i) \<and> rs' = map (\<lambda>row. if pk row = i then f row else row) rs"
  by (auto simp: update_row_def list_ex_iff)

lemma apply_insert_iff:
  "apply_write (InsertOrg o') d = Inr d' \<longleftrightarrow>
     (case o_created_by_token o' of None \<Rightarrow> True | Some t \<Rightarrow> has_token d t)
     \<and> (\<forall>a\<in>set (orgs d). \<not> org_clash o' a) \<and> d' = d\<lparr>orgs := orgs d @ [o']\<rparr>"
  "apply_write (InsertToken t) d = Inr d' \<longleftrightarrow>
     (case t_org_id t of None \<Rightarrow> True | Some i \<Rightarrow> has_org d i)
     \<and> (\<forall>a\<in>set (tokens d). \<not> token_clash t a) \<and> d' = d\<lparr>tokens := tokens d @ [t]\<rparr>"
  "apply_write (InsertVersion v) d = Inr d' \<longleftrightarrow> has_package d (v_package_id v)
     \<and> (\<forall>a\<in>set (versions d). \<not> version_clash v a) \<and> d' = d\<lparr>versions := versions d @ [v]\<rparr>"
  "apply_write (InsertKey k) d = Inr d' \<longleftrightarrow> has_org d (k_org_id k)
     \<and> (\<forall>a\<in>set (publisher_keys d). \<not> key_clash k a)
     \<and> d' = d\<lparr>publisher_keys := publisher_keys d @ [k]\<rparr>"
  "apply_write (InsertAudit a) d = Inr d' \<longleftrightarrow> has_org d (a_org_id a)
     \<and> (\<forall>b\<in>set (audit_log d). \<not> audit_clash a b) \<and> d' = d\<lparr>audit_log := audit_log d @ [a]\<rparr>"
  by (auto simp: bind_r_Inr_iff insert_row_Inr_iff)

lemma apply_update_iff:
  "apply_write (SetTokenRevoked i at) d = Inr d' \<longleftrightarrow> (\<exists>r\<in>set (tokens d). t_id r = i)
     \<and> d' = d\<lparr>tokens := map (\<lambda>r. if t_id r = i then r\<lparr>t_revoked_at := at\<rparr> else r) (tokens d)\<rparr>"
  "apply_write (SetPackageSequence i n) d = Inr d' \<longleftrightarrow> (\<exists>r\<in>set (packages d). p_id r = i)
     \<and> d' = d\<lparr>packages := map (\<lambda>r. if p_id r = i then r\<lparr>p_index_sequence := n\<rparr> else r) (packages d)\<rparr>"
  "apply_write (SetPackageIndex i doc n) d = Inr d' \<longleftrightarrow> (\<exists>r\<in>set (packages d). p_id r = i)
     \<and> d' = d\<lparr>packages := map (\<lambda>r. if p_id r = i
           then r\<lparr>p_signed_index := doc, p_index_sequence := n\<rparr> else r) (packages d)\<rparr>"
  "apply_write (SetVersionYanked i b) d = Inr d' \<longleftrightarrow> (\<exists>r\<in>set (versions d). v_id r = i)
     \<and> d' = d\<lparr>versions := map (\<lambda>r. if v_id r = i then r\<lparr>v_yanked := b\<rparr> else r) (versions d)\<rparr>"
  "apply_write (SetKeyState i st why) d = Inr d' \<longleftrightarrow> (\<exists>r\<in>set (publisher_keys d). k_id r = i)
     \<and> d' = d\<lparr>publisher_keys := map (\<lambda>r. if k_id r = i
           then r\<lparr>k_state := st, k_revoked_reason := why\<rparr> else r) (publisher_keys d)\<rparr>"
  by (auto simp: bind_r_Inr_iff update_row_Inr_iff)

declare apply_write.simps [simp del]

end
