(* ===== verification/World.thy ===== *)
theory World
  imports Database
begin

section \<open>The world a request runs in\<close>

text \<open>
  A handler of the server is a sequence of statements on shared services: PostgreSQL at its default
  isolation (READ COMMITTED), the artifact store, the clock and the UUID generator. The model is a
  state monad with errors over a \<open>world\<close>. Each step consumes one tick; what the rest of the
  deployment does at that tick is read from an environment \<open>env\<close>: other sessions may commit
  arbitrary changes between any two statements, and a statement may be refused or may take effect
  without being acknowledged. So one theorem about a handler covers every interleaving with other
  requests and every pattern of outages.

  Inside a transaction the writes are kept in a list and are applied to the committed database on
  commit. A commit of another session that would change a row this transaction wrote, or that
  takes an advisory lock this transaction holds, waits: \<open>admits\<close> is false for it and it does
  not happen at that tick.
\<close>

subsection \<open>State and environment\<close>

record blob =
  content :: string
  content_type :: "string option"
  cache_control :: "string option"
  sha256_metadata :: "string option"

record machine_publish =
  mp_org_slug :: string
  mp_org_name :: "string option"
  mp_package_name :: string
  mp_description :: "string option"
  mp_vcs :: string
  mp_repo_url :: string
  mp_keywords :: json
  mp_version :: string
  mp_version_scheme :: string
  mp_sha256 :: string
  mp_size_bytes :: int
  mp_format :: string
  mp_vcs_tag :: "string option"
  mp_vcs_commit :: "string option"
  mp_artifact_key :: string
  mp_manifest :: json
  mp_user_agent :: "string option"

record world =
  committed :: db
  txn :: "db_write list option"
  held_locks :: "string list"
  objects :: "(string \<times> blob) list"
  adopted :: "machine_publish list"
  tick :: nat

datatype outcome = Served | Refused | Unacknowledged

record env =
  peer_db :: "nat \<Rightarrow> db \<Rightarrow> db"
  peer_locks :: "nat \<Rightarrow> string list"
  peer_objects :: "nat \<Rightarrow> (string \<times> blob) list \<Rightarrow> (string \<times> blob) list"
  outcome_at :: "nat \<Rightarrow> outcome"
  clock_at :: "nat \<Rightarrow> datetime"
  uuid_at :: "nat \<Rightarrow> uuid"

definition calm :: env where
  "calm = \<lparr>peer_db = (\<lambda>_ d. d), peer_locks = (\<lambda>_. []), peer_objects = (\<lambda>_ os. os),
     outcome_at = (\<lambda>_. Served), clock_at = (\<lambda>t. int t), uuid_at = (\<lambda>t. of_nat (t + 100))\<rparr>"

definition start :: "db \<Rightarrow> world" where
  "start d = \<lparr>committed = d, txn = None, held_locks = [], objects = [], adopted = [], tick = 0\<rparr>"

subsection \<open>The monad\<close>

type_synonym ('e, 'a) act = "env \<Rightarrow> world \<Rightarrow> ('e + 'a) \<times> world"
type_synonym 'a handler = "(api_err, 'a) act"

definition ret :: "'a \<Rightarrow> ('e, 'a) act" where
  "ret a e w = (Inr a, w)"

definition throw :: "'e \<Rightarrow> ('e, 'a) act" where
  "throw x e w = (Inl x, w)"

definition lift :: "'e + 'a \<Rightarrow> ('e, 'a) act" where
  "lift r e w = (r, w)"

definition bind_a :: "('e, 'a) act \<Rightarrow> ('a \<Rightarrow> ('e, 'b) act) \<Rightarrow> ('e, 'b) act" where
  "bind_a m f e w = (case m e w of (Inl x, w') \<Rightarrow> (Inl x, w') | (Inr a, w') \<Rightarrow> f a e w')"

definition map_err :: "('e \<Rightarrow> 'f) \<Rightarrow> ('e, 'a) act \<Rightarrow> ('f, 'a) act" where
  "map_err h m e w = (case m e w of (Inl x, w') \<Rightarrow> (Inl (h x), w') | (Inr a, w') \<Rightarrow> (Inr a, w'))"

text \<open>Inspect the result instead of returning early (\<open>match\<close> on a \<open>Result\<close>).\<close>

definition attempt :: "('e, 'a) act \<Rightarrow> ('f, 'e + 'a) act" where
  "attempt m e w = (case m e w of (r, w') \<Rightarrow> (Inr r, w'))"

subsection \<open>Statements\<close>

fun row_stable :: "db_write \<Rightarrow> db \<Rightarrow> db \<Rightarrow> bool" where
  "row_stable (InsertOrg r) d d' \<longleftrightarrow>
     filter (org_clash r) (orgs d') = filter (org_clash r) (orgs d)"
| "row_stable (InsertToken r) d d' \<longleftrightarrow>
     filter (token_clash r) (tokens d') = filter (token_clash r) (tokens d)"
| "row_stable (SetTokenRevoked i _) d d' \<longleftrightarrow>
     filter (\<lambda>r. t_id r = i) (tokens d') = filter (\<lambda>r. t_id r = i) (tokens d)"
| "row_stable (UpsertPackage r) d d' \<longleftrightarrow>
     filter (package_clash r) (packages d') = filter (package_clash r) (packages d)"
| "row_stable (SetPackageSequence i _) d d' \<longleftrightarrow>
     filter (\<lambda>r. p_id r = i) (packages d') = filter (\<lambda>r. p_id r = i) (packages d)"
| "row_stable (SetPackageIndex i _ _) d d' \<longleftrightarrow>
     filter (\<lambda>r. p_id r = i) (packages d') = filter (\<lambda>r. p_id r = i) (packages d)"
| "row_stable (InsertVersion r) d d' \<longleftrightarrow>
     filter (version_clash r) (versions d') = filter (version_clash r) (versions d)"
| "row_stable (SetVersionYanked i _) d d' \<longleftrightarrow>
     filter (\<lambda>r. v_id r = i) (versions d') = filter (\<lambda>r. v_id r = i) (versions d)"
| "row_stable (InsertKey r) d d' \<longleftrightarrow>
     filter (key_clash r) (publisher_keys d') = filter (key_clash r) (publisher_keys d)"
| "row_stable (SetKeyState i _ _) d d' \<longleftrightarrow>
     filter (\<lambda>r. k_id r = i) (publisher_keys d') = filter (\<lambda>r. k_id r = i) (publisher_keys d)"
| "row_stable (InsertAudit r) d d' \<longleftrightarrow>
     filter (audit_clash r) (audit_log d') = filter (audit_clash r) (audit_log d)"

definition pending :: "world \<Rightarrow> db_write list" where
  "pending w = (case txn w of None \<Rightarrow> [] | Some ws \<Rightarrow> ws)"

definition admits :: "env \<Rightarrow> world \<Rightarrow> db \<Rightarrow> bool" where
  "admits e w d' \<longleftrightarrow>
     list_all (\<lambda>k. k \<notin> set (held_locks w)) (peer_locks e (tick w))
     \<and> list_all (\<lambda>wr. row_stable wr (committed w) d') (pending w)
     \<and> (case apply_all (pending w) d' of Inl _ \<Rightarrow> False | Inr _ \<Rightarrow> True)"

definition settle :: "env \<Rightarrow> world \<Rightarrow> world" where
  "settle e w =
     (let d' = peer_db e (tick w) (committed w)
      in w\<lparr>committed := (if admits e w d' then d' else committed w), tick := Suc (tick w)\<rparr>)"

text \<open>What a statement of this session sees: its own writes on top of what is committed.\<close>

definition view :: "world \<Rightarrow> db" where
  "view w = (case apply_all (pending w) (committed w) of Inr d \<Rightarrow> d | Inl _ \<Rightarrow> committed w)"

definition query :: "(db \<Rightarrow> 'a) \<Rightarrow> (db_err, 'a) act" where
  "query q e w =
     (let w' = settle e w
      in if outcome_at e (tick w) = Served then (Inr (q (view w')), w') else (Inl ConnectionLost, w'))"

definition store_write :: "db_write \<Rightarrow> db \<Rightarrow> world \<Rightarrow> world" where
  "store_write wr d w =
     (case txn w of None \<Rightarrow> w\<lparr>committed := d\<rparr> | Some ws \<Rightarrow> w\<lparr>txn := Some (ws @ [wr])\<rparr>)"

text \<open>A write returns the database it leaves, for the \<open>RETURNING\<close> clause.\<close>

definition execute :: "db_write \<Rightarrow> (db_err, db) act" where
  "execute wr e w =
     (let w' = settle e w; out = outcome_at e (tick w)
      in if out = Refused then (Inl ConnectionLost, w')
         else (case apply_write wr (view w') of
                 Inl x \<Rightarrow> (Inl x, w')
               | Inr d \<Rightarrow> (if out = Served then Inr d else Inl ConnectionLost, store_write wr d w')))"

definition rollback_txn :: "world \<Rightarrow> world" where
  "rollback_txn w = w\<lparr>txn := None, held_locks := []\<rparr>"

definition begin_txn :: "(db_err, unit) act" where
  "begin_txn e w =
     (let w' = settle e w
      in if outcome_at e (tick w) = Served then (Inr (), w'\<lparr>txn := Some []\<rparr>)
         else (Inl ConnectionLost, w'))"

definition advisory_lock :: "string \<Rightarrow> (db_err, unit) act" where
  "advisory_lock key e w =
     (let w' = settle e w
      in if outcome_at e (tick w) = Served then (Inr (), w'\<lparr>held_locks := key # held_locks w'\<rparr>)
         else (Inl ConnectionLost, w'))"

definition commit_txn :: "(db_err, unit) act" where
  "commit_txn e w =
     (let w' = settle e w; out = outcome_at e (tick w)
      in if out = Refused then (Inl ConnectionLost, rollback_txn w')
         else (if out = Served then Inr () else Inl ConnectionLost,
               rollback_txn (w'\<lparr>committed := view w'\<rparr>)))"

text \<open>A transaction dropped without commit is rolled back.\<close>

definition in_txn :: "('e, 'a) act \<Rightarrow> ('e, 'a) act" where
  "in_txn body e w =
     (case body e w of
        (Inl x, w') \<Rightarrow> (Inl x, rollback_txn w')
      | (Inr a, w') \<Rightarrow> (Inr a, w'))"

definition utc_now :: "('e, datetime) act" where
  "utc_now e w = (Inr (clock_at e (tick w)), w\<lparr>tick := Suc (tick w)\<rparr>)"

definition new_v4 :: "('e, uuid) act" where
  "new_v4 e w = (Inr (uuid_at e (tick w)), w\<lparr>tick := Suc (tick w)\<rparr>)"

text \<open>The \<open>?\<close> operator on a database result inside a handler.\<close>

definition sql :: "(db_err, 'a) act \<Rightarrow> 'a handler" where
  "sql m = map_err (\<lambda>_. from_db_err) m"

lemmas monad_defs = ret_def throw_def lift_def bind_a_def map_err_def attempt_def sql_def

subsection \<open>Running programs\<close>

lemma ret_run [simp]: "ret a e w = (Inr a, w)"
  by (simp add: ret_def)

lemma throw_run [simp]: "throw x e w = (Inl x, w)"
  by (simp add: throw_def)

lemma lift_run [simp]: "lift r e w = (r, w)"
  by (simp add: lift_def)

lemma bind_a_Inr_iff:
  "bind_a m f e w = (Inr b, w'') \<longleftrightarrow> (\<exists>a w'. m e w = (Inr a, w') \<and> f a e w' = (Inr b, w''))"
  by (auto simp: bind_a_def split: prod.splits sum.splits)

lemma map_err_Inr_iff [simp]: "map_err h m e w = (Inr a, w') \<longleftrightarrow> m e w = (Inr a, w')"
  by (auto simp: map_err_def split: prod.splits sum.splits)

lemma attempt_iff: "attempt m e w = (r, w') \<longleftrightarrow> (\<exists>r'. m e w = (r', w') \<and> r = Inr r')"
  by (auto simp: attempt_def split: prod.splits)

lemma bind_a_run:
  "m e w = (Inr a, w') \<Longrightarrow> bind_a m f e w = f a e w'"
  "m e w = (Inl x, w') \<Longrightarrow> bind_a m f e w = (Inl x, w')"
  by (simp_all add: bind_a_def)

lemma sql_Inr_iff [simp]: "sql m e w = (Inr a, w') \<longleftrightarrow> m e w = (Inr a, w')"
  by (auto simp: sql_def map_err_def split: prod.splits sum.splits)

subsection \<open>Single statements\<close>

lemma settle_sel [simp]:
  "txn (settle e w) = txn w" "held_locks (settle e w) = held_locks w"
  "objects (settle e w) = objects w" "adopted (settle e w) = adopted w"
  "tick (settle e w) = Suc (tick w)"
  by (simp_all add: settle_def Let_def)

lemma settle_committed:
  "committed (settle e w) = committed w \<or> committed (settle e w) = peer_db e (tick w) (committed w)"
  by (simp add: settle_def Let_def)

lemma view_autocommit [simp]: "txn w = None \<Longrightarrow> view w = committed w"
  by (simp add: view_def pending_def)

text \<open>Outside a transaction a query reads, and a write changes, the committed database.\<close>

lemma query_Inr_iff:
  "query q e w = (Inr a, w') \<longleftrightarrow>
     outcome_at e (tick w) = Served \<and> w' = settle e w \<and> a = q (view (settle e w))"
  by (auto simp: query_def Let_def)

lemma in_txn_Inr_iff [simp]: "in_txn m e w = (Inr a, w') \<longleftrightarrow> m e w = (Inr a, w')"
  by (auto simp: in_txn_def split: prod.splits sum.splits)

lemma begin_txn_Inr_iff:
  "begin_txn e w = (Inr u, w') \<longleftrightarrow> outcome_at e (tick w) = Served \<and> w' = (settle e w)\<lparr>txn := Some []\<rparr>"
  by (auto simp: begin_txn_def Let_def)

lemma snd_query [simp]: "snd (query q e w) = settle e w"
  by (simp add: query_def Let_def)

lemma execute_autocommit:
  assumes "txn w = None" "execute wr e w = (r, w')"
  shows "txn w' = None \<and> held_locks w' = held_locks w \<and> objects w' = objects w \<and> adopted w' = adopted w
    \<and> (committed w' = committed (settle e w)
       \<or> apply_write wr (committed (settle e w)) = Inr (committed w'))
    \<and> (\<forall>d. r = Inr d \<longrightarrow> apply_write wr (committed (settle e w)) = Inr d \<and> committed w' = d)"
  using assms
  by (auto simp: execute_def Let_def store_write_def split: if_splits sum.splits)

text \<open>Symbolic execution: one equation per first statement of a handler.\<close>

lemma bind_steps:
  "bind_a (sql (query q)) f1 e w =
     (if outcome_at e (tick w) = Served then f1 (q (view (settle e w))) e (settle e w)
      else (Inl from_db_err, settle e w))"
  "bind_a (sql (advisory_lock k)) f2 e w =
     (if outcome_at e (tick w) = Served
      then f2 () e ((settle e w)\<lparr>held_locks := k # held_locks w\<rparr>) else (Inl from_db_err, settle e w))"
  "bind_a (sql begin_txn) f3 e w =
     (if outcome_at e (tick w) = Served then f3 () e ((settle e w)\<lparr>txn := Some []\<rparr>)
      else (Inl from_db_err, settle e w))"
  "bind_a utc_now f4 e w = f4 (clock_at e (tick w)) e (w\<lparr>tick := Suc (tick w)\<rparr>)"
  "bind_a new_v4 f5 e w = f5 (uuid_at e (tick w)) e (w\<lparr>tick := Suc (tick w)\<rparr>)"
  "bind_a (ret a6) f6 e w = f6 a6 e w"
  "bind_a (throw x7) f7 e w = (Inl x7, w)"
  "bind_a (lift r) f8 e w = (case r of Inl x \<Rightarrow> (Inl x, w) | Inr a \<Rightarrow> f8 a e w)"
  by (simp_all add: bind_a_def sql_def map_err_def query_def advisory_lock_def begin_txn_def utc_now_def
      new_v4_def Let_def split: sum.split)

lemma bind_execute:
  "bind_a (sql (execute wr)) f e w =
     (if outcome_at e (tick w) = Refused then (Inl from_db_err, settle e w)
      else case apply_write wr (view (settle e w)) of
             Inl _ \<Rightarrow> (Inl from_db_err, settle e w)
           | Inr d \<Rightarrow> if outcome_at e (tick w) = Served then f d e (store_write wr d (settle e w))
                      else (Inl from_db_err, store_write wr d (settle e w)))"
  by (simp add: bind_a_def sql_def map_err_def execute_def Let_def split: sum.split)

lemma bind_assoc: "bind_a (bind_a m f) g e w = bind_a m (\<lambda>a. bind_a (f a) g) e w"
  by (auto simp: bind_a_def split: prod.split sum.split)

lemma bind_if: "bind_a (if b then m else m') f e w = (if b then bind_a m f e w else bind_a m' f e w)"
  by simp

text \<open>The quiet environment, for examples.\<close>

lemma calm_sel [simp]:
  "peer_db calm t d = d" "peer_locks calm t = []" "peer_objects calm t os = os"
  "outcome_at calm t = Served" "clock_at calm t = int t" "uuid_at calm t = of_nat (t + 100)"
  by (simp_all add: calm_def)

lemma calm_settle: "settle calm w = w\<lparr>tick := Suc (tick w)\<rparr>"
  by (auto simp: settle_def calm_def Let_def)

lemma start_sel [simp]:
  "committed (start d) = d" "txn (start d) = None" "held_locks (start d) = []" "objects (start d) = []"
  "adopted (start d) = []" "tick (start d) = 0"
  by (simp_all add: start_def)

text \<open>Evaluation of a program on a concrete world.\<close>

lemmas run_simps =
  monad_defs query_def execute_def begin_txn_def commit_txn_def advisory_lock_def in_txn_def
  rollback_txn_def utc_now_def new_v4_def store_write_def view_def pending_def calm_settle Let_def
  apply_write.simps insert_row_def update_row_def upsert_row_def

text \<open>A transaction body whose last statement is the commit leaves no transaction open.\<close>

definition ends_txn :: "('e, 'a) act \<Rightarrow> bool" where
  "ends_txn m \<longleftrightarrow> (\<forall>e w a w'. m e w = (Inr a, w') \<longrightarrow> txn w' = None \<and> held_locks w' = [])"

lemma ends_txn_commit: "ends_txn commit_txn"
  by (auto simp: ends_txn_def commit_txn_def Let_def rollback_txn_def split: if_splits)

lemma ends_txn_bind: "(\<And>a. ends_txn (f a)) \<Longrightarrow> ends_txn (bind_a m f)"
  by (auto simp: ends_txn_def bind_a_Inr_iff)

lemma ends_txn_in_txn:
  "ends_txn m \<Longrightarrow> txn (snd (in_txn m e w)) = None \<and> held_locks (snd (in_txn m e w)) = []"
  by (auto simp: ends_txn_def in_txn_def rollback_txn_def split: prod.split sum.split)

subsection \<open>Invariants\<close>

text \<open>
  A world predicate is kept by a program when every environment that respects it leaves the
  program inside it. The locale collects one rule per combinator, so that a handler's invariance
  proof follows its text.
\<close>

definition keeps :: "(env \<Rightarrow> bool) \<Rightarrow> (env \<Rightarrow> world \<Rightarrow> bool) \<Rightarrow> ('e, 'a) act \<Rightarrow> bool" where
  "keeps rely P m \<longleftrightarrow> (\<forall>e w. rely e \<longrightarrow> P e w \<longrightarrow> P e (snd (m e w)))"

named_theorems keep_rules \<open>rules that follow a handler's text\<close>

text \<open>Rules that hold for every predicate.\<close>

lemma keeps_ret [keep_rules]: "keeps R P (ret a)"
  by (simp add: keeps_def)

lemma keeps_throw [keep_rules]: "keeps R P (throw x)"
  by (simp add: keeps_def)

lemma keeps_lift [keep_rules]: "keeps R P (lift r)"
  by (simp add: keeps_def)

lemma keeps_bind [keep_rules]:
  assumes "keeps R P m" "\<And>a. keeps R P (f a)"
  shows "keeps R P (bind_a m f)"
  unfolding keeps_def
proof (intro allI impI)
  fix e w
  assume "R e" "P e w"
  then have "P e (snd (m e w))" using assms(1) by (simp add: keeps_def)
  then show "P e (snd (bind_a m f e w))"
    using assms(2) \<open>R e\<close> by (auto simp: keeps_def bind_a_def split: prod.split sum.split)
qed

lemma keeps_map_err [keep_rules]: "keeps R P m \<Longrightarrow> keeps R P (map_err h m)"
  by (fastforce simp: keeps_def map_err_def split: prod.split sum.split)

lemma keeps_sql [keep_rules]: "keeps R P m \<Longrightarrow> keeps R P (sql m)"
  by (simp add: sql_def keeps_map_err)

lemma keeps_attempt [keep_rules]: "keeps R P m \<Longrightarrow> keeps R P (attempt m)"
  by (fastforce simp: keeps_def attempt_def split: prod.split)

locale world_invariant =
  fixes rely :: "env \<Rightarrow> bool" and P :: "env \<Rightarrow> world \<Rightarrow> bool"
  assumes keep_settle: "rely e \<Longrightarrow> P e w \<Longrightarrow> P e (settle e w)"
    and keep_tick: "rely e \<Longrightarrow> P e w \<Longrightarrow> P e (w\<lparr>tick := Suc (tick w)\<rparr>)"
    and keep_begin: "rely e \<Longrightarrow> P e w \<Longrightarrow> P e (w\<lparr>txn := Some []\<rparr>)"
    and keep_lock: "rely e \<Longrightarrow> P e w \<Longrightarrow> P e (w\<lparr>held_locks := k # held_locks w\<rparr>)"
    and keep_rollback: "rely e \<Longrightarrow> P e w \<Longrightarrow> P e (rollback_txn w)"
    and keep_commit: "rely e \<Longrightarrow> P e w \<Longrightarrow> P e (w\<lparr>committed := view w\<rparr>)"
begin

lemma keeps_query [keep_rules]: "keeps rely P (query q)"
  by (simp add: keeps_def query_def Let_def keep_settle)

lemma keeps_begin [keep_rules]: "keeps rely P begin_txn"
  by (auto simp: keeps_def begin_txn_def Let_def intro: keep_settle keep_begin)

lemma keeps_advisory [keep_rules]: "keeps rely P (advisory_lock k)"
  by (auto simp: keeps_def advisory_lock_def Let_def simp del: settle_sel intro: keep_settle keep_lock)

lemma keeps_commit [keep_rules]: "keeps rely P commit_txn"
  by (auto simp: keeps_def commit_txn_def Let_def intro: keep_settle keep_rollback keep_commit)

lemma keeps_in_txn [keep_rules]: "keeps rely P m \<Longrightarrow> keeps rely P (in_txn m)"
  by (fastforce simp: keeps_def in_txn_def intro: keep_rollback split: prod.split sum.split)

lemma keeps_now [keep_rules]: "keeps rely P utc_now"
  by (simp add: keeps_def utc_now_def keep_tick)

lemma keeps_uuid [keep_rules]: "keeps rely P new_v4"
  by (simp add: keeps_def new_v4_def keep_tick)

lemma keeps_execute:
  assumes "\<And>e w d. rely e \<Longrightarrow> P e w \<Longrightarrow> apply_write wr (view w) = Inr d \<Longrightarrow> P e (store_write wr d w)"
  shows "keeps rely P (execute wr)"
  using assms
  by (auto simp: keeps_def execute_def Let_def intro: keep_settle split: sum.split)

end

text \<open>Control structure inside a handler.\<close>

lemma keeps_if [keep_rules]:
  "keeps R P m \<Longrightarrow> keeps R P m' \<Longrightarrow> keeps R P (if b then m else m')"
  by simp

lemma keeps_case_option [keep_rules]:
  "keeps R P m \<Longrightarrow> (\<And>a. keeps R P (f a)) \<Longrightarrow> keeps R P (case v of None \<Rightarrow> m | Some a \<Rightarrow> f a)"
  by (cases v) auto

lemma keeps_case_prod [keep_rules]:
  "(\<And>a b. keeps R P (f a b)) \<Longrightarrow> keeps R P (case v of (a, b) \<Rightarrow> f a b)"
  by (cases v) auto

lemma keeps_case_sum [keep_rules]:
  "(\<And>a. keeps R P (f a)) \<Longrightarrow> (\<And>b. keeps R P (g b)) \<Longrightarrow> keeps R P (case v of Inl a \<Rightarrow> f a | Inr b \<Rightarrow> g b)"
  by (cases v) auto

lemma keepsD: "keeps R P m \<Longrightarrow> R e \<Longrightarrow> P e w \<Longrightarrow> m e w = (r, w') \<Longrightarrow> P e w'"
  by (metis keeps_def snd_conv)

lemma keeps_snd: "keeps R P m \<Longrightarrow> R e \<Longrightarrow> P e w \<Longrightarrow> P e (snd (m e w))"
  by (simp add: keeps_def)

subsection \<open>Committing\<close>

text \<open>
  The writes of an open transaction always apply to the committed database: other sessions that
  would invalidate them wait.
\<close>

definition appliable :: "world \<Rightarrow> bool" where
  "appliable w \<longleftrightarrow> (\<exists>d. apply_all (pending w) (committed w) = Inr d)"

lemma settle_pending [simp]: "pending (settle e w) = pending w"
  by (simp add: pending_def)

lemma settle_appliable: "appliable w \<Longrightarrow> appliable (settle e w)"
  by (auto simp: appliable_def settle_def Let_def admits_def pending_def split: sum.splits)

lemma appliable_view: "appliable w \<Longrightarrow> apply_all (pending w) (committed w) = Inr (view w)"
  by (auto simp: appliable_def view_def)

lemma appliable_begin [simp]: "appliable (w\<lparr>txn := Some []\<rparr>)"
  by (simp add: appliable_def pending_def)

lemma execute_in_txn:
  assumes "txn w = Some ws" "appliable w" "execute wr e w = (r, w')"
  shows "committed w' = committed (settle e w) \<and> appliable w' \<and> held_locks w' = held_locks w
    \<and> objects w' = objects w \<and> adopted w' = adopted w \<and> tick w' = Suc (tick w)
    \<and> (txn w' = Some ws \<or> txn w' = Some (ws @ [wr]))
    \<and> (\<forall>d. r = Inr d \<longrightarrow> txn w' = Some (ws @ [wr]) \<and> apply_write wr (view (settle e w)) = Inr d \<and> view w' = d)"
proof -
  note ap = settle_appliable [OF assms(2), of e]
  have w: "txn (settle e w) = Some ws" using assms(1) by simp
  have new: "appliable ((settle e w)\<lparr>txn := Some (ws @ [wr])\<rparr>)
      \<and> view ((settle e w)\<lparr>txn := Some (ws @ [wr])\<rparr>) = d"
    if "apply_write wr (view (settle e w)) = Inr d" for d
  proof -
    have "apply_all ws (committed (settle e w)) = Inr (view (settle e w))"
      using appliable_view [OF ap] w by (simp add: pending_def)
    then have "apply_all (ws @ [wr]) (committed (settle e w)) = Inr d"
      using that by (simp add: apply_all_snoc)
    then show ?thesis
      by (simp add: appliable_def pending_def view_def [of "_\<lparr>txn := _\<rparr>"])
  qed
  show ?thesis
    using assms(3) w ap new
    by (auto simp: execute_def Let_def store_write_def split: if_splits sum.splits)
qed

lemma commit_effect:
  assumes "appliable w" "commit_txn e w = (Inr u, w')"
  shows "apply_all (pending w) (committed (settle e w)) = Inr (committed w')
    \<and> txn w' = None \<and> objects w' = objects w \<and> adopted w' = adopted w"
  using assms(2) appliable_view [OF settle_appliable [OF assms(1)]]
  by (auto simp: commit_txn_def Let_def rollback_txn_def split: if_splits)

subsection \<open>The schema invariant\<close>

text \<open>No session can break a primary key or a unique index: the database enforces them.\<close>

definition schema_rely :: "env \<Rightarrow> bool" where
  "schema_rely e \<longleftrightarrow> (\<forall>t d. schema_ok d \<longrightarrow> schema_ok (peer_db e t d))"

definition schema_inv :: "env \<Rightarrow> world \<Rightarrow> bool" where
  "schema_inv e w \<longleftrightarrow> schema_ok (committed w)"

lemma view_schema_ok: "schema_ok (committed w) \<Longrightarrow> schema_ok (view w)"
  by (auto simp: view_def dest: apply_all_schema_ok split: sum.split)

interpretation schema: world_invariant schema_rely schema_inv
  using settle_committed
  by unfold_locales (metis schema_inv_def schema_rely_def settle_committed,
      auto simp: schema_inv_def rollback_txn_def view_schema_ok)

lemma schema_execute [keep_rules]: "keeps schema_rely schema_inv (execute wr)"
  by (rule schema.keeps_execute)
     (auto simp: schema_inv_def store_write_def dest: apply_write_schema_ok [OF view_schema_ok]
        split: option.split)

lemma calm_schema_rely: "schema_rely calm"
  by (simp add: schema_rely_def)

end
