(* ===== verification/External.thy ===== *)
theory External
  imports Database
begin

section \<open>Library code the server calls\<close>

text \<open>
  Functions of crates outside the repository: SHA-256 in lowercase hex, UUID and RFC 3339
  printing and parsing (\<open>sha2\<close>, \<open>hex\<close>, \<open>uuid\<close>, \<open>chrono\<close>), and from the
  contract crate \<open>zed-interfaces\<close> the digest input of an audit entry, the names of the audit
  actions and the slug rule. They are the fields of one record that every definition using them
  takes as an argument.
\<close>

datatype audit_action = Publish | Yank | Unyank | OrgClaim

record audit_chain_input =
  ci_org_id :: string
  ci_seq :: nat
  ci_at :: string
  ci_action :: string
  ci_subject :: string
  ci_actor_token_id :: "string option"
  ci_actor_token_name :: string
  ci_actor_role :: string
  ci_detail :: "string option"
  ci_prev_hash :: string

record ext =
  sha256_hex :: "string \<Rightarrow> string"
  uuid_str :: "uuid \<Rightarrow> string"
  uuid_simple :: "uuid \<Rightarrow> string"
  uuid_parse :: "string \<Rightarrow> uuid option"
  rfc3339 :: "datetime \<Rightarrow> string"
  rfc3339_parse :: "string \<Rightarrow> datetime option"
  is_slug :: "string \<Rightarrow> bool"
  action_str :: "audit_action \<Rightarrow> string"
  action_parse :: "string \<Rightarrow> audit_action option"
  audit_chain_preimage :: "audit_chain_input \<Rightarrow> string"

end
