(* ===== verification/Auth.thy ===== *)
theory Auth
  imports World External
begin

section \<open>Authentication (\<^verbatim>\<open>src/auth.rs\<close>)\<close>

text \<open>
  Package-token authentication looks a bearer token up by its hash and refuses revoked and expired
  rows. Account routes and private package reads authenticate with a delegated token that the
  shared authentication service introspects; the checks of the introspection response are modelled,
  the service itself is a parameter.
\<close>

subsection \<open>Bearer tokens\<close>

text \<open>
  A \<open>HeaderMap\<close> has lowercase names; \<open>get\<close> returns the first value.
  \<open>HeaderValue::to\_str\<close> accepts visible ASCII, space and tab.
\<close>

type_synonym headers = "(string \<times> string) list"

definition header_to_str :: "string \<Rightarrow> string option" where
  "header_to_str v =
     (if list_all (\<lambda>c. 32 \<le> byte_of c \<and> byte_of c < 127 \<or> byte_of c = 9) v then Some v else None)"

definition hash_token :: "('x ext_scheme) \<Rightarrow> string \<Rightarrow> string" where
  "hash_token x plaintext = sha256_hex x plaintext"

definition bearer_token :: "headers \<Rightarrow> string option" where
  "bearer_token headers =
     Option.bind (map_of headers ''authorization'') (\<lambda>v.
     Option.bind (header_to_str v) (\<lambda>s.
     Option.bind (strip_prefix s ''Bearer '') (\<lambda>rest.
       if trim rest \<noteq> [] then Some (trim rest) else None)))"

definition find_token_by_hash :: "string \<Rightarrow> db \<Rightarrow> token_row option" where
  "find_token_by_hash h d = List.find (\<lambda>r. t_token_hash r = h) (tokens d)"

definition require_token :: "('x ext_scheme) \<Rightarrow> headers \<Rightarrow> token_row handler" where
  "require_token x headers =
     bind_a (lift (ok_or unauthorized (bearer_token headers))) (\<lambda>plaintext.
     bind_a (sql (query (find_token_by_hash (hash_token x plaintext)))) (\<lambda>found.
     bind_a (lift (ok_or unauthorized found)) (\<lambda>row.
       if t_revoked_at row \<noteq> None then throw unauthorized
       else (case t_expires_at row of
               None \<Rightarrow> ret row
             | Some expires_at \<Rightarrow>
                 bind_a utc_now (\<lambda>now. if expires_at \<le> now then throw unauthorized else ret row)))))"

subsection \<open>Delegated tokens\<close>

record introspection =
  in_active :: bool
  in_sub :: "string option"
  in_iss :: "string option"
  in_email :: "string option"
  in_rest :: "(string \<times> json) list"

record session_identity =
  si_subject :: uuid
  si_realm :: string
  si_email :: "string option"
  si_display_name :: "string option"
  si_avatar_url :: "string option"

text \<open>\<open>AccountIdentity\<close> and \<open>PackageReaderIdentity\<close> have the same fields.\<close>

record identity =
  session :: session_identity
  session_id :: string
  parent_jti :: string

datatype client_error = ClientUnauthorized | ClientStatus nat | InvalidInput string | ClientOther string

fun map_shared_auth_error :: "client_error \<Rightarrow> api_err" where
  "map_shared_auth_error ClientUnauthorized = unauthorized"
| "map_shared_auth_error (ClientStatus n) =
     (if n = 401 then unauthorized
      else service_unavailable ''auth_unavailable'' ''shared authentication is temporarily unavailable'')"
| "map_shared_auth_error (InvalidInput _) = unauthorized"
| "map_shared_auth_error (ClientOther _) =
     service_unavailable ''auth_unavailable'' ''shared authentication is temporarily unavailable''"

definition required_claim :: "string option \<Rightarrow> string api_result" where
  "required_claim v =
     (case v of
        None \<Rightarrow> Inl unauthorized
      | Some s \<Rightarrow> if trim s \<noteq> [] \<and> length (trim s) \<le> 1024 then Inr (trim s) else Inl unauthorized)"

definition optional_rest_string :: "introspection \<Rightarrow> string \<Rightarrow> string option api_result" where
  "optional_rest_string i key =
     (case map_of (in_rest i) key of
        None \<Rightarrow> Inr None
      | Some JNull \<Rightarrow> Inr None
      | Some (JString s) \<Rightarrow>
          if trim s = [] \<or> length (trim s) > 1024 then Inl unauthorized else Inr (Some (trim s))
      | Some _ \<Rightarrow> Inl unauthorized)"

definition required_rest :: "introspection \<Rightarrow> string \<Rightarrow> api_err \<Rightarrow> string api_result" where
  "required_rest i key missing = bind_r (optional_rest_string i key) (ok_or missing)"

text \<open>
  The two introspection checks are the same code with different constants: the authorised party,
  the required scope and the texts of the refusals.
\<close>

record delegation_policy =
  dp_party :: string
  dp_scope :: string
  dp_delegated_required :: api_err
  dp_wrong_party :: api_err
  dp_insufficient_scope :: api_err
  dp_wrong_realm :: api_err

definition REQUIRED_ACCOUNT_SCOPE :: string where
  "REQUIRED_ACCOUNT_SCOPE = ''zpkg:account''"

definition REQUIRED_PACKAGE_READ_SCOPE :: string where
  "REQUIRED_PACKAGE_READ_SCOPE = ''zpkg:packages:read''"

definition ZPKG_CLI_AUTHORIZED_PARTY :: string where
  "ZPKG_CLI_AUTHORIZED_PARTY = ''zpkg-cli''"

definition CUSTOMER_AUTH_REALM :: string where
  "CUSTOMER_AUTH_REALM = ''customer''"

definition account_policy :: "string \<Rightarrow> delegation_policy" where
  "account_policy expected_authorized_party =
     \<lparr>dp_party = expected_authorized_party, dp_scope = REQUIRED_ACCOUNT_SCOPE,
      dp_delegated_required = forbidden ''delegated_user_token_required''
        ''this endpoint requires a session-backed delegated user token'',
      dp_wrong_party = forbidden ''wrong_authorized_party''
        ''the delegated token was not issued to the zed-pkg web client'',
      dp_insufficient_scope = forbidden ''insufficient_scope''
        ''the delegated token is missing the zed-pkg account scope'',
      dp_wrong_realm = forbidden ''wrong_auth_realm''
        ''the zed-pkg browser client accepts customer identities only''\<rparr>"

definition package_reader_policy :: delegation_policy where
  "package_reader_policy =
     \<lparr>dp_party = ZPKG_CLI_AUTHORIZED_PARTY, dp_scope = REQUIRED_PACKAGE_READ_SCOPE,
      dp_delegated_required = forbidden ''delegated_user_token_required''
        ''private package reads require a session-backed delegated user token'',
      dp_wrong_party = forbidden ''wrong_authorized_party''
        ''the delegated token was not issued to the zed-pkg CLI'',
      dp_insufficient_scope = forbidden ''insufficient_scope''
        ''the delegated token is missing the private-package read scope'',
      dp_wrong_realm = forbidden ''wrong_auth_realm''
        ''the zed-pkg CLI accepts customer identities only''\<rparr>"

definition realm_of :: "introspection \<Rightarrow> string api_result" where
  "realm_of i =
     bind_r (optional_rest_string i ''auth_realm'') (\<lambda>a.
     bind_r (optional_rest_string i ''realm'') (\<lambda>b.
       Inr (case a of Some r \<Rightarrow> r | None \<Rightarrow> (case b of Some r \<Rightarrow> r | None \<Rightarrow> CUSTOMER_AUTH_REALM))))"

definition check_delegation ::
  "('x ext_scheme) \<Rightarrow> delegation_policy \<Rightarrow> introspection \<Rightarrow> identity api_result" where
  "check_delegation x p i =
     bind_r (guard_r (in_active i) unauthorized) (\<lambda>_.
     bind_r (required_claim (in_sub i)) (\<lambda>s.
     bind_r (ok_or unauthorized (uuid_parse x s)) (\<lambda>subj.
     bind_r (required_claim (in_iss i)) (\<lambda>_.
     bind_r (required_rest i ''sid'' (dp_delegated_required p)) (\<lambda>sid.
     bind_r (required_rest i ''azp'' (dp_delegated_required p)) (\<lambda>azp.
     bind_r (required_rest i ''parent_jti'' (dp_delegated_required p)) (\<lambda>jti.
     bind_r (guard_r (azp = dp_party p) (dp_wrong_party p)) (\<lambda>_.
     bind_r (required_rest i ''scope'' (dp_insufficient_scope p)) (\<lambda>scope.
     bind_r (guard_r (dp_scope p \<in> set (split_ascii_whitespace scope)) (dp_insufficient_scope p)) (\<lambda>_.
     bind_r (realm_of i) (\<lambda>r.
     bind_r (guard_r (r = CUSTOMER_AUTH_REALM) (dp_wrong_realm p)) (\<lambda>_.
     bind_r (optional_rest_string i ''display_name'') (\<lambda>dn.
     bind_r (optional_rest_string i ''avatar_url'') (\<lambda>av.
       Inr \<lparr>session = \<lparr>si_subject = subj, si_realm = r, si_email = in_email i, si_display_name = dn, si_avatar_url = av\<rparr>,
            session_id = sid, parent_jti = jti\<rparr>))))))))))))))"

definition account_from_introspection ::
  "('x ext_scheme) \<Rightarrow> introspection \<Rightarrow> string \<Rightarrow> identity api_result" where
  "account_from_introspection x i expected_authorized_party =
     check_delegation x (account_policy expected_authorized_party) i"

definition package_reader_from_introspection ::
  "('x ext_scheme) \<Rightarrow> introspection \<Rightarrow> identity api_result" where
  "package_reader_from_introspection x i = check_delegation x package_reader_policy i"

definition auth_not_configured :: api_err where
  "auth_not_configured =
     service_unavailable ''auth_unavailable'' ''shared authentication is not configured''"

text \<open>The introspection client is absent or a function of the token and the audience.\<close>

type_synonym auth_client = "string \<Rightarrow> string \<Rightarrow> client_error + introspection"

definition introspect :: "auth_client option \<Rightarrow> string \<Rightarrow> headers \<Rightarrow> introspection api_result" where
  "introspect client audience headers =
     bind_r (ok_or unauthorized (bearer_token headers)) (\<lambda>token.
     bind_r (ok_or auth_not_configured client) (\<lambda>c.
       (case c token audience of Inl err \<Rightarrow> Inl (map_shared_auth_error err) | Inr i \<Rightarrow> Inr i)))"

definition require_account ::
  "('x ext_scheme) \<Rightarrow> auth_client option \<Rightarrow> string \<Rightarrow> string \<Rightarrow> headers \<Rightarrow> identity api_result" where
  "require_account x client audience application_id headers =
     bind_r (introspect client audience headers) (\<lambda>i. account_from_introspection x i application_id)"

definition require_package_reader ::
  "('x ext_scheme) \<Rightarrow> auth_client option \<Rightarrow> string \<Rightarrow> headers \<Rightarrow> identity api_result" where
  "require_package_reader x client audience headers =
     bind_r (introspect client audience headers) (package_reader_from_introspection x)"

subsection \<open>What authentication guarantees\<close>

lemma bearer_token_trimmed:
  "bearer_token headers = Some tok \<Longrightarrow>
     tok \<noteq> [] \<and> (\<exists>v s. map_of headers ''authorization'' = Some (''Bearer '' @ s) \<and> tok = trim s)"
  by (auto simp: bearer_token_def bind_eq_Some_conv header_to_str_def strip_prefix_Some_iff
      split: if_splits)

lemma find_token_by_hash_iff:
  assumes "schema_ok d"
  shows "find_token_by_hash h d = Some row \<longleftrightarrow> row \<in> set (tokens d) \<and> t_token_hash row = h"
proof
  assume "row \<in> set (tokens d) \<and> t_token_hash row = h"
  then show "find_token_by_hash h d = Some row"
    using assms token_table.keyed_find [of "tokens d" row "\<lambda>r. t_token_hash r = h"]
    by (simp add: find_token_by_hash_def schema_ok_def token_clash_def)
qed (auto simp: find_token_by_hash_def dest: find_Some_iff')

definition live_at :: "datetime \<Rightarrow> token_row \<Rightarrow> bool" where
  "live_at now row \<longleftrightarrow>
     t_revoked_at row = None \<and> (case t_expires_at row of None \<Rightarrow> True | Some ex \<Rightarrow> now < ex)"

lemma require_token_cases:
  "fst (require_token x headers e w) =
     (case bearer_token headers of
        None \<Rightarrow> Inl unauthorized
      | Some tok \<Rightarrow>
          if outcome_at e (tick w) \<noteq> Served then Inl from_db_err
          else (case find_token_by_hash (hash_token x tok) (view (settle e w)) of
                  None \<Rightarrow> Inl unauthorized
                | Some row \<Rightarrow>
                    if live_at (clock_at e (Suc (tick w))) row then Inr row else Inl unauthorized))"
  by (auto simp: require_token_def monad_defs query_def utc_now_def Let_def live_at_def settle_def
      split: option.split)

text \<open>C9. A request is authenticated exactly when it carries a bearer token whose SHA-256 is the
  hash of a stored token row that is neither revoked nor expired at the server's clock, and the
  lookup was served. Every refusal is a 401, or a 500 when the database did not answer; no refusal
  says which check failed.\<close>

theorem require_token_accepts_live_tokens:
  assumes "schema_ok (view (settle e w))"
  shows "(fst (require_token x headers e w) = Inr row \<longleftrightarrow>
      (\<exists>tok. bearer_token headers = Some tok \<and> outcome_at e (tick w) = Served
         \<and> row \<in> set (tokens (view (settle e w))) \<and> t_token_hash row = sha256_hex x tok
         \<and> live_at (clock_at e (Suc (tick w))) row))
    \<and> (\<forall>err. fst (require_token x headers e w) = Inl err \<longrightarrow> err = unauthorized \<or> err = from_db_err)"
proof (cases "bearer_token headers")
  case None
  then show ?thesis by (simp add: require_token_cases)
next
  case (Some tok)
  show ?thesis
  proof (cases "find_token_by_hash (sha256_hex x tok) (view (settle e w))")
    case None
    then have "row \<in> set (tokens (view (settle e w))) \<longrightarrow> t_token_hash row \<noteq> sha256_hex x tok"
      by (auto simp: find_token_by_hash_def find_None_iff')
    with None Some show ?thesis by (auto simp: require_token_cases hash_token_def)
  next
    case found: (Some r)
    then have "row \<in> set (tokens (view (settle e w))) \<and> t_token_hash row = sha256_hex x tok \<longleftrightarrow> row = r"
      using find_token_by_hash_iff [OF assms] by (metis option.inject)
    with found Some show ?thesis by (auto simp: require_token_cases hash_token_def)
  qed
qed

definition toy_ext :: ext where
  "toy_ext = \<lparr>sha256_hex = (\<lambda>s. replicate 64 (CHR ''a'')), uuid_str = (\<lambda>_. ''u''),
     uuid_simple = (\<lambda>_. ''u''), uuid_parse = (\<lambda>s. map_option of_nat (parse_u64 s)),
     rfc3339 = (\<lambda>_. ''t''), rfc3339_parse = (\<lambda>s. map_option int (parse_u64 s)),
     is_slug = (\<lambda>s. s \<noteq> []),
     action_str = (\<lambda>a. case a of Publish \<Rightarrow> ''publish'' | Yank \<Rightarrow> ''yank'' | Unyank \<Rightarrow> ''unyank''
       | OrgClaim \<Rightarrow> ''org_claim''),
     action_parse = (\<lambda>s. if s = ''publish'' then Some Publish else None), audit_chain_preimage = (\<lambda>i. ci_subject i @ ci_prev_hash i)\<rparr>"

definition token_1 :: token_row where
  "token_1 = \<lparr>t_id = 1, t_name = ''ci'', t_token_hash = replicate 64 (CHR ''a''), t_org_id = Some 7,
     t_role = ''publisher'', t_created_at = 0, t_expires_at = Some 50, t_revoked_at = None\<rparr>"

definition db_1 :: db where
  "db_1 = empty_db\<lparr>orgs := [\<lparr>o_id = 7, o_slug = ''acme'', o_created_at = 0, o_created_by_token = None\<rparr>],
     tokens := [token_1]\<rparr>"

lemmas example_defs = toy_ext_def token_1_def db_1_def empty_db_def start_def

lemma db_1_schema_ok: "schema_ok db_1"
  by (simp add: schema_ok_def keyed_def db_1_def empty_db_def)

lemma bearer_example: "bearer_token [(''authorization'', ''Bearer zpkg_1'')] = Some ''zpkg_1''"
  by (simp add: bearer_token_def header_to_str_def byte_of_def strip_prefix_def starts_with_def
      trim_graphic is_graphic_def)

theorem require_token_accepts_live_tokens_witness:
  "fst (require_token toy_ext [(''authorization'', ''Bearer zpkg_1'')] calm (start db_1)) = Inr token_1"
proof -
  have v: "view (settle calm (start db_1)) = db_1"
    by (simp add: calm_settle start_def)
  have "\<exists>tok. bearer_token [(''authorization'', ''Bearer zpkg_1'')] = Some tok
      \<and> outcome_at calm (tick (start db_1)) = Served
      \<and> token_1 \<in> set (tokens (view (settle calm (start db_1))))
      \<and> t_token_hash token_1 = sha256_hex toy_ext tok
      \<and> live_at (clock_at calm (Suc (tick (start db_1)))) token_1"
    unfolding v bearer_example by (simp add: example_defs live_at_def)
  then show ?thesis
    using require_token_accepts_live_tokens [of calm "start db_1" toy_ext
        "[(''authorization'', ''Bearer zpkg_1'')]" token_1] v db_1_schema_ok by simp
qed

subsection \<open>Delegated identities\<close>

lemma required_rest_Inr_iff:
  "required_rest i key m = Inr s \<longleftrightarrow> optional_rest_string i key = Inr (Some s)"
  by (auto simp: required_rest_def bind_r_Inr_iff)

lemma check_delegation_Inr:
  assumes "check_delegation x p i = Inr ident"
  shows "in_active i \<and> optional_rest_string i ''azp'' = Inr (Some (dp_party p))
    \<and> (\<exists>scope. optional_rest_string i ''scope'' = Inr (Some scope)
         \<and> dp_scope p \<in> set (split_ascii_whitespace scope))
    \<and> optional_rest_string i ''sid'' = Inr (Some (session_id ident))
    \<and> optional_rest_string i ''parent_jti'' = Inr (Some (parent_jti ident))
    \<and> si_realm (session ident) = CUSTOMER_AUTH_REALM
    \<and> (\<exists>s. required_claim (in_sub i) = Inr s \<and> uuid_parse x s = Some (si_subject (session ident)))"
  using assms
  by (auto simp: check_delegation_def bind_r_Inr_iff required_rest_Inr_iff)

lemma introspect_Inr:
  "introspect client audience headers = Inr i \<Longrightarrow>
     \<exists>c tok. client = Some c \<and> bearer_token headers = Some tok \<and> c tok audience = Inr i"
  by (cases client; cases "bearer_token headers")
     (auto simp: introspect_def split: sum.splits)

text \<open>A browser identity is only ever produced for an active delegated token that the
  configured shared authentication service confirmed for this audience, that was issued to this
  application with the account scope, in the customer realm, and that is bound to a session and a
  parent token. Without a configured service every account request fails.\<close>

theorem account_identity_provenance:
  assumes "require_account x client audience application_id headers = Inr ident"
  shows "\<exists>c tok i. client = Some c \<and> bearer_token headers = Some tok \<and> c tok audience = Inr i
    \<and> in_active i \<and> optional_rest_string i ''azp'' = Inr (Some application_id)
    \<and> (\<exists>scope. optional_rest_string i ''scope'' = Inr (Some scope)
         \<and> ''zpkg:account'' \<in> set (split_ascii_whitespace scope))
    \<and> optional_rest_string i ''sid'' = Inr (Some (session_id ident))
    \<and> optional_rest_string i ''parent_jti'' = Inr (Some (parent_jti ident))
    \<and> si_realm (session ident) = ''customer''"
proof -
  obtain i where i: "introspect client audience headers = Inr i"
      "check_delegation x (account_policy application_id) i = Inr ident"
    using assms by (auto simp: require_account_def account_from_introspection_def bind_r_Inr_iff)
  show ?thesis
    using introspect_Inr [OF i(1)] check_delegation_Inr [OF i(2)]
    by (auto simp: account_policy_def REQUIRED_ACCOUNT_SCOPE_def CUSTOMER_AUTH_REALM_def)
qed

definition example_introspection :: introspection where
  "example_introspection = \<lparr>in_active = True, in_sub = Some ''5'', in_iss = Some ''i'', in_email = None,
     in_rest = [(''sid'', JString ''s''), (''azp'', JString ''w''), (''parent_jti'', JString ''j''),
             (''scope'', JString ''zpkg:account'')]\<rparr>"

definition example_client :: auth_client where
  "example_client tok audience = Inr example_introspection"

definition example_identity :: identity where
  "example_identity =
     \<lparr>session = \<lparr>si_subject = 5, si_realm = ''customer'', si_email = None, si_display_name = None, si_avatar_url = None\<rparr>,
      session_id = ''s'', parent_jti = ''j''\<rparr>"

lemma example_account:
  "require_account toy_ext (Some example_client) ''aud'' ''w'' [(''authorization'', ''Bearer zpkg_1'')]
     = Inr example_identity"
proof -
  have t: "trim ''s'' = ''s''" "trim ''w'' = ''w''" "trim ''j'' = ''j''" "trim ''5'' = ''5''" "trim ''i'' = ''i''"
    "trim ''zpkg:account'' = ''zpkg:account''"
    by (simp_all add: trim_graphic is_graphic_def byte_of_def)
  have p: "uuid_parse toy_ext ''5'' = Some 5"
    by (simp add: toy_ext_def parse_u64_def is_ascii_digit_def byte_of_def digit_val_def u64_max_def)
  have s: "split_ascii_whitespace ''zpkg:account'' = [''zpkg:account'']"
    by (simp add: split_ascii_whitespace_def is_ascii_whitespace_def byte_of_def)
  show ?thesis
    by (simp add: require_account_def introspect_def bearer_example example_client_def
        account_from_introspection_def check_delegation_def example_introspection_def
        required_claim_def required_rest_def optional_rest_string_def t p s realm_of_def
        account_policy_def REQUIRED_ACCOUNT_SCOPE_def CUSTOMER_AUTH_REALM_def example_identity_def)
qed

theorem account_identity_provenance_witness:
  "\<exists>c tok i. Some example_client = Some c
    \<and> bearer_token [(''authorization'', ''Bearer zpkg_1'')] = Some tok \<and> c tok ''aud'' = Inr i
    \<and> in_active i \<and> optional_rest_string i ''azp'' = Inr (Some ''w'')
    \<and> (\<exists>scope. optional_rest_string i ''scope'' = Inr (Some scope)
         \<and> ''zpkg:account'' \<in> set (split_ascii_whitespace scope))
    \<and> optional_rest_string i ''sid'' = Inr (Some (session_id example_identity))
    \<and> optional_rest_string i ''parent_jti'' = Inr (Some (parent_jti example_identity))
    \<and> si_realm (session example_identity) = ''customer''"
  by (rule account_identity_provenance [OF example_account])

text \<open>The browser plane and the CLI plane are separated: no introspection response is accepted
  both as a browser account of an application other than the CLI and as a private-package reader,
  so a token minted for one cannot be replayed at the other.\<close>

theorem delegation_planes_are_disjoint:
  assumes "account_from_introspection x i application_id = Inr ident"
    and "application_id \<noteq> ''zpkg-cli''"
  shows "\<exists>err. package_reader_from_introspection x i = Inl err"
proof (cases "package_reader_from_introspection x i")
  case (Inr other)
  then have "optional_rest_string i ''azp'' = Inr (Some ''zpkg-cli'')"
    using check_delegation_Inr [of x package_reader_policy i other]
    by (simp add: package_reader_from_introspection_def package_reader_policy_def
        ZPKG_CLI_AUTHORIZED_PARTY_def)
  moreover have "optional_rest_string i ''azp'' = Inr (Some application_id)"
    using assms(1) check_delegation_Inr [of x "account_policy application_id" i ident]
    by (simp add: account_from_introspection_def account_policy_def)
  ultimately show ?thesis using assms(2) by simp
qed simp

theorem delegation_planes_are_disjoint_witness:
  "\<exists>err. package_reader_from_introspection toy_ext example_introspection = Inl err"
proof (rule delegation_planes_are_disjoint)
  show "account_from_introspection toy_ext example_introspection ''w'' = Inr example_identity"
    using example_account
    by (simp add: require_account_def introspect_def bearer_example example_client_def)
qed simp

end
