(* ===== verification/Rbac.thy ===== *)
theory Rbac
  imports ApiError
begin

section \<open>Role-based access control (\<^verbatim>\<open>src/rbac.rs\<close>)\<close>

text \<open>
  A token is an admin token (no organisation scope) or scoped to one organisation with a role.
  The two authorisers of the source share one contract, the locale \<open>scoped_authorizer\<close>: which
  capability the role must have is its parameter. Both are interpretations of it, and the handlers
  that call them rest on the interpretation's facts.
\<close>

datatype role = Owner | Publisher | Reader

definition parse :: "string \<Rightarrow> role" where
  "parse s =
     (if s = ''owner'' then Owner
      else if s = ''publisher'' then Publisher
      else if s = ''reader'' then Reader
      else Reader)"

fun as_str :: "role \<Rightarrow> string" where
  "as_str Owner = ''owner''"
| "as_str Publisher = ''publisher''"
| "as_str Reader = ''reader''"

definition is_valid :: "string \<Rightarrow> bool" where
  "is_valid s \<longleftrightarrow> s \<in> {''owner'', ''publisher'', ''reader''}"

fun can_publish :: "role \<Rightarrow> bool" where
  "can_publish Owner = True"
| "can_publish Publisher = True"
| "can_publish Reader = False"

fun can_manage :: "role \<Rightarrow> bool" where
  "can_manage Owner = True"
| "can_manage Publisher = False"
| "can_manage Reader = False"

definition insufficient_role_publish :: "role \<Rightarrow> api_err" where
  "insufficient_role_publish r = forbidden ''insufficient_role''
     (''this token's role (`'' @ as_str r @
      ''`) cannot publish; a `publisher` or `owner` token is required'')"

definition insufficient_role_manage :: "role \<Rightarrow> api_err" where
  "insufficient_role_manage r = forbidden ''insufficient_role''
     (''this token's role (`'' @ as_str r @
      ''`) cannot manage the org; an `owner` token is required'')"

definition authorize_publish :: "uuid option \<Rightarrow> role \<Rightarrow> uuid \<Rightarrow> unit api_result" where
  "authorize_publish token_org role target_org =
     (case token_org of
        None \<Rightarrow> Inr ()
      | Some scope \<Rightarrow>
          if scope \<noteq> target_org then Inl unauthorized
          else if can_publish role then Inr ()
          else Inl (insufficient_role_publish role))"

definition authorize_manage :: "uuid option \<Rightarrow> role \<Rightarrow> uuid \<Rightarrow> unit api_result" where
  "authorize_manage token_org role target_org =
     (case token_org of
        None \<Rightarrow> Inr ()
      | Some scope \<Rightarrow>
          if scope \<noteq> target_org then Inl unauthorized
          else if can_manage role then Inr ()
          else Inl (insufficient_role_manage role))"

subsection \<open>The order of roles\<close>

text \<open>A reader is below a publisher, a publisher below an owner.\<close>

fun role_level :: "role \<Rightarrow> nat" where
  "role_level Reader = 0"
| "role_level Publisher = 1"
| "role_level Owner = 2"

lemma role_level_inj [simp]: "role_level r = role_level s \<longleftrightarrow> r = s"
  by (cases r; cases s) auto

instantiation role :: linorder
begin

definition less_eq_role :: "role \<Rightarrow> role \<Rightarrow> bool" where
  "less_eq_role r s \<longleftrightarrow> role_level r \<le> role_level s"

definition less_role :: "role \<Rightarrow> role \<Rightarrow> bool" where
  "less_role r s \<longleftrightarrow> role_level r < role_level s"

instance
  by standard (auto simp: less_eq_role_def less_role_def dest: order.antisym)

end

lemma can_publish_iff: "can_publish r \<longleftrightarrow> Publisher \<le> r"
  by (cases r) (auto simp: less_eq_role_def)

lemma can_manage_iff: "can_manage r \<longleftrightarrow> Owner \<le> r"
  by (cases r) (auto simp: less_eq_role_def)

subsection \<open>The contract of an authoriser\<close>

locale scoped_authorizer =
  fixes authorize :: "uuid option \<Rightarrow> role \<Rightarrow> uuid \<Rightarrow> unit api_result"
    and capable :: "role \<Rightarrow> bool"
  assumes admin_everywhere: "authorize None r t = Inr ()"
    and foreign_scope: "s \<noteq> t \<Longrightarrow> authorize (Some s) r t = Inl unauthorized"
    and own_scope: "capable r \<Longrightarrow> authorize (Some t) r t = Inr ()"
    and weak_role: "\<not> capable r \<Longrightarrow>
      \<exists>m. authorize (Some t) r t = Inl (forbidden ''insufficient_role'' m)"
begin

lemma granted_iff:
  "authorize s r t = Inr u \<longleftrightarrow> s = None \<or> (s = Some t \<and> capable r)"
proof (cases s)
  case None
  then show ?thesis by (simp add: admin_everywhere)
next
  case (Some o')
  show ?thesis
  proof (cases "o' = t")
    case True
    then show ?thesis
      using Some own_scope [of r t] weak_role [of r t] by (cases "capable r") auto
  next
    case False
    then show ?thesis using Some foreign_scope [of o' t r] by simp
  qed
qed

lemma denied_cases:
  assumes "authorize s r t = Inl e"
  obtains "e = unauthorized" "\<exists>o'. s = Some o' \<and> o' \<noteq> t"
  | m where "e = forbidden ''insufficient_role'' m" "s = Some t" "\<not> capable r"
proof (cases s)
  case None
  then show thesis using assms admin_everywhere by simp
next
  case (Some o')
  show thesis
  proof (cases "o' = t")
    case own: True
    show thesis
    proof (cases "capable r")
      case True
      then show thesis using own Some assms own_scope [of r t] by simp
    next
      case False
      then show thesis using own Some assms weak_role [of r t] that(2) by auto
    qed
  next
    case False
    then show thesis using Some assms foreign_scope [of o' t r] that(1) by simp
  qed
qed

lemma single_scope: "authorize (Some s) r t = Inr u \<Longrightarrow> s = t"
  by (simp add: granted_iff)

end

text \<open>A graded authoriser grants a stronger role whatever it grants a weaker one.\<close>

locale graded_authorizer = scoped_authorizer +
  assumes upward: "capable r \<Longrightarrow> r \<le> r' \<Longrightarrow> capable r'"
begin

lemma promoted: "authorize s r t = Inr u \<Longrightarrow> r \<le> r' \<Longrightarrow> authorize s r' t = Inr u"
  by (auto simp: granted_iff dest: upward)

end

interpretation pub: graded_authorizer authorize_publish can_publish
  by unfold_locales
     (auto simp: authorize_publish_def insufficient_role_publish_def can_publish_iff intro: order.trans)

interpretation mng: graded_authorizer authorize_manage can_manage
  by unfold_locales
     (auto simp: authorize_manage_def insufficient_role_manage_def can_manage_iff intro: order.trans)

lemma can_manage_can_publish: "can_manage r \<Longrightarrow> can_publish r"
  by (cases r) auto

text \<open>Promoting a token never takes a right away from it.\<close>

lemmas promotion = pub.promoted mng.promoted

subsection \<open>Properties\<close>

text \<open>C10. A publish or yank of an organisation is authorised exactly for admin tokens and for
  tokens scoped to that very organisation whose role is owner or publisher; in particular an
  unknown stored role string never publishes.\<close>

theorem publish_authority:
  "authorize_publish scope (parse r) target = Inr () \<longleftrightarrow>
     scope = None \<or> (scope = Some target \<and> (r = ''owner'' \<or> r = ''publisher''))"
  by (auto simp: pub.granted_iff parse_def)

text \<open>Organisation management is the stronger right: whoever may manage may publish, and a
  publisher token that may publish is refused management with a 403, not a 401.\<close>

theorem manage_stronger_than_publish:
  "(authorize_manage s r t = Inr () \<longrightarrow> authorize_publish s r t = Inr ()) \<and>
   (\<exists>e. authorize_manage (Some t) Publisher t = Inl e \<and> status e = 403
        \<and> err_code e = ''insufficient_role'')"
proof -
  have "authorize_manage s r t = Inr () \<longrightarrow> authorize_publish s r t = Inr ()"
    by (auto simp: pub.granted_iff mng.granted_iff dest: can_manage_can_publish)
  moreover obtain m where "authorize_manage (Some t) Publisher t = Inl (forbidden ''insufficient_role'' m)"
    using mng.weak_role by fastforce
  ultimately show ?thesis by simp
qed

theorem manage_stronger_than_publish_witness:
  "authorize_manage (Some 7) Owner 7 = Inr () \<and> authorize_publish (Some 7) Owner 7 = Inr ()"
  using manage_stronger_than_publish [of "Some 7" Owner 7]
  by (simp add: authorize_manage_def)

lemma can_publish_parse_iff: "can_publish (parse s) \<longleftrightarrow> s = ''owner'' \<or> s = ''publisher''"
  by (auto simp: parse_def)

lemma can_manage_parse_iff: "can_manage (parse s) \<longleftrightarrow> s = ''owner''"
  by (auto simp: parse_def)

end
