(* ===== verification/Tokens.thy ===== *)
theory Tokens
  imports Auth Rbac
begin

section \<open>Token administration (\<^verbatim>\<open>src/tokens.rs\<close>)\<close>

text \<open>
  The \<open>create-token\<close> and \<open>revoke-token\<close> commands, from their argument vectors to the rows
  they write. Connecting to the database and running the migrations happen between argument
  checking and the first statement and are not modelled; \<open>chrono\<close>'s addition of days is a
  parameter that is undefined where it panics.
\<close>

datatype cli_err = Bail string | DbFailure db_err | Panicked

definition dbq :: "(db_err, 'a) act \<Rightarrow> (cli_err, 'a) act" where
  "dbq m = map_err DbFailure m"

lemma dbq_Inr_iff [simp]: "dbq m e w = (Inr a, w') \<longleftrightarrow> m e w = (Inr a, w')"
  by (auto simp: dbq_def map_err_def split: prod.splits sum.splits)

subsection \<open>create-token\<close>

record create_args =
  ca_name :: "string option"
  ca_org :: "string option"
  ca_role :: string
  ca_days :: "int option"

definition default_create_args :: create_args where
  "default_create_args = \<lparr>ca_name = None, ca_org = None, ca_role = ''owner'', ca_days = None\<rparr>"

definition next_arg :: "string list \<Rightarrow> string option" where
  "next_arg args = (case args of [] \<Rightarrow> None | a # _ \<Rightarrow> Some a)"

definition parse_days :: "string option \<Rightarrow> cli_err + int" where
  "parse_days raw =
     (case raw of
        None \<Rightarrow> Inl (Bail ''--expires-in-days needs a value'')
      | Some r \<Rightarrow>
          (case parse_i64 r of
             None \<Rightarrow> Inl (Bail (''--expires-in-days must be a positive integer (got `'' @ r @ ''`)''))
           | Some days \<Rightarrow>
               if days \<le> 0 then Inl (Bail (''--expires-in-days must be positive (got '' @ show_int days @ '')'')) else Inr days))"

fun parse_create_args :: "string list \<Rightarrow> create_args \<Rightarrow> cli_err + create_args" where
  "parse_create_args [] acc = Inr acc"
| "parse_create_args (arg # others) acc =
     (if arg = ''--name'' then parse_create_args (drop 1 others) (acc\<lparr>ca_name := next_arg others\<rparr>)
      else if arg = ''--org'' then parse_create_args (drop 1 others) (acc\<lparr>ca_org := next_arg others\<rparr>)
      else if arg = ''--role'' then
        bind_r (ok_or (Bail ''--role needs a value'') (next_arg others)) (\<lambda>role.
          parse_create_args (drop 1 others) (acc\<lparr>ca_role := role\<rparr>))
      else if arg = ''--expires-in-days'' then
        bind_r (parse_days (next_arg others)) (\<lambda>days.
          parse_create_args (drop 1 others) (acc\<lparr>ca_days := Some days\<rparr>))
      else Inl (Bail (''unknown argument `'' @ arg @ ''`'')))"

definition check_create_args :: "string list \<Rightarrow> cli_err + string \<times> create_args" where
  "check_create_args args =
     bind_r (parse_create_args args default_create_args) (\<lambda>a.
     bind_r (ok_or (Bail ''--name is required'') (ca_name a)) (\<lambda>name.
     bind_r (guard_r (is_valid (ca_role a))
       (Bail (''--role must be one of: owner, publisher, reader (got `'' @ ca_role a @ ''`)''))) (\<lambda>_.
     bind_r (guard_r (ca_org a \<noteq> None \<or> ca_role a = ''owner'')
       (Bail ''--role only applies to org-scoped tokens; pass --org, or omit --role for an admin token''))
       (\<lambda>_. Inr (name, a)))))"

definition find_org_by_slug :: "string \<Rightarrow> db \<Rightarrow> org_row option" where
  "find_org_by_slug slug d = List.find (\<lambda>r. o_slug r = slug) (orgs d)"

definition find_or_create_org :: "string \<Rightarrow> (cli_err, org_row) act" where
  "find_or_create_org slug =
     bind_a (dbq (query (find_org_by_slug slug))) (\<lambda>found.
       case found of
         Some existing \<Rightarrow> ret existing
       | None \<Rightarrow>
           bind_a new_v4 (\<lambda>i.
           bind_a utc_now (\<lambda>now.
             let row = \<lparr>o_id = i, o_slug = slug, o_created_at = now, o_created_by_token = None\<rparr>
             in bind_a (dbq (execute (InsertOrg row))) (\<lambda>_. ret row))))"

record token_receipt =
  plaintext :: string
  headline :: string

definition org_scope :: "string option \<Rightarrow> (cli_err, uuid option) act" where
  "org_scope slug =
     (case slug of
        None \<Rightarrow> ret None
      | Some s \<Rightarrow> bind_a (find_or_create_org s) (\<lambda>row. ret (Some (o_id row))))"

definition expiry ::
  "(datetime \<Rightarrow> int \<Rightarrow> datetime option) \<Rightarrow> int option \<Rightarrow> (cli_err, datetime option) act" where
  "expiry add_days days =
     (case days of
        None \<Rightarrow> ret None
      | Some n \<Rightarrow>
          bind_a utc_now (\<lambda>now.
            (case add_days now n of None \<Rightarrow> throw Panicked | Some at \<Rightarrow> ret (Some at))))"

definition token_headline ::
  "('x ext_scheme) \<Rightarrow> string \<Rightarrow> string option \<Rightarrow> string \<Rightarrow> datetime option \<Rightarrow> string" where
  "token_headline x name org_slug role expires_at =
     ''token `'' @ name @ ''` created (''
     @ (case org_slug of Some slug \<Rightarrow> ''org `'' @ slug @ ''`, role `'' @ role @ ''`''
                       | None \<Rightarrow> ''admin (all orgs)'')
     @ (case expires_at of Some at \<Rightarrow> '', expires '' @ rfc3339 x at | None \<Rightarrow> [])
     @ ''); save it now, it is shown exactly once:''"

definition create_token ::
  "('x ext_scheme) \<Rightarrow> (datetime \<Rightarrow> int \<Rightarrow> datetime option) \<Rightarrow> string list \<Rightarrow> (cli_err, token_receipt) act"
where
  "create_token x add_days args =
     bind_a (lift (check_create_args args)) (\<lambda>(name, a).
     bind_a (org_scope (ca_org a)) (\<lambda>org.
     bind_a (expiry add_days (ca_days a)) (\<lambda>expires_at.
     bind_a new_v4 (\<lambda>u1.
     bind_a new_v4 (\<lambda>u2.
     bind_a new_v4 (\<lambda>i.
     bind_a utc_now (\<lambda>now.
       let plain = ''zpkg_'' @ uuid_simple x u1 @ uuid_simple x u2;
           row = \<lparr>t_id = i, t_name = name, t_token_hash = hash_token x plain, t_org_id = org,
                  t_role = ca_role a, t_created_at = now, t_expires_at = expires_at, t_revoked_at = None\<rparr>
       in bind_a (dbq (execute (InsertToken row))) (\<lambda>_.
            ret \<lparr>plaintext = plain, headline = token_headline x name (ca_org a) (ca_role a) expires_at\<rparr>))))))))"

subsection \<open>revoke-token\<close>

fun parse_revoke_args ::
  "string list \<Rightarrow> string option \<times> string option \<Rightarrow> cli_err + string option \<times> string option" where
  "parse_revoke_args [] acc = Inr acc"
| "parse_revoke_args (arg # others) (name, i) =
     (if arg = ''--name'' then parse_revoke_args (drop 1 others) (next_arg others, i)
      else if arg = ''--id'' then parse_revoke_args (drop 1 others) (name, next_arg others)
      else Inl (Bail (''unknown argument `'' @ arg @ ''`'')))"

definition token_matches :: "string option \<Rightarrow> uuid option \<Rightarrow> token_row \<Rightarrow> bool" where
  "token_matches name i row \<longleftrightarrow>
     (case name of None \<Rightarrow> True | Some n \<Rightarrow> t_name row = n)
     \<and> (case i of None \<Rightarrow> True | Some u \<Rightarrow> t_id row = u)"

fun revoke_rows :: "datetime \<Rightarrow> token_row list \<Rightarrow> nat \<Rightarrow> (cli_err, nat) act" where
  "revoke_rows now [] revoked = ret revoked"
| "revoke_rows now (row # rows) revoked =
     (if t_revoked_at row \<noteq> None then revoke_rows now rows revoked
      else bind_a (dbq (execute (SetTokenRevoked (t_id row) (Some now)))) (\<lambda>_.
             revoke_rows now rows (revoked + 1)))"

definition revoke_token :: "('x ext_scheme) \<Rightarrow> string list \<Rightarrow> (cli_err, nat) act" where
  "revoke_token x args =
     bind_a (lift (parse_revoke_args args (None, None))) (\<lambda>(name, i).
     bind_a (lift (guard_r (name \<noteq> None \<or> i \<noteq> None)
       (Bail ''pass --name <name> or --id <uuid> to identify the token to revoke''))) (\<lambda>_.
     bind_a (lift (transpose_opt (\<lambda>s. ok_or (Bail ''--id must be a UUID'') (uuid_parse x s)) i)) (\<lambda>u.
     bind_a (dbq (query (\<lambda>d. filter (token_matches name u) (tokens d)))) (\<lambda>rows.
     bind_a (lift (guard_r (rows \<noteq> []) (Bail ''no token matched''))) (\<lambda>_.
     bind_a utc_now (\<lambda>now.
       revoke_rows now rows 0))))))"

subsection \<open>Minting\<close>

lemma check_create_args_Inr:
  "check_create_args args = Inr (name, a) \<Longrightarrow>
     is_valid (ca_role a) \<and> (ca_org a = None \<longrightarrow> ca_role a = ''owner'')"
  by (auto simp: check_create_args_def bind_r_Inr_iff)

lemma find_or_create_org_txn:
  "txn w = None \<Longrightarrow> find_or_create_org slug e w = (r, w') \<Longrightarrow> txn w' = None"
  by (auto simp: find_or_create_org_def monad_defs dbq_def query_def new_v4_def utc_now_def Let_def
      split: prod.splits sum.splits option.splits if_splits dest: execute_autocommit [rotated])

lemma org_scope_run:
  "txn w = None \<Longrightarrow> org_scope slug e w = (Inr org, w') \<Longrightarrow>
     txn w' = None \<and> (org = None \<longleftrightarrow> slug = None)"
  by (auto simp: org_scope_def bind_a_Inr_iff split: option.splits dest: find_or_create_org_txn)

lemma expiry_run: "expiry add_days days e w = (Inr at, w') \<Longrightarrow> txn w' = txn w"
  by (auto simp: expiry_def bind_a_Inr_iff utc_now_def split: option.splits)

lemma create_token_row:
  assumes "txn w = None" "create_token x add_days args e w = (Inr receipt, w')"
  shows "txn w' = None \<and> (\<exists>row. row \<in> set (tokens (committed w'))
    \<and> t_token_hash row = sha256_hex x (plaintext receipt) \<and> is_valid (t_role row)
    \<and> (t_org_id row = None \<longrightarrow> t_role row = ''owner'') \<and> t_revoked_at row = None)"
proof -
  obtain name a org w1 expires_at w2 u1 u2 i now w3 d plain row where
    args: "check_create_args args = Inr (name, a)"
    and org: "org_scope (ca_org a) e w = (Inr org, w1)"
    and ex: "expiry add_days (ca_days a) e w1 = (Inr expires_at, w2)"
    and plain: "plain = ''zpkg_'' @ uuid_simple x u1 @ uuid_simple x u2"
    and row: "row = \<lparr>t_id = i, t_name = name, t_token_hash = hash_token x plain, t_org_id = org,
      t_role = ca_role a, t_created_at = now, t_expires_at = expires_at, t_revoked_at = None\<rparr>"
    and ins: "execute (InsertToken row) e w3 = (Inr d, w')"
    and w3: "txn w3 = txn w2" and receipt: "plaintext receipt = plain"
    using assms(2)
    by (auto simp: create_token_def bind_a_Inr_iff new_v4_def utc_now_def Let_def split: prod.splits)
  have "txn w1 = None" "org = None \<longleftrightarrow> ca_org a = None" using org_scope_run assms(1) org by auto
  then have "txn w3 = None" using expiry_run [OF ex] w3 by simp
  from execute_autocommit [OF this ins] have
    "txn w' = None" "apply_write (InsertToken row) (committed (settle e w3)) = Inr (committed w')" by auto
  then have "row \<in> set (tokens (committed w'))" by (simp add: apply_insert_iff)
  then show ?thesis
    using row receipt \<open>org = None \<longleftrightarrow> ca_org a = None\<close> \<open>txn w' = None\<close> check_create_args_Inr [OF args]
    by (intro conjI exI [of _ row]) (auto simp: hash_token_def)
qed

text \<open>Minting and presenting a token round-trip: when \<open>create-token\<close> succeeds there is a stored
  row, not revoked, with a valid role and unscoped only if that role is owner, and a request that
  carries the printed plaintext is authenticated as that row as long as it has not expired and
  other sessions have left it alone. Only the hash is stored.\<close>

theorem minted_token_authenticates:
  assumes "txn w = None" and "create_token x add_days args e w = (Inr receipt, w')"
    and "bearer_token headers = Some (plaintext receipt)"
    and "outcome_at e' (tick w') = Served" and "schema_ok (committed (settle e' w'))"
    and "set (tokens (committed w')) \<subseteq> set (tokens (committed (settle e' w')))"
  shows "\<exists>row. row \<in> set (tokens (committed w')) \<and> is_valid (t_role row)
    \<and> (t_org_id row = None \<longrightarrow> t_role row = ''owner'')
    \<and> t_token_hash row = sha256_hex x (plaintext receipt)
    \<and> (live_at (clock_at e' (Suc (tick w'))) row \<longrightarrow> fst (require_token x headers e' w') = Inr row)"
proof -
  obtain row where row: "txn w' = None" "row \<in> set (tokens (committed w'))"
      "t_token_hash row = sha256_hex x (plaintext receipt)" "is_valid (t_role row)"
      "t_org_id row = None \<longrightarrow> t_role row = ''owner''"
    using create_token_row [OF assms(1,2)] by auto
  then have "find_token_by_hash (sha256_hex x (plaintext receipt)) (view (settle e' w')) = Some row"
    using assms(5,6) by (subst find_token_by_hash_iff) auto
  then have "live_at (clock_at e' (Suc (tick w'))) row \<longrightarrow> fst (require_token x headers e' w') = Inr row"
    using assms(3,4) by (simp add: require_token_cases hash_token_def)
  with row show ?thesis by (intro exI [of _ row] conjI) auto
qed

definition minted_row :: token_row where
  "minted_row = \<lparr>t_id = 102, t_name = ''ci'', t_token_hash = replicate 64 (CHR ''a''), t_org_id = None,
     t_role = ''owner'', t_created_at = 3, t_expires_at = None, t_revoked_at = None\<rparr>"

definition minted_world :: world where
  "minted_world = (start (empty_db\<lparr>tokens := [minted_row]\<rparr>))\<lparr>tick := 5\<rparr>"

lemma minted_run:
  "create_token toy_ext (\<lambda>t n. Some (t + n)) [''--name'', ''ci''] calm (start empty_db) =
     (Inr \<lparr>plaintext = ''zpkg_uu'', headline = token_headline toy_ext ''ci'' None ''owner'' None\<rparr>,
      minted_world)"
proof -
  have a: "check_create_args [''--name'', ''ci''] = Inr (''ci'', default_create_args\<lparr>ca_name := Some ''ci''\<rparr>)"
    by (simp add: check_create_args_def default_create_args_def next_arg_def is_valid_def)
  show ?thesis
    by (simp add: create_token_def a default_create_args_def org_scope_def expiry_def
        run_simps dbq_def example_defs minted_world_def minted_row_def hash_token_def)
qed

theorem minted_token_authenticates_witness:
  "\<exists>row. row \<in> set (tokens (committed minted_world)) \<and> is_valid (t_role row)
    \<and> (t_org_id row = None \<longrightarrow> t_role row = ''owner'')
    \<and> t_token_hash row = sha256_hex toy_ext ''zpkg_uu''
    \<and> (live_at (clock_at calm (Suc (tick minted_world))) row \<longrightarrow>
        fst (require_token toy_ext [(''authorization'', ''Bearer zpkg_uu'')] calm minted_world) = Inr row)"
proof -
  have b: "bearer_token [(''authorization'', ''Bearer zpkg_uu'')] = Some ''zpkg_uu''"
    by (simp add: bearer_token_def header_to_str_def byte_of_def strip_prefix_def starts_with_def
        trim_graphic is_graphic_def)
  have c: "committed (settle calm minted_world) = empty_db\<lparr>tokens := [minted_row]\<rparr>"
    by (simp add: calm_settle minted_world_def start_def)
  have "schema_ok (empty_db\<lparr>tokens := [minted_row]\<rparr>)"
    by (simp add: schema_ok_def keyed_def empty_db_def)
  then show ?thesis
    using minted_token_authenticates [OF _ minted_run, of "[(''authorization'', ''Bearer zpkg_uu'')]" calm] b c
    by (simp add: start_def minted_world_def calm_def)
qed

subsection \<open>Revocation\<close>

definition revoked_id :: "uuid \<Rightarrow> db \<Rightarrow> bool" where
  "revoked_id i d \<longleftrightarrow> list_all (\<lambda>r. t_id r = i \<longrightarrow> t_revoked_at r \<noteq> None) (tokens d)"

definition never_unrevokes :: "env \<Rightarrow> bool" where
  "never_unrevokes e \<longleftrightarrow> (\<forall>t d i. revoked_id i d \<longrightarrow> revoked_id i (peer_db e t d))"

lemma revoked_id_settle:
  "never_unrevokes e \<Longrightarrow> revoked_id i (committed w) \<Longrightarrow> revoked_id i (committed (settle e w))"
  using settle_committed [of e w] by (auto simp: never_unrevokes_def)

lemma set_token_revoked_effect:
  assumes "apply_write (SetTokenRevoked j (Some now)) d = Inr d'"
  shows "revoked_id j d' \<and> (revoked_id i d \<longrightarrow> revoked_id i d')"
  using assms by (auto simp: apply_update_iff revoked_id_def list_all_iff)

lemma revoke_rows_keeps:
  assumes "never_unrevokes e"
  shows "txn w = None \<Longrightarrow> revoked_id i (committed w) \<Longrightarrow>
    revoke_rows now rows n e w = (r, w') \<Longrightarrow> txn w' = None \<and> revoked_id i (committed w')"
proof (induction rows arbitrary: n w)
  case (Cons row rows)
  show ?case
  proof (cases "t_revoked_at row = None")
    case True
    obtain s w1 where s: "execute (SetTokenRevoked (t_id row) (Some now)) e w = (s, w1)" by fastforce
    note step = execute_autocommit [OF Cons.prems(1) s]
    have "revoked_id i (committed w1)"
      using step revoked_id_settle [OF assms Cons.prems(2)] set_token_revoked_effect by metis
    moreover have "w' = w1 \<or> revoke_rows now rows (n + 1) e w1 = (r, w')"
      using Cons.prems(3) True s by (auto simp: bind_a_def dbq_def map_err_def split: sum.splits)
    ultimately show ?thesis using Cons.IH [of w1] step by auto
  next
    case False
    then show ?thesis using Cons by simp
  qed
qed simp

lemma revoke_rows_txn: "revoke_rows now rows n e w = (r, w') \<Longrightarrow> txn w = None \<Longrightarrow> txn w' = None"
proof (induction rows arbitrary: n w)
  case (Cons row rows)
  then show ?case
    by (auto simp: bind_a_def dbq_def map_err_def split: if_splits prod.splits sum.splits
        dest!: execute_autocommit [rotated])
qed simp

lemma revoke_rows_revokes:
  assumes "never_unrevokes e"
  shows "txn w = None \<Longrightarrow> revoke_rows now rows n e w = (Inr m, w') \<Longrightarrow> row \<in> set rows \<Longrightarrow>
    t_revoked_at row = None \<Longrightarrow> revoked_id (t_id row) (committed w')"
proof (induction rows arbitrary: n w)
  case (Cons r rows)
  show ?case
  proof (cases "t_revoked_at r = None")
    case True
    then obtain d w1 where s: "execute (SetTokenRevoked (t_id r) (Some now)) e w = (Inr d, w1)"
        and next_: "revoke_rows now rows (n + 1) e w1 = (Inr m, w')"
      using Cons.prems(2) by (auto simp: bind_a_Inr_iff)
    note step = execute_autocommit [OF Cons.prems(1) s]
    have "revoked_id (t_id r) (committed w1)" using step set_token_revoked_effect by metis
    then have "revoked_id (t_id r) (committed w')"
      using revoke_rows_keeps [OF assms _ _ next_] step by blast
    then show ?thesis using Cons.IH [OF _ next_] Cons.prems(3,4) step by auto
  next
    case False
    then show ?thesis using Cons by auto
  qed
qed simp

lemma revoked_row_revoked_id:
  assumes "schema_ok d" "row \<in> set (tokens d)" "t_revoked_at row \<noteq> None"
  shows "revoked_id (t_id row) d"
proof -
  have "r = row" if "r \<in> set (tokens d)" "t_id r = t_id row" for r
    using assms(1,2) that token_table.keyed_unique [of "tokens d" row r]
    by (simp add: schema_ok_def token_clash_def)
  then show ?thesis using assms(3) by (auto simp: revoked_id_def list_all_iff)
qed

text \<open>When \<open>revoke-token\<close> succeeds, every token row it matched at its query (by name, by id or
  by both) is revoked when it returns, whatever else runs concurrently as long as no other session
  un-revokes tokens; and from then on no request is authenticated as one of these tokens.\<close>

theorem revoked_tokens_are_refused:
  assumes "txn w = None" and "never_unrevokes e" and "schema_ok (committed (settle e w))"
    and "revoke_token x args e w = (Inr n, w')"
  shows "\<exists>name u. (name \<noteq> None \<or> u \<noteq> None)
    \<and> (\<forall>row \<in> set (tokens (committed (settle e w))). token_matches name u row \<longrightarrow>
        revoked_id (t_id row) (committed w')
        \<and> (\<forall>headers r. fst (require_token x headers e w') = Inr r \<longrightarrow> t_id r \<noteq> t_id row))"
proof -
  let ?w1 = "settle e w"
  obtain name s u now where args: "name \<noteq> None \<or> s \<noteq> None"
      "transpose_opt (\<lambda>s. ok_or (Bail ''--id must be a UUID'') (uuid_parse x s)) s = Inr u"
    and loop: "revoke_rows now (filter (token_matches name u) (tokens (view ?w1))) 0 e
      (?w1\<lparr>tick := Suc (tick ?w1)\<rparr>) = (Inr n, w')"
    using assms(4)
    by (clarsimp simp: revoke_token_def bind_a_Inr_iff query_Inr_iff utc_now_def split: prod.splits)
  have some: "name \<noteq> None \<or> u \<noteq> None"
    using args by (auto simp: transpose_opt_def bind_r_Inr_iff split: option.splits)
  have rows: "view ?w1 = committed ?w1" using assms(1) by simp
  have rev: "revoked_id (t_id row) (committed w')"
    if "row \<in> set (tokens (committed ?w1))" "token_matches name u row" for row
  proof (cases "t_revoked_at row = None")
    case True
    then show ?thesis
      using revoke_rows_revokes [OF assms(2) _ loop, of row] that assms(1) rows by simp
  next
    case False
    then show ?thesis
      using revoke_rows_keeps [OF assms(2) _ _ loop] revoked_row_revoked_id [OF assms(3) that(1)]
        assms(1) by simp
  qed
  have w': "txn w' = None"
    using loop assms(1) by (auto dest!: revoke_rows_txn)
  have refuse: "t_id r \<noteq> i" if "revoked_id i (committed w')" "fst (require_token x h e w') = Inr r" for i h r
  proof -
    have "revoked_id i (view (settle e w'))"
      using revoked_id_settle [OF assms(2) that(1)] w' by simp
    moreover have "r \<in> set (tokens (view (settle e w')))" "t_revoked_at r = None"
      using that(2) by (auto simp: require_token_cases find_token_by_hash_def live_at_def
          split: option.splits if_splits dest: find_Some_iff')
    ultimately show ?thesis by (auto simp: revoked_id_def list_all_iff)
  qed
  show ?thesis using some rev refuse by blast
qed

lemma revoke_run:
  "revoke_token toy_ext [''--name'', ''ci''] calm (start db_1) =
     (Inr 1, (start (db_1\<lparr>tokens := [token_1\<lparr>t_revoked_at := Some 1\<rparr>]\<rparr>))\<lparr>tick := 3\<rparr>)"
  by (simp add: revoke_token_def next_arg_def transpose_opt_def dbq_def token_matches_def run_simps
      example_defs)

theorem revoked_tokens_are_refused_witness:
  "\<exists>name u. (name \<noteq> None \<or> u \<noteq> None)
    \<and> (\<forall>row \<in> set (tokens (committed (settle calm (start db_1)))). token_matches name u row \<longrightarrow>
        revoked_id (t_id row) (db_1\<lparr>tokens := [token_1\<lparr>t_revoked_at := Some 1\<rparr>]\<rparr>)
        \<and> (\<forall>headers r. fst (require_token toy_ext headers calm
              ((start (db_1\<lparr>tokens := [token_1\<lparr>t_revoked_at := Some 1\<rparr>]\<rparr>))\<lparr>tick := 3\<rparr>)) = Inr r
            \<longrightarrow> t_id r \<noteq> t_id row))"
proof -
  have n: "never_unrevokes calm" by (simp add: never_unrevokes_def calm_def)
  have c: "committed (settle calm (start db_1)) = db_1" by (simp add: calm_settle start_def)
  show ?thesis
    using revoked_tokens_are_refused [OF _ n _ revoke_run] db_1_schema_ok c by (simp add: start_def)
qed

end
