(* ===== verification/AuditLog.thy ===== *)
theory AuditLog
  imports Auth
begin

section \<open>The audit chain (\<^verbatim>\<open>src/audit.rs\<close>)\<close>

text \<open>
  Every mutation of published state appends one row to a per-organisation chain: \<open>seq\<close> numbers
  the rows, \<open>entry_hash\<close> covers the row and its predecessor's hash. \<open>append_chained\<close> is one
  transaction, \<open>record_audit\<close> the bounded retry around it, \<open>verify_chain\<close> the offline check.
\<close>

definition ADMIN_ROLE :: string where
  "ADMIN_ROLE = ''admin''"

definition APPEND_ATTEMPTS :: nat where
  "APPEND_ATTEMPTS = 4"

definition actor_role :: "token_row \<Rightarrow> string" where
  "actor_role token = (if t_org_id token = None then ADMIN_ROLE else t_role token)"

definition entry_digest :: "('x ext_scheme) \<Rightarrow> audit_chain_input \<Rightarrow> string" where
  "entry_digest x input = sha256_hex x (audit_chain_preimage x input)"

text \<open>Instants of the model have microsecond resolution, so \<open>chain_timestamp\<close> is the clock.\<close>

definition chain_timestamp :: "('e, datetime) act" where
  "chain_timestamp = utc_now"

subsection \<open>Reading the log\<close>

text \<open>\<open>ORDER BY seq\<close> for one organisation; \<open>order_by_desc(seq).one()\<close> is its last row.\<close>

definition org_rows :: "uuid \<Rightarrow> db \<Rightarrow> audit_row list" where
  "org_rows org d = sort_key a_seq (filter (\<lambda>r. a_org_id r = org) (audit_log d))"

definition find_tip :: "uuid \<Rightarrow> db \<Rightarrow> audit_row option" where
  "find_tip org d = (case rev (org_rows org d) of [] \<Rightarrow> None | r # _ \<Rightarrow> Some r)"

subsection \<open>Appending\<close>

definition tip_seq :: "audit_row option \<Rightarrow> int" where
  "tip_seq tip = (case tip of None \<Rightarrow> 0 | Some t \<Rightarrow> a_seq t)"

definition tip_hash :: "audit_row option \<Rightarrow> string option" where
  "tip_hash tip =
     (case tip of None \<Rightarrow> None | Some t \<Rightarrow> if a_entry_hash t = [] then None else Some (a_entry_hash t))"

definition next_row ::
  "('x ext_scheme) \<Rightarrow> uuid \<Rightarrow> token_row \<Rightarrow> audit_action \<Rightarrow> string \<Rightarrow> string option
   \<Rightarrow> audit_row option \<Rightarrow> datetime \<Rightarrow> uuid \<Rightarrow> audit_row" where
  "next_row x org_id token action subject detail tip at i =
     (let seq = wrap_i64 (tip_seq tip + 1);
          prev_hash = tip_hash tip;
          entry_hash = entry_digest x
            \<lparr>ci_org_id = uuid_str x org_id, ci_seq = as_u64 seq, ci_at = rfc3339 x at,
             ci_action = action_str x action, ci_subject = subject,
             ci_actor_token_id = Some (uuid_str x (t_id token)), ci_actor_token_name = t_name token,
             ci_actor_role = actor_role token, ci_detail = detail,
             ci_prev_hash = (case prev_hash of None \<Rightarrow> [] | Some h \<Rightarrow> h)\<rparr>
      in \<lparr>a_id = i, a_org_id = org_id, a_at = at, a_action = action_str x action, a_subject = subject,
          a_actor_token_id = Some (t_id token), a_actor_token_name = t_name token,
          a_actor_role = actor_role token, a_detail = detail, a_seq = seq, a_entry_hash = entry_hash,
          a_prev_hash = prev_hash\<rparr>)"

definition audit_lock_key :: "('x ext_scheme) \<Rightarrow> uuid \<Rightarrow> string" where
  "audit_lock_key x org_id = ''zed-api:audit:'' @ uuid_str x org_id"

text \<open>\<open>pg\<close>: the backend is PostgreSQL, where appends take an advisory lock.\<close>

definition append_chained ::
  "('x ext_scheme) \<Rightarrow> bool \<Rightarrow> uuid \<Rightarrow> token_row \<Rightarrow> audit_action \<Rightarrow> string \<Rightarrow> string option
   \<Rightarrow> (db_err, unit) act" where
  "append_chained x pg org_id token action subject detail =
     bind_a begin_txn (\<lambda>_.
     in_txn
       (bind_a (if pg then advisory_lock (audit_lock_key x org_id) else ret ()) (\<lambda>_.
        bind_a (query (find_tip org_id)) (\<lambda>tip.
        bind_a chain_timestamp (\<lambda>at.
        bind_a new_v4 (\<lambda>i.
        bind_a (execute (InsertAudit (next_row x org_id token action subject detail tip at i))) (\<lambda>_.
          commit_txn)))))))"

definition is_position_taken :: "db_err \<Rightarrow> bool" where
  "is_position_taken err \<longleftrightarrow> err = UniqueConstraintViolation"

text \<open>The retry loop: it never fails the request; the result says whether the row was recorded.\<close>

fun record_attempts :: "nat \<Rightarrow> (db_err, unit) act \<Rightarrow> db_err option handler" where
  "record_attempts 0 app = ret (Some UniqueConstraintViolation)"
| "record_attempts (Suc n) app =
     bind_a (attempt app) (\<lambda>r.
       case r of
         Inr _ \<Rightarrow> ret None
       | Inl err \<Rightarrow> if is_position_taken err then record_attempts n app else ret (Some err))"

definition record_audit ::
  "('x ext_scheme) \<Rightarrow> bool \<Rightarrow> uuid \<Rightarrow> token_row \<Rightarrow> audit_action \<Rightarrow> string \<Rightarrow> string option
   \<Rightarrow> unit handler" where
  "record_audit x pg org_id token action subject detail =
     bind_a (record_attempts APPEND_ATTEMPTS (append_chained x pg org_id token action subject detail))
       (\<lambda>_. ret ())"

text \<open>Recording never fails the request.\<close>

lemma record_attempts_total: "\<exists>v w'. record_attempts n app e w = (Inr v, w')"
  by (induction n arbitrary: w) (auto simp: bind_a_def attempt_def split: prod.split sum.split)

lemma record_audit_total: "\<exists>w'. record_audit x pg org token action subject detail e w = (Inr (), w')"
  using record_attempts_total
    [of APPEND_ATTEMPTS "append_chained x pg org token action subject detail" e w]
  by (auto simp: record_audit_def bind_a_def)

text \<open>An invariant that the audit insert keeps is kept by recording.\<close>

context world_invariant
begin

lemma keeps_record_attempts:
  assumes "keeps rely P app"
  shows "keeps rely P (record_attempts n app)"
proof (induction n)
  case 0
  show ?case unfolding record_attempts.simps by (rule keeps_ret)
next
  case (Suc n)
  show ?case unfolding record_attempts.simps
    by (intro keep_rules keeps_attempt keeps_bind keeps_ret assms Suc)
qed

lemma keeps_record_audit:
  assumes "\<And>r. keeps rely P (execute (InsertAudit r))"
  shows "keeps rely P (record_audit x pg org token action subject detail)"
  unfolding record_audit_def append_chained_def chain_timestamp_def
  by (intro keeps_bind keeps_record_attempts keeps_begin keeps_in_txn keeps_if keeps_advisory keeps_query
      keeps_now keeps_uuid keeps_commit keeps_ret assms)

end

subsection \<open>Verifying\<close>

definition row_input :: "('x ext_scheme) \<Rightarrow> audit_row \<Rightarrow> string \<Rightarrow> audit_chain_input" where
  "row_input x row prev_hash =
     \<lparr>ci_org_id = uuid_str x (a_org_id row), ci_seq = as_u64 (a_seq row), ci_at = rfc3339 x (a_at row),
      ci_action = a_action row, ci_subject = a_subject row,
      ci_actor_token_id = map_option (uuid_str x) (a_actor_token_id row),
      ci_actor_token_name = a_actor_token_name row, ci_actor_role = a_actor_role row,
      ci_detail = a_detail row, ci_prev_hash = prev_hash\<rparr>"

definition expected_hash :: "('x ext_scheme) \<Rightarrow> audit_row \<Rightarrow> string \<Rightarrow> string" where
  "expected_hash x row prev_hash = entry_digest x (row_input x row prev_hash)"

datatype chain_problem = HashMismatch | BrokenLink | SequenceGap

fun problem_str :: "chain_problem \<Rightarrow> string" where
  "problem_str HashMismatch = ''hash_mismatch''"
| "problem_str BrokenLink = ''broken_link''"
| "problem_str SequenceGap = ''sequence_gap''"

record chain_report =
  intact :: bool
  entries_checked :: nat
  first_bad_seq :: "int option"
  problem :: "chain_problem option"
  head_hash :: "string option"

definition is_chained :: "audit_row \<Rightarrow> bool" where
  "is_chained r \<longleftrightarrow> 0 < a_seq r \<and> a_entry_hash r \<noteq> []"

definition link_problem :: "('x ext_scheme) \<Rightarrow> audit_row \<Rightarrow> chain_problem" where
  "link_problem x row =
     (if expected_hash x row (case a_prev_hash row of None \<Rightarrow> [] | Some h \<Rightarrow> h) = a_entry_hash row
      then BrokenLink else HashMismatch)"

fun verify_loop ::
  "('x ext_scheme) \<Rightarrow> audit_row list \<Rightarrow> string \<Rightarrow> int option \<Rightarrow> nat \<Rightarrow> string option \<Rightarrow> chain_report" where
  "verify_loop x [] prev_hash expected_seq checked head =
     \<lparr>intact = True, entries_checked = checked, first_bad_seq = None, problem = None, head_hash = head\<rparr>"
| "verify_loop x (row # rows) prev_hash expected_seq checked head =
     (if expected_seq \<noteq> None \<and> expected_seq \<noteq> Some (a_seq row)
      then \<lparr>intact = False, entries_checked = checked, first_bad_seq = expected_seq,
            problem = Some SequenceGap, head_hash = head\<rparr>
      else if expected_hash x row prev_hash \<noteq> a_entry_hash row
      then \<lparr>intact = False, entries_checked = checked, first_bad_seq = Some (a_seq row),
            problem = Some (link_problem x row), head_hash = head\<rparr>
      else verify_loop x rows (a_entry_hash row) (Some (wrap_i64 (a_seq row + 1))) (checked + 1)
             (Some (a_entry_hash row)))"

definition verify_chain :: "('x ext_scheme) \<Rightarrow> audit_row list \<Rightarrow> chain_report" where
  "verify_chain x rows = verify_loop x (filter is_chained rows) [] None 0 None"

end
