(* ===== verification/AuditChain.thy ===== *)
theory AuditChain
  imports AuditLog
begin

section \<open>The audit chain invariant\<close>

text \<open>
  A well-formed log, per organisation and in \<open>seq\<close> order: first the rows from before the chain
  existed (empty hash), then chained rows numbered consecutively, each hashing its own contents
  and its predecessor's hash. The lemmas show that an append keeps the log well formed whatever
  other sessions append between its statements, that verification accepts a well-formed log, and
  that two accepted logs with the same head are the same log unless the digest collides.
\<close>

subsection \<open>Well-formed logs\<close>

definition prev_of :: "audit_row option \<Rightarrow> string" where
  "prev_of tip = (case tip_hash tip of None \<Rightarrow> [] | Some h \<Rightarrow> h)"

definition link_ok :: "('x ext_scheme) \<Rightarrow> audit_row option \<Rightarrow> audit_row \<Rightarrow> bool" where
  "link_ok x p r \<longleftrightarrow>
     (if a_entry_hash r = [] then 0 \<le> a_seq r \<and> tip_hash p = None
      else a_seq r = tip_seq p + 1 \<and> 0 < a_seq r \<and> a_entry_hash r = expected_hash x r (prev_of p))"

fun linked_from :: "('x ext_scheme) \<Rightarrow> audit_row option \<Rightarrow> audit_row list \<Rightarrow> bool" where
  "linked_from x p [] \<longleftrightarrow> True"
| "linked_from x p (r # rs) \<longleftrightarrow> link_ok x p r \<and> linked_from x (Some r) rs"

text \<open>A stray row carries a hash at a position verification never looks at.\<close>

definition is_stray :: "audit_row \<Rightarrow> bool" where
  "is_stray r \<longleftrightarrow> a_entry_hash r \<noteq> [] \<and> a_seq r \<le> 0"

definition core :: "audit_row list \<Rightarrow> audit_row list" where
  "core rows = filter (\<lambda>r. \<not> is_stray r) rows"

definition rows_ok :: "('x ext_scheme) \<Rightarrow> audit_row list \<Rightarrow> bool" where
  "rows_ok x rows \<longleftrightarrow> linked_from x None (core rows) \<and> (core rows = [] \<longrightarrow> rows = [])
     \<and> (\<forall>r\<in>set rows. a_seq r \<le> i64_max)"

definition audit_inv :: "('x ext_scheme) \<Rightarrow> db \<Rightarrow> bool" where
  "audit_inv x d \<longleftrightarrow> keyed audit_clash (audit_log d) \<and> (\<forall>org. rows_ok x (org_rows org d))"

subsection \<open>Verification accepts well-formed logs\<close>

lemma linked_from_append:
  "linked_from x p (xs @ ys) \<longleftrightarrow>
     linked_from x p xs \<and> linked_from x (if xs = [] then p else Some (last xs)) ys"
  by (induction xs arbitrary: p) auto

lemma verify_linked:
  assumes "linked_from x p rows" "\<forall>r\<in>set rows. a_seq r \<le> i64_max"
    and "expected = None \<and> tip_hash p = None
         \<or> (\<exists>q. p = Some q \<and> a_entry_hash q \<noteq> [] \<and> expected = Some (wrap_i64 (a_seq q + 1)))"
  shows "intact (verify_loop x (filter is_chained rows) (prev_of p) expected n head)"
  using assms
proof (induction rows arbitrary: p expected n head)
  case (Cons r rows)
  show ?case
  proof (cases "a_entry_hash r = []")
    case True
    then have "tip_hash p = None" "tip_hash (Some r) = None"
      using Cons.prems(1) by (auto simp: link_ok_def tip_hash_def)
    moreover from this have "expected = None" "prev_of p = prev_of (Some r)"
      using Cons.prems(3) by (auto simp: tip_hash_def prev_of_def)
    ultimately show ?thesis
      using Cons.IH [of "Some r" None n head] Cons.prems True by (simp add: is_chained_def)
  next
    case False
    then have r: "a_seq r = tip_seq p + 1" "0 < a_seq r" "a_entry_hash r = expected_hash x r (prev_of p)"
      using Cons.prems(1) by (auto simp: link_ok_def)
    have "wrap_i64 (a_seq r) = a_seq r"
      using r(2) Cons.prems(2) by (intro wrap_i64_id) auto
    then have "expected = None \<or> expected = Some (a_seq r)"
      using Cons.prems(3) r(1) by (auto simp: tip_seq_def)
    moreover have "prev_of (Some r) = a_entry_hash r" using False by (simp add: prev_of_def tip_hash_def)
    ultimately show ?thesis
      using Cons.IH [of "Some r" "Some (wrap_i64 (a_seq r + 1))" "n + 1" "Some (a_entry_hash r)"]
        Cons.prems False r by (auto simp: is_chained_def)
  qed
qed simp

lemma chained_core: "filter is_chained rows = filter is_chained (core rows)"
  by (auto simp: core_def is_chained_def is_stray_def intro!: filter_cong)

lemma rows_ok_intact: "rows_ok x rows \<Longrightarrow> intact (verify_chain x (take n rows))"
proof -
  assume ok: "rows_ok x rows"
  obtain zs where zs: "core rows = core (take n rows) @ zs"
    by (metis append_take_drop_id core_def filter_append)
  then have "linked_from x None (core (take n rows))"
    using ok by (simp add: rows_ok_def linked_from_append)
  moreover have "\<forall>r\<in>set (core (take n rows)). a_seq r \<le> i64_max"
    using ok by (auto simp: rows_ok_def core_def dest: in_set_takeD)
  ultimately show ?thesis
    using verify_linked [of x None "core (take n rows)" None 0 None]
    by (simp add: verify_chain_def chained_core [of "take n rows"] prev_of_def tip_hash_def)
qed

subsection \<open>Order of the rows\<close>

lemma insort_snoc: "f x < f r \<Longrightarrow> insort_key f x (ys @ [r]) = insort_key f x ys @ [r]"
  by (induction ys) auto

lemma sort_key_snoc: "\<forall>y\<in>set xs. f y < f r \<Longrightarrow> sort_key f (xs @ [r]) = sort_key f xs @ [r]"
  by (induction xs) (auto simp: insort_snoc)

lemma set_org_rows: "r \<in> set (org_rows org d) \<longleftrightarrow> r \<in> set (audit_log d) \<and> a_org_id r = org"
  by (auto simp: org_rows_def)

lemma core_org_rows:
  "core (org_rows org d) =
     sort_key a_seq (filter (\<lambda>r. \<not> is_stray r) (filter (\<lambda>r. a_org_id r = org) (audit_log d)))"
  by (simp add: core_def org_rows_def filter_sort)

lemma strict_seqs:
  assumes "keyed audit_clash (audit_log d)"
  shows "sorted_wrt (\<lambda>a b. a_seq a < a_seq b) (org_rows org d)"
proof -
  let ?rows = "filter (\<lambda>r. a_org_id r = org) (audit_log d)"
  have "sorted_wrt (\<lambda>a b. \<not> audit_clash a b) ?rows"
    using assms by (simp add: keyed_def sorted_wrt_filter)
  then have "sorted_wrt (\<lambda>a b. a_seq a \<noteq> a_seq b) ?rows"
    by (rule sorted_wrt_mono_rel [rotated]) (auto simp: audit_clash_def)
  then have "distinct (map a_seq ?rows)"
    by (simp add: distinct_conv_nth sorted_wrt_iff_nth_less) (metis linorder_neqE_nat)
  then have "distinct (map a_seq (org_rows org d))"
    by (simp add: org_rows_def distinct_map)
  then have "sorted_wrt (<) (map a_seq (org_rows org d))"
    by (simp add: org_rows_def strict_sorted_iff)
  then show ?thesis by (simp add: sorted_wrt_map)
qed

lemma linked_seq_nonneg: "linked_from x p rows \<Longrightarrow> r \<in> set rows \<Longrightarrow> 0 \<le> a_seq r"
  by (induction rows arbitrary: p) (auto simp: link_ok_def split: if_splits)

lemma audit_inv_bound: "audit_inv x d \<Longrightarrow> r \<in> set (audit_log d) \<Longrightarrow> a_seq r \<le> i64_max"
  using set_org_rows [of r "a_org_id r" d] by (auto simp: audit_inv_def rows_ok_def)

lemma find_tip_None_iff: "find_tip org d = None \<longleftrightarrow> org_rows org d = []"
  by (auto simp: find_tip_def split: list.split)

lemma find_tip_last: "org_rows org d \<noteq> [] \<Longrightarrow> find_tip org d = Some (last (org_rows org d))"
  by (cases "org_rows org d" rule: rev_cases) (auto simp: find_tip_def)

text \<open>The tip is the last row of the core, and every other row of the organisation is below it.\<close>

lemma tip_core:
  assumes inv: "audit_inv x d" and ne: "org_rows org d \<noteq> []"
  shows "find_tip org d = Some (last (core (org_rows org d))) \<and> core (org_rows org d) \<noteq> []"
proof -
  let ?rows = "org_rows org d"
  have ok: "rows_ok x ?rows" using inv by (simp add: audit_inv_def)
  then have core: "core ?rows \<noteq> []" using ne by (auto simp: rows_ok_def)
  obtain ys t where split: "?rows = ys @ [t]" using ne by (metis rev_exhaust)
  have above: "\<forall>y\<in>set ys. a_seq y < a_seq t"
    using strict_seqs [of d org] inv split by (simp add: audit_inv_def sorted_wrt_append)
  have "\<not> is_stray t"
  proof
    assume stray: "is_stray t"
    then have "core ?rows = core ys" using split by (simp add: core_def)
    then have "last (core ?rows) \<in> set ys"
      using core last_in_set by (metis core_def filter_is_subset subsetD)
    moreover have "0 \<le> a_seq (last (core ?rows))"
      using ok core linked_seq_nonneg last_in_set by (metis rows_ok_def)
    ultimately show False using above stray by (auto simp: is_stray_def)
  qed
  then have "last (core ?rows) = t" using split by (simp add: core_def)
  then show ?thesis using core find_tip_last [OF ne] split by simp
qed

lemma tip_max:
  assumes inv: "audit_inv x d" and tip: "find_tip org d = Some t" and r: "r \<in> set (org_rows org d)"
  shows "r = t \<or> a_seq r < a_seq t"
proof -
  have ne: "org_rows org d \<noteq> []" using r by auto
  then obtain ys where split: "org_rows org d = ys @ [t]"
    using find_tip_last [OF ne] tip by (metis append_butlast_last_id option.inject)
  then show ?thesis
    using strict_seqs [of d org] inv r by (auto simp: audit_inv_def sorted_wrt_append)
qed

lemma tip_max_keyed:
  assumes "keyed audit_clash (audit_log d)" "r \<in> set (org_rows org d)"
  shows "a_seq r \<le> tip_seq (find_tip org d)"
proof -
  obtain ys t where split: "org_rows org d = ys @ [t]" using assms(2) by (metis list.set_cases rev_exhaust list.distinct(1) empty_iff empty_set)
  then show ?thesis
    using strict_seqs [OF assms(1), of org] assms(2) find_tip_last [of org d]
    by (auto simp: sorted_wrt_append tip_seq_def order_less_imp_le)
qed

subsection \<open>Appending one row\<close>

definition fits :: "('x ext_scheme) \<Rightarrow> db \<Rightarrow> audit_row \<Rightarrow> bool" where
  "fits x d r \<longleftrightarrow> a_seq r = wrap_i64 (tip_seq (find_tip (a_org_id r) d) + 1)
     \<and> a_entry_hash r = expected_hash x r (prev_of (find_tip (a_org_id r) d)) \<and> a_entry_hash r \<noteq> []"

lemma append_rows_ok:
  assumes inv: "audit_inv x d" and fits: "fits x d r"
    and d': "d' = d\<lparr>audit_log := audit_log d @ [r]\<rparr>"
  shows "rows_ok x (org_rows (a_org_id r) d')"
proof -
  let ?org = "a_org_id r"
  let ?rows = "org_rows ?org d" and ?tip = "find_tip ?org d"
  have ok: "rows_ok x ?rows" using inv by (simp add: audit_inv_def)
  have seq: "a_seq r = wrap_i64 (tip_seq ?tip + 1)" using fits by (simp add: fits_def)
  have bound: "\<forall>q\<in>set (org_rows ?org d'). a_seq q \<le> i64_max"
    using seq wrap_i64_le d' by (auto simp: set_org_rows intro: audit_inv_bound [OF inv])
  have nonneg: "0 \<le> tip_seq ?tip"
  proof (cases "?rows = []")
    case True
    then show ?thesis by (simp add: find_tip_None_iff tip_seq_def flip: find_tip_None_iff)
  next
    case False
    then show ?thesis
      using tip_core [OF inv False] ok linked_seq_nonneg last_in_set
      by (metis option.simps(5) rows_ok_def tip_seq_def)
  qed
  show ?thesis
  proof (cases "tip_seq ?tip < i64_max")
    case True
    then have seq': "a_seq r = tip_seq ?tip + 1" using seq nonneg by (simp add: wrap_i64_id)
    have below: "\<forall>y\<in>set ?rows. a_seq y < a_seq r"
      using tip_max [OF inv] seq' find_tip_last [of ?org d]
      by (cases "?rows = []") (fastforce simp: tip_seq_def)+
    then have "org_rows ?org d' = ?rows @ [r]"
      using d' sort_key_snoc [of "filter (\<lambda>q. a_org_id q = ?org) (audit_log d)" a_seq r]
      by (simp add: org_rows_def)
    moreover have "link_ok x ?tip r"
      using fits seq' nonneg by (auto simp: link_ok_def fits_def)
    moreover have "(if core ?rows = [] then None else Some (last (core ?rows))) = ?tip"
      using tip_core [OF inv, of ?org] ok
      by (cases "?rows = []") (auto simp: rows_ok_def core_def find_tip_def)
    moreover have "\<not> is_stray r" using seq' nonneg by (simp add: is_stray_def)
    moreover from this have "core (org_rows ?org d') = core ?rows @ [r]"
      using \<open>org_rows ?org d' = ?rows @ [r]\<close> by (simp add: core_def)
    ultimately show ?thesis
      using ok bound by (simp add: rows_ok_def linked_from_append)
  next
    case False
    have ne: "?rows \<noteq> []"
      using False by (auto simp: tip_seq_def i64_max_def find_tip_def)
    then have "tip_seq ?tip \<le> i64_max"
      using ok find_tip_last [OF ne] by (auto simp: tip_seq_def rows_ok_def)
    then have "is_stray r"
      using False seq wrap_i64_max fits by (auto simp: is_stray_def fits_def)
    then have "core (org_rows ?org d') = core ?rows"
      using d' by (simp add: core_org_rows)
    moreover have "core ?rows \<noteq> []" using ok ne by (auto simp: rows_ok_def)
    ultimately show ?thesis using ok bound by (simp add: rows_ok_def)
  qed
qed

lemma append_audit_inv:
  assumes "audit_inv x d" "fits x d r" "apply_write (InsertAudit r) d = Inr d'"
  shows "audit_inv x d'"
proof -
  have d': "d' = d\<lparr>audit_log := audit_log d @ [r]\<rparr>" "\<forall>b\<in>set (audit_log d). \<not> audit_clash r b"
    using assms(3) by (auto simp: apply_insert_iff)
  have "keyed audit_clash (audit_log d')"
    using assms(1) d' audit_table.keyed_insert [of "audit_log d" r "audit_log d @ [r]"]
    by (simp add: audit_inv_def insert_row_Inr_iff)
  moreover have "rows_ok x (org_rows org d')" for org
  proof (cases "org = a_org_id r")
    case True
    then show ?thesis using append_rows_ok assms(1,2) d'(1) by blast
  next
    case False
    then have "org_rows org d' = org_rows org d" using d'(1) by (simp add: org_rows_def)
    then show ?thesis using assms(1) by (simp add: audit_inv_def)
  qed
  ultimately show ?thesis by (simp add: audit_inv_def)
qed

subsection \<open>Concurrent appends\<close>

text \<open>What other sessions may do to the log: append chained rows to a well-formed log.\<close>

definition grows :: "('x ext_scheme) \<Rightarrow> db \<Rightarrow> db \<Rightarrow> bool" where
  "grows x d d' \<longleftrightarrow> audit_inv x d' \<and> set (audit_log d) \<subseteq> set (audit_log d')
     \<and> (\<forall>r\<in>set (audit_log d') - set (audit_log d). a_entry_hash r \<noteq> [])"

lemma grows_refl: "audit_inv x d \<Longrightarrow> grows x d d"
  by (simp add: grows_def)

lemma grows_trans: "grows x d d' \<Longrightarrow> grows x d' d'' \<Longrightarrow> grows x d d''"
  unfolding grows_def by blast

text \<open>If the position after the tip is still free, the tip is still the tip.\<close>

lemma tip_stable:
  assumes inv: "audit_inv x d" and g: "grows x d d'"
    and free: "\<And>r. r \<in> set (org_rows org d') \<Longrightarrow> a_seq r \<noteq> wrap_i64 (tip_seq (find_tip org d) + 1)"
  shows "find_tip org d' = find_tip org d"
proof -
  have inv': "audit_inv x d'" and sub: "set (audit_log d) \<subseteq> set (audit_log d')"
    and new: "\<And>r. r \<in> set (audit_log d') \<Longrightarrow> r \<notin> set (audit_log d) \<Longrightarrow> a_entry_hash r \<noteq> []"
    using g by (auto simp: grows_def)
  let ?C' = "core (org_rows org d')"
  have link': "linked_from x None ?C'" and le': "\<forall>r\<in>set ?C'. a_seq r \<le> i64_max"
    using inv' by (auto simp: audit_inv_def rows_ok_def core_def)
  have inC': "r \<in> set (org_rows org d')" if "r \<in> set ?C'" for r using that by (auto simp: core_def)
  show ?thesis
  proof (cases "org_rows org d = []")
    case True
    then have none: "find_tip org d = None" by (simp add: find_tip_None_iff)
    have "?C' = []"
    proof (rule ccontr)
      assume "?C' \<noteq> []"
      then obtain c cs where c: "?C' = c # cs" by (cases ?C') auto
      then have "c \<in> set (org_rows org d')" using inC' by simp
      moreover have "c \<notin> set (org_rows org d)" using True by simp
      ultimately have "a_entry_hash c \<noteq> []" using new by (auto simp: set_org_rows)
      then have "a_seq c = 1" using link' c by (simp add: link_ok_def tip_seq_def)
      then show False
        using free [OF \<open>c \<in> set (org_rows org d')\<close>] none
        by (simp add: tip_seq_def wrap_i64_def)
    qed
    then have "org_rows org d' = []" using inv' by (auto simp: audit_inv_def rows_ok_def)
    then show ?thesis using True by (simp add: find_tip_def)
  next
    case False
    let ?t = "last (core (org_rows org d))"
    have tip: "find_tip org d = Some ?t" "core (org_rows org d) \<noteq> []"
      using tip_core [OF inv False] by auto
    then have "?t \<in> set (core (org_rows org d))" by simp
    then have "?t \<in> set ?C'" using sub by (auto simp: core_def set_org_rows)
    then obtain ys zs where split: "?C' = ys @ ?t # zs" by (meson split_list)
    have "zs = []"
    proof (rule ccontr)
      assume "zs \<noteq> []"
      then obtain z zs' where z: "zs = z # zs'" by (cases zs) auto
      then have link: "link_ok x (Some ?t) z" using link' split by (simp add: linked_from_append)
      have zin: "z \<in> set (org_rows org d')" using inC' split z by simp
      have "sorted_wrt (\<lambda>a b. a_seq a < a_seq b) ?C'"
        using strict_seqs [of d' org] inv' by (simp add: audit_inv_def core_def sorted_wrt_filter)
      then have "a_seq ?t < a_seq z" using split z by (simp add: sorted_wrt_append)
      then have "z \<notin> set (org_rows org d)" using tip_max [OF inv tip(1)] by fastforce
      then have "a_entry_hash z \<noteq> []" using new zin by (auto simp: set_org_rows)
      then have "a_seq z = a_seq ?t + 1" "0 < a_seq z" using link by (auto simp: link_ok_def tip_seq_def)
      moreover have "a_seq z \<le> i64_max" using le' split z by simp
      ultimately have "a_seq z = wrap_i64 (tip_seq (find_tip org d) + 1)"
        using tip(1) wrap_i64_id [of "a_seq ?t + 1"] by (simp add: tip_seq_def)
      then show False using free [OF zin] by simp
    qed
    then have "last ?C' = ?t" "org_rows org d' \<noteq> []" using split by (auto simp: core_def)
    then show ?thesis using tip_core [OF inv'] tip by simp
  qed
qed

subsection \<open>The append transaction\<close>

definition audit_rely :: "('x ext_scheme) \<Rightarrow> env \<Rightarrow> bool" where
  "audit_rely x e \<longleftrightarrow> (\<forall>t d. audit_inv x d \<longrightarrow> grows x d (peer_db e t d))"

definition digest_ok :: "('x ext_scheme) \<Rightarrow> bool" where
  "digest_ok x \<longleftrightarrow> (\<forall>s. length (sha256_hex x s) = 64 \<and> list_all is_lower_hex (sha256_hex x s))"

lemma digest_nonempty: "digest_ok x \<Longrightarrow> sha256_hex x s \<noteq> []"
  by (auto simp: digest_ok_def dest!: spec [of _ s])

lemma settle_grows:
  "audit_rely x e \<Longrightarrow> audit_inv x (committed w) \<Longrightarrow> grows x (committed w) (committed (settle e w))"
  using settle_committed [of e w] grows_refl by (auto simp: audit_rely_def)

lemma next_row_fits:
  "digest_ok x \<Longrightarrow> fits x d (next_row x org token action subject detail (find_tip org d) at i)"
  by (simp add: fits_def next_row_def Let_def expected_hash_def row_input_def entry_digest_def
      digest_nonempty prev_of_def)

text \<open>A row made for one tip still fits when the log has grown and its position is free.\<close>

lemma fits_stable:
  assumes inv: "audit_inv x d" and g: "grows x d d'" and r: "fits x d r"
    and app: "apply_write (InsertAudit r) d' = Inr d''"
  shows "audit_inv x d'' \<and> grows x d d''"
proof -
  have d'': "d'' = d'\<lparr>audit_log := audit_log d' @ [r]\<rparr>" "\<forall>b\<in>set (audit_log d'). \<not> audit_clash r b"
    using app by (auto simp: apply_insert_iff)
  then have "a_seq q \<noteq> wrap_i64 (tip_seq (find_tip (a_org_id r) d) + 1)"
    if "q \<in> set (org_rows (a_org_id r) d')" for q
    using that r by (auto simp: set_org_rows audit_clash_def fits_def)
  then have "find_tip (a_org_id r) d' = find_tip (a_org_id r) d" by (rule tip_stable [OF inv g])
  then have "fits x d' r" using r by (auto simp: fits_def)
  moreover have "audit_inv x d'" using g by (simp add: grows_def)
  ultimately have "audit_inv x d''" using append_audit_inv app by blast
  then show ?thesis using g d'' r by (auto simp: grows_def fits_def)
qed

lemma commit_append:
  assumes rely: "audit_rely x e" and inv: "audit_inv x d" and r: "fits x d r"
    and w: "txn w = Some [InsertAudit r]" "grows x d (committed w)"
  shows "grows x d (committed (snd (commit_txn e w)))"
proof -
  let ?w = "settle e w"
  have g: "grows x d (committed ?w)"
    using grows_trans w(2) settle_grows [OF rely] by (metis grows_def)
  have "grows x d (view ?w)"
  proof (cases "apply_all [InsertAudit r] (committed ?w)")
    case (Inl err)
    then show ?thesis using g w(1) by (simp add: view_def pending_def)
  next
    case (Inr d')
    then have "apply_write (InsertAudit r) (committed ?w) = Inr d'" by (simp add: bind_r_Inr_iff)
    then show ?thesis using fits_stable [OF inv g r] Inr w(1) by (simp add: view_def pending_def)
  qed
  with g show ?thesis by (simp add: commit_txn_def Let_def rollback_txn_def)
qed

lemma insert_commit:
  assumes rely: "audit_rely x e" and inv: "audit_inv x d" and r: "fits x d r"
    and w: "txn w = Some []" "grows x d (committed w)"
  shows "grows x d (committed (snd (bind_a (execute (InsertAudit r)) (\<lambda>_. commit_txn) e w)))"
proof -
  let ?w = "settle e w"
  have g: "grows x d (committed ?w)"
    using grows_trans w(2) settle_grows [OF rely] by (metis grows_def)
  obtain s w1 where s: "execute (InsertAudit r) e w = (s, w1)" by fastforce
  then have w1: "committed w1 = committed ?w \<and> (\<forall>v. s = Inr v \<longrightarrow> txn w1 = Some [InsertAudit r])"
    using w(1) by (auto simp: execute_def Let_def store_write_def split: if_splits sum.splits)
  show ?thesis
  proof (cases s)
    case (Inl err)
    then show ?thesis using s w1 g by (simp add: bind_a_def)
  next
    case (Inr v)
    then show ?thesis using s w1 g commit_append [OF rely inv r] by (simp add: bind_a_def)
  qed
qed

lemma in_txn_committed [simp]: "committed (snd (in_txn m e w)) = committed (snd (m e w))"
  by (simp add: in_txn_def rollback_txn_def split: prod.split sum.split)

lemma append_chained_grows:
  assumes rely: "audit_rely x e" and dig: "digest_ok x" and inv: "audit_inv x (committed w)"
  shows "grows x (committed w) (committed (snd (append_chained x pg org token action subject detail e w)))"
proof -
  note chain = grows_trans [OF _ settle_grows [OF rely]]
  let ?w1 = "settle e w"
  have g1: "grows x (committed w) (committed ?w1)" using settle_grows [OF rely inv] .
  define w2 where "w2 = ?w1\<lparr>txn := Some []\<rparr>"
  define body where "body = (\<lambda>w3. bind_a (query (find_tip org)) (\<lambda>tip.
      bind_a chain_timestamp (\<lambda>at. bind_a new_v4 (\<lambda>i.
      bind_a (execute (InsertAudit (next_row x org token action subject detail tip at i))) (\<lambda>_.
        commit_txn)))) e w3)"
  have body: "grows x (committed w) (committed (snd (body w3)))"
    if "txn w3 = Some []" "grows x (committed w) (committed w3)" for w3
  proof -
    let ?w4 = "settle e w3"
    have g: "grows x (committed w) (committed ?w4)" and i4: "audit_inv x (committed ?w4)"
      using that(2) chain by (auto simp: grows_def)
    have v: "view ?w4 = committed ?w4" using that(1) by (simp add: view_def pending_def)
    define w5 where "w5 = ?w4\<lparr>tick := Suc (Suc (tick ?w4))\<rparr>"
    have "grows x (committed ?w4) (committed (snd (bind_a (execute (InsertAudit
        (next_row x org token action subject detail (find_tip org (committed ?w4)) at i)))
        (\<lambda>_. commit_txn) e w5)))" for at i
      using that(1) i4 grows_refl [OF i4] by (intro insert_commit [OF rely i4 next_row_fits [OF dig]])
        (simp_all add: w5_def)
    moreover have "body w3 = (if outcome_at e (tick w3) = Served
        then bind_a (execute (InsertAudit (next_row x org token action subject detail
          (find_tip org (committed ?w4)) (clock_at e (Suc (tick w3))) (uuid_at e (Suc (Suc (tick w3)))))))
          (\<lambda>_. commit_txn) e w5
        else (Inl ConnectionLost, ?w4))"
      by (simp add: body_def bind_a_def [of "query _"] bind_a_def [of utc_now]
          bind_a_def [of new_v4] query_def Let_def chain_timestamp_def utc_now_def new_v4_def w5_def v)
    ultimately show ?thesis using g by (auto intro: grows_trans [OF g])
  qed
  have "grows x (committed w) (committed (snd (bind_a (if pg then advisory_lock (audit_lock_key x org)
      else ret ()) (\<lambda>_. body_act) e w2)))"
    if b: "\<And>w3. body_act e w3 = body w3" for body_act
  proof (cases pg)
    case True
    let ?w3 = "settle e w2"
    have g: "grows x (committed w) (committed ?w3)"
      using g1 chain [of "committed w" w2] by (simp add: w2_def grows_def)
    then show ?thesis
      using body [of "?w3\<lparr>held_locks := audit_lock_key x org # held_locks ?w3\<rparr>"] True b
      by (simp add: advisory_lock_def Let_def bind_a_def w2_def)
  next
    case False
    then show ?thesis using body [of w2] g1 b by (simp add: bind_a_def w2_def)
  qed
  then show ?thesis
    using g1
    by (simp add: append_chained_def bind_a_def [of begin_txn] begin_txn_def Let_def w2_def body_def)
qed

lemma record_attempts_grows:
  assumes "\<And>w. audit_inv x (committed w) \<Longrightarrow> grows x (committed w) (committed (snd (app e w)))"
  shows "audit_inv x (committed w) \<Longrightarrow> grows x (committed w) (committed (snd (record_attempts n app e w)))"
proof (induction n arbitrary: w)
  case 0
  then show ?case by (simp add: grows_refl)
next
  case (Suc n)
  obtain s w1 where s: "app e w = (s, w1)" by fastforce
  then have g: "grows x (committed w) (committed w1)" using assms [OF Suc.prems] by simp
  then have "audit_inv x (committed w1)" by (simp add: grows_def)
  then have "grows x (committed w1) (committed (snd (record_attempts n app e w1)))" by (rule Suc.IH)
  with g s show ?case
    using grows_trans by (auto simp: bind_a_def attempt_def split: sum.split)
qed

lemma snd_bind_ret: "snd (bind_a m (\<lambda>_. ret a) e w) = snd (m e w)"
  by (cases "m e w"; cases "fst (m e w)") (auto simp: bind_a_def)

lemma record_audit_grows:
  assumes "audit_rely x e" "digest_ok x" "audit_inv x (committed w)"
  shows "grows x (committed w) (committed (snd (record_audit x pg org token action subject detail e w)))"
proof -
  have "snd (record_audit x pg org token action subject detail e w)
      = snd (record_attempts APPEND_ATTEMPTS (append_chained x pg org token action subject detail) e w)"
    by (simp add: record_audit_def snd_bind_ret)
  moreover have "grows x (committed w) (committed (snd (record_attempts APPEND_ATTEMPTS
      (append_chained x pg org token action subject detail) e w)))"
    by (rule record_attempts_grows) (simp_all add: append_chained_grows assms)
  ultimately show ?thesis by simp
qed

subsection \<open>The chain as an invariant of handlers\<close>

fun touches_log :: "db_write \<Rightarrow> bool" where
  "touches_log (InsertAudit _) = True"
| "touches_log _ = False"

lemma apply_write_log:
  "\<not> touches_log wr \<Longrightarrow> apply_write wr d = Inr d' \<Longrightarrow> audit_log d' = audit_log d"
  by (cases wr) (auto simp: apply_write.simps bind_r_Inr_iff)

lemma apply_all_log:
  "list_all (\<lambda>wr. \<not> touches_log wr) ws \<Longrightarrow> apply_all ws d = Inr d' \<Longrightarrow> audit_log d' = audit_log d"
proof (induction ws arbitrary: d)
  case (Cons wr ws)
  then obtain d1 where "apply_write wr d = Inr d1" "apply_all ws d1 = Inr d'"
    by (auto simp: bind_r_Inr_iff)
  then show ?case using Cons apply_write_log [of wr d d1] by simp
qed simp

lemma audit_inv_cong: "audit_log d = audit_log d' \<Longrightarrow> audit_inv x d \<longleftrightarrow> audit_inv x d'"
  by (simp add: audit_inv_def org_rows_def)

definition chain_inv :: "('x ext_scheme) \<Rightarrow> env \<Rightarrow> world \<Rightarrow> bool" where
  "chain_inv x e w \<longleftrightarrow> audit_inv x (committed w) \<and> list_all (\<lambda>wr. \<not> touches_log wr) (pending w)"

lemma pending_sel [simp]:
  "pending (w\<lparr>committed := d\<rparr>) = pending w" "pending (w\<lparr>tick := n\<rparr>) = pending w"
  "pending (w\<lparr>held_locks := ks\<rparr>) = pending w" "pending (w\<lparr>txn := Some ws\<rparr>) = ws"
  "pending (rollback_txn w) = []"
  by (simp_all add: pending_def rollback_txn_def)

lemma chain_view:
  assumes "chain_inv x e w"
  shows "audit_inv x (view w)"
proof (cases "apply_all (pending w) (committed w)")
  case (Inr d)
  then show ?thesis
    using assms apply_all_log audit_inv_cong [of d "committed w" x] by (auto simp: chain_inv_def view_def)
qed (use assms in \<open>simp add: chain_inv_def view_def\<close>)

interpretation chain: world_invariant "audit_rely x" "chain_inv x" for x
proof
  fix e w
  assume "audit_rely x e" "chain_inv x e w"
  then show "chain_inv x e (settle e w)"
    using settle_grows [of x e w] by (simp add: chain_inv_def grows_def)
next
  fix e w
  assume "chain_inv x e w"
  then show "chain_inv x e (w\<lparr>committed := view w\<rparr>)"
    using chain_view by (auto simp: chain_inv_def)
qed (simp_all add: chain_inv_def rollback_txn_def pending_def)

lemma chain_execute [keep_rules]:
  assumes "\<not> touches_log wr"
  shows "keeps (audit_rely x) (chain_inv x) (execute wr)"
proof (rule chain.keeps_execute)
  fix e w d
  assume inv: "chain_inv x e w" and app: "apply_write wr (view w) = Inr d"
  have "audit_inv x d"
    using chain_view [OF inv] apply_write_log [OF assms app] audit_inv_cong by metis
  then show "chain_inv x e (store_write wr d w)"
    using inv assms by (auto simp: chain_inv_def store_write_def pending_def split: option.splits)
qed

lemma append_chained_txn:
  "pending (snd (append_chained x pg org token action subject detail e w)) \<in> {[], pending w}"
proof -
  define body where "body = bind_a (if pg then advisory_lock (audit_lock_key x org) else ret ()) (\<lambda>_.
        bind_a (query (find_tip org)) (\<lambda>tip.
        bind_a chain_timestamp (\<lambda>at.
        bind_a new_v4 (\<lambda>i.
        bind_a (execute (InsertAudit (next_row x org token action subject detail tip at i))) (\<lambda>_.
          commit_txn)))))"
  have "ends_txn body" unfolding body_def by (intro ends_txn_bind ends_txn_commit)
  then have "txn (snd (in_txn body e w')) = None" for w' using ends_txn_in_txn by blast
  moreover have "append_chained x pg org token action subject detail e w =
      (if outcome_at e (tick w) = Served then in_txn body e ((settle e w)\<lparr>txn := Some []\<rparr>)
       else (Inl ConnectionLost, settle e w))"
    by (simp add: append_chained_def body_def bind_a_def [of begin_txn] begin_txn_def Let_def)
  ultimately show ?thesis by (simp add: pending_def)
qed

lemma record_audit_chain [keep_rules]:
  assumes "digest_ok x"
  shows "keeps (audit_rely x) (chain_inv x) (record_audit x pg org token action subject detail)"
proof -
  let ?app = "append_chained x pg org token action subject detail"
  have app: "keeps (audit_rely x) (chain_inv x) ?app"
    unfolding keeps_def
  proof (intro allI impI)
    fix e w
    assume "audit_rely x e" "chain_inv x e w"
    then show "chain_inv x e (snd (?app e w))"
      using append_chained_grows [OF _ assms, of e w pg org token action subject detail]
        append_chained_txn [of x pg org token action subject detail e w]
      by (auto simp: chain_inv_def grows_def)
  qed
  show ?thesis
    unfolding record_audit_def by (intro keep_rules chain.keeps_record_attempts app)
qed

lemma intact_no_problem:
  "intact (verify_loop x rows prev exp n head) \<Longrightarrow>
     problem (verify_loop x rows prev exp n head) = None
     \<and> first_bad_seq (verify_loop x rows prev exp n head) = None"
  by (induction x rows prev exp n head rule: verify_loop.induct) (auto split: if_splits)

subsection \<open>What the chain guarantees\<close>

text \<open>C3. Recording an audit entry never fails the request, never removes or changes an earlier
  entry, and leaves every organisation's log verifiable: whatever entries other sessions append
  between its statements and whichever statements are refused or lost, \<open>verify_chain\<close> reports the
  resulting log (and every prefix of it) intact.\<close>

theorem audit_log_always_verifies:
  assumes "audit_rely x e" and "digest_ok x" and "audit_inv x (committed w)"
  shows "fst (record_audit x pg org token action subject detail e w) = Inr ()
    \<and> set (audit_log (committed w)) \<subseteq>
        set (audit_log (committed (snd (record_audit x pg org token action subject detail e w))))
    \<and> audit_inv x (committed (snd (record_audit x pg org token action subject detail e w)))
    \<and> (\<forall>org' n. intact (verify_chain x (take n (org_rows org'
          (committed (snd (record_audit x pg org token action subject detail e w)))))))"
proof -
  have "fst (record_audit x pg org token action subject detail e w) = Inr ()"
    using record_audit_total [of x pg org token action subject detail e w] by auto
  moreover note record_audit_grows [OF assms, of pg org token action subject detail]
  ultimately show ?thesis
    using rows_ok_intact by (auto simp: grows_def audit_inv_def)
qed

lemma toy_digest_ok: "digest_ok toy_ext"
  by (simp add: digest_ok_def toy_ext_def is_lower_hex_def is_ascii_digit_def byte_of_def list_all_iff)

lemma audit_inv_empty: "audit_log d = [] \<Longrightarrow> audit_inv x d"
  by (simp add: audit_inv_def keyed_def org_rows_def rows_ok_def core_def)

lemma calm_audit_rely: "audit_rely x calm"
  by (simp add: audit_rely_def grows_refl)

theorem audit_log_always_verifies_witness:
  "audit_inv toy_ext (committed (snd (record_audit toy_ext True 7 token_1 Publish ''acme/k@1'' None
     calm (start db_1))))"
  using audit_log_always_verifies [OF calm_audit_rely toy_digest_ok,
      of "start db_1" True 7 token_1 Publish "''acme/k@1''" None]
  by (simp add: audit_inv_empty start_def db_1_def empty_db_def)

subsection \<open>Entries are recorded\<close>

definition served :: "env \<Rightarrow> bool" where
  "served e \<longleftrightarrow> (\<forall>t. outcome_at e t = Served)"

text \<open>
  Sessions that respect the append lock: a commit that changes the rows of the organisation takes its
  lock. They also keep the organisation, do not bring the identifier \<open>i\<close> this session is going to generate, and
  stay below the last position of the signed column.
\<close>

definition lock_rely :: "('x ext_scheme) \<Rightarrow> uuid \<Rightarrow> uuid \<Rightarrow> env \<Rightarrow> bool" where
  "lock_rely x org i e \<longleftrightarrow> (\<forall>t d.
     (audit_lock_key x org \<notin> set (peer_locks e t) \<longrightarrow> org_rows org (peer_db e t d) = org_rows org d)
     \<and> (has_org d org \<longrightarrow> has_org (peer_db e t d) org)
     \<and> (\<forall>r\<in>set (audit_log (peer_db e t d)) - set (audit_log d). a_seq r < i64_max \<and> a_id r \<noteq> i))"

definition log_ready :: "('x ext_scheme) \<Rightarrow> uuid \<Rightarrow> uuid \<Rightarrow> db \<Rightarrow> bool" where
  "log_ready x org i d \<longleftrightarrow> audit_inv x d \<and> has_org d org
     \<and> (\<forall>r\<in>set (audit_log d). a_seq r < i64_max \<and> a_id r \<noteq> i)"

lemma log_ready_settle:
  assumes "audit_rely x e" "lock_rely x org i e" "log_ready x org i (committed w)"
  shows "log_ready x org i (committed (settle e w))"
proof -
  have "audit_inv x (committed (settle e w))"
    using settle_grows [OF assms(1)] assms(3) by (simp add: log_ready_def grows_def)
  moreover have "committed (settle e w) = committed w \<or> committed (settle e w) = peer_db e (tick w) (committed w)"
    by (rule settle_committed)
  moreover have "log_ready x org i (peer_db e t d)" if "log_ready x org i d" "audit_inv x (peer_db e t d)" for t d
  proof -
    have "a_seq r < i64_max \<and> a_id r \<noteq> i" if "r \<in> set (audit_log (peer_db e t d))" for r
      using that assms(2) \<open>log_ready x org i d\<close> unfolding lock_rely_def log_ready_def by (cases "r \<in> set (audit_log d)") blast+
    moreover have "has_org (peer_db e t d) org" using assms(2) that(1) by (simp add: lock_rely_def log_ready_def)
    ultimately show ?thesis using that(2) by (simp add: log_ready_def)
  qed
  ultimately show ?thesis using assms(3) by metis
qed

lemma locked_settle:
  assumes "lock_rely x org i e" "audit_lock_key x org \<in> set (held_locks w)"
  shows "org_rows org (committed (settle e w)) = org_rows org (committed w)"
proof (cases "audit_lock_key x org \<in> set (peer_locks e (tick w))")
  case True
  then have "\<not> admits e w d" for d using assms(2) by (auto simp: admits_def list_all_iff)
  then show ?thesis by (simp add: settle_def Let_def)
next
  case False
  then show ?thesis using assms(1) settle_committed [of e w] by (auto simp: lock_rely_def)
qed

text \<open>A row made for the tip of the organisation fits wherever its rows are still the same.\<close>

lemma insert_at_tip:
  assumes d: "log_ready x org i d" and same: "org_rows org d = org_rows org d0"
    and row: "row = next_row x org token action subject detail (find_tip org d0) at i"
  shows "apply_write (InsertAudit row) d = Inr (d\<lparr>audit_log := audit_log d @ [row]\<rparr>)"
    and "org_rows org (d\<lparr>audit_log := audit_log d @ [row]\<rparr>) = org_rows org d0 @ [row]"
proof -
  have tip: "find_tip org d0 = find_tip org d" using same by (simp add: find_tip_def)
  have inv: "audit_inv x d" and org: "has_org d org"
    and rows: "\<And>r. r \<in> set (audit_log d) \<Longrightarrow> a_seq r < i64_max \<and> a_id r \<noteq> i"
    using d by (auto simp: log_ready_def)
  have bound: "0 \<le> tip_seq (find_tip org d) \<and> tip_seq (find_tip org d) < i64_max"
  proof (cases "org_rows org d = []")
    case True
    then have "find_tip org d = None" by (simp add: find_tip_None_iff)
    then show ?thesis by (simp add: tip_seq_def i64_max_def)
  next
    case False
    note t = tip_core [OF inv False]
    let ?t = "last (core (org_rows org d))"
    have "linked_from x None (core (org_rows org d))" using inv by (simp add: audit_inv_def rows_ok_def)
    moreover have "?t \<in> set (core (org_rows org d))" using t by simp
    moreover from this have "?t \<in> set (audit_log d)" by (auto simp: core_def set_org_rows)
    ultimately have "0 \<le> a_seq ?t" "a_seq ?t < i64_max" using linked_seq_nonneg rows by blast+
    then show ?thesis using t by (simp add: tip_seq_def)
  qed
  have sel: "a_org_id row = org" "a_id row = i" "a_seq row = tip_seq (find_tip org d) + 1"
    using bound tip by (simp_all add: row next_row_def Let_def wrap_i64_id)
  have below: "a_seq b < a_seq row" if "b \<in> set (audit_log d)" "a_org_id b = org" for b
    using tip_max_keyed [of d b org] inv that sel(3) by (simp add: audit_inv_def set_org_rows)
  have "\<forall>b\<in>set (audit_log d). \<not> audit_clash row b"
  proof
    fix b
    assume b: "b \<in> set (audit_log d)"
    then show "\<not> audit_clash row b"
      using below [OF b] rows [OF b] sel(1,2) by (auto simp: audit_clash_def)
  qed
  then show "apply_write (InsertAudit row) d = Inr (d\<lparr>audit_log := audit_log d @ [row]\<rparr>)"
    using org sel(1) by (simp add: apply_insert_iff)
  show "org_rows org (d\<lparr>audit_log := audit_log d @ [row]\<rparr>) = org_rows org d0 @ [row]"
    using same sel(1) below sort_key_snoc [of "filter (\<lambda>r. a_org_id r = org) (audit_log d)" a_seq row]
    by (auto simp: org_rows_def)
qed

text \<open>The transaction of an append, statement by statement; the lock is granted with the second one.\<close>

lemma append_locked:
  assumes "served e" "audit_rely x e" "lock_rely x org i e" "log_ready x org i (committed w)" "txn w = None"
    and d0: "d0 = committed (settle e (settle e w))"
    and row: "row = next_row x org token action subject detail (find_tip org d0) (clock_at e (tick w + 3)) i"
    and i: "i = uuid_at e (tick w + 4)"
  shows "\<exists>w' d. append_chained x True org token action subject detail e w = (Inr (), w')
    \<and> set (audit_log d0) \<subseteq> set (audit_log d) \<and> org_rows org d = org_rows org d0
    \<and> ((\<forall>t d. audit_log (peer_db e t d) = audit_log d) \<longrightarrow> audit_log d = audit_log (committed w))
    \<and> committed w' = d\<lparr>audit_log := audit_log d @ [row]\<rparr> \<and> org_rows org (committed w') = org_rows org d0 @ [row]"
proof -
  note settled = log_ready_settle [OF assms(2,3)] and locked = locked_settle [OF assms(3)]
  have out: "outcome_at e t = Served" for t using assms(1) by (simp add: served_def)
  have grown: "set (audit_log (committed v)) \<subseteq> set (audit_log (committed (settle e v)))"
    if "log_ready x org i (committed v)" for v
    using settle_grows [OF assms(2), of v] that by (simp add: log_ready_def grows_def)
  let ?K = "audit_lock_key x org" and ?w1 = "(settle e w)\<lparr>txn := Some []\<rparr>"
  let ?w2 = "(settle e ?w1)\<lparr>held_locks := ?K # held_locks (settle e ?w1)\<rparr>"
  let ?w3 = "settle e ?w2" let ?w4 = "?w3\<lparr>tick := Suc (Suc (tick ?w3))\<rparr>"
  let ?w5 = "(settle e ?w4)\<lparr>txn := Some [InsertAudit row]\<rparr>" let ?w6 = "settle e ?w5"
  have "committed (settle e ?w1) = d0"
    using assms(5) unfolding d0 by (simp add: settle_def Let_def admits_def pending_def)
  then have r2: "committed ?w2 = d0" "log_ready x org i d0"
    using settled [of "settle e w"] settled [of w] assms(4) d0 by auto
  then have r3: "log_ready x org i (committed ?w3)" "org_rows org (committed ?w3) = org_rows org d0"
      "set (audit_log d0) \<subseteq> set (audit_log (committed ?w3))"
    using settled [of ?w2] locked [of ?w2] grown [of ?w2] by auto
  then have r4: "log_ready x org i (committed (settle e ?w4))" "org_rows org (committed (settle e ?w4)) = org_rows org d0"
      "set (audit_log d0) \<subseteq> set (audit_log (committed (settle e ?w4)))"
    using settled [of ?w4] locked [of ?w4] grown [of ?w4] by auto
  then have r6: "log_ready x org i (committed ?w6)" "org_rows org (committed ?w6) = org_rows org d0"
      "set (audit_log d0) \<subseteq> set (audit_log (committed ?w6))"
    using settled [of ?w5] locked [of ?w5] grown [of ?w5] by auto
  let ?last = "(committed ?w6)\<lparr>audit_log := audit_log (committed ?w6) @ [row]\<rparr>"
  have tip: "find_tip org (view ?w3) = find_tip org d0"
    using r3(2) assms(5) by (simp add: view_def pending_def find_tip_def)
  have ins: "execute (InsertAudit row) e ?w4 = (Inr ((committed (settle e ?w4))\<lparr>audit_log :=
      audit_log (committed (settle e ?w4)) @ [row]\<rparr>), ?w5)"
    using insert_at_tip(1) [OF r4(1,2) row] out assms(5)
    by (simp add: execute_def Let_def store_write_def view_def pending_def)
  have com: "\<exists>w'. commit_txn e ?w5 = (Inr (), w') \<and> committed w' = ?last"
    using insert_at_tip(1) [OF r6(1,2) row] out
    by (simp add: commit_txn_def Let_def rollback_txn_def view_def pending_def)
  have "begin_txn e w = (Inr (), ?w1)" using out by (simp add: begin_txn_def Let_def)
  moreover have "advisory_lock ?K e ?w1 = (Inr (), ?w2)" using out by (simp add: advisory_lock_def Let_def)
  moreover have "query (find_tip org) e ?w2 = (Inr (find_tip org d0), ?w3)" using out tip by (simp add: query_def Let_def)
  moreover have "(chain_timestamp :: (db_err, datetime) act) e ?w3 = (Inr (clock_at e (tick w + 3)), ?w3\<lparr>tick := Suc (tick ?w3)\<rparr>)"
    by (simp add: chain_timestamp_def utc_now_def eval_nat_numeral)
  moreover have "(new_v4 :: (db_err, uuid) act) e (?w3\<lparr>tick := Suc (tick ?w3)\<rparr>) = (Inr (uuid_at e (tick w + 4)), ?w4)"
    by (simp add: new_v4_def eval_nat_numeral)
  moreover obtain w' where w': "commit_txn e ?w5 = (Inr (), w')" "committed w' = ?last" using com by blast
  ultimately have run: "append_chained x True org token action subject detail e w = (Inr (), w')"
    using ins by (simp add: append_chained_def in_txn_def bind_a_run row i)
  have "audit_log (committed ?w6) = audit_log (committed w)" if "\<forall>t d. audit_log (peer_db e t d) = audit_log d"
  proof -
    have "audit_log (committed (settle e v)) = audit_log (committed v)" for v
      using settle_committed [of e v] that by auto
    then show ?thesis by simp
  qed
  then show ?thesis
    using run w'(2) r6(2,3) insert_at_tip(2) [OF r6(1,2) row]
    by (intro exI [of _ w'] exI [of _ "committed ?w6"] conjI impI) (simp_all only: simp_thms)
qed

text \<open>C29. On PostgreSQL, with every statement served, a record call appends exactly one entry to the log of
  its organisation, at the end, whatever other sessions append meanwhile as long as they respect
  the append lock: a commit of theirs that changes this organisation's rows takes the lock, so it happens before the
  lock is granted here or not until the entry is in. The rows of the organisation afterwards are the
  rows there were when the lock was granted, which are those of before the call and what the others
  had appended by then, followed by one row built from the acting token, the action, the clock, a
  freshly generated identifier and the last of those rows. No earlier entry of any organisation is lost or
  changed, and no entry of this call is in another organisation's log; when nobody else writes the log, the whole
  log is the one before plus this row. The further conditions: the log is well formed and other sessions
  keep it so (as in C3), digests are not empty, the organisation exists and is not deleted, the
  generated identifier is not in use, and no entry has reached the last position of the signed column.\<close>

theorem record_appends_one_entry:
  assumes "served e" and "audit_rely x e" and "lock_rely x org i e" and "digest_ok x" and "txn w = None"
    and "audit_inv x (committed w)" and "has_org (committed w) org"
    and "\<forall>r\<in>set (audit_log (committed w)). a_seq r < i64_max \<and> a_id r \<noteq> i"
    and "i = uuid_at e (tick w + 4)" and "granted = committed (settle e (settle e w))"
    and "row = next_row x org token action subject detail (find_tip org granted)
      (clock_at e (tick w + 3)) i"
    and "after = committed (snd (record_audit x True org token action subject detail e w))"
  shows "org_rows org after = org_rows org granted @ [row]
    \<and> set (audit_log (committed w)) \<subseteq> set (audit_log granted) \<and> set (audit_log granted) \<subseteq> set (audit_log after)
    \<and> grows x (committed w) after
    \<and> (\<exists>others. audit_log after = audit_log others @ [row] \<and> org_rows org others = org_rows org granted)
    \<and> ((\<forall>t d. audit_log (peer_db e t d) = audit_log d) \<longrightarrow> audit_log after = audit_log (committed w) @ [row])"
proof -
  have ready: "log_ready x org i (committed w)" using assms(6-8) by (simp add: log_ready_def)
  obtain w' d where run: "append_chained x True org token action subject detail e w = (Inr (), w')"
      "set (audit_log granted) \<subseteq> set (audit_log d)" "org_rows org d = org_rows org granted"
      "(\<forall>t d. audit_log (peer_db e t d) = audit_log d) \<longrightarrow> audit_log d = audit_log (committed w)"
      "committed w' = d\<lparr>audit_log := audit_log d @ [row]\<rparr>" "org_rows org (committed w') = org_rows org granted @ [row]"
    using append_locked [OF assms(1-3) ready assms(5,10,11,9)] by blast
  have after: "after = committed w'"
    using run(1) unfolding assms(12) by (simp add: record_audit_def APPEND_ATTEMPTS_def eval_nat_numeral bind_a_def attempt_def)
  have grown: "grows x (committed w) after"
    using record_audit_grows [OF assms(2,4,6)] unfolding assms(12) .
  have "audit_inv x (committed (settle e w))" using settle_grows [OF assms(2,6)] by (simp add: grows_def)
  then have "set (audit_log (committed w)) \<subseteq> set (audit_log granted)"
    using settle_grows [OF assms(2,6)] settle_grows [OF assms(2), of "settle e w"] unfolding assms(10)
    by (auto simp: grows_def)
  then show ?thesis
    using run(2-4) run(6) grown unfolding after run(5) by (intro conjI impI exI [of _ d]) (auto simp: run(5))
qed

text \<open>Another session appends an entry under the lock before it is granted here.\<close>

definition row_0 :: audit_row where
  "row_0 = next_row toy_ext 7 token_1 Publish ''acme/k@0'' None None 0 9"

definition rival :: env where
  "rival = calm\<lparr>peer_db := (\<lambda>t d. if t = 0 \<and> audit_log d = [] \<and> has_org d 7 then d\<lparr>audit_log := [row_0]\<rparr> else d),
     peer_locks := (\<lambda>t. if t = 0 then [audit_lock_key toy_ext 7] else [])\<rparr>"

lemma rival_sel [simp]:
  "peer_db rival t d = (if t = 0 \<and> audit_log d = [] \<and> has_org d 7 then d\<lparr>audit_log := [row_0]\<rparr> else d)"
  "peer_locks rival t = (if t = 0 then [audit_lock_key toy_ext 7] else [])"
  "outcome_at rival t = Served" "clock_at rival t = int t" "uuid_at rival t = of_nat (t + 100)"
  by (simp_all add: rival_def)

lemma row_0_sel [simp]: "a_org_id row_0 = 7" "a_id row_0 = 9" "a_seq row_0 = 1" "a_entry_hash row_0 \<noteq> []"
  by (simp_all add: row_0_def next_row_def Let_def tip_seq_def wrap_i64_def entry_digest_def digest_nonempty [OF toy_digest_ok])

lemma rival_rely: "audit_rely toy_ext rival"
proof -
  have "grows toy_ext d (d\<lparr>audit_log := [row_0]\<rparr>)" if d: "audit_inv toy_ext d" "audit_log d = []" "has_org d 7" for d
  proof -
    have "find_tip 7 d = None" using d(2) by (simp add: find_tip_def org_rows_def)
    then have "fits toy_ext d row_0" using next_row_fits [OF toy_digest_ok, of d 7] unfolding row_0_def by metis
    moreover have "apply_write (InsertAudit row_0) d = Inr (d\<lparr>audit_log := [row_0]\<rparr>)"
      using d by (simp add: apply_insert_iff)
    ultimately show ?thesis using append_audit_inv [OF d(1)] d(2) by (auto simp: grows_def)
  qed
  then show ?thesis by (auto simp: audit_rely_def grows_refl)
qed

theorem record_appends_one_entry_witness:
  "\<exists>row. org_rows 7 (committed (snd (record_audit toy_ext True 7 token_1 Publish ''acme/k@1'' None rival (start db_1))))
    = [row_0, row] \<and> a_seq row = 2 \<and> a_subject row = ''acme/k@1''"
proof -
  let ?granted = "committed (settle rival (settle rival (start db_1)))"
  have org: "has_org db_1 7" "audit_log db_1 = []" by (simp_all add: has_org_def db_1_def empty_db_def)
  have "?granted = db_1\<lparr>audit_log := [row_0]\<rparr>"
    using org by (simp add: settle_def Let_def admits_def pending_def start_def)
  then have rows: "org_rows 7 ?granted = [row_0]" "find_tip 7 ?granted = Some row_0"
    by (simp_all add: find_tip_def org_rows_def)
  have lock: "lock_rely toy_ext 7 (uuid_at rival (tick (start db_1) + 4)) rival"
    by (auto simp: lock_rely_def has_org_def i64_max_def)
  have "served rival" "txn (start db_1) = None" "audit_inv toy_ext (committed (start db_1))"
      "has_org (committed (start db_1)) 7"
      "\<forall>r\<in>set (audit_log (committed (start db_1))). a_seq r < i64_max \<and> a_id r \<noteq> uuid_at rival (tick (start db_1) + 4)"
    using org by (simp_all add: served_def audit_inv_empty)
  note appended = record_appends_one_entry [OF this(1) rival_rely lock toy_digest_ok this(2-5) refl refl refl refl,
      of token_1 Publish "''acme/k@1''" None, unfolded rows, THEN conjunct1]
  show ?thesis
    unfolding appended
    by (simp add: next_row_def Let_def tip_seq_def wrap_i64_def)
qed

subsection \<open>Tamper evidence\<close>

fun inputs_of :: "('x ext_scheme) \<Rightarrow> string \<Rightarrow> audit_row list \<Rightarrow> audit_chain_input list" where
  "inputs_of x prev [] = []"
| "inputs_of x prev (r # rs) = row_input x r prev # inputs_of x (a_entry_hash r) rs"

fun hash_linked :: "('x ext_scheme) \<Rightarrow> string \<Rightarrow> audit_row list \<Rightarrow> bool" where
  "hash_linked x prev [] \<longleftrightarrow> True"
| "hash_linked x prev (r # rs) \<longleftrightarrow>
     expected_hash x r prev = a_entry_hash r \<and> hash_linked x (a_entry_hash r) rs"

definition last_hash :: "string \<Rightarrow> audit_row list \<Rightarrow> string" where
  "last_hash prev rs = (if rs = [] then prev else a_entry_hash (last rs))"

lemma hash_linked_snoc:
  "hash_linked x prev (rs @ [r]) \<longleftrightarrow>
     hash_linked x prev rs \<and> expected_hash x r (last_hash prev rs) = a_entry_hash r"
  by (induction rs arbitrary: prev) (auto simp: last_hash_def)

lemma inputs_of_snoc:
  "inputs_of x prev (rs @ [r]) = inputs_of x prev rs @ [row_input x r (last_hash prev rs)]"
  by (induction rs arbitrary: prev) (auto simp: last_hash_def)

lemma intact_hash_linked:
  "intact (verify_loop x rows prev exp n head) \<Longrightarrow> hash_linked x prev rows
     \<and> head_hash (verify_loop x rows prev exp n head) =
         (if rows = [] then head else Some (last_hash prev rows))"
  by (induction x rows prev exp n head rule: verify_loop.induct)
     (auto simp: last_hash_def split: if_splits)

lemma same_head_same_inputs:
  assumes "hash_linked x [] as" "hash_linked x [] bs" "last_hash [] as = last_hash [] bs"
    and "\<forall>r\<in>set as \<union> set bs. a_entry_hash r \<noteq> []"
  shows "inputs_of x [] as = inputs_of x [] bs
    \<or> (\<exists>i\<in>set (inputs_of x [] as). \<exists>j\<in>set (inputs_of x [] bs). i \<noteq> j \<and> entry_digest x i = entry_digest x j)"
  using assms
proof (induction as arbitrary: bs rule: rev_induct)
  case Nil
  then have "bs = []" by (cases bs rule: rev_cases) (auto simp: last_hash_def)
  then show ?case by simp
next
  case (snoc a as)
  then have "bs \<noteq> []" by (auto simp: last_hash_def split: if_splits)
  then obtain bs' b where bs: "bs = bs' @ [b]" by (metis rev_exhaust)
  let ?i = "row_input x a (last_hash [] as)" and ?j = "row_input x b (last_hash [] bs')"
  have dig: "entry_digest x ?i = entry_digest x ?j"
    using snoc.prems(1-3) bs by (simp add: hash_linked_snoc expected_hash_def) (simp add: last_hash_def)
  show ?case
  proof (cases "?i = ?j")
    case True
    then have "last_hash [] as = last_hash [] bs'" by (simp add: row_input_def)
    with snoc.IH [of bs'] snoc.prems bs True show ?thesis
      by (auto simp: hash_linked_snoc inputs_of_snoc)
  next
    case False
    then show ?thesis using dig bs by (auto simp: inputs_of_snoc)
  qed
qed

definition chained_inputs :: "('x ext_scheme) \<Rightarrow> audit_row list \<Rightarrow> audit_chain_input list" where
  "chained_inputs x rows = inputs_of x [] (filter is_chained rows)"

text \<open>C8. The chain is tamper-evident: if two versions of a log are both reported intact with the same
  head hash, then they have the same chained entries, field by field, or the two versions contain
  two different entries with the same digest, that is a collision of SHA-256 or of its input
  encoding. So a recorded head hash pins the whole history.\<close>

theorem head_hash_pins_history:
  assumes "intact (verify_chain x as)" and "intact (verify_chain x bs)"
    and "head_hash (verify_chain x as) = head_hash (verify_chain x bs)"
  shows "chained_inputs x as = chained_inputs x bs
    \<or> (\<exists>i\<in>set (chained_inputs x as). \<exists>j\<in>set (chained_inputs x bs).
         i \<noteq> j \<and> sha256_hex x (audit_chain_preimage x i) = sha256_hex x (audit_chain_preimage x j))"
proof -
  let ?as = "filter is_chained as" and ?bs = "filter is_chained bs"
  have ne: "\<forall>r\<in>set ?as \<union> set ?bs. a_entry_hash r \<noteq> []" by (auto simp: is_chained_def)
  have "hash_linked x [] ?as" "hash_linked x [] ?bs"
    using assms(1,2) intact_hash_linked [of x ?as "[]" None 0 None]
      intact_hash_linked [of x ?bs "[]" None 0 None] by (simp_all add: verify_chain_def)
  moreover have "last_hash [] ?as = last_hash [] ?bs"
    using assms intact_hash_linked [of x ?as "[]" None 0 None] intact_hash_linked [of x ?bs "[]" None 0 None]
    by (simp add: verify_chain_def last_hash_def split: if_splits)
  ultimately show ?thesis
    using same_head_same_inputs [OF _ _ _ ne] by (simp add: chained_inputs_def entry_digest_def)
qed

definition row_1 :: audit_row where
  "row_1 = next_row toy_ext 7 token_1 Publish ''acme/k@1'' None None 5 9"

lemma row_1_intact:
  "verify_chain toy_ext [row_1] = \<lparr>intact = True, entries_checked = 1, first_bad_seq = None,
     problem = None, head_hash = Some (replicate 64 (CHR ''a''))\<rparr>"
  by (simp add: verify_chain_def row_1_def next_row_def is_chained_def expected_hash_def entry_digest_def
      toy_ext_def tip_seq_def wrap_i64_def)

theorem head_hash_pins_history_witness:
  "chained_inputs toy_ext [row_1] = chained_inputs toy_ext [row_1\<lparr>a_subject := ''acme/x@9''\<rparr>]
    \<or> (\<exists>i\<in>set (chained_inputs toy_ext [row_1]).
        \<exists>j\<in>set (chained_inputs toy_ext [row_1\<lparr>a_subject := ''acme/x@9''\<rparr>]).
         i \<noteq> j \<and> sha256_hex toy_ext (audit_chain_preimage toy_ext i)
           = sha256_hex toy_ext (audit_chain_preimage toy_ext j))"
proof -
  have "verify_chain toy_ext [row_1\<lparr>a_subject := ''acme/x@9''\<rparr>] = verify_chain toy_ext [row_1]"
    by (simp add: verify_chain_def row_1_def next_row_def is_chained_def expected_hash_def entry_digest_def
        toy_ext_def tip_seq_def wrap_i64_def)
  then show ?thesis
    using head_hash_pins_history [of toy_ext "[row_1]" "[row_1\<lparr>a_subject := ''acme/x@9''\<rparr>]"] row_1_intact
    by simp
qed

end
