(* ===== verification/Routes.thy ===== *)
theory Routes
  imports Auth Rbac
begin

section \<open>Shared route helpers (\<^verbatim>\<open>src/routes/mod.rs\<close>)\<close>

text \<open>
  Lookups used by several handlers, the visible versions of a package, and the sizes of the
  concurrency budgets of the routes that buffer whole artifacts or graphs.
\<close>

subsection \<open>Lookups\<close>

definition org_by_slug :: "string \<Rightarrow> db \<Rightarrow> org_row option" where
  "org_by_slug slug d = List.find (\<lambda>r. o_slug r = slug) (orgs d)"

definition package_by_name :: "uuid \<Rightarrow> string \<Rightarrow> db \<Rightarrow> package_row option" where
  "package_by_name org name d = List.find (\<lambda>r. p_org_id r = org \<and> p_name r = name) (packages d)"

definition version_by_name :: "uuid \<Rightarrow> string \<Rightarrow> db \<Rightarrow> version_row option" where
  "version_by_name pkg ver d = List.find (\<lambda>r. v_package_id r = pkg \<and> v_version r = ver) (versions d)"

definition versions_of :: "uuid \<Rightarrow> db \<Rightarrow> version_row list" where
  "versions_of pkg d = filter (\<lambda>r. v_package_id r = pkg) (versions d)"

definition find_org :: "string \<Rightarrow> org_row handler" where
  "find_org slug =
     bind_a (sql (query (org_by_slug slug))) (\<lambda>found. lift (ok_or (not_found ''org'') found))"

definition find_package :: "org_row \<Rightarrow> string \<Rightarrow> package_row handler" where
  "find_package org_row name =
     bind_a (sql (query (package_by_name (o_id org_row) name))) (\<lambda>found.
       lift (ok_or (not_found ''package'') found))"

definition find_version :: "package_row \<Rightarrow> string \<Rightarrow> version_row handler" where
  "find_version pkg ver =
     bind_a (sql (query (version_by_name (p_id pkg) ver))) (\<lambda>found.
       lift (ok_or (not_found ''version'') found))"

subsection \<open>Visible versions\<close>

text \<open>\<open>sort_desc\<close> is the version order of \<open>zed-interfaces\<close>, a parameter.\<close>

definition visible_versions_desc :: "(string list \<Rightarrow> string list) \<Rightarrow> version_row list \<Rightarrow> string list" where
  "visible_versions_desc sort_desc rows =
     sort_desc (map v_version (filter (\<lambda>r. \<not> v_yanked r) rows))"

definition latest_visible_version :: "(string list \<Rightarrow> string list) \<Rightarrow> version_row list \<Rightarrow> string option" where
  "latest_visible_version sort_desc rows =
     (case visible_versions_desc sort_desc rows of [] \<Rightarrow> None | v # _ \<Rightarrow> Some v)"

definition tags_of :: "package_row \<Rightarrow> string list" where
  "tags_of pkg =
     (case p_tags pkg of
        JArray vs \<Rightarrow> List.map_filter (\<lambda>v. case v of JString s \<Rightarrow> Some s | _ \<Rightarrow> None) vs
      | _ \<Rightarrow> [])"

subsection \<open>Concurrency budgets\<close>

definition MAX_IN_FLIGHT_REQUESTS :: nat where
  "MAX_IN_FLIGHT_REQUESTS = 512"

definition DEFAULT_ARTIFACT_SERVE_BUDGET :: nat where
  "DEFAULT_ARTIFACT_SERVE_BUDGET = 256 * 1024 * 1024"

definition DEFAULT_GRAPH_SERVE_BUDGET :: nat where
  "DEFAULT_GRAPH_SERVE_BUDGET = 256 * 1024 * 1024"

definition GRAPH_WORKING_SET_MULTIPLIER :: nat where
  "GRAPH_WORKING_SET_MULTIPLIER = 3"

definition clamp :: "nat \<Rightarrow> nat \<Rightarrow> nat \<Rightarrow> nat" where
  "clamp lo hi n = (if n < lo then lo else if n > hi then hi else n)"

definition saturating_mul :: "nat \<Rightarrow> nat \<Rightarrow> nat" where
  "saturating_mul a b = min (a * b) u64_max"

definition budget_from :: "string option \<Rightarrow> nat \<Rightarrow> nat" where
  "budget_from var dflt =
     (case var of None \<Rightarrow> dflt | Some v \<Rightarrow> (case parse_u64 v of None \<Rightarrow> dflt | Some n \<Rightarrow> n))"

definition artifact_serve_concurrency :: "string option \<Rightarrow> nat \<Rightarrow> nat" where
  "artifact_serve_concurrency var max_artifact_bytes =
     clamp 1 MAX_IN_FLIGHT_REQUESTS (budget_from var DEFAULT_ARTIFACT_SERVE_BUDGET div max max_artifact_bytes 1)"

text \<open>\<open>max_encoded\<close> is the graph size limit of \<open>zed-interfaces\<close>.\<close>

definition graph_serve_concurrency_for_budget :: "nat \<Rightarrow> nat \<Rightarrow> nat" where
  "graph_serve_concurrency_for_budget max_encoded budget =
     clamp 1 MAX_IN_FLIGHT_REQUESTS
       (budget div max (saturating_mul max_encoded GRAPH_WORKING_SET_MULTIPLIER) 1)"

definition graph_serve_concurrency :: "nat \<Rightarrow> string option \<Rightarrow> nat" where
  "graph_serve_concurrency max_encoded var =
     graph_serve_concurrency_for_budget max_encoded (budget_from var DEFAULT_GRAPH_SERVE_BUDGET)"

subsection \<open>Lemmas\<close>

lemma find_org_Inr:
  "find_org slug e w = (Inr row, w') \<Longrightarrow>
     w' = settle e w \<and> row \<in> set (orgs (view (settle e w))) \<and> o_slug row = slug"
  by (auto simp: find_org_def bind_a_Inr_iff query_Inr_iff org_by_slug_def dest: find_Some_iff')

lemma find_package_Inr:
  "find_package org name e w = (Inr row, w') \<Longrightarrow>
     w' = settle e w \<and> row \<in> set (packages (view (settle e w))) \<and> p_org_id row = o_id org \<and> p_name row = name"
  by (auto simp: find_package_def bind_a_Inr_iff query_Inr_iff package_by_name_def dest: find_Some_iff')

lemma find_version_Inr:
  "find_version pkg ver e w = (Inr row, w') \<Longrightarrow>
     w' = settle e w \<and> row \<in> set (versions (view (settle e w))) \<and> v_package_id row = p_id pkg \<and> v_version row = ver"
  by (auto simp: find_version_def bind_a_Inr_iff query_Inr_iff version_by_name_def dest: find_Some_iff')

text \<open>
  What a request reads: the database as the statement after a program sees it, and the lookups with
  which the publisher routes start. Properties name the rows of these very reads.
\<close>

definition read_after :: "('e, 'a) act \<Rightarrow> env \<Rightarrow> world \<Rightarrow> db" where
  "read_after m e w = view (settle e (snd (m e w)))"

definition locate_org :: "('x ext_scheme) \<Rightarrow> headers \<Rightarrow> string \<Rightarrow> org_row handler" where
  "locate_org x headers slug = bind_a (require_token x headers) (\<lambda>_. find_org slug)"

definition locate_package :: "('x ext_scheme) \<Rightarrow> headers \<Rightarrow> string \<Rightarrow> string \<Rightarrow> package_row handler" where
  "locate_package x headers slug name = bind_a (locate_org x headers slug) (\<lambda>org. find_package org name)"

lemma located:
  assumes "require_token x headers e w = (Inr token, w1)" "find_org slug e w1 = (Inr org, w2)"
  shows "org \<in> set (orgs (read_after (require_token x headers) e w)) \<and> o_slug org = slug"
    and "find_package org name e w2 = (Inr pkg, w3) \<Longrightarrow>
      pkg \<in> set (packages (read_after (locate_org x headers slug) e w)) \<and> p_org_id pkg = o_id org \<and> p_name pkg = name"
    and "read_after (locate_org x headers slug) e w = view (settle e w2)"
    and "find_package org name e w2 = (Inr pkg, w3) \<Longrightarrow>
      read_after (locate_package x headers slug name) e w = view (settle e w3)"
  using assms find_org_Inr [OF assms(2)] find_package_Inr [of org name e w2 pkg w3]
  by (auto simp: read_after_def locate_org_def locate_package_def bind_a_run)

lemma require_token_txn: "txn (snd (require_token x h e w)) = txn w"
  by (auto simp: require_token_def monad_defs query_def utc_now_def Let_def split: option.split sum.split)

lemma schema_require_token [keep_rules]: "keeps schema_rely schema_inv (require_token x h)"
  unfolding require_token_def by (intro keep_rules)

lemma schema_find_org [keep_rules]: "keeps schema_rely schema_inv (find_org slug)"
  unfolding find_org_def by (intro keep_rules)

lemma schema_find_package [keep_rules]: "keeps schema_rely schema_inv (find_package org name)"
  unfolding find_package_def by (intro keep_rules)

lemma schema_find_version [keep_rules]: "keeps schema_rely schema_inv (find_version pkg ver)"
  unfolding find_version_def by (intro keep_rules)

lemma clamp_bounds: "lo \<le> hi \<Longrightarrow> lo \<le> clamp lo hi n \<and> clamp lo hi n \<le> hi"
  by (simp add: clamp_def)

text \<open>The routes that buffer whole artifacts stay within the memory budget: at least one and at most
  512 requests run at once, and as long as the budget covers one artifact the artifacts being
  served together never exceed it.\<close>

theorem artifact_budget_holds:
  assumes "max_artifact_bytes \<le> budget_from var DEFAULT_ARTIFACT_SERVE_BUDGET"
  shows "1 \<le> artifact_serve_concurrency var max_artifact_bytes
    \<and> artifact_serve_concurrency var max_artifact_bytes \<le> 512
    \<and> artifact_serve_concurrency var max_artifact_bytes * max_artifact_bytes
        \<le> budget_from var DEFAULT_ARTIFACT_SERVE_BUDGET"
proof -
  let ?b = "budget_from var DEFAULT_ARTIFACT_SERVE_BUDGET" and ?m = "max max_artifact_bytes 1"
  have "clamp 1 512 (?b div ?m) * max_artifact_bytes \<le> ?b"
  proof (cases "?b div ?m = 0")
    case True
    then show ?thesis using assms by (simp add: clamp_def)
  next
    case False
    then have "clamp 1 512 (?b div ?m) \<le> ?b div ?m" by (simp add: clamp_def)
    then have "clamp 1 512 (?b div ?m) * max_artifact_bytes \<le> ?b div ?m * ?m"
      by (intro mult_mono) auto
    also have "\<dots> \<le> ?b" by (simp add: div_times_less_eq_dividend)
    finally show ?thesis .
  qed
  then show ?thesis
    using clamp_bounds [of 1 512] by (simp add: artifact_serve_concurrency_def MAX_IN_FLIGHT_REQUESTS_def)
qed

theorem artifact_budget_holds_witness:
  "artifact_serve_concurrency None (100 * 1024 * 1024) * (100 * 1024 * 1024) \<le> 256 * 1024 * 1024"
  using artifact_budget_holds [of "100 * 1024 * 1024" None]
  by (simp add: budget_from_def DEFAULT_ARTIFACT_SERVE_BUDGET_def)

end
