(* ===== verification/AuditRoutes.thy ===== *)
theory AuditRoutes
  imports AuditChain Routes
begin

section \<open>Reading the audit log (\<^verbatim>\<open>src/routes/audit.rs\<close>)\<close>

text \<open>The owner-only log query and the integrity check, over the audit table.\<close>

definition DEFAULT_LIMIT :: nat where
  "DEFAULT_LIMIT = 100"

definition MAX_LIMIT :: nat where
  "MAX_LIMIT = 1000"

definition MAX_VERIFY_ROWS :: nat where
  "MAX_VERIFY_ROWS = 50000"

record audit_query =
  aq_limit :: "nat option"
  aq_action :: "string option"
  aq_before :: "int option"

record audit_entry =
  ae_at :: string
  ae_action_kind :: "audit_action option"
  ae_action :: string
  ae_subject :: string
  ae_actor_token_name :: string
  ae_actor_role :: string
  ae_detail :: "string option"
  ae_seq :: nat
  ae_entry_hash :: string
  ae_prev_hash :: "string option"

record audit_integrity =
  ai_org :: string
  ai_intact :: bool
  ai_entries_checked :: nat
  ai_first_bad_seq :: "nat option"
  ai_problem :: "string option"
  ai_head_hash :: "string option"

definition to_entry :: "('x ext_scheme) \<Rightarrow> audit_row \<Rightarrow> audit_entry" where
  "to_entry x r =
     \<lparr>ae_at = rfc3339 x (a_at r), ae_action_kind = action_parse x (a_action r), ae_action = a_action r,
      ae_subject = a_subject r, ae_actor_token_name = a_actor_token_name r, ae_actor_role = a_actor_role r,
      ae_detail = a_detail r, ae_seq = as_u64 (max (a_seq r) 0), ae_entry_hash = a_entry_hash r,
      ae_prev_hash = a_prev_hash r\<rparr>"

definition invalid_action :: "string \<Rightarrow> api_err" where
  "invalid_action action = bad_request ''invalid_action''
     (''unknown action `'' @ action @ ''`; expected publish, yank, unyank, or org_claim'')"

text \<open>\<open>ORDER BY seq DESC, at DESC\<close>: the position is unique per organisation.\<close>

definition audit_page :: "uuid \<Rightarrow> audit_query \<Rightarrow> nat \<Rightarrow> db \<Rightarrow> audit_row list" where
  "audit_page org q limit d =
     take limit (rev (sort_key a_seq (sort_key a_at
       (filter (\<lambda>r. a_org_id r = org
          \<and> (case aq_action q of None \<Rightarrow> True | Some a \<Rightarrow> a_action r = a)
          \<and> (case aq_before q of None \<Rightarrow> True | Some b \<Rightarrow> a_seq r < b)) (audit_log d)))))"

definition authorize_owner :: "('x ext_scheme) \<Rightarrow> headers \<Rightarrow> string \<Rightarrow> (token_row \<times> org_row) handler" where
  "authorize_owner x headers org_slug =
     bind_a (require_token x headers) (\<lambda>token.
     bind_a (find_org org_slug) (\<lambda>org_row.
     bind_a (lift (authorize_manage (t_org_id token) (parse (t_role token)) (o_id org_row))) (\<lambda>_.
       ret (token, org_row))))"

definition get_audit_log ::
  "('x ext_scheme) \<Rightarrow> headers \<Rightarrow> string \<Rightarrow> audit_query \<Rightarrow> (string \<times> audit_entry list) handler" where
  "get_audit_log x headers org_slug q =
     bind_a (authorize_owner x headers org_slug) (\<lambda>(token, org_row).
     bind_a (lift (case aq_action q of
         None \<Rightarrow> Inr ()
       | Some action \<Rightarrow> guard_r (action_parse x action \<noteq> None) (invalid_action action))) (\<lambda>_.
     let limit = clamp 1 MAX_LIMIT (case aq_limit q of None \<Rightarrow> DEFAULT_LIMIT | Some n \<Rightarrow> n)
     in bind_a (sql (query (audit_page (o_id org_row) q limit))) (\<lambda>rows.
          ret (org_slug, map (to_entry x) rows))))"

definition verify_audit_log :: "('x ext_scheme) \<Rightarrow> headers \<Rightarrow> string \<Rightarrow> audit_integrity handler" where
  "verify_audit_log x headers org_slug =
     bind_a (authorize_owner x headers org_slug) (\<lambda>(token, org_row).
     bind_a (sql (query (\<lambda>d. take MAX_VERIFY_ROWS (org_rows (o_id org_row) d)))) (\<lambda>rows.
     let report = verify_chain x rows
     in ret \<lparr>ai_org = org_slug, ai_intact = intact report, ai_entries_checked = entries_checked report,
             ai_first_bad_seq = map_option (\<lambda>s. as_u64 (max s 0)) (first_bad_seq report),
             ai_problem = map_option problem_str (problem report), ai_head_hash = head_hash report\<rparr>))"

subsection \<open>Properties\<close>

lemma authorize_owner_Inr:
  assumes "authorize_owner x headers org_slug e w = (Inr (token, org_row), w')"
  shows "fst (require_token x headers e w) = Inr token \<and> o_slug org_row = org_slug
    \<and> (t_org_id token = None \<or> t_org_id token = Some (o_id org_row) \<and> parse (t_role token) = Owner)
    \<and> txn w' = txn w"
proof -
  obtain w1 where tok: "require_token x headers e w = (Inr token, w1)"
      and org: "find_org org_slug e w1 = (Inr org_row, w')"
      and auth: "authorize_manage (t_org_id token) (parse (t_role token)) (o_id org_row) = Inr ()"
    using assms by (auto simp: authorize_owner_def bind_a_Inr_iff)
  have "t_org_id token = None \<or> t_org_id token = Some (o_id org_row) \<and> parse (t_role token) = Owner"
    using auth by (cases "parse (t_role token)")
      (auto simp: authorize_manage_def split: option.splits if_splits)
  moreover have "txn w' = txn w"
    using find_org_Inr [OF org] require_token_txn [of x headers e w] tok by simp
  ultimately show ?thesis using tok find_org_Inr [OF org] by simp
qed

lemma schema_authorize_owner [keep_rules]: "keeps schema_rely schema_inv (authorize_owner x h slug)"
  unfolding authorize_owner_def by (intro keep_rules)

lemma chain_require_token [keep_rules]: "keeps (audit_rely x') (chain_inv x') (require_token x h)"
  unfolding require_token_def by (intro keep_rules)

lemma chain_authorize_owner [keep_rules]: "keeps (audit_rely x') (chain_inv x') (authorize_owner x h slug)"
  unfolding authorize_owner_def find_org_def by (intro keep_rules)

lemma page_sorted:
  assumes "keyed audit_clash log"
  shows "sorted_wrt (\<lambda>a b. a_seq b < a_seq a)
    (take n (rev (sort_key a_seq (sort_key a_at (filter (\<lambda>r. a_org_id r = org \<and> Q r) log)))))"
proof -
  let ?rows = "sort_key a_at (filter (\<lambda>r. a_org_id r = org \<and> Q r) log)"
  have "r = r'" if "r \<in> set ?rows" "r' \<in> set ?rows" "a_seq r = a_seq r'" for r r'
    using that audit_table.keyed_unique [OF assms] by (simp add: audit_clash_def)
  moreover have "distinct ?rows" using assms audit_table.keyed_distinct by simp
  ultimately have "distinct (map a_seq (sort_key a_seq ?rows))" by (auto simp: distinct_map inj_on_def)
  then have "sorted_wrt (<) (map a_seq (sort_key a_seq ?rows))" by (simp add: strict_sorted_iff)
  then have "sorted_wrt (\<lambda>a b. a_seq b < a_seq a) (rev (sort_key a_seq ?rows))"
    by (simp add: sorted_wrt_map sorted_wrt_rev)
  then show ?thesis by (rule sorted_wrt_take)
qed

text \<open>The audit log is read only by an admin token or an owner token of that organisation; the
  answer has at most a thousand entries, all of this organisation, below the cursor and of the
  requested action, in strictly descending position.\<close>

theorem audit_log_read_is_confined:
  assumes "get_audit_log x headers org_slug q e w = (Inr (slug, entries), w')"
    and "txn w = None" and "schema_rely e" and "schema_ok (committed w)"
  shows "slug = org_slug \<and> length entries \<le> 1000
    \<and> (\<exists>token (org_row :: org_row) rows. fst (require_token x headers e w) = Inr token \<and> o_slug org_row = org_slug
        \<and> (t_org_id token = None \<or> t_org_id token = Some (o_id org_row) \<and> parse (t_role token) = Owner)
        \<and> entries = map (to_entry x) rows
        \<and> sorted_wrt (\<lambda>a b. a_seq b < a_seq a) rows
        \<and> (\<forall>r\<in>set rows. r \<in> set (audit_log (committed w')) \<and> a_org_id r = o_id org_row
             \<and> (\<forall>a. aq_action q = Some a \<longrightarrow> a_action r = a)
             \<and> (\<forall>b. aq_before q = Some b \<longrightarrow> a_seq r < b)))"
proof -
  define limit where "limit = clamp 1 MAX_LIMIT (case aq_limit q of None \<Rightarrow> DEFAULT_LIMIT | Some n \<Rightarrow> n)"
  have limit: "limit \<le> 1000" using clamp_bounds [of 1 MAX_LIMIT] by (simp add: limit_def MAX_LIMIT_def)
  obtain token org_row w1 where
    auth: "authorize_owner x headers org_slug e w = (Inr (token, org_row), w1)"
    and w': "w' = settle e w1" and slug: "slug = org_slug"
    and entries: "entries = map (to_entry x) (audit_page (o_id org_row) q limit (view (settle e w1)))"
    using assms(1)
    by (auto simp: get_audit_log_def bind_a_Inr_iff query_Inr_iff Let_def limit_def split: prod.splits)
  note a = authorize_owner_Inr [OF auth]
  then have v: "view (settle e w1) = committed w'" using assms(2) w' by simp
  let ?rows = "audit_page (o_id org_row) q limit (committed w')"
  have "txn w1 = None" using a assms(2) by simp
  have schema: "keyed audit_clash (audit_log (committed w'))"
    using schema.keep_settle [OF assms(3) keepsD [OF schema_authorize_owner assms(3) _ auth]] assms(4) w'
    by (simp add: schema_inv_def schema_ok_def)
  have "sorted_wrt (\<lambda>a b. a_seq b < a_seq a) ?rows"
    using page_sorted [OF schema] by (simp add: audit_page_def)
  moreover have "\<forall>r\<in>set ?rows. r \<in> set (audit_log (committed w')) \<and> a_org_id r = o_id org_row
      \<and> (\<forall>a. aq_action q = Some a \<longrightarrow> a_action r = a) \<and> (\<forall>b. aq_before q = Some b \<longrightarrow> a_seq r < b)"
    by (auto simp: audit_page_def dest!: in_set_takeD)
  moreover have "length entries \<le> 1000" using limit entries by (simp add: audit_page_def)
  ultimately show ?thesis using a slug entries v 
    by (intro conjI exI [of _ token] exI [of _ org_row] exI [of _ ?rows]) auto
qed

text \<open>A world for the examples: an owner token of an organisation with one chained entry.\<close>

definition owner_1 :: token_row where
  "owner_1 = token_1\<lparr>t_role := ''owner''\<rparr>"

definition db_2 :: db where
  "db_2 = db_1\<lparr>tokens := [owner_1], audit_log := [row_1]\<rparr>"

definition hdr :: headers where
  "hdr = [(''authorization'', ''Bearer zpkg_1'')]"

lemma hdr_bearer: "bearer_token hdr = Some ''zpkg_1''"
  using bearer_example by (simp add: hdr_def)

lemma org_rows_db_2: "org_rows 7 db_2 = [row_1]" "org \<noteq> 7 \<Longrightarrow> org_rows org db_2 = []"
  by (simp_all add: org_rows_def db_2_def row_1_def next_row_def Let_def)

lemma db_2_ok: "schema_ok db_2 \<and> audit_inv toy_ext db_2"
proof -
  have "rows_ok toy_ext [row_1]"
    using next_row_fits [OF toy_digest_ok, of empty_db 7 token_1 Publish "''acme/k@1''" None 5 9]
    by (simp add: rows_ok_def core_def is_stray_def link_ok_def fits_def row_1_def find_tip_def org_rows_def
        empty_db_def tip_seq_def wrap_i64_def i64_max_def next_row_def Let_def)
  then have "\<forall>org. rows_ok toy_ext (org_rows org db_2)"
    using org_rows_db_2 by (metis empty_iff empty_set filter.simps(1) core_def linked_from.simps(1) rows_ok_def)
  then show ?thesis
    by (simp add: audit_inv_def schema_ok_def keyed_def db_2_def db_1_def empty_db_def)
qed

lemma owner_run: "require_token toy_ext hdr calm (start db_2) = (Inr owner_1, (start db_2)\<lparr>tick := 2\<rparr>)"
  by (simp add: require_token_def hdr_bearer run_simps find_token_by_hash_def hash_token_def start_def
      db_2_def owner_1_def token_1_def toy_ext_def)

lemma authorize_owner_run:
  "\<exists>org. authorize_owner toy_ext hdr ''acme'' calm (start db_2) = (Inr (owner_1, org), (start db_2)\<lparr>tick := 3\<rparr>)
     \<and> o_id org = 7"
  by (simp add: authorize_owner_def bind_a_def owner_run find_org_def run_simps org_by_slug_def
      db_2_def [THEN arg_cong, of orgs] db_1_def authorize_manage_def owner_1_def token_1_def parse_def)

lemma get_audit_log_run:
  "\<exists>es w'. get_audit_log toy_ext hdr ''acme'' \<lparr>aq_limit = Some 5000, aq_action = None, aq_before = None\<rparr>
     calm (start db_2) = (Inr (''acme'', es), w') \<and> length es = 1"
proof -
  obtain org where org: "authorize_owner toy_ext hdr ''acme'' calm (start db_2) =
      (Inr (owner_1, org), (start db_2)\<lparr>tick := 3\<rparr>)" "o_id org = 7"
    using authorize_owner_run by blast
  have "a_org_id row_1 = 7" by (simp add: row_1_def next_row_def Let_def)
  then show ?thesis
    by (simp add: get_audit_log_def bind_a_def org run_simps audit_page_def db_2_def [THEN arg_cong, of audit_log]
        clamp_def MAX_LIMIT_def)
qed

theorem audit_log_read_is_confined_witness:
  "\<exists>es w'. get_audit_log toy_ext hdr ''acme'' \<lparr>aq_limit = Some 5000, aq_action = None, aq_before = None\<rparr>
     calm (start db_2) = (Inr (''acme'', es), w') \<and> length es = 1 \<and> length es \<le> 1000"
proof -
  obtain es w' where run: "get_audit_log toy_ext hdr ''acme''
      \<lparr>aq_limit = Some 5000, aq_action = None, aq_before = None\<rparr> calm (start db_2) = (Inr (''acme'', es), w')"
      "length es = 1"
    using get_audit_log_run by blast
  have "length es \<le> 1000"
    using audit_log_read_is_confined [OF run(1) _ calm_schema_rely] db_2_ok by (simp add: start_def)
  with run show ?thesis by blast
qed

text \<open>On a log that only this server has written, the integrity endpoint never raises a false
  alarm: every answer it gives says the chain is intact.\<close>

theorem verify_audit_log_no_false_alarm:
  assumes "verify_audit_log x headers org_slug e w = (Inr answer, w')"
    and "txn w = None" and "audit_rely x e" and "audit_inv x (committed w)"
  shows "ai_intact answer \<and> ai_problem answer = None \<and> ai_first_bad_seq answer = None"
proof -
  obtain token org_row w1 where
    auth: "authorize_owner x headers org_slug e w = (Inr (token, org_row), w1)"
    and ans: "answer = (let report = verify_chain x (take MAX_VERIFY_ROWS (org_rows (o_id org_row) (view (settle e w1))))
      in \<lparr>ai_org = org_slug, ai_intact = intact report, ai_entries_checked = entries_checked report,
             ai_first_bad_seq = map_option (\<lambda>s. as_u64 (max s 0)) (first_bad_seq report),
             ai_problem = map_option problem_str (problem report), ai_head_hash = head_hash report\<rparr>)"
    using assms(1)
    by (auto simp: verify_audit_log_def bind_a_Inr_iff query_Inr_iff Let_def split: prod.splits)
  have "audit_inv x (committed (settle e w1))"
    using chain.keep_settle [OF assms(3)] keepsD [OF chain_authorize_owner assms(3) _ auth] assms(2,4)
    by (auto simp: chain_inv_def pending_def)
  moreover have "view (settle e w1) = committed (settle e w1)"
    using authorize_owner_Inr [OF auth] assms(2) by simp
  ultimately have "intact (verify_chain x (take MAX_VERIFY_ROWS (org_rows (o_id org_row) (view (settle e w1)))))"
    by (auto simp: audit_inv_def intro: rows_ok_intact)
  then show ?thesis
    using ans intact_no_problem by (simp add: Let_def verify_chain_def)
qed

theorem verify_audit_log_no_false_alarm_witness:
  "\<exists>answer w'. verify_audit_log toy_ext hdr ''acme'' calm (start db_2) = (Inr answer, w')
     \<and> ai_intact answer \<and> ai_entries_checked answer = 1"
proof -
  obtain org where org: "authorize_owner toy_ext hdr ''acme'' calm (start db_2) =
      (Inr (owner_1, org), (start db_2)\<lparr>tick := 3\<rparr>)" "o_id org = 7"
    using authorize_owner_run by blast
  have "view ((start db_2)\<lparr>tick := 4\<rparr>) = db_2" by (simp add: start_def)
  then obtain answer w' where run: "verify_audit_log toy_ext hdr ''acme'' calm (start db_2) = (Inr answer, w')"
      "ai_entries_checked answer = 1"
    using org_rows_db_2(1) row_1_intact
    by (simp add: verify_audit_log_def bind_a_def org query_def calm_settle sql_def map_err_def Let_def
        MAX_VERIFY_ROWS_def)
  have "ai_intact answer"
    using verify_audit_log_no_false_alarm [OF run(1) _ calm_audit_rely] db_2_ok by (simp add: start_def)
  with run show ?thesis by blast
qed

end
