(* ===== verification/Signing.thy ===== *)
theory Signing
  imports Routes
begin

section \<open>Signature verification (\<^verbatim>\<open>src/signing.rs\<close>)\<close>

text \<open>
  Admission control for publisher signatures. The contract types and the Ed25519 primitive belong
  to other crates and are fields of \<open>signing_ext\<close>; which signature is tried against which
  enrolled key, and in which order, is the code modelled here.
\<close>

datatype key_state = Active | Retired | Revoked

record publisher_key =
  pk_key_id :: string
  pk_algorithm :: string
  pk_public_key_multibase :: string
  pk_state :: key_state
  pk_enrolled_at :: "string option"
  pk_revoked_reason :: "string option"

record detached_signature =
  ds_algorithm :: string
  ds_key_id :: string
  ds_signature :: string

record signing_ext = ext +
  signing_algorithm :: string
  state_verifies :: "key_state \<Rightarrow> bool"
  key_validate :: "publisher_key \<Rightarrow> string + unit"
  public_key :: "publisher_key \<Rightarrow> string + string"
  is_point :: "string \<Rightarrow> bool"
  signature_bytes :: "detached_signature \<Rightarrow> string + string"
  verify_strict :: "string \<Rightarrow> string \<Rightarrow> string \<Rightarrow> bool"

definition map_error :: "('e \<Rightarrow> 'f) \<Rightarrow> 'e + 'a \<Rightarrow> 'f + 'a" where
  "map_error h r = (case r of Inl x \<Rightarrow> Inl (h x) | Inr a \<Rightarrow> Inr a)"

lemma map_error_simps [simp]: "map_error h (Inl x) = Inl (h x)" "map_error h (Inr a) = Inr a"
  by (simp_all add: map_error_def)

lemma map_error_Inr_iff [simp]: "map_error h r = Inr a \<longleftrightarrow> r = Inr a"
  by (cases r) auto

definition verify_one ::
  "('x signing_ext_scheme) \<Rightarrow> string \<Rightarrow> detached_signature \<Rightarrow> publisher_key \<Rightarrow> string + unit" where
  "verify_one x preimage signature key =
     bind_r (map_error (\<lambda>error. ''key `'' @ pk_key_id key @ ''` is unusable: '' @ error) (public_key x key)) (\<lambda>public.
     bind_r (guard_r (is_point x public)
       (''key `'' @ pk_key_id key @ ''` is not a valid Ed25519 point'')) (\<lambda>_.
     bind_r (map_error (\<lambda>error. ''malformed signature: '' @ error) (signature_bytes x signature)) (\<lambda>bytes.
       guard_r (verify_strict x public preimage bytes)
         (''signature by `'' @ pk_key_id key @ ''` does not verify''))))"

definition candidate :: "('x signing_ext_scheme) \<Rightarrow> publisher_key list \<Rightarrow> detached_signature \<Rightarrow> publisher_key option" where
  "candidate x keys signature =
     List.find (\<lambda>k. pk_key_id k = ds_key_id signature) (filter (\<lambda>k. state_verifies x (pk_state k)) keys)"

text \<open>The loop keeps the last reason; \<open>last\<close> is \<open>None\<close> before the first signature.\<close>

fun try_signatures ::
  "('x signing_ext_scheme) \<Rightarrow> string \<Rightarrow> publisher_key list \<Rightarrow> string option \<Rightarrow> detached_signature list
   \<Rightarrow> string + publisher_key" where
  "try_signatures x preimage keys reason [] =
     Inl (case reason of None \<Rightarrow> ''no signature verified'' | Some r \<Rightarrow> r)"
| "try_signatures x preimage keys reason (signature # signatures) =
     (if ds_algorithm signature \<noteq> signing_algorithm x
      then try_signatures x preimage keys
             (Some (''unsupported algorithm `'' @ ds_algorithm signature @ ''`'')) signatures
      else (case candidate x keys signature of
              None \<Rightarrow> try_signatures x preimage keys
                        (Some (''no enrolled, non-revoked key named `'' @ ds_key_id signature @ ''`'')) signatures
            | Some key \<Rightarrow>
                (case verify_one x preimage signature key of
                   Inr _ \<Rightarrow> Inr key
                 | Inl error \<Rightarrow> try_signatures x preimage keys (Some error) signatures)))"

definition verify_any ::
  "('x signing_ext_scheme) \<Rightarrow> string \<Rightarrow> detached_signature list \<Rightarrow> publisher_key list \<Rightarrow> string + publisher_key" where
  "verify_any x preimage signatures keys =
     (if signatures = [] then Inl ''no signature supplied''
      else if keys = [] then Inl ''this org has no enrolled signing keys; run `zed key enroll` first''
      else try_signatures x preimage keys None signatures)"

subsection \<open>Properties\<close>

definition vouches :: "('x signing_ext_scheme) \<Rightarrow> string \<Rightarrow> publisher_key list \<Rightarrow> detached_signature \<Rightarrow> publisher_key \<Rightarrow> bool" where
  "vouches x preimage keys signature key \<longleftrightarrow>
     ds_algorithm signature = signing_algorithm x \<and> candidate x keys signature = Some key
     \<and> (\<exists>public bytes. public_key x key = Inr public \<and> is_point x public
          \<and> signature_bytes x signature = Inr bytes \<and> verify_strict x public preimage bytes)"

lemma verify_one_Inr_iff:
  "verify_one x preimage signature key = Inr u \<longleftrightarrow>
     (\<exists>public bytes. public_key x key = Inr public \<and> is_point x public
        \<and> signature_bytes x signature = Inr bytes \<and> verify_strict x public preimage bytes)"
  by (auto simp: verify_one_def bind_r_Inr_iff)

lemma vouches_iff:
  "vouches x preimage keys s key \<longleftrightarrow> ds_algorithm s = signing_algorithm x
     \<and> candidate x keys s = Some key \<and> verify_one x preimage s key = Inr ()"
  by (simp add: vouches_def verify_one_Inr_iff)

lemma try_signatures_Inr:
  "try_signatures x preimage keys reason sigs = Inr key \<Longrightarrow>
     \<exists>s\<in>set sigs. vouches x preimage keys s key"
  by (induction sigs arbitrary: reason) (auto simp: vouches_iff split: if_splits option.splits sum.splits)

lemma try_signatures_complete:
  "s \<in> set sigs \<Longrightarrow> vouches x preimage keys s key \<Longrightarrow>
     \<exists>k. try_signatures x preimage keys reason sigs = Inr k"
  by (induction sigs arbitrary: reason) (auto simp: vouches_iff split: option.split sum.split)

lemma candidate_Some:
  "candidate x keys s = Some key \<Longrightarrow>
     key \<in> set keys \<and> pk_key_id key = ds_key_id s \<and> state_verifies x (pk_state key)"
  by (auto simp: candidate_def dest: find_Some_iff')

text \<open>C28. A document is admitted exactly when one of its signatures is valid: it names the one
  supported algorithm and an enrolled key, in a state that may verify, under which the strict
  Ed25519 check of this very preimage succeeds. The key that is returned is such a key, so no
  revoked key ever vouches for a document; with no valid signature the document is refused.\<close>

theorem verify_any_sound_and_complete:
  "((\<exists>key. verify_any x preimage sigs keys = Inr key) \<longleftrightarrow>
      (\<exists>s\<in>set sigs. \<exists>key. vouches x preimage keys s key))
   \<and> (\<forall>key. verify_any x preimage sigs keys = Inr key \<longrightarrow>
        (\<exists>s\<in>set sigs. vouches x preimage keys s key)
        \<and> key \<in> set keys \<and> state_verifies x (pk_state key))"
proof -
  have sound: "\<exists>s\<in>set sigs. vouches x preimage keys s key" if "verify_any x preimage sigs keys = Inr key" for key
    using that by (auto simp: verify_any_def dest: try_signatures_Inr split: if_splits)
  have complete: "\<exists>k. verify_any x preimage sigs keys = Inr k"
    if s: "s \<in> set sigs" "vouches x preimage keys s key" for s key
  proof -
    have "sigs \<noteq> []" "keys \<noteq> []"
      using s by (auto simp: vouches_def dest: candidate_Some)
    then show ?thesis using try_signatures_complete [OF s] by (simp add: verify_any_def)
  qed
  have "key \<in> set keys \<and> state_verifies x (pk_state key)" if "verify_any x preimage sigs keys = Inr key" for key
    using sound [OF that] candidate_Some by (fastforce simp: vouches_def)
  then show ?thesis using sound complete by blast
qed

definition toy_signing :: signing_ext where
  "toy_signing = ext.extend toy_ext
     \<lparr>signing_algorithm = ''ed25519'', state_verifies = (\<lambda>s. s \<noteq> Revoked), key_validate = (\<lambda>_. Inr ()),
      public_key = (\<lambda>k. Inr (pk_public_key_multibase k)), is_point = (\<lambda>_. True),
      signature_bytes = (\<lambda>s. Inr (ds_signature s)), verify_strict = (\<lambda>p m b. b = p @ m)\<rparr>"

theorem verify_any_sound_and_complete_witness:
  "\<exists>key. verify_any toy_signing ''m'' [\<lparr>ds_algorithm = ''ed25519'', ds_key_id = ''k'', ds_signature = ''pm''\<rparr>]
     [\<lparr>pk_key_id = ''k'', pk_algorithm = ''ed25519'', pk_public_key_multibase = ''p'', pk_state = Retired,
       pk_enrolled_at = None, pk_revoked_reason = None\<rparr>] = Inr key \<and> pk_state key \<noteq> Revoked"
proof -
  let ?s = "\<lparr>ds_algorithm = ''ed25519'', ds_key_id = ''k'', ds_signature = ''pm''\<rparr>"
  let ?k = "\<lparr>pk_key_id = ''k'', pk_algorithm = ''ed25519'', pk_public_key_multibase = ''p'', pk_state = Retired,
       pk_enrolled_at = None, pk_revoked_reason = None\<rparr>"
  have "vouches toy_signing ''m'' [?k] ?s ?k"
    by (simp add: vouches_def candidate_def toy_signing_def ext.defs)
  then show ?thesis
    using verify_any_sound_and_complete [of toy_signing "''m''" "[?s]" "[?k]"]
    by (auto simp: toy_signing_def ext.defs)
qed

end
