(* ===== verification/Orgs.thy ===== *)
theory Orgs
  imports AuditChain Routes
begin

section \<open>Namespace claiming (\<^verbatim>\<open>src/routes/orgs.rs\<close>)\<close>

text \<open>
  A token claims an organisation name. The slug index decides between concurrent claims; the quota
  of a scoped token is a count and an insert under an advisory lock. The distributed lock taken
  around the transaction only queues requests: its loss is logged and ignored, so it has no part
  in the model.
\<close>

record app_config =
  postgres :: bool
  max_orgs_per_token :: nat
  public_base_url :: string

record claim_response =
  cr_slug :: string
  cr_created :: bool

definition invalid_slug :: api_err where
  "invalid_slug = bad_request ''invalid_slug'' ''org slugs are lowercase letters, digits, and hyphens''"

definition org_taken :: "string \<Rightarrow> api_err" where
  "org_taken slug = conflict ''org_taken'' (''org `'' @ slug @ ''` is already claimed'')"

definition org_quota_exceeded :: "nat \<Rightarrow> nat \<Rightarrow> api_err" where
  "org_quota_exceeded claimed limit = api_err 403 ''org_quota_exceeded''
     (''this token has already claimed '' @ show_nat claimed @ '' orgs (limit '' @ show_nat limit
      @ ''); contact the registry operator'')"

definition claim_lock_key :: "('x ext_scheme) \<Rightarrow> token_row \<Rightarrow> string" where
  "claim_lock_key x token = ''zed-api:org-claim:'' @ uuid_str x (t_id token)"

definition claimed_by :: "uuid \<Rightarrow> db \<Rightarrow> nat" where
  "claimed_by tok d = length (filter (\<lambda>r. o_created_by_token r = Some tok) (orgs d))"

definition check_quota :: "app_config \<Rightarrow> token_row \<Rightarrow> unit handler" where
  "check_quota cfg token =
     (if t_org_id token = None then ret ()
      else bind_a (sql (query (claimed_by (t_id token)))) (\<lambda>claimed.
             if max_orgs_per_token cfg \<le> claimed
             then throw (org_quota_exceeded claimed (max_orgs_per_token cfg)) else ret ()))"

definition insert_org :: "string \<Rightarrow> org_row \<Rightarrow> unit handler" where
  "insert_org slug row =
     bind_a (attempt (execute (InsertOrg row))) (\<lambda>r.
       case r of
         Inl err \<Rightarrow> throw (if err = UniqueConstraintViolation then org_taken slug else from_db_err)
       | Inr _ \<Rightarrow> ret ())"

definition claim_txn ::
  "('x ext_scheme) \<Rightarrow> app_config \<Rightarrow> token_row \<Rightarrow> string \<Rightarrow> uuid handler" where
  "claim_txn x cfg token slug =
     bind_a (if postgres cfg then sql (advisory_lock (claim_lock_key x token)) else ret ()) (\<lambda>_.
     bind_a (check_quota cfg token) (\<lambda>_.
     bind_a new_v4 (\<lambda>new_org_id.
     bind_a utc_now (\<lambda>now.
     bind_a (insert_org slug \<lparr>o_id = new_org_id, o_slug = slug, o_created_at = now,
        o_created_by_token = Some (t_id token)\<rparr>) (\<lambda>_.
     bind_a (sql commit_txn) (\<lambda>_. ret new_org_id))))))"

definition claim_org_serialized ::
  "('x ext_scheme) \<Rightarrow> app_config \<Rightarrow> token_row \<Rightarrow> string \<Rightarrow> claim_response handler" where
  "claim_org_serialized x cfg token slug =
     bind_a (sql begin_txn) (\<lambda>_.
     bind_a (in_txn (claim_txn x cfg token slug)) (\<lambda>new_org_id.
     bind_a (record_audit x (postgres cfg) new_org_id token OrgClaim slug None) (\<lambda>_.
       ret \<lparr>cr_slug = slug, cr_created = True\<rparr>)))"

definition claim_org ::
  "('x ext_scheme) \<Rightarrow> app_config \<Rightarrow> headers \<Rightarrow> string \<Rightarrow> claim_response handler" where
  "claim_org x cfg headers slug =
     bind_a (require_token x headers) (\<lambda>token.
     bind_a (lift (guard_r (is_slug x slug) invalid_slug)) (\<lambda>_.
     bind_a (sql (query (org_by_slug slug))) (\<lambda>found.
       case found of
         Some existing \<Rightarrow>
           if t_org_id token = Some (o_id existing) then ret \<lparr>cr_slug = slug, cr_created = False\<rparr>
           else throw (org_taken slug)
       | None \<Rightarrow> claim_org_serialized x cfg token slug)))"

subsection \<open>The quota\<close>

text \<open>
  What the other sessions do: they keep the quota themselves, and they add organisations for this
  token only under its claim lock.
\<close>

definition quota_rely :: "string \<Rightarrow> uuid \<Rightarrow> nat \<Rightarrow> env \<Rightarrow> bool" where
  "quota_rely key tok limit e \<longleftrightarrow>
     (\<forall>t d. (claimed_by tok d \<le> limit \<longrightarrow> claimed_by tok (peer_db e t d) \<le> limit)
        \<and> (key \<notin> set (peer_locks e t) \<longrightarrow> claimed_by tok (peer_db e t d) \<le> claimed_by tok d))"

lemma quota_settle:
  assumes "quota_rely key tok limit e"
  shows "claimed_by tok (committed w) \<le> limit \<Longrightarrow> claimed_by tok (committed (settle e w)) \<le> limit"
    and "key \<in> set (held_locks w) \<Longrightarrow> claimed_by tok (committed (settle e w)) \<le> claimed_by tok (committed w)"
proof -
  show "claimed_by tok (committed w) \<le> limit \<Longrightarrow> claimed_by tok (committed (settle e w)) \<le> limit"
    using assms settle_committed [of e w] by (auto simp: quota_rely_def)
  assume held: "key \<in> set (held_locks w)"
  show "claimed_by tok (committed (settle e w)) \<le> claimed_by tok (committed w)"
  proof (cases "admits e w (peer_db e (tick w) (committed w))")
    case True
    then have "key \<notin> set (peer_locks e (tick w))"
      using held by (auto simp: admits_def list_all_iff)
    then show ?thesis using True assms by (simp add: settle_def Let_def quota_rely_def)
  qed (simp add: settle_def Let_def)
qed

fun inserts_org :: "db_write \<Rightarrow> bool" where
  "inserts_org (InsertOrg _) = True"
| "inserts_org _ = False"

lemma apply_write_orgs:
  "\<not> inserts_org wr \<Longrightarrow> apply_write wr d = Inr d' \<Longrightarrow> orgs d' = orgs d"
  by (cases wr) (auto simp: apply_write.simps bind_r_Inr_iff)

definition quota_inv :: "uuid \<Rightarrow> nat \<Rightarrow> env \<Rightarrow> world \<Rightarrow> bool" where
  "quota_inv tok limit e w \<longleftrightarrow>
     claimed_by tok (committed w) \<le> limit \<and> list_all (\<lambda>wr. \<not> inserts_org wr) (pending w)"

lemma apply_all_orgs:
  "list_all (\<lambda>wr. \<not> inserts_org wr) ws \<Longrightarrow> apply_all ws d = Inr d' \<Longrightarrow> orgs d' = orgs d"
proof (induction ws arbitrary: d)
  case (Cons wr ws)
  then obtain d1 where "apply_write wr d = Inr d1" "apply_all ws d1 = Inr d'"
    by (auto simp: bind_r_Inr_iff)
  then show ?case using Cons apply_write_orgs [of wr d d1] by simp
qed simp

lemma quota_view: "quota_inv tok limit e w \<Longrightarrow> claimed_by tok (view w) \<le> limit"
  by (auto simp: quota_inv_def view_def claimed_by_def dest: apply_all_orgs split: sum.split)

interpretation quota: world_invariant "quota_rely key tok limit" "quota_inv tok limit" for key tok limit
proof
  fix e w
  assume "quota_rely key tok limit e" "quota_inv tok limit e w"
  then show "quota_inv tok limit e (settle e w)"
    using quota_settle(1) [of key tok limit e w] by (simp add: quota_inv_def)
next
  fix e w
  assume "quota_inv tok limit e w"
  then show "quota_inv tok limit e (w\<lparr>committed := view w\<rparr>)"
    using quota_view by (auto simp: quota_inv_def)
qed (simp_all add: quota_inv_def rollback_txn_def pending_def)

lemma quota_execute [keep_rules]:
  assumes "\<not> inserts_org wr"
  shows "keeps (quota_rely key tok limit) (quota_inv tok limit) (execute wr)"
proof (rule quota.keeps_execute)
  fix e w d
  assume inv: "quota_inv tok limit e w" and app: "apply_write wr (view w) = Inr d"
  have "claimed_by tok d \<le> limit"
    using quota_view [OF inv] apply_write_orgs [OF assms app] by (simp add: claimed_by_def)
  then show "quota_inv tok limit e (store_write wr d w)"
    using inv assms by (auto simp: quota_inv_def store_write_def pending_def split: option.splits)
qed

lemma quota_require_token: "keeps (quota_rely key tok limit) (quota_inv tok limit) (require_token x h)"
  unfolding require_token_def by (intro keep_rules)

lemma quota_record_audit:
  "keeps (quota_rely key tok limit) (quota_inv tok limit) (record_audit x pg org token action subject detail)"
  by (intro quota.keeps_record_audit quota_execute) simp

lemma insert_org_commit_quota:
  assumes rely: "quota_rely key tok limit e"
    and w: "txn w = Some []" "key \<in> set (held_locks w)" "claimed_by tok (committed w) < limit"
  shows "claimed_by tok (committed (snd (bind_a (insert_org slug row)
      (\<lambda>_. bind_a (sql commit_txn) (\<lambda>_. ret i)) e w))) \<le> limit"
proof -
  let ?w1 = "settle e w"
  have c1: "claimed_by tok (committed ?w1) < limit"
    using quota_settle(2) [OF rely w(2)] w(3) by simp
  obtain s w2 where s: "execute (InsertOrg row) e w = (s, w2)" by fastforce
  then have w2: "committed w2 = committed ?w1" "held_locks w2 = held_locks w"
      "s = Inr d \<Longrightarrow> txn w2 = Some [InsertOrg row]" for d
    using w(1) by (auto simp: execute_def Let_def store_write_def split: if_splits sum.splits)
  let ?w3 = "settle e w2"
  have c3: "claimed_by tok (committed ?w3) < limit"
    using quota_settle(2) [OF rely, of w2] w(2) w2(1,2) c1 by simp
  have "claimed_by tok (view ?w3) \<le> limit" if "txn w2 = Some [InsertOrg row]"
  proof (cases "apply_write (InsertOrg row) (committed ?w3)")
    case (Inl err)
    then show ?thesis using c3 that by (simp add: view_def pending_def)
  next
    case (Inr d)
    then have "orgs d = orgs (committed ?w3) @ [row]" by (simp add: apply_insert_iff)
    then show ?thesis using c3 that Inr by (simp add: view_def pending_def claimed_by_def)
  qed
  with c1 c3 w2 s show ?thesis
    by (cases s) (auto simp: insert_org_def bind_a_def attempt_def sql_def map_err_def commit_txn_def
        Let_def rollback_txn_def)
qed

lemma claim_txn_quota:
  assumes rely: "quota_rely (claim_lock_key x token) (t_id token) (max_orgs_per_token cfg) e"
    and cfg: "postgres cfg" and scoped: "t_org_id token \<noteq> None"
    and w: "txn w = Some []" "claimed_by (t_id token) (committed w) \<le> max_orgs_per_token cfg"
  shows "claimed_by (t_id token) (committed (snd (claim_txn x cfg token slug e w))) \<le> max_orgs_per_token cfg"
proof -
  let ?key = "claim_lock_key x token" and ?tok = "t_id token" and ?k = "max_orgs_per_token cfg"
  let ?w1 = "settle e w"
  let ?w2 = "?w1\<lparr>held_locks := ?key # held_locks ?w1\<rparr>"
  have c1: "claimed_by ?tok (committed ?w1) \<le> ?k" using quota_settle(1) [OF rely w(2)] .
  let ?w3 = "settle e ?w2"
  have c3: "claimed_by ?tok (committed ?w3) \<le> ?k" using quota_settle(1) [OF rely, of ?w2] c1 by simp
  have v3: "view ?w3 = committed ?w3" using w(1) by (simp add: view_def pending_def)
  define w4 where "w4 = ?w3\<lparr>tick := Suc (Suc (tick ?w3))\<rparr>"
  define row where "row = \<lparr>o_id = uuid_at e (tick ?w3), o_slug = slug,
    o_created_at = clock_at e (Suc (tick ?w3)), o_created_by_token = Some ?tok\<rparr>"
  have ins: "claimed_by ?tok (committed (snd (bind_a (insert_org slug row)
      (\<lambda>_. bind_a (sql commit_txn) (\<lambda>_. ret (uuid_at e (tick ?w3)))) e w4))) \<le> ?k"
    if "claimed_by ?tok (committed ?w3) < ?k"
    using that w(1) by (intro insert_org_commit_quota [OF rely]) (simp_all add: w4_def)
  have run: "claim_txn x cfg token slug e w =
      (if outcome_at e (tick w) \<noteq> Served then (Inl from_db_err, ?w1)
       else if outcome_at e (Suc (tick w)) \<noteq> Served then (Inl from_db_err, ?w3)
       else if ?k \<le> claimed_by ?tok (committed ?w3)
       then (Inl (org_quota_exceeded (claimed_by ?tok (committed ?w3)) ?k), ?w3)
       else bind_a (insert_org slug row) (\<lambda>_. bind_a (sql commit_txn) (\<lambda>_. ret (uuid_at e (tick ?w3)))) e w4)"
    using cfg scoped v3
    by (auto simp: claim_txn_def check_quota_def bind_steps bind_assoc bind_if w4_def row_def)
  show ?thesis using c1 c3 ins by (simp add: run)
qed

lemma ends_txn_sql: "ends_txn m \<Longrightarrow> ends_txn (sql m)"
  by (auto simp: ends_txn_def)

lemma ends_txn_bind_ret: "ends_txn m \<Longrightarrow> ends_txn (bind_a m (\<lambda>a. ret (f a)))"
  by (auto simp: ends_txn_def bind_a_Inr_iff)

lemma claim_txn_ends: "ends_txn (claim_txn x cfg token slug)"
  unfolding claim_txn_def by (intro ends_txn_bind ends_txn_bind_ret ends_txn_sql ends_txn_commit)

lemma claim_serialized_quota:
  assumes rely: "quota_rely (claim_lock_key x token) (t_id token) (max_orgs_per_token cfg) e"
    and cfg: "postgres cfg" and scoped: "t_org_id token \<noteq> None"
    and w: "claimed_by (t_id token) (committed w) \<le> max_orgs_per_token cfg"
  shows "claimed_by (t_id token) (committed (snd (claim_org_serialized x cfg token slug e w)))
    \<le> max_orgs_per_token cfg"
proof -
  let ?k = "max_orgs_per_token cfg" and ?tok = "t_id token"
  let ?w1 = "(settle e w)\<lparr>txn := Some []\<rparr>"
  obtain r w2 where r: "in_txn (claim_txn x cfg token slug) e ?w1 = (r, w2)" by fastforce
  have c1: "claimed_by ?tok (committed ?w1) \<le> ?k" using quota_settle(1) [OF rely w] by simp
  then have "claimed_by ?tok (committed w2) \<le> ?k"
    using claim_txn_quota [OF rely cfg scoped _ c1, of slug]
      in_txn_committed [of "claim_txn x cfg token slug" e ?w1] r by simp
  moreover have "txn w2 = None" using ends_txn_in_txn [OF claim_txn_ends] r by (metis snd_conv)
  ultimately have inv: "quota_inv ?tok ?k e w2" by (simp add: quota_inv_def pending_def)
  have "quota_inv ?tok ?k e (snd (record_audit x (postgres cfg) i token OrgClaim slug None e w2))" for i
    by (rule keeps_snd [OF quota_record_audit rely inv])
  then have "claimed_by ?tok (committed (snd (record_audit x (postgres cfg) i token OrgClaim slug None e w2))) \<le> ?k" for i
    by (simp add: quota_inv_def)
  then show ?thesis
    using r c1 inv
    by (auto simp: claim_org_serialized_def bind_steps bind_a_def [of "in_txn _"] snd_bind_ret quota_inv_def
        split: sum.split)
qed

text \<open>C17. The squatting quota holds under concurrency: on PostgreSQL, when every session adds
  organisations for a scoped token only under that token's claim lock, a claim never takes the
  token above its limit, whichever statements interleave or fail.\<close>

theorem claim_org_respects_quota:
  assumes "postgres cfg" and "fst (require_token x headers e w) = Inr token" and "t_org_id token \<noteq> None"
    and "quota_rely (claim_lock_key x token) (t_id token) (max_orgs_per_token cfg) e" and "txn w = None"
    and "claimed_by (t_id token) (committed w) \<le> max_orgs_per_token cfg"
  shows "claimed_by (t_id token) (committed (snd (claim_org x cfg headers slug e w))) \<le> max_orgs_per_token cfg"
proof -
  let ?k = "max_orgs_per_token cfg" and ?tok = "t_id token"
  obtain w1 where tok: "require_token x headers e w = (Inr token, w1)"
    using assms(2) by (metis prod.collapse)
  have "quota_inv ?tok ?k e w" using assms(5,6) by (simp add: quota_inv_def pending_def)
  then have "quota_inv ?tok ?k e w1" using keepsD [OF quota_require_token assms(4) _ tok] by blast
  then have c1: "claimed_by ?tok (committed w1) \<le> ?k" by (simp add: quota_inv_def)
  then have c2: "claimed_by ?tok (committed (settle e w1)) \<le> ?k" using quota_settle(1) [OF assms(4)] by blast
  then show ?thesis
    using c1 claim_serialized_quota [OF assms(4,1,3) c2, of slug]
    by (auto simp: claim_org_def bind_a_def [of "require_token _ _"] tok bind_steps guard_r_def split: option.split)
qed

subsection \<open>A successful claim\<close>

definition keeps_orgs :: "env \<Rightarrow> bool" where
  "keeps_orgs e \<longleftrightarrow> (\<forall>t d. set (orgs d) \<subseteq> set (orgs (peer_db e t d)))"

definition has_row :: "org_row \<Rightarrow> env \<Rightarrow> world \<Rightarrow> bool" where
  "has_row row e w \<longleftrightarrow> row \<in> set (orgs (committed w))"

lemma apply_write_orgs_mono: "apply_write wr d = Inr d' \<Longrightarrow> set (orgs d) \<subseteq> set (orgs d')"
  by (cases wr) (auto simp: apply_write.simps bind_r_Inr_iff insert_row_Inr_iff)

lemma apply_all_orgs_mono: "apply_all ws d = Inr d' \<Longrightarrow> set (orgs d) \<subseteq> set (orgs d')"
proof (induction ws arbitrary: d)
  case (Cons wr ws)
  then obtain d1 where "apply_write wr d = Inr d1" "apply_all ws d1 = Inr d'"
    by (auto simp: bind_r_Inr_iff)
  then show ?case using Cons.IH [of d1] apply_write_orgs_mono [of wr d d1] by blast
qed simp

lemma view_orgs_mono: "set (orgs (committed w)) \<subseteq> set (orgs (view w))"
  using apply_all_orgs_mono [of "pending w" "committed w"] by (simp add: view_def split: sum.split)

interpretation org_stays: world_invariant keeps_orgs "has_row row" for row
proof
  fix e w
  assume "keeps_orgs e" "has_row row e w"
  then show "has_row row e (settle e w)"
    using settle_committed [of e w] unfolding has_row_def keeps_orgs_def by (metis subsetD)
next
  fix e w
  assume "has_row row e w"
  then show "has_row row e (w\<lparr>committed := view w\<rparr>)"
    using view_orgs_mono by (auto simp: has_row_def)
qed (simp_all add: has_row_def rollback_txn_def)

lemma org_stays_execute [keep_rules]: "keeps keeps_orgs (has_row row) (execute wr)"
proof (rule org_stays.keeps_execute)
  fix e w d
  assume "has_row row e w" "apply_write wr (view w) = Inr d"
  then show "has_row row e (store_write wr d w)"
    using view_orgs_mono [of w] apply_write_orgs_mono [of wr "view w" d]
    unfolding has_row_def store_write_def by (cases "txn w") auto
qed

lemma check_quota_txn: "check_quota cfg token e w = (Inr u, w') \<Longrightarrow> txn w' = txn w"
  by (auto simp: check_quota_def bind_a_Inr_iff query_Inr_iff split: if_splits)

lemma advisory_lock_txn: "advisory_lock k e w = (Inr u, w') \<Longrightarrow> txn w' = txn w"
  by (auto simp: advisory_lock_def Let_def split: if_splits)

lemma claim_txn_row:
  assumes "txn w = Some []" "claim_txn x cfg token slug e w = (Inr i, w')"
  shows "\<exists>row \<in> set (orgs (committed w')). o_id row = i \<and> o_slug row = slug
    \<and> o_created_by_token row = Some (t_id token)"
proof -
  obtain w1 w2 now where w1: "txn w1 = Some []"
    and ins: "insert_org slug \<lparr>o_id = i, o_slug = slug, o_created_at = now,
        o_created_by_token = Some (t_id token)\<rparr> e w1 = (Inr (), w2)"
    and com: "commit_txn e w2 = (Inr (), w')"
  proof -
    obtain w0 w1 u where l: "(if postgres cfg then sql (advisory_lock (claim_lock_key x token)) else ret ()) e w
          = (Inr (), w0)"
      and q: "check_quota cfg token e w0 = (Inr u, w1)"
      and t: "bind_a new_v4 (\<lambda>new_org_id. bind_a utc_now (\<lambda>now.
        bind_a (insert_org slug \<lparr>o_id = new_org_id, o_slug = slug, o_created_at = now,
          o_created_by_token = Some (t_id token)\<rparr>) (\<lambda>_.
        bind_a (sql commit_txn) (\<lambda>_. ret new_org_id)))) e w1 = (Inr i, w')"
      using assms(2) unfolding claim_txn_def bind_a_Inr_iff by auto
    have "txn w0 = Some []"
      using l assms(1) by (cases "postgres cfg") (auto dest: advisory_lock_txn)
    then have "txn w1 = Some []" using check_quota_txn [OF q] by simp
    then show thesis
      using that [of "w1\<lparr>tick := Suc (Suc (tick w1))\<rparr>"] t by (auto simp: bind_steps bind_a_Inr_iff)
  qed
  define row where "row = \<lparr>o_id = i, o_slug = slug, o_created_at = now, o_created_by_token = Some (t_id token)\<rparr>"
  obtain d where ex: "execute (InsertOrg row) e w1 = (Inr d, w2)"
    using ins by (auto simp: insert_org_def row_def bind_a_Inr_iff attempt_def split: prod.splits sum.splits)
  have "appliable w1" using w1 by (simp add: appliable_def pending_def)
  from execute_in_txn [OF w1 this ex] have "appliable w2" "txn w2 = Some [InsertOrg row]" by auto
  then have "apply_write (InsertOrg row) (committed (settle e w2)) = Inr (committed w')"
    using commit_effect [OF _ com] by (simp add: pending_def bind_r_Inr_iff)
  then have "row \<in> set (orgs (committed w'))" by (simp add: apply_insert_iff)
  then show ?thesis by (rule bexI [rotated]) (simp add: row_def)
qed

text \<open>A claim that reports success has committed an organisation row with that slug, recorded as
  created by the claiming token, and it is the only organisation with that slug; the row stays
  there while the claim writes its audit entry.\<close>

theorem claim_org_creates:
  assumes "claim_org x cfg headers slug e w = (Inr r, w')" and "cr_created r"
    and "keeps_orgs e" and "schema_rely e" and "schema_ok (committed w)" and "txn w = None"
  shows "\<exists>token row. fst (require_token x headers e w) = Inr token \<and> is_slug x slug
    \<and> row \<in> set (orgs (committed w')) \<and> o_slug row = slug \<and> o_created_by_token row = Some (t_id token)
    \<and> (\<forall>other \<in> set (orgs (committed w')). o_slug other = slug \<longrightarrow> other = row)"
proof -
  obtain token w1 where tok: "require_token x headers e w = (Inr token, w1)" and sl: "is_slug x slug"
    and ser: "claim_org_serialized x cfg token slug e (settle e w1) = (Inr r, w')"
    using assms(1,2)
    by (auto simp: claim_org_def bind_a_Inr_iff query_Inr_iff split: option.splits if_splits)
  obtain i w2 where cl: "in_txn (claim_txn x cfg token slug) e
        ((settle e (settle e w1))\<lparr>txn := Some []\<rparr>) = (Inr i, w2)"
    and rec: "snd (record_audit x (postgres cfg) i token OrgClaim slug None e w2) = w'"
    using ser
    by (auto simp: claim_org_serialized_def bind_steps bind_a_Inr_iff split: if_splits)
  then have "claim_txn x cfg token slug e ((settle e (settle e w1))\<lparr>txn := Some []\<rparr>) = (Inr i, w2)"
    by (auto simp: in_txn_def split: prod.splits sum.splits)
  from claim_txn_row [OF _ this] obtain row where row: "row \<in> set (orgs (committed w2))" "o_slug row = slug"
      "o_created_by_token row = Some (t_id token)" by auto
  have "has_row row e w'"
    using keeps_snd [OF org_stays.keeps_record_audit [OF org_stays_execute] assms(3)] row(1) rec
    by (metis has_row_def)
  then have in': "row \<in> set (orgs (committed w'))" by (simp add: has_row_def)
  have kept: "keeps schema_rely schema_inv (claim_org x cfg headers slug)"
    unfolding claim_org_def claim_org_serialized_def claim_txn_def check_quota_def insert_org_def
    by (intro keep_rules schema.keeps_record_audit)
  have "schema_ok (committed w')"
    using keepsD [OF kept assms(4) _ assms(1)] assms(5) by (simp add: schema_inv_def)
  then have uniq: "other = row" if "other \<in> set (orgs (committed w'))" "o_slug other = slug" for other
    using org_table.keyed_unique [of "orgs (committed w')" other row] that in' row(2)
    by (simp add: schema_ok_def org_clash_def)
  show ?thesis
  proof (intro exI conjI)
    show "fst (require_token x headers e w) = Inr token" using tok by simp
    show "\<forall>other \<in> set (orgs (committed w')). o_slug other = slug \<longrightarrow> other = row" using uniq by blast
  qed (rule sl in' row)+
qed

subsection \<open>Examples\<close>

definition cfg_1 :: app_config where
  "cfg_1 = \<lparr>postgres = True, max_orgs_per_token = 1, public_base_url = ''https://r''\<rparr>"

definition hdr_1 :: headers where
  "hdr_1 = [(''authorization'', ''Bearer zpkg_1'')]"

lemma token_1_run: "require_token toy_ext hdr_1 calm (start db_1) = (Inr token_1, (start db_1)\<lparr>tick := 2\<rparr>)"
  by (simp add: require_token_def hdr_1_def bearer_example run_simps find_token_by_hash_def hash_token_def
      db_1_def token_1_def toy_ext_def)

lemma calm_quota_rely: "quota_rely key tok limit calm"
  by (simp add: quota_rely_def)

theorem claim_org_respects_quota_witness:
  "claimed_by 1 (committed (snd (claim_org toy_ext cfg_1 hdr_1 ''beta'' calm (start db_1)))) \<le> 1"
  using claim_org_respects_quota [of cfg_1 toy_ext hdr_1 calm "start db_1" token_1 "''beta''"]
    token_1_run calm_quota_rely
  by (simp add: cfg_1_def token_1_def claimed_by_def db_1_def)

lemma claim_run:
  "\<exists>r w'. claim_org toy_ext cfg_1 hdr_1 ''beta'' calm (start db_1) = (Inr r, w') \<and> cr_created r"
proof -
  have "\<exists>i w2. in_txn (claim_txn toy_ext cfg_1 token_1 ''beta'') calm
      ((start db_1)\<lparr>tick := 4, txn := Some []\<rparr>) = (Inr i, w2)"
    by (simp add: claim_txn_def check_quota_def insert_org_def run_simps cfg_1_def token_1_def db_1_def
        claimed_by_def has_token_def org_clash_def)
  then obtain i w2 where cl: "in_txn (claim_txn toy_ext cfg_1 token_1 ''beta'') calm
      ((start db_1)\<lparr>tick := 4, txn := Some []\<rparr>) = (Inr i, w2)" by blast
  obtain w3 where "record_audit toy_ext (postgres cfg_1) i token_1 OrgClaim ''beta'' None calm w2 = (Inr (), w3)"
    using record_audit_total by blast
  then show ?thesis
    by (simp add: claim_org_def bind_a_def token_1_run toy_ext_def [THEN arg_cong, of is_slug]
        sql_def map_err_def query_def calm_settle Let_def org_by_slug_def db_1_def [THEN arg_cong, of orgs]
        claim_org_serialized_def begin_txn_def cl)
qed

theorem claim_org_creates_witness:
  "\<exists>r w' row. claim_org toy_ext cfg_1 hdr_1 ''beta'' calm (start db_1) = (Inr r, w')
     \<and> row \<in> set (orgs (committed w')) \<and> o_slug row = ''beta''"
proof -
  obtain r w' where run: "claim_org toy_ext cfg_1 hdr_1 ''beta'' calm (start db_1) = (Inr r, w')" "cr_created r"
    using claim_run by blast
  have "keeps_orgs calm" by (simp add: keeps_orgs_def)
  from claim_org_creates [OF run this calm_schema_rely] db_1_schema_ok run show ?thesis by auto
qed

end
