(* ===== verification/Yank.thy ===== *)
theory Yank
  imports Orgs
begin

section \<open>Yanking versions (\<^verbatim>\<open>src/routes/yank.rs\<close>)\<close>

text \<open>
  A token with publish authority sets or clears the \<open>yanked\<close> flag of one version. Published
  versions are otherwise immutable: \<open>frozen\<close> says that a version row is still there with the
  same contents up to that flag, and is an invariant of every write the server issues.
\<close>

record yank_response =
  yr_org :: string
  yr_name :: string
  yr_version :: string
  yr_yanked :: bool

definition version_subject :: "string \<Rightarrow> string \<Rightarrow> string \<Rightarrow> string" where
  "version_subject org_slug name ver = org_slug @ ''/'' @ name @ ''@'' @ ver"

definition yank ::
  "('x ext_scheme) \<Rightarrow> app_config \<Rightarrow> string \<Rightarrow> string \<Rightarrow> string \<Rightarrow> headers \<Rightarrow> bool \<Rightarrow> yank_response handler" where
  "yank x cfg org_slug name ver headers yanked =
     bind_a (require_token x headers) (\<lambda>token.
     bind_a (find_org org_slug) (\<lambda>org_row.
     bind_a (lift (authorize_publish (t_org_id token) (parse (t_role token)) (o_id org_row))) (\<lambda>_.
     bind_a (find_package org_row name) (\<lambda>pkg.
     bind_a (find_version pkg ver) (\<lambda>row.
     bind_a (sql (execute (SetVersionYanked (v_id row) yanked))) (\<lambda>_.
     bind_a (record_audit x (postgres cfg) (o_id org_row) token (if yanked then Yank else Unyank)
       (version_subject org_slug name ver) None) (\<lambda>_.
       ret \<lparr>yr_org = org_slug, yr_name = name, yr_version = ver, yr_yanked = yanked\<rparr>)))))))"

subsection \<open>Immutability of published versions\<close>

definition frozen :: "version_row \<Rightarrow> env \<Rightarrow> world \<Rightarrow> bool" where
  "frozen v e w \<longleftrightarrow> (\<exists>r\<in>set (versions (committed w)). r\<lparr>v_yanked := v_yanked v\<rparr> = v)"

definition version_kept :: "version_row \<Rightarrow> db \<Rightarrow> bool" where
  "version_kept v d \<longleftrightarrow> (\<exists>r\<in>set (versions d). r\<lparr>v_yanked := v_yanked v\<rparr> = v)"

definition frozen_rely :: "env \<Rightarrow> bool" where
  "frozen_rely e \<longleftrightarrow> (\<forall>t d v. version_kept v d \<longrightarrow> version_kept v (peer_db e t d))"

lemma apply_write_version_kept:
  assumes "version_kept v d" "apply_write wr d = Inr d'"
  shows "version_kept v d'"
proof (cases "\<exists>i b. wr = SetVersionYanked i b")
  case True
  then obtain i b where wr: "wr = SetVersionYanked i b" by blast
  obtain r where r: "r \<in> set (versions d)" "r\<lparr>v_yanked := v_yanked v\<rparr> = v"
    using assms(1) by (auto simp: version_kept_def)
  let ?r = "if v_id r = i then r\<lparr>v_yanked := b\<rparr> else r"
  have "?r \<in> set (versions d')" using assms(2) wr r(1) by (auto simp: apply_update_iff)
  moreover have "?r\<lparr>v_yanked := v_yanked v\<rparr> = v" using r(2) by auto
  ultimately show ?thesis unfolding version_kept_def by blast
next
  case False
  then have "set (versions d) \<subseteq> set (versions d')"
    using assms(2) by (cases wr) (auto simp: apply_write.simps bind_r_Inr_iff insert_row_Inr_iff)
  then show ?thesis using assms(1) unfolding version_kept_def by blast
qed

lemma apply_all_version_kept: "version_kept v d \<Longrightarrow> apply_all ws d = Inr d' \<Longrightarrow> version_kept v d'"
  by (induction ws arbitrary: d) (auto simp: bind_r_Inr_iff dest: apply_write_version_kept)

lemma view_version_kept: "version_kept v (committed w) \<Longrightarrow> version_kept v (view w)"
  by (auto simp: view_def dest: apply_all_version_kept split: sum.split)

lemma frozen_iff: "frozen v e w \<longleftrightarrow> version_kept v (committed w)"
  by (simp add: frozen_def version_kept_def)

interpretation immutable: world_invariant frozen_rely "frozen v" for v
proof
  fix e w
  assume "frozen_rely e" "frozen v e w"
  then show "frozen v e (settle e w)"
    using settle_committed [of e w] unfolding frozen_iff frozen_rely_def by metis
next
  fix e w
  assume "frozen v e w"
  then show "frozen v e (w\<lparr>committed := view w\<rparr>)"
    using view_version_kept by (simp add: frozen_iff)
qed (simp_all add: frozen_iff rollback_txn_def)

lemma immutable_execute [keep_rules]: "keeps frozen_rely (frozen v) (execute wr)"
proof (rule immutable.keeps_execute)
  fix e w d
  assume "frozen v e w" "apply_write wr (view w) = Inr d"
  then show "frozen v e (store_write wr d w)"
    using view_version_kept apply_write_version_kept
    by (auto simp: frozen_iff store_write_def split: option.split)
qed

lemma immutable_record_audit [keep_rules]:
  "keeps frozen_rely (frozen v) (record_audit x pg org token action subject detail)"
  by (intro immutable.keeps_record_audit immutable_execute)

lemma immutable_require_token [keep_rules]: "keeps frozen_rely (frozen v) (require_token x h)"
  unfolding require_token_def by (intro keep_rules)

lemma immutable_yank [keep_rules]: "keeps frozen_rely (frozen v) (yank x cfg org name ver headers yanked)"
  unfolding yank_def find_org_def find_package_def find_version_def by (intro keep_rules)

lemma schema_yank [keep_rules]: "keeps schema_rely schema_inv (yank x cfg org name ver headers yanked)"
  unfolding yank_def by (intro keep_rules schema.keeps_record_audit)

lemma chain_yank:
  assumes "digest_ok x"
  shows "keeps (audit_rely x) (chain_inv x) (yank x cfg org name ver headers yanked)"
  unfolding yank_def find_org_def find_package_def find_version_def require_token_def
  by (intro keep_rules assms) simp_all

subsection \<open>What a yank does\<close>

definition leaves_versions :: "env \<Rightarrow> bool" where
  "leaves_versions e \<longleftrightarrow> (\<forall>t d. versions (peer_db e t d) = versions d)"

definition versions_are :: "version_row list \<Rightarrow> env \<Rightarrow> world \<Rightarrow> bool" where
  "versions_are vs e w \<longleftrightarrow> versions (committed w) = vs \<and> list_all (\<lambda>wr. touches_log wr) (pending w)"

lemma log_write_versions:
  "touches_log wr \<Longrightarrow> apply_write wr d = Inr d' \<Longrightarrow> versions d' = versions d"
  by (cases wr) (auto simp: apply_insert_iff)

lemma log_writes_versions:
  "list_all touches_log ws \<Longrightarrow> apply_all ws d = Inr d' \<Longrightarrow> versions d' = versions d"
proof (induction ws arbitrary: d)
  case (Cons wr ws)
  then obtain d1 where "apply_write wr d = Inr d1" "apply_all ws d1 = Inr d'" by (auto simp: bind_r_Inr_iff)
  then show ?case using Cons log_write_versions [of wr d d1] by simp
qed simp

lemma versions_view: "versions_are vs e w \<Longrightarrow> versions (view w) = vs"
  by (auto simp: versions_are_def view_def dest: log_writes_versions split: sum.split)

interpretation quiet: world_invariant leaves_versions "versions_are vs" for vs
proof
  fix e w
  assume "leaves_versions e" "versions_are vs e w"
  then show "versions_are vs e (settle e w)"
    using settle_committed [of e w] by (auto simp: versions_are_def leaves_versions_def)
next
  fix e w
  assume "versions_are vs e w"
  then show "versions_are vs e (w\<lparr>committed := view w\<rparr>)"
    using versions_view by (simp add: versions_are_def)
qed (simp_all add: versions_are_def rollback_txn_def pending_def)

lemma quiet_record_audit:
  "keeps leaves_versions (versions_are vs) (record_audit x pg org token action subject detail)"
proof (intro quiet.keeps_record_audit quiet.keeps_execute)
  fix r e w d
  assume "versions_are vs e w" "apply_write (InsertAudit r) (view w) = Inr d"
  then show "versions_are vs e (store_write (InsertAudit r) d w)"
    using versions_view log_write_versions [of "InsertAudit r" "view w" d]
    by (auto simp: versions_are_def store_write_def pending_def split: option.splits)
qed

lemma quiet_settle: "leaves_versions e \<Longrightarrow> versions (committed (settle e w)) = versions (committed w)"
  using settle_committed [of e w] by (auto simp: leaves_versions_def)

lemma quiet_require_token: "keeps leaves_versions (versions_are vs) (require_token x h)"
  unfolding require_token_def by (intro keep_rules)

text \<open>C27. A successful yank is authorised (an admin token, or an owner or publisher token of the organisation
  that has the slug of the URL in the organisation table as the request read it), and when no other
  session changes versions meanwhile its effect on the version table is exactly to set the flag of the one
  version of that number, of the package of that name and that organisation in the package table as the
  request read it.\<close>

theorem yank_effect:
  assumes "yank x cfg org_slug name ver headers yanked e w = (Inr resp, w')"
    and "leaves_versions e" and "txn w = None"
  shows "yr_yanked resp = yanked
    \<and> (\<exists>token (org_row :: org_row) (pkg :: package_row) row. fst (require_token x headers e w) = Inr token
        \<and> org_row \<in> set (orgs (read_after (require_token x headers) e w)) \<and> o_slug org_row = org_slug
        \<and> (t_org_id token = None
           \<or> t_org_id token = Some (o_id org_row) \<and> parse (t_role token) \<in> {Owner, Publisher})
        \<and> pkg \<in> set (packages (read_after (locate_org x headers org_slug) e w))
        \<and> p_org_id pkg = o_id org_row \<and> p_name pkg = name
        \<and> row \<in> set (versions (committed w)) \<and> v_package_id row = p_id pkg \<and> v_version row = ver
        \<and> versions (committed w') =
            map (\<lambda>r. if v_id r = v_id row then r\<lparr>v_yanked := yanked\<rparr> else r) (versions (committed w)))"
proof -
  obtain token w1 org_row w2 pkg w3 row w4 d w5 u where
    tok: "require_token x headers e w = (Inr token, w1)"
    and org: "find_org org_slug e w1 = (Inr org_row, w2)"
    and auth: "authorize_publish (t_org_id token) (parse (t_role token)) (o_id org_row) = Inr ()"
    and pkg: "find_package org_row name e w2 = (Inr pkg, w3)"
    and ver: "find_version pkg ver e w3 = (Inr row, w4)"
    and upd: "execute (SetVersionYanked (v_id row) yanked) e w4 = (Inr d, w5)"
    and rec: "record_audit x (postgres cfg) (o_id org_row) token (if yanked then Yank else Unyank)
        (version_subject org_slug name ver) None e w5 = (Inr u, w')"
    and resp: "yr_yanked resp = yanked"
    using assms(1) by (auto simp: yank_def bind_a_Inr_iff)
  have t1: "txn w1 = None" using require_token_txn [of x headers e w] tok assms(3) by simp
  have v1: "versions (committed w1) = versions (committed w)"
    using keepsD [OF quiet_require_token assms(2) _ tok, of "versions (committed w)"] assms(3)
    by (simp add: versions_are_def pending_def)
  note o2 = find_org_Inr [OF org] and p3 = find_package_Inr [OF pkg] and r4 = find_version_Inr [OF ver]
  have t4: "txn w4 = None" using t1 o2 p3 r4 by simp
  have v4: "versions (committed w4) = versions (committed w)"
    using v1 o2 p3 r4 quiet_settle [OF assms(2)] by simp
  have row: "row \<in> set (versions (committed w))"
    using r4 t4 v4 by (metis settle_sel(1) view_autocommit)
  have "txn w5 = None" and "apply_write (SetVersionYanked (v_id row) yanked) (committed (settle e w4)) = Inr (committed w5)"
    using execute_autocommit [OF t4 upd] by auto
  then have v5: "versions (committed w5) =
      map (\<lambda>r. if v_id r = v_id row then r\<lparr>v_yanked := yanked\<rparr> else r) (versions (committed w))"
    using quiet_settle [OF assms(2), of w4] v4 by (simp add: apply_update_iff)
  have "versions (committed w') = versions (committed w5)"
    using keepsD [OF quiet_record_audit assms(2) _ rec, of "versions (committed w5)"] \<open>txn w5 = None\<close>
    by (simp add: versions_are_def pending_def)
  moreover have "t_org_id token = None
      \<or> t_org_id token = Some (o_id org_row) \<and> parse (t_role token) \<in> {Owner, Publisher}"
    using auth by (cases "parse (t_role token)") (auto simp: authorize_publish_def split: option.splits if_splits)
  ultimately show ?thesis
    using resp tok located(1) [OF tok org] located(2) [OF tok org pkg] r4 row v5
    by (intro conjI exI [of _ token] exI [of _ org_row] exI [of _ pkg] exI [of _ row]) auto
qed

definition pkg_1 :: package_row where
  "pkg_1 = \<lparr>p_id = 21, p_org_id = 7, p_name = ''kit'', p_description = None, p_vcs = ''git'',
     p_repo_url = ''u'', p_version_scheme = ''semver'', p_tags = JArray [], p_created_at = 0,
     p_index_sequence = 2, p_signed_index = None\<rparr>"

definition ver_1 :: version_row where
  "ver_1 = \<lparr>v_id = 31, v_package_id = 21, v_version = ''1.0.0'', v_sha256 = ''a'', v_size = 1,
     v_format = ''tgz'', v_vcs_tag = ''v1'', v_vcs_commit = None, v_artifact_key = ''k'', v_yanked = False,
     v_published_at = 0, v_mirrors = JArray [], v_signatures = JArray []\<rparr>"

definition db_3 :: db where
  "db_3 = db_1\<lparr>packages := [pkg_1], versions := [ver_1]\<rparr>"

lemma db_3_sel [simp]:
  "tokens db_3 = [token_1]" "packages db_3 = [pkg_1]" "versions db_3 = [ver_1]" "audit_log db_3 = []"
  "orgs db_3 = [\<lparr>o_id = 7, o_slug = ''acme'', o_created_at = 0, o_created_by_token = None\<rparr>]"
  by (simp_all add: db_3_def db_1_def empty_db_def)

lemma token_3_run: "require_token toy_ext hdr_1 calm (start db_3) = (Inr token_1, (start db_3)\<lparr>tick := 2\<rparr>)"
  by (simp add: require_token_def hdr_1_def bearer_example run_simps find_token_by_hash_def hash_token_def
      token_1_def toy_ext_def)

lemma yank_run:
  "\<exists>resp w'. yank toy_ext cfg_1 ''acme'' ''kit'' ''1.0.0'' hdr_1 True calm (start db_3) = (Inr resp, w')"
proof -
  have "authorize_publish (t_org_id token_1) (parse (t_role token_1)) 7 = Inr ()"
    by (simp add: token_1_def authorize_publish_def parse_def)
  then show ?thesis
    using record_audit_total [of toy_ext "postgres cfg_1" 7 token_1 Yank "version_subject ''acme'' ''kit'' ''1.0.0''"
        None calm "(start db_3)\<lparr>tick := 6, committed := db_3\<lparr>versions := [ver_1\<lparr>v_yanked := True\<rparr>]\<rparr>\<rparr>"]
    by (auto simp: yank_def bind_a_def token_3_run find_org_def find_package_def find_version_def
        sql_def map_err_def query_def execute_def calm_settle Let_def org_by_slug_def package_by_name_def
        version_by_name_def pkg_1_def ver_1_def apply_write.simps update_row_def store_write_def)
qed

theorem yank_effect_witness:
  "\<exists>resp w'. yank toy_ext cfg_1 ''acme'' ''kit'' ''1.0.0'' hdr_1 True calm (start db_3) = (Inr resp, w')
     \<and> versions (committed w') = [ver_1\<lparr>v_yanked := True\<rparr>]"
proof -
  obtain resp w' where run: "yank toy_ext cfg_1 ''acme'' ''kit'' ''1.0.0'' hdr_1 True calm (start db_3) = (Inr resp, w')"
    using yank_run by blast
  have "leaves_versions calm" by (simp add: leaves_versions_def)
  from yank_effect [OF run this] run show ?thesis by auto
qed

end
