(* ===== verification/Keys.thy ===== *)
theory Keys
  imports Signing Yank
begin

section \<open>Publisher keys (\<^verbatim>\<open>src/routes/keys.rs\<close>)\<close>

text \<open>
  An organisation's signing keys: anyone reads them, an owner replaces the whole set. Three
  transitions are refused (dropping a key, rebinding its id to other key material, reinstating a
  revoked key) before the set is written in one transaction.
\<close>

definition MAX_KEYS_PER_ORG :: nat where
  "MAX_KEYS_PER_ORG = 8"

fun publisher_key_state_str :: "key_state \<Rightarrow> string" where
  "publisher_key_state_str Active = ''active''"
| "publisher_key_state_str Retired = ''retired''"
| "publisher_key_state_str Revoked = ''revoked''"

definition row_state :: "string \<Rightarrow> key_state" where
  "row_state s = (if s = ''active'' then Active else if s = ''retired'' then Retired else Revoked)"

definition row_to_key :: "('x ext_scheme) \<Rightarrow> key_row \<Rightarrow> publisher_key" where
  "row_to_key x row =
     \<lparr>pk_key_id = k_key_id row, pk_algorithm = k_algorithm row,
      pk_public_key_multibase = k_public_key_multibase row, pk_state = row_state (k_state row),
      pk_enrolled_at = Some (rfc3339 x (k_enrolled_at row)), pk_revoked_reason = k_revoked_reason row\<rparr>"

lemma row_to_key_sel [simp]:
  "pk_key_id (row_to_key x r) = k_key_id r" "pk_state (row_to_key x r) = row_state (k_state r)"
  "pk_public_key_multibase (row_to_key x r) = k_public_key_multibase r"
  by (simp_all add: row_to_key_def)

definition key_rows :: "uuid \<Rightarrow> db \<Rightarrow> key_row list" where
  "key_rows org d = sort_key k_enrolled_at (filter (\<lambda>r. k_org_id r = org) (publisher_keys d))"

definition load_keys :: "('x ext_scheme) \<Rightarrow> uuid \<Rightarrow> publisher_key list handler" where
  "load_keys x org_id =
     bind_a (sql (query (key_rows org_id))) (\<lambda>rows. ret (map (row_to_key x) rows))"

definition get_keys :: "('x ext_scheme) \<Rightarrow> string \<Rightarrow> publisher_key list handler" where
  "get_keys x org_slug = bind_a (find_org org_slug) (\<lambda>org_row. load_keys x (o_id org_row))"

definition too_many_keys :: api_err where
  "too_many_keys = bad_request ''too_many_keys'' (''at most '' @ show_nat MAX_KEYS_PER_ORG @ '' signing keys per org'')"

definition key_removed :: "string \<Rightarrow> api_err" where
  "key_removed k = bad_request ''key_removed''
     (''key `'' @ k @ ''` cannot be removed; set its state to `retired` or `revoked` so consumers that pinned it learn why'')"

definition key_rebind :: "string \<Rightarrow> api_err" where
  "key_rebind k = conflict ''key_rebind''
     (''key `'' @ k @ ''` is already enrolled with different key material; enroll a new key id instead of rebinding this one'')"

definition key_unrevoke :: "string \<Rightarrow> api_err" where
  "key_unrevoke k = conflict ''key_unrevoke'' (''key `'' @ k @ ''` is revoked and cannot be reinstated'')"

definition check_previous :: "publisher_key list \<Rightarrow> publisher_key \<Rightarrow> unit api_result" where
  "check_previous request previous =
     (case List.find (\<lambda>c. pk_key_id c = pk_key_id previous) request of
        None \<Rightarrow> Inl (key_removed (pk_key_id previous))
      | Some submitted \<Rightarrow>
          if pk_public_key_multibase submitted \<noteq> pk_public_key_multibase previous
          then Inl (key_rebind (pk_key_id previous))
          else if pk_state previous = Revoked \<and> pk_state submitted \<noteq> Revoked
          then Inl (key_unrevoke (pk_key_id previous))
          else Inr ())"

definition key_by_id :: "uuid \<Rightarrow> string \<Rightarrow> db \<Rightarrow> key_row option" where
  "key_by_id org key_id d = List.find (\<lambda>r. k_org_id r = org \<and> k_key_id r = key_id) (publisher_keys d)"

definition put_key_row :: "uuid \<Rightarrow> publisher_key \<Rightarrow> unit handler" where
  "put_key_row org key =
     bind_a (sql (query (key_by_id org (pk_key_id key)))) (\<lambda>current.
       case current of
         Some row \<Rightarrow>
           bind_a (sql (execute (SetKeyState (k_id row) (publisher_key_state_str (pk_state key))
             (pk_revoked_reason key)))) (\<lambda>_. ret ())
       | None \<Rightarrow>
           bind_a new_v4 (\<lambda>i.
           bind_a utc_now (\<lambda>now.
           bind_a (sql (execute (InsertKey
             \<lparr>k_id = i, k_org_id = org, k_key_id = pk_key_id key, k_algorithm = pk_algorithm key,
              k_public_key_multibase = pk_public_key_multibase key,
              k_state = publisher_key_state_str (pk_state key), k_revoked_reason = pk_revoked_reason key,
              k_enrolled_at = now\<rparr>))) (\<lambda>_. ret ()))))"

fun put_key_rows :: "uuid \<Rightarrow> publisher_key list \<Rightarrow> unit handler" where
  "put_key_rows org [] = ret ()"
| "put_key_rows org (key # keys) = bind_a (put_key_row org key) (\<lambda>_. put_key_rows org keys)"

definition invalid_key :: "string \<Rightarrow> api_err" where
  "invalid_key error = bad_request ''invalid_key'' (''invalid signing key: '' @ error)"

definition put_keys ::
  "('x signing_ext_scheme) \<Rightarrow> string \<Rightarrow> headers \<Rightarrow> publisher_key list \<Rightarrow> publisher_key list handler" where
  "put_keys x org_slug headers request =
     bind_a (require_token x headers) (\<lambda>token.
     bind_a (find_org org_slug) (\<lambda>org_row.
     bind_a (lift (authorize_manage (t_org_id token) (parse (t_role token)) (o_id org_row))) (\<lambda>_.
     bind_a (lift (guard_r (length request \<le> MAX_KEYS_PER_ORG) too_many_keys)) (\<lambda>_.
     bind_a (lift (all_ok (\<lambda>key. map_error invalid_key (key_validate x key)) request)) (\<lambda>_.
     bind_a (load_keys x (o_id org_row)) (\<lambda>existing.
     bind_a (lift (all_ok (check_previous request) existing)) (\<lambda>_.
     bind_a (sql begin_txn) (\<lambda>_.
     bind_a (in_txn (bind_a (put_key_rows (o_id org_row) request) (\<lambda>_. sql commit_txn))) (\<lambda>_.
       load_keys x (o_id org_row))))))))))"

subsection \<open>One row at a time\<close>

text \<open>Other sessions leave the key table alone.\<close>

definition leaves_keys :: "env \<Rightarrow> bool" where
  "leaves_keys e \<longleftrightarrow> (\<forall>t d. publisher_keys (peer_db e t d) = publisher_keys d)"

lemma leaves_keys_settle: "leaves_keys e \<Longrightarrow> publisher_keys (committed (settle e w)) = publisher_keys (committed w)"
  using settle_committed [of e w] by (auto simp: leaves_keys_def)

fun key_write :: "db_write \<Rightarrow> bool" where
  "key_write (InsertKey _) = True"
| "key_write (SetKeyState _ _ _) = True"
| "key_write _ = False"

text \<open>What the request does to one key of the organisation: set its state, or enrol it.\<close>

definition enrols :: "uuid \<Rightarrow> publisher_key \<Rightarrow> key_row \<Rightarrow> bool" where
  "enrols org key new \<longleftrightarrow> k_org_id new = org \<and> k_key_id new = pk_key_id key \<and> k_algorithm new = pk_algorithm key
     \<and> k_public_key_multibase new = pk_public_key_multibase key \<and> k_state new = publisher_key_state_str (pk_state key)
     \<and> k_revoked_reason new = pk_revoked_reason key"

definition step_keys :: "uuid \<Rightarrow> publisher_key \<Rightarrow> key_row list \<Rightarrow> key_row list \<Rightarrow> bool" where
  "step_keys org key ks ks' \<longleftrightarrow>
     (\<exists>row\<in>set ks. k_org_id row = org \<and> k_key_id row = pk_key_id key
        \<and> ks' = map (\<lambda>r. if k_id r = k_id row then r\<lparr>k_state := publisher_key_state_str (pk_state key),
             k_revoked_reason := pk_revoked_reason key\<rparr> else r) ks)
     \<or> (\<forall>row\<in>set ks. \<not> (k_org_id row = org \<and> k_key_id row = pk_key_id key))
       \<and> (\<exists>new. enrols org key new \<and> ks' = ks @ [new])"

lemma apply_all_keys_cong:
  "list_all key_write ws \<Longrightarrow> publisher_keys d1 = publisher_keys d2 \<Longrightarrow>
     apply_all ws d1 = Inr d1' \<Longrightarrow> apply_all ws d2 = Inr d2' \<Longrightarrow> publisher_keys d1' = publisher_keys d2'"
proof (induction ws arbitrary: d1 d2)
  case (Cons wr ws)
  obtain a b where ab: "apply_write wr d1 = Inr a" "apply_all ws a = Inr d1'"
      "apply_write wr d2 = Inr b" "apply_all ws b = Inr d2'"
    using Cons.prems(3,4) by (auto simp: bind_r_Inr_iff)
  have "publisher_keys a = publisher_keys b"
    using Cons.prems(1,2) ab(1,3) by (cases wr) (auto simp: apply_insert_iff apply_update_iff)
  then show ?case using Cons.IH [of a b] Cons.prems(1) ab by simp
qed simp

lemma settle_view_keys:
  assumes "leaves_keys e" "appliable w" "list_all key_write (pending w)"
  shows "publisher_keys (view (settle e w)) = publisher_keys (view w)"
  using apply_all_keys_cong [OF assms(3) leaves_keys_settle [OF assms(1), of w]]
    appliable_view [OF settle_appliable [OF assms(2), of e]] appliable_view [OF assms(2)] by simp

definition in_key_txn :: "world \<Rightarrow> bool" where
  "in_key_txn w \<longleftrightarrow> (\<exists>ws. txn w = Some ws \<and> list_all key_write ws) \<and> appliable w"

lemma in_key_txn_settle: "in_key_txn w \<Longrightarrow> in_key_txn (settle e w)"
  using settle_appliable by (auto simp: in_key_txn_def)

lemma in_key_txn_tick: "in_key_txn w \<Longrightarrow> in_key_txn (w\<lparr>tick := n\<rparr>) \<and> view (w\<lparr>tick := n\<rparr>) = view w"
  by (auto simp: in_key_txn_def appliable_def pending_def view_def)

lemma in_key_txn_execute:
  assumes "leaves_keys e" "in_key_txn w" "key_write wr" "execute wr e w = (Inr d, w')"
  shows "in_key_txn w' \<and> publisher_keys (committed w') = publisher_keys (committed w)
    \<and> (\<exists>d0. publisher_keys d0 = publisher_keys (view w) \<and> apply_write wr d0 = Inr (view w'))"
proof -
  obtain ws where ws: "txn w = Some ws" "list_all key_write ws" "appliable w"
    using assms(2) by (auto simp: in_key_txn_def)
  note ex = execute_in_txn [OF ws(1,3) assms(4)]
  have "publisher_keys (view (settle e w)) = publisher_keys (view w)"
    using settle_view_keys [OF assms(1) ws(3)] ws(1,2) by (simp add: pending_def)
  then show ?thesis
    using ex ws(2) assms(3) leaves_keys_settle [OF assms(1), of w]
    by (auto simp: in_key_txn_def)
qed

lemma put_key_row_step:
  assumes "leaves_keys e" "in_key_txn w" "put_key_row org key e w = (Inr u, w')"
  shows "in_key_txn w' \<and> publisher_keys (committed w') = publisher_keys (committed w)
    \<and> step_keys org key (publisher_keys (view w)) (publisher_keys (view w'))"
proof -
  let ?w1 = "settle e w"
  have w1: "in_key_txn ?w1" "publisher_keys (view ?w1) = publisher_keys (view w)"
      "publisher_keys (committed ?w1) = publisher_keys (committed w)"
    using assms(1,2) in_key_txn_settle settle_view_keys leaves_keys_settle
    by (auto simp: in_key_txn_def pending_def)
  show ?thesis
  proof (cases "key_by_id org (pk_key_id key) (view ?w1)")
    case (Some row)
    then have row: "row \<in> set (publisher_keys (view w))" "k_org_id row = org" "k_key_id row = pk_key_id key"
      using w1(2) by (auto simp: key_by_id_def dest: find_Some_iff')
    obtain d where ex: "execute (SetKeyState (k_id row) (publisher_key_state_str (pk_state key))
        (pk_revoked_reason key)) e ?w1 = (Inr d, w')"
      using assms(3) Some by (auto simp: put_key_row_def bind_steps bind_a_Inr_iff split: if_splits)
    from in_key_txn_execute [OF assms(1) w1(1) _ ex] show ?thesis
      using row w1 by (auto simp: step_keys_def apply_update_iff)
  next
    case None
    then have none: "\<forall>row\<in>set (publisher_keys (view w)). \<not> (k_org_id row = org \<and> k_key_id row = pk_key_id key)"
      using w1(2) by (simp add: key_by_id_def find_None_iff')
    define w2 where "w2 = ?w1\<lparr>tick := Suc (Suc (tick ?w1))\<rparr>"
    have w2: "in_key_txn w2" "view w2 = view ?w1" "publisher_keys (committed w2) = publisher_keys (committed w)"
      using in_key_txn_tick [OF w1(1)] w1(3) by (auto simp: w2_def)
    obtain new d where ex: "execute (InsertKey new) e w2 = (Inr d, w')"
        and new: "enrols org key new"
      using assms(3) None
      by (auto simp: put_key_row_def bind_steps bind_a_Inr_iff w2_def enrols_def split: if_splits)
    from in_key_txn_execute [OF assms(1) w2(1) _ ex] show ?thesis
      using none new w1 w2 by (auto simp: step_keys_def apply_insert_iff)
  qed
qed

inductive steps_keys :: "uuid \<Rightarrow> publisher_key list \<Rightarrow> key_row list \<Rightarrow> key_row list \<Rightarrow> bool" for org where
  steps_Nil: "steps_keys org [] ks ks"
| steps_Cons: "step_keys org key ks ks' \<Longrightarrow> steps_keys org keys ks' ks'' \<Longrightarrow> steps_keys org (key # keys) ks ks''"

inductive_cases steps_NilE: "steps_keys org [] ks ks'"
inductive_cases steps_ConsE: "steps_keys org (key # keys) ks ks'"

lemma put_key_rows_steps:
  assumes "leaves_keys e"
  shows "in_key_txn w \<Longrightarrow> put_key_rows org keys e w = (Inr u, w') \<Longrightarrow>
    in_key_txn w' \<and> publisher_keys (committed w') = publisher_keys (committed w)
    \<and> steps_keys org keys (publisher_keys (view w)) (publisher_keys (view w'))"
proof (induction keys arbitrary: w)
  case Nil
  then show ?case by (simp add: steps_Nil)
next
  case (Cons key keys)
  then obtain v w1 where a: "put_key_row org key e w = (Inr v, w1)" "put_key_rows org keys e w1 = (Inr u, w')"
    by (auto simp: bind_a_Inr_iff)
  note one = put_key_row_step [OF assms Cons.prems(1) a(1)]
  then show ?case using Cons.IH [OF _ a(2)] steps_Cons by fastforce
qed

subsection \<open>The set as a whole\<close>

definition same_key :: "key_row \<Rightarrow> key_row \<Rightarrow> bool" where
  "same_key a b \<longleftrightarrow> k_id a = k_id b \<and> k_org_id a = k_org_id b \<and> k_key_id a = k_key_id b
     \<and> k_algorithm a = k_algorithm b \<and> k_public_key_multibase a = k_public_key_multibase b
     \<and> k_enrolled_at a = k_enrolled_at b"

text \<open>What a request makes of an enrolled key: the state and the reason of its last entry for that key.\<close>

definition entries_for :: "string \<Rightarrow> publisher_key list \<Rightarrow> publisher_key list" where
  "entries_for i request = filter (\<lambda>c. pk_key_id c = i) request"

definition settled :: "uuid \<Rightarrow> publisher_key list \<Rightarrow> key_row \<Rightarrow> key_row" where
  "settled org request r =
     (if k_org_id r = org \<and> entries_for (k_key_id r) request \<noteq> []
      then r\<lparr>k_state := (case pk_state (last (entries_for (k_key_id r) request)) of
               Active \<Rightarrow> ''active'' | Retired \<Rightarrow> ''retired'' | Revoked \<Rightarrow> ''revoked''),
             k_revoked_reason := pk_revoked_reason (last (entries_for (k_key_id r) request))\<rparr>
      else r)"

text \<open>A new key is the first entry for its name, in the state of the last one.\<close>

definition enrolled_by :: "uuid \<Rightarrow> publisher_key list \<Rightarrow> key_row \<Rightarrow> bool" where
  "enrolled_by org request r \<longleftrightarrow> k_org_id r = org \<and> entries_for (k_key_id r) request \<noteq> []
     \<and> k_algorithm r = pk_algorithm (hd (entries_for (k_key_id r) request))
     \<and> k_public_key_multibase r = pk_public_key_multibase (hd (entries_for (k_key_id r) request))
     \<and> settled org request r = r"

definition enrolled_ids :: "uuid \<Rightarrow> key_row list \<Rightarrow> string set" where
  "enrolled_ids org ks = {i. \<exists>r\<in>set ks. k_org_id r = org \<and> k_key_id r = i}"

lemma state_text: "publisher_key_state_str s = (case s of Active \<Rightarrow> ''active'' | Retired \<Rightarrow> ''retired'' | Revoked \<Rightarrow> ''revoked'')"
  by (cases s) simp_all

lemma settled_sel [simp]: "k_id (settled org request r) = k_id r" "k_org_id (settled org request r) = k_org_id r"
    "k_key_id (settled org request r) = k_key_id r" "k_algorithm (settled org request r) = k_algorithm r"
    "k_public_key_multibase (settled org request r) = k_public_key_multibase r"
  by (simp_all add: settled_def)

lemma settled_same_key: "same_key r (settled org request r)"
  by (simp add: same_key_def settled_def)

lemma settled_Cons: "settled org (key # keys) r = settled org keys (settled org [key] r)"
  by (simp add: settled_def entries_for_def)

lemma settled_twice: "settled org request (settled org request r) = settled org request r"
  by (simp add: settled_def)

lemma enrolled_ids_settled [simp]: "enrolled_ids org (map (settled org request) ks) = enrolled_ids org ks"
  by (auto simp: enrolled_ids_def)

lemma enrolled_ids_settled_one: "enrolled_ids org (map (settled org [key]) ks) = enrolled_ids org ks"
  by (rule enrolled_ids_settled)

lemma enrolled_ids_append [simp]: "enrolled_ids org (ks @ ls) = enrolled_ids org ks \<union> enrolled_ids org ls"
  by (auto simp: enrolled_ids_def)

lemma step_keys_settled:
  assumes "step_keys org key ks ks'" "keyed key_clash ks"
  shows "\<exists>new. ks' = map (settled org [key]) ks @ new \<and> pk_key_id key \<in> enrolled_ids org ks'
    \<and> (\<forall>r\<in>set new. enrolled_by org [key] r \<and> k_key_id r \<notin> enrolled_ids org ks)"
  using assms(1) unfolding step_keys_def
proof
  assume "\<exists>row\<in>set ks. k_org_id row = org \<and> k_key_id row = pk_key_id key
    \<and> ks' = map (\<lambda>r. if k_id r = k_id row then r\<lparr>k_state := publisher_key_state_str (pk_state key),
         k_revoked_reason := pk_revoked_reason key\<rparr> else r) ks"
  then obtain row where row: "row \<in> set ks" "k_org_id row = org" "k_key_id row = pk_key_id key"
    and ks': "ks' = map (\<lambda>r. if k_id r = k_id row then r\<lparr>k_state := publisher_key_state_str (pk_state key),
         k_revoked_reason := pk_revoked_reason key\<rparr> else r) ks" by blast
  have "k_id r = k_id row \<longleftrightarrow> k_org_id r = org \<and> k_key_id r = pk_key_id key" if "r \<in> set ks" for r
    using key_table.keyed_unique [OF assms(2) that row(1)] row(2,3) by (auto simp: key_clash_def)
  then have "ks' = map (settled org [key]) ks"
    unfolding ks' by (intro map_cong) (auto simp: settled_def entries_for_def state_text)
  then show ?thesis using row by (intro exI [of _ "[]"]) (force simp: enrolled_ids_def)
next
  assume "(\<forall>row\<in>set ks. \<not> (k_org_id row = org \<and> k_key_id row = pk_key_id key))
    \<and> (\<exists>new. enrols org key new \<and> ks' = ks @ [new])"
  then obtain new where none: "\<forall>row\<in>set ks. \<not> (k_org_id row = org \<and> k_key_id row = pk_key_id key)"
    and new: "enrols org key new" "ks' = ks @ [new]" by blast
  have "map (settled org [key]) ks = ks" using none by (intro map_idI) (auto simp: settled_def entries_for_def)
  moreover have "enrolled_by org [key] new" using new(1)
    by (simp add: enrolled_by_def enrols_def entries_for_def settled_def state_text)
  ultimately show ?thesis using new none by (intro exI [of _ "[new]"]) (auto simp: enrolled_ids_def enrols_def)
qed

lemma entries_for_Cons: "pk_key_id key \<noteq> i \<Longrightarrow> entries_for i (key # keys) = entries_for i keys"
  by (simp add: entries_for_def)

lemma settled_over: "entries_for (k_key_id r) keys \<noteq> [] \<Longrightarrow> settled org keys (settled org [key] r) = settled org keys r"
  "entries_for (k_key_id r) keys = [] \<Longrightarrow> settled org keys r = r"
  by (simp_all add: settled_def)

lemma enrolled_by_Cons:
  assumes "enrolled_by org [key] r"
  shows "enrolled_by org (key # keys) (settled org keys r)"
proof -
  have r: "k_org_id r = org" "k_key_id r = pk_key_id key" "settled org [key] r = r"
    using assms by (auto simp: enrolled_by_def entries_for_def split: if_splits)
  have "settled org (key # keys) (settled org keys r) = settled org keys r"
    unfolding settled_Cons [of org key keys]
    using r(3) settled_over(1) [of "settled org keys r" keys org key] settled_over(2) [of r keys org] settled_twice
    by (cases "entries_for (k_key_id r) keys = []") simp_all
  then show ?thesis using assms r by (simp add: enrolled_by_def entries_for_def)
qed

lemma enrolled_by_other:
  "enrolled_by org keys r \<Longrightarrow> k_key_id r \<noteq> pk_key_id key \<Longrightarrow> enrolled_by org (key # keys) r"
  using entries_for_Cons [of key "k_key_id r" keys] by (auto simp: enrolled_by_def settled_def)

lemma step_keys_ids:
  assumes "step_keys org key ks ks'" "r \<in> set ks'" "k_org_id r = org"
  shows "k_key_id r = pk_key_id key \<or> (\<exists>r0\<in>set ks. k_org_id r0 = org \<and> k_key_id r0 = k_key_id r)"
proof -
  consider (set) row :: key_row where "ks' = map (\<lambda>r. if k_id r = k_id row then r\<lparr>k_state := publisher_key_state_str (pk_state key),
        k_revoked_reason := pk_revoked_reason key\<rparr> else r) ks"
    | (new) new where "k_key_id new = pk_key_id key" "ks' = ks @ [new]"
    using assms(1) unfolding step_keys_def enrols_def by blast
  then show ?thesis
  proof cases
    case set
    then obtain q where "q \<in> set ks" "k_org_id q = k_org_id r" "k_key_id q = k_key_id r"
      using assms(2) by (auto split: if_splits)
    then show ?thesis using assms(3) by auto
  next
    case new
    then show ?thesis using assms(2,3) by auto
  qed
qed

lemma steps_keys_ids:
  assumes "steps_keys org keys ks ks'" "r \<in> set ks'" "k_org_id r = org"
  shows "k_key_id r \<in> pk_key_id ` set keys \<or> (\<exists>r0\<in>set ks. k_org_id r0 = org \<and> k_key_id r0 = k_key_id r)"
  using assms
proof (induction rule: steps_keys.induct)
  case (steps_Cons key ks ks' keys ks'')
  then show ?case
  proof (cases "k_key_id r \<in> pk_key_id ` set keys")
    case False
    then obtain r1 where "r1 \<in> set ks'" "k_org_id r1 = org" "k_key_id r1 = k_key_id r"
      using steps_Cons by blast
    then show ?thesis using step_keys_ids [OF steps_Cons.hyps(1)] by fastforce
  qed simp
qed blast

text \<open>A keyed result comes from a keyed table.\<close>

lemma step_keyed_back: "step_keys org key ks ks' \<Longrightarrow> keyed key_clash ks' \<Longrightarrow> keyed key_clash ks"
  unfolding step_keys_def
proof (elim disjE conjE bexE exE)
  fix row
  assume k: "keyed key_clash ks'" and ks': "ks' = map (\<lambda>r. if k_id r = k_id row
    then r\<lparr>k_state := publisher_key_state_str (pk_state key), k_revoked_reason := pk_revoked_reason key\<rparr> else r) ks"
  have "sorted_wrt (\<lambda>a b. \<not> key_clash (if k_id a = k_id row then a\<lparr>k_state := publisher_key_state_str (pk_state key),
      k_revoked_reason := pk_revoked_reason key\<rparr> else a) (if k_id b = k_id row then b\<lparr>k_state :=
      publisher_key_state_str (pk_state key), k_revoked_reason := pk_revoked_reason key\<rparr> else b)) ks"
    using k ks' by (simp add: keyed_def sorted_wrt_map)
  then show "keyed key_clash ks"
    unfolding keyed_def by (rule sorted_wrt_mono_rel [rotated]) (simp add: key_clash_def split: if_splits)
qed (simp add: keyed_def sorted_wrt_append)

lemma steps_keyed_back: "steps_keys org keys ks ks' \<Longrightarrow> keyed key_clash ks' \<Longrightarrow> keyed key_clash ks"
  by (induction rule: steps_keys.induct) (auto dest: step_keyed_back)

lemma steps_keys_settled:
  assumes "steps_keys org keys ks ks'"
  shows "keyed key_clash ks \<Longrightarrow> keyed key_clash ks' \<Longrightarrow> \<exists>enrolled. ks' = map (settled org keys) ks @ enrolled
    \<and> (\<forall>r\<in>set enrolled. enrolled_by org keys r \<and> k_key_id r \<notin> enrolled_ids org ks)"
  using assms
proof (induction rule: steps_keys.induct)
  case (steps_Nil ks)
  have "map (settled org []) ks = ks" by (intro map_idI) (simp add: settled_def entries_for_def)
  then show ?case by (intro exI [of _ "[]"]) simp
next
  case (steps_Cons key ks ks' keys ks'')
  obtain new where new: "ks' = map (settled org [key]) ks @ new" "pk_key_id key \<in> enrolled_ids org ks'"
      "\<forall>r\<in>set new. enrolled_by org [key] r \<and> k_key_id r \<notin> enrolled_ids org ks"
    using step_keys_settled [OF steps_Cons.hyps(1) steps_Cons.prems(1)] by blast
  obtain later where later: "ks'' = map (settled org keys) ks' @ later"
      "\<forall>r\<in>set later. enrolled_by org keys r \<and> k_key_id r \<notin> enrolled_ids org ks'"
    using steps_Cons.IH steps_keyed_back [OF steps_Cons.hyps(2) steps_Cons.prems(2)] steps_Cons.prems(2) by blast
  let ?enrolled = "map (settled org keys) new @ later"
  have "ks'' = map (settled org (key # keys)) ks @ ?enrolled"
    using new(1) later(1) by (simp add: settled_Cons [of org key keys] comp_def)
  moreover have "enrolled_by org (key # keys) r \<and> k_key_id r \<notin> enrolled_ids org ks" if "r \<in> set ?enrolled" for r
  proof (cases "r \<in> set later")
    case True
    then have "enrolled_by org keys r" "k_key_id r \<notin> enrolled_ids org ks'" using later(2) by auto
    then show ?thesis using new(1,2) enrolled_by_other by (metis UnI1 enrolled_ids_append enrolled_ids_settled_one)
  next
    case False
    then show ?thesis using that new(3) enrolled_by_Cons by auto
  qed
  ultimately show ?case by blast
qed

lemma check_previous_first:
  assumes "check_previous request p = Inr ()"
  shows "\<exists>c\<in>set request. pk_key_id c = pk_key_id p \<and> pk_public_key_multibase c = pk_public_key_multibase p
    \<and> (pk_state p = Revoked \<longrightarrow> pk_state c = Revoked)"
proof (cases "List.find (\<lambda>c. pk_key_id c = pk_key_id p) request")
  case None
  then show ?thesis using assms by (simp add: check_previous_def)
next
  case (Some c)
  then have "c \<in> set request" "pk_key_id c = pk_key_id p" by (auto dest: find_Some_iff')
  then show ?thesis using assms Some by (intro bexI [of _ c]) (auto simp: check_previous_def split: if_splits)
qed

lemma entries_for_distinct:
  "distinct (map pk_key_id request) \<Longrightarrow> c \<in> set request \<Longrightarrow> entries_for (pk_key_id c) request = [c]"
  by (induction request) (auto simp: entries_for_def filter_empty_conv, metis image_eqI)

lemma settled_revoked:
  "distinct (map pk_key_id request) \<Longrightarrow> c \<in> set request \<Longrightarrow> pk_key_id c = k_key_id old \<Longrightarrow> pk_state c = Revoked \<Longrightarrow>
     row_state (k_state old) = Revoked \<Longrightarrow> row_state (k_state (settled org request old)) = Revoked"
  using entries_for_distinct [of request c] by (auto simp: settled_def row_state_def split: if_splits)

lemma check_previous_present:
  "check_previous request p = Inr () \<Longrightarrow> pk_key_id p \<in> pk_key_id ` set request"
  by (cases "List.find (\<lambda>c. pk_key_id c = pk_key_id p) request")
     (auto simp: check_previous_def image_iff dest!: find_Some_iff' intro: sym)

lemma schema_load_keys [keep_rules]: "keeps schema_rely schema_inv (load_keys x org)"
  unfolding load_keys_def by (intro keep_rules)

lemma schema_put_key_rows [keep_rules]: "keeps schema_rely schema_inv (put_key_rows org keys)"
proof (induction keys)
  case Nil
  show ?case unfolding put_key_rows.simps by (intro keep_rules)
next
  case (Cons key keys)
  show ?case unfolding put_key_rows.simps put_key_row_def by (intro keep_rules Cons)
qed

lemma schema_put_keys [keep_rules]: "keeps schema_rely schema_inv (put_keys x slug headers request)"
  unfolding put_keys_def by (intro keep_rules)

lemma commit_keys:
  assumes "leaves_keys e" "in_key_txn w" "commit_txn e w = (Inr u, w')"
  shows "publisher_keys (committed w') = publisher_keys (view w) \<and> txn w' = None"
proof -
  obtain ws where ws: "txn w = Some ws" "list_all key_write ws" "appliable w"
    using assms(2) by (auto simp: in_key_txn_def)
  have "apply_all ws (committed (settle e w)) = Inr (committed w')" "txn w' = None"
    using commit_effect [OF ws(3) assms(3)] ws(1) by (auto simp: pending_def)
  moreover have "apply_all ws (committed w) = Inr (view w)"
    using appliable_view [OF ws(3)] ws(1) by (simp add: pending_def)
  ultimately show ?thesis
    using apply_all_keys_cong [OF ws(2) leaves_keys_settle [OF assms(1), of w]] by simp
qed

lemma require_token_keys:
  "leaves_keys e \<Longrightarrow> require_token x headers e w = (Inr token, w') \<Longrightarrow>
     publisher_keys (committed w') = publisher_keys (committed w)"
  using leaves_keys_settle
  by (auto simp: require_token_def bind_a_Inr_iff query_Inr_iff utc_now_def split: if_splits option.splits)

text \<open>What a successful request went through.\<close>

lemma put_keys_run:
  assumes "put_keys x org_slug headers request e w = (Inr out, w')" "leaves_keys e" "txn w = None"
  shows "\<exists>token (org_row :: org_row). fst (require_token x headers e w) = Inr token
    \<and> org_row \<in> set (orgs (read_after (require_token x headers) e w)) \<and> o_slug org_row = org_slug
    \<and> authorize_manage (t_org_id token) (parse (t_role token)) (o_id org_row) = Inr ()
    \<and> length request \<le> 8
    \<and> (\<forall>old \<in> set (publisher_keys (committed w)). k_org_id old = o_id org_row \<longrightarrow>
         check_previous request (row_to_key x old) = Inr ())
    \<and> steps_keys (o_id org_row) request (publisher_keys (committed w)) (publisher_keys (committed w'))"
proof -
  obtain token w1 org_row w2 existing w3 w5 w6 where
    tok: "require_token x headers e w = (Inr token, w1)"
    and org: "find_org org_slug e w1 = (Inr org_row, w2)"
    and auth: "authorize_manage (t_org_id token) (parse (t_role token)) (o_id org_row) = Inr ()"
    and len: "length request \<le> MAX_KEYS_PER_ORG"
    and ex: "load_keys x (o_id org_row) e w2 = (Inr existing, w3)"
    and prev: "all_ok (check_previous request) existing = Inr ()"
    and body: "put_key_rows (o_id org_row) request e ((settle e w3)\<lparr>txn := Some []\<rparr>) = (Inr (), w5)"
    and com: "commit_txn e w5 = (Inr (), w6)"
    and fin: "load_keys x (o_id org_row) e w6 = (Inr out, w')"
    using assms(1)
    by (auto simp: put_keys_def bind_a_Inr_iff begin_txn_Inr_iff)
  note s = leaves_keys_settle [OF assms(2)]
  have t1: "txn w1 = None" "publisher_keys (committed w1) = publisher_keys (committed w)"
    using require_token_txn [of x headers e w] require_token_keys [OF assms(2) tok] tok assms(3) by auto
  have w2: "w2 = settle e w1" "o_slug org_row = org_slug" using find_org_Inr [OF org] by auto
  have w3: "w3 = settle e w2" "existing = map (row_to_key x) (key_rows (o_id org_row) (view (settle e w2)))"
    using ex by (auto simp: load_keys_def bind_a_Inr_iff query_Inr_iff)
  have w': "w' = settle e w6" using fin by (auto simp: load_keys_def bind_a_Inr_iff query_Inr_iff)
  have "set existing = row_to_key x ` {r \<in> set (publisher_keys (committed w)). k_org_id r = o_id org_row}"
    using w2 w3 t1 s by (auto simp: key_rows_def)
  then have old: "\<forall>old \<in> set (publisher_keys (committed w)). k_org_id old = o_id org_row \<longrightarrow>
      check_previous request (row_to_key x old) = Inr ()"
    using prev by (auto simp: all_ok_Inr_iff)
  let ?w4 = "(settle e w3)\<lparr>txn := Some []\<rparr>"
  have w4: "in_key_txn ?w4" "publisher_keys (view ?w4) = publisher_keys (committed w)"
    using w2 w3 t1 s by (simp_all add: in_key_txn_def view_def pending_def)
  note steps = put_key_rows_steps [OF assms(2) w4(1) body]
  then have "publisher_keys (committed w') = publisher_keys (view w5)"
    using commit_keys [OF assms(2) _ com] w' s by simp
  then have "steps_keys (o_id org_row) request (publisher_keys (committed w)) (publisher_keys (committed w'))"
    using steps w4(2) by simp
  then show ?thesis
    using tok located(1) [OF tok org] auth len old
    by (intro exI [of _ token] exI [of _ org_row]) (simp add: MAX_KEYS_PER_ORG_def)
qed

subsection \<open>Rows that vouch for a document\<close>

text \<open>A row of the key table vouches for a preimage when it is in a state that may verify and one of the
  signatures names its id and the supported algorithm and passes the strict check under its
  material. Which rows these are does not depend on the order the code tries them in.\<close>

definition vouched_by :: "('x signing_ext_scheme) \<Rightarrow> string \<Rightarrow> detached_signature list \<Rightarrow> key_row \<Rightarrow> bool" where
  "vouched_by x preimage signatures row \<longleftrightarrow>
     state_verifies x (row_state (k_state row))
     \<and> (\<exists>s\<in>set signatures. ds_algorithm s = signing_algorithm x \<and> ds_key_id s = k_key_id row
          \<and> (\<exists>public bytes. public_key x (row_to_key x row) = Inr public \<and> is_point x public
               \<and> signature_bytes x s = Inr bytes \<and> verify_strict x public preimage bytes))"

lemma load_keys_Inr:
  "load_keys x org e w = (Inr keys, w') \<Longrightarrow> keys = map (row_to_key x) (key_rows org (view (settle e w))) \<and> w' = settle e w"
  by (auto simp: load_keys_def bind_a_Inr_iff query_Inr_iff)

lemma verify_any_row:
  assumes "load_keys x org e w = (Inr keys, w')" "verify_any x preimage signatures keys = Inr key"
  shows "\<exists>row\<in>set (publisher_keys (view (settle e w))). k_org_id row = org \<and> vouched_by x preimage signatures row"
proof -
  obtain s where s: "s \<in> set signatures" "vouches x preimage keys s key"
    using assms(2) try_signatures_Inr by (fastforce simp: verify_any_def split: if_splits)
  then have key: "key \<in> set keys" "pk_key_id key = ds_key_id s" "state_verifies x (pk_state key)"
    by (auto simp: vouches_def dest: candidate_Some)
  then obtain row where row: "row \<in> set (publisher_keys (view (settle e w)))" "k_org_id row = org" "key = row_to_key x row"
    using load_keys_Inr [OF assms(1)] by (auto simp: key_rows_def)
  then have "vouched_by x preimage signatures row"
    using s key by (auto simp: vouched_by_def vouches_def intro!: bexI [of _ s])
  with row show ?thesis by blast
qed

text \<open>C16. Replacing an organisation's keys, while no other session writes keys meanwhile. Only an admin token,
  or an owner token of the organisation that has the slug of the URL in the organisation table as the
  request read it, succeeds, and its effect on the key table is exactly this: the rows of every other
  organisation are untouched and none is added to them; every enrolled key of the organisation is still
  there with the same id, name, algorithm, material and enrolment time, in the state of the last entry
  the request has for it; the new keys are the names the request adds, each with the algorithm and the
  material of its first entry; and the organisation has at most eight keys. Every enrolled key has an entry,
  and one with the same material. A revoked key stays revoked when the request names each key once; when it
  names a key several times the last entry decides, and the refusals only looked at the first.\<close>

theorem put_keys_preserves_trust:
  assumes "put_keys x org_slug headers request e w = (Inr out, w')"
    and "leaves_keys e" and "schema_rely e" and "schema_ok (committed w)" and "txn w = None"
  shows "\<exists>token (org_row :: org_row) enrolled. fst (require_token x headers e w) = Inr token
    \<and> org_row \<in> set (orgs (read_after (require_token x headers) e w)) \<and> o_slug org_row = org_slug
    \<and> (t_org_id token = None \<or> t_org_id token = Some (o_id org_row) \<and> parse (t_role token) = Owner)
    \<and> publisher_keys (committed w') = map (settled (o_id org_row) request) (publisher_keys (committed w)) @ enrolled
    \<and> (\<forall>new\<in>set enrolled. enrolled_by (o_id org_row) request new
         \<and> k_key_id new \<notin> enrolled_ids (o_id org_row) (publisher_keys (committed w)))
    \<and> (\<forall>old\<in>set (publisher_keys (committed w)). k_org_id old = o_id org_row \<longrightarrow>
         (\<exists>c\<in>set request. pk_key_id c = k_key_id old \<and> pk_public_key_multibase c = k_public_key_multibase old)
         \<and> (distinct (map pk_key_id request) \<and> row_state (k_state old) = Revoked \<longrightarrow>
              row_state (k_state (settled (o_id org_row) request old)) = Revoked))
    \<and> length (filter (\<lambda>r. k_org_id r = o_id org_row) (publisher_keys (committed w'))) \<le> 8"
proof -
  obtain token and org_row :: org_row where
    run: "fst (require_token x headers e w) = Inr token"
      "org_row \<in> set (orgs (read_after (require_token x headers) e w))" "o_slug org_row = org_slug"
      "authorize_manage (t_org_id token) (parse (t_role token)) (o_id org_row) = Inr ()"
      "length request \<le> 8"
    and prev: "\<forall>old \<in> set (publisher_keys (committed w)). k_org_id old = o_id org_row \<longrightarrow>
         check_previous request (row_to_key x old) = Inr ()"
    and steps: "steps_keys (o_id org_row) request (publisher_keys (committed w)) (publisher_keys (committed w'))"
    using put_keys_run [OF assms(1,2,5)] by blast
  have schema: "keyed key_clash (publisher_keys (committed w'))"
    using keepsD [OF schema_put_keys assms(3) _ assms(1)] assms(4) by (simp add: schema_inv_def schema_ok_def)
  obtain enrolled where enrolled:
      "publisher_keys (committed w') = map (settled (o_id org_row) request) (publisher_keys (committed w)) @ enrolled"
      "\<forall>new\<in>set enrolled. enrolled_by (o_id org_row) request new
         \<and> k_key_id new \<notin> enrolled_ids (o_id org_row) (publisher_keys (committed w))"
    using steps_keys_settled [OF steps _ schema] assms(4) by (auto simp: schema_ok_def)
  have keep: "(\<exists>c\<in>set request. pk_key_id c = k_key_id old \<and> pk_public_key_multibase c = k_public_key_multibase old)
         \<and> (distinct (map pk_key_id request) \<and> row_state (k_state old) = Revoked \<longrightarrow>
              row_state (k_state (settled (o_id org_row) request old)) = Revoked)"
    if old: "old \<in> set (publisher_keys (committed w))" "k_org_id old = o_id org_row" for old
    using prev old check_previous_first [of request "row_to_key x old"] settled_revoked [of request _ old] by fastforce
  have count: "length (filter (\<lambda>r. k_org_id r = o_id org_row) (publisher_keys (committed w'))) \<le> 8"
  proof -
    let ?rows = "filter (\<lambda>r. k_org_id r = o_id org_row) (publisher_keys (committed w'))"
    have "inj_on k_key_id (set ?rows)" "distinct ?rows"
      using key_table.keyed_unique [OF schema] key_table.keyed_distinct [OF schema]
      by (auto simp: inj_on_def key_clash_def)
    then have "length ?rows = card (k_key_id ` set ?rows)"
      by (metis card_image distinct_card)
    also have "\<dots> \<le> card (pk_key_id ` set request)"
    proof (rule card_mono)
      show "k_key_id ` set ?rows \<subseteq> pk_key_id ` set request"
      proof
        fix k
        assume "k \<in> k_key_id ` set ?rows"
        then obtain r where r: "r \<in> set (publisher_keys (committed w'))" "k_org_id r = o_id org_row" "k = k_key_id r"
          by auto
        from steps_keys_ids [OF steps r(1,2)] show "k \<in> pk_key_id ` set request"
        proof
          assume "\<exists>r0\<in>set (publisher_keys (committed w)). k_org_id r0 = o_id org_row \<and> k_key_id r0 = k_key_id r"
          then obtain r0 where r0: "r0 \<in> set (publisher_keys (committed w))" "k_org_id r0 = o_id org_row"
              "k_key_id r0 = k" using r(3) by blast
          then show ?thesis using prev check_previous_present [of request "row_to_key x r0"] by simp
        qed (simp add: r)
      qed
    qed simp
    also have "\<dots> \<le> length request" using card_image_le card_length le_trans by blast
    finally show ?thesis using run(5) by simp
  qed
  have "t_org_id token = None \<or> t_org_id token = Some (o_id org_row) \<and> parse (t_role token) = Owner"
    using run(4) by (cases "parse (t_role token)") (auto simp: authorize_manage_def split: option.splits if_splits)
  then show ?thesis using run enrolled keep count by blast
qed

subsection \<open>Examples and a limit of the check\<close>

definition key_1 :: key_row where
  "key_1 = \<lparr>k_id = 41, k_org_id = 7, k_key_id = ''k'', k_algorithm = ''ed25519'', k_public_key_multibase = ''z'',
     k_state = ''revoked'', k_revoked_reason = None, k_enrolled_at = 0\<rparr>"

definition owner_2 :: token_row where
  "owner_2 = token_1\<lparr>t_role := ''owner''\<rparr>"

definition db_4 :: db where
  "db_4 = db_1\<lparr>tokens := [owner_2], publisher_keys := [key_1]\<rparr>"

lemma db_4_sel [simp]:
  "tokens db_4 = [owner_2]" "publisher_keys db_4 = [key_1]"
  "orgs db_4 = [\<lparr>o_id = 7, o_slug = ''acme'', o_created_at = 0, o_created_by_token = None\<rparr>]"
  by (simp_all add: db_4_def db_1_def empty_db_def)

lemma db_4_schema_ok: "schema_ok db_4"
  by (simp add: schema_ok_def keyed_def db_4_def db_1_def empty_db_def)

lemma owner_4_run: "require_token toy_signing hdr_1 calm (start db_4) = (Inr owner_2, (start db_4)\<lparr>tick := 2\<rparr>)"
  by (simp add: require_token_def hdr_1_def bearer_example run_simps find_token_by_hash_def hash_token_def
      owner_2_def token_1_def toy_signing_def toy_ext_def ext.defs)

definition key_entry :: "key_state \<Rightarrow> publisher_key" where
  "key_entry st = \<lparr>pk_key_id = ''k'', pk_algorithm = ''ed25519'', pk_public_key_multibase = ''z'', pk_state = st,
     pk_enrolled_at = None, pk_revoked_reason = None\<rparr>"

lemma put_example:
  assumes "request = [key_entry Revoked] \<or> request = [key_entry Revoked, key_entry Active]"
  shows "\<exists>out w'. put_keys toy_signing ''acme'' hdr_1 request calm (start db_4) = (Inr out, w')
    \<and> publisher_keys (committed w') =
        [key_1\<lparr>k_state := (if length request = 1 then ''revoked'' else ''active''), k_revoked_reason := None\<rparr>]"
proof -
  have v: "key_validate toy_signing k = Inr ()" for k by (simp add: toy_signing_def ext.defs)
  have a: "authorize_manage (t_org_id owner_2) (parse (t_role owner_2)) 7 = Inr ()"
    by (simp add: owner_2_def token_1_def authorize_manage_def parse_def)
  have e: "pk_key_id (key_entry st) = ''k''" "pk_state (key_entry st) = st" "pk_public_key_multibase (key_entry st) = ''z''"
      "pk_revoked_reason (key_entry st) = None" for st by (simp_all add: key_entry_def)
  have k: "k_id key_1 = 41" "k_org_id key_1 = 7" "k_key_id key_1 = ''k''" "k_public_key_multibase key_1 = ''z''"
      "k_state key_1 = ''revoked''"
    by (simp_all add: key_1_def)
  show ?thesis
    using assms
    by (elim disjE)
       (simp_all add: put_keys_def bind_a_def owner_4_run find_org_def org_by_slug_def a v e k load_keys_def
          key_rows_def check_previous_def row_state_def MAX_KEYS_PER_ORG_def put_key_row_def key_by_id_def
          run_simps)
qed

theorem put_keys_preserves_trust_witness:
  "\<exists>out w' new enrolled. put_keys toy_signing ''acme'' hdr_1 [key_entry Revoked] calm (start db_4) = (Inr out, w')
     \<and> publisher_keys (committed w') = new # enrolled \<and> same_key key_1 new \<and> row_state (k_state new) = Revoked"
proof -
  obtain out w' where run: "put_keys toy_signing ''acme'' hdr_1 [key_entry Revoked] calm (start db_4) = (Inr out, w')"
    using put_example [of "[key_entry Revoked]"] by auto
  have r: "row_state (k_state key_1) = Revoked" "k_org_id key_1 = 7" by (simp_all add: key_1_def row_state_def)
  have "leaves_keys calm" by (simp add: leaves_keys_def)
  moreover have keys: "publisher_keys (committed (start db_4)) = [key_1]" by simp
  moreover have db: "read_after (require_token toy_signing hdr_1) calm (start db_4) = db_4"
    by (simp add: read_after_def owner_4_run calm_settle)
  ultimately obtain org_row enrolled where t: "org_row \<in> set (orgs db_4)"
      "publisher_keys (committed w') = settled (o_id org_row) [key_entry Revoked] key_1 # enrolled"
      "k_org_id key_1 = o_id org_row \<longrightarrow> row_state (k_state key_1) = Revoked \<longrightarrow>
         row_state (k_state (settled (o_id org_row) [key_entry Revoked] key_1)) = Revoked"
    using put_keys_preserves_trust [OF run _ calm_schema_rely, unfolded keys db] db_4_schema_ok
    by (auto simp del: db_4_sel)
  then have "row_state (k_state (settled (o_id org_row) [key_entry Revoked] key_1)) = Revoked" using r by simp
  with run t(2) settled_same_key show ?thesis by blast
qed

text \<open>That the request names each key once is needed for a revoked key to stay revoked. The refusals compare an enrolled key
  with the first entry of that id only, while the write loop applies every entry in order, so a
  request that lists a revoked key twice, first revoked and then active, is accepted and leaves the
  key active.
\<close>

theorem duplicate_entries_reinstate_a_revoked_key:
  "\<exists>out w' row. put_keys toy_signing ''acme'' hdr_1 [key_entry Revoked, key_entry Active] calm (start db_4) = (Inr out, w')
     \<and> publisher_keys (committed (start db_4)) = [key_1] \<and> row_state (k_state key_1) = Revoked
     \<and> publisher_keys (committed w') = [row] \<and> same_key key_1 row \<and> row_state (k_state row) = Active"
proof -
  let ?row = "key_1\<lparr>k_state := ''active'', k_revoked_reason := None\<rparr>"
  have "same_key key_1 ?row" "row_state (k_state ?row) = Active" "row_state (k_state key_1) = Revoked"
    by (simp_all add: same_key_def key_1_def row_state_def)
  then show ?thesis using put_example [of "[key_entry Revoked, key_entry Active]"] by auto
qed

end
