(* ===== verification/Mirrors.thy ===== *)
theory Mirrors
  imports Keys
begin

section \<open>Mirrors and the signed index (\<^verbatim>\<open>src/routes/mirrors.rs\<close>)\<close>

text \<open>
  What a deployment advertises about itself, and the version index of one package: served verbatim
  when a signed one is stored, assembled from the rows otherwise, and replaced only by a document
  that an enrolled key vouches for and whose sequence is not older than the stored one. Validation,
  canonical bytes and JSON coding of the document belong to \<open>zed-interfaces\<close> and are fields of
  \<open>index_ext\<close>; a mirror descriptor is opaque JSON.
\<close>

record index_version =
  iv_version :: string
  iv_yanked :: bool

record index_attestation =
  ia_org :: string
  ia_name :: string
  ia_sequence :: nat
  ia_versions :: "index_version list"
  ia_mirrors :: "json list"

record signed_index =
  si_schema :: string
  si_payload :: index_attestation
  si_signatures :: "detached_signature list"

record index_ext = signing_ext +
  SIGNED_INDEX_SCHEMA_V1 :: string
  index_validate :: "signed_index \<Rightarrow> string + unit"
  index_preimage :: "signed_index \<Rightarrow> string + string"
  index_to_json :: "signed_index \<Rightarrow> string + json"
  index_from_json :: "json \<Rightarrow> signed_index option"
  mirrors_from_json :: "json \<Rightarrow> json list option"
  sort_desc :: "string list \<Rightarrow> string list"

record bootstrap =
  mb_generated_at :: string
  mb_registry_url :: string
  mb_mirrors :: "json list"

definition get_mirrors :: "('x ext_scheme) \<Rightarrow> app_config \<Rightarrow> json list \<Rightarrow> bootstrap handler" where
  "get_mirrors x cfg mirrors =
     bind_a utc_now (\<lambda>now.
       ret \<lparr>mb_generated_at = rfc3339 x now, mb_registry_url = public_base_url cfg, mb_mirrors = mirrors\<rparr>)"

definition get_bootstrap :: "('x ext_scheme) \<Rightarrow> app_config \<Rightarrow> json list \<Rightarrow> bootstrap handler" where
  "get_bootstrap x cfg mirrors =
     bind_a utc_now (\<lambda>now.
       ret \<lparr>mb_generated_at = rfc3339 x now, mb_registry_url = public_base_url cfg, mb_mirrors = mirrors\<rparr>)"

subsection \<open>Reading\<close>

text \<open>\<open>position(\<dots>).unwrap\_or(usize::MAX)\<close>, and \<open>max\_by\_key\<close>, which keeps the last of the largest.\<close>

fun position_of :: "string \<Rightarrow> string list \<Rightarrow> nat option" where
  "position_of v [] = None"
| "position_of v (c # cs) = (if c = v then Some 0 else map_option Suc (position_of v cs))"

definition rank :: "string list \<Rightarrow> index_version \<Rightarrow> nat" where
  "rank ordered entry =
     (case position_of (iv_version entry) ordered of None \<Rightarrow> u64_max | Some n \<Rightarrow> n)"

fun newest :: "version_row list \<Rightarrow> version_row option" where
  "newest [] = None"
| "newest (r # rs) =
     (case newest rs of
        None \<Rightarrow> Some r
      | Some s \<Rightarrow> if v_published_at r \<le> v_published_at s then Some s else Some r)"

definition latest_mirrors :: "('x index_ext_scheme) \<Rightarrow> version_row list \<Rightarrow> json list" where
  "latest_mirrors x rows =
     (case newest rows of
        None \<Rightarrow> []
      | Some row \<Rightarrow> (case mirrors_from_json x (v_mirrors row) of None \<Rightarrow> [] | Some ms \<Rightarrow> ms))"

definition assemble_index ::
  "('x index_ext_scheme) \<Rightarrow> string \<Rightarrow> string \<Rightarrow> package_row \<Rightarrow> version_row list \<Rightarrow> signed_index" where
  "assemble_index x org_slug name pkg rows =
     (let ordered = sort_desc x (map v_version rows)
      in \<lparr>si_schema = SIGNED_INDEX_SCHEMA_V1 x,
          si_payload = \<lparr>ia_org = org_slug, ia_name = name,
            ia_sequence = as_u64 (max (p_index_sequence pkg) 1),
            ia_versions = sort_key (rank ordered)
              (map (\<lambda>row. \<lparr>iv_version = v_version row, iv_yanked = v_yanked row\<rparr>) rows),
            ia_mirrors = latest_mirrors x rows\<rparr>,
          si_signatures = []\<rparr>)"

definition stored_index :: "('x index_ext_scheme) \<Rightarrow> package_row \<Rightarrow> signed_index option" where
  "stored_index x pkg = Option.bind (p_signed_index pkg) (index_from_json x)"

definition get_signed_index :: "('x index_ext_scheme) \<Rightarrow> string \<Rightarrow> string \<Rightarrow> signed_index handler" where
  "get_signed_index x org_slug name =
     bind_a (find_org org_slug) (\<lambda>org_row.
     bind_a (find_package org_row name) (\<lambda>pkg.
       case stored_index x pkg of
         Some document \<Rightarrow> ret document
       | None \<Rightarrow>
           bind_a (sql (query (versions_of (p_id pkg)))) (\<lambda>rows.
             ret (assemble_index x org_slug name pkg rows))))"

subsection \<open>Replacing\<close>

definition index_identity_mismatch :: api_err where
  "index_identity_mismatch = bad_request ''index_identity_mismatch''
     ''the signed index names a different package than the route does''"

definition invalid_index :: "string \<Rightarrow> string \<Rightarrow> api_err" where
  "invalid_index what error = bad_request ''invalid_index'' (what @ error)"

definition index_signature_invalid :: "string \<Rightarrow> api_err" where
  "index_signature_invalid error = bad_request ''signature_invalid'' (''no enrolled key verifies this index: '' @ error)"

definition index_rollback :: "nat \<Rightarrow> int \<Rightarrow> api_err" where
  "index_rollback submitted stored = conflict ''index_rollback''
     (''index sequence '' @ show_nat submitted @ '' is older than the stored '' @ show_int stored)"

definition put_signed_index ::
  "('x index_ext_scheme) \<Rightarrow> string \<Rightarrow> string \<Rightarrow> headers \<Rightarrow> signed_index \<Rightarrow> signed_index handler" where
  "put_signed_index x org_slug name headers document =
     bind_a (require_token x headers) (\<lambda>token.
     bind_a (find_org org_slug) (\<lambda>org_row.
     bind_a (lift (authorize_publish (t_org_id token) (parse (t_role token)) (o_id org_row))) (\<lambda>_.
     bind_a (find_package org_row name) (\<lambda>pkg.
     bind_a (lift (guard_r (ia_org (si_payload document) = org_slug \<and> ia_name (si_payload document) = name) index_identity_mismatch)) (\<lambda>_.
     bind_a (lift (map_error (invalid_index ''invalid signed index: '') (index_validate x document))) (\<lambda>_.
     bind_a (load_keys x (o_id org_row)) (\<lambda>keys.
     bind_a (lift (map_error (invalid_index ''cannot reconstruct the signed payload: '')
       (index_preimage x document))) (\<lambda>preimage.
     bind_a (lift (map_error index_signature_invalid
       (verify_any x preimage (si_signatures document) keys))) (\<lambda>_.
     bind_a (lift (guard_r (\<not> ia_sequence (si_payload document) < as_u64 (max (p_index_sequence pkg) 0))
       (index_rollback (ia_sequence (si_payload document)) (p_index_sequence pkg)))) (\<lambda>_.
     bind_a (lift (map_error (invalid_index ''signed index is not encodable: '')
       (index_to_json x document))) (\<lambda>encoded.
     bind_a (sql (execute (SetPackageIndex (p_id pkg) (Some encoded) (as_i64 (ia_sequence (si_payload document)))))) (\<lambda>_.
       ret document))))))))))))"

subsection \<open>Properties\<close>

definition leaves_packages :: "env \<Rightarrow> bool" where
  "leaves_packages e \<longleftrightarrow> (\<forall>t d. packages (peer_db e t d) = packages d)"

lemma leaves_packages_settle: "leaves_packages e \<Longrightarrow> packages (committed (settle e w)) = packages (committed w)"
  using settle_committed [of e w] by (auto simp: leaves_packages_def)

lemma require_token_packages:
  "leaves_packages e \<Longrightarrow> require_token x headers e w = (Inr token, w') \<Longrightarrow>
     packages (committed w') = packages (committed w)"
  using leaves_packages_settle
  by (auto simp: require_token_def bind_a_Inr_iff query_Inr_iff utc_now_def split: if_splits option.splits)

text \<open>The reads of a replacement up to the enrolled keys; the update runs right after them.\<close>

definition locate_keys :: "('x ext_scheme) \<Rightarrow> headers \<Rightarrow> string \<Rightarrow> string \<Rightarrow> publisher_key list handler" where
  "locate_keys x headers slug name =
     bind_a (locate_org x headers slug) (\<lambda>org. bind_a (find_package org name) (\<lambda>_. load_keys x (o_id org)))"

text \<open>What a successful replacement went through.\<close>

lemma put_signed_index_run:
  assumes "put_signed_index x org_slug name headers document e w = (Inr out, w')" "txn w = None"
  shows "\<exists>token (org_row :: org_row) pkg key preimage encoded.
    fst (require_token x headers e w) = Inr token
    \<and> org_row \<in> set (orgs (read_after (require_token x headers) e w)) \<and> o_slug org_row = org_slug
    \<and> authorize_publish (t_org_id token) (parse (t_role token)) (o_id org_row) = Inr ()
    \<and> pkg \<in> set (packages (read_after (locate_org x headers org_slug) e w))
    \<and> p_org_id pkg = o_id org_row \<and> p_name pkg = name
    \<and> ia_org (si_payload document) = org_slug \<and> ia_name (si_payload document) = name
    \<and> key \<in> set (publisher_keys (read_after (locate_package x headers org_slug name) e w)) \<and> k_org_id key = o_id org_row
    \<and> index_preimage x document = Inr preimage \<and> vouched_by x preimage (si_signatures document) key
    \<and> as_u64 (max (p_index_sequence pkg) 0) \<le> ia_sequence (si_payload document)
    \<and> index_to_json x document = Inr encoded \<and> out = document
    \<and> packages (committed w') = map (\<lambda>r. if p_id r = p_id pkg then r\<lparr>p_signed_index := Some encoded,
        p_index_sequence := as_i64 (ia_sequence (si_payload document))\<rparr> else r)
        (packages (read_after (locate_keys x headers org_slug name) e w))"
proof -
  obtain token w1 org_row w2 pkg w3 keys w4 preimage key encoded d where
    tok: "require_token x headers e w = (Inr token, w1)"
    and org: "find_org org_slug e w1 = (Inr org_row, w2)"
    and auth: "authorize_publish (t_org_id token) (parse (t_role token)) (o_id org_row) = Inr ()"
    and pkg: "find_package org_row name e w2 = (Inr pkg, w3)"
    and ident: "ia_org (si_payload document) = org_slug" "ia_name (si_payload document) = name"
    and keys: "load_keys x (o_id org_row) e w3 = (Inr keys, w4)"
    and pre: "index_preimage x document = Inr preimage"
    and key: "verify_any x preimage (si_signatures document) keys = Inr key"
    and seq: "as_u64 (max (p_index_sequence pkg) 0) \<le> ia_sequence (si_payload document)"
    and enc: "index_to_json x document = Inr encoded"
    and upd: "execute (SetPackageIndex (p_id pkg) (Some encoded) (as_i64 (ia_sequence (si_payload document)))) e w4 = (Inr d, w')"
    and out: "out = document"
    using assms(1) by (auto simp: put_signed_index_def bind_a_Inr_iff not_less)
  have w4: "w4 = settle e w3" using load_keys_Inr [OF keys] by simp
  have "txn w1 = None" using require_token_txn [of x headers e w] tok assms(2) by simp
  then have t4: "txn w4 = None" using find_org_Inr [OF org] find_package_Inr [OF pkg] w4 by auto
  have "read_after (locate_keys x headers org_slug name) e w = committed (settle e w4)"
    using tok org pkg keys t4 by (simp add: read_after_def locate_keys_def locate_org_def bind_a_run view_def pending_def)
  moreover have "apply_write (SetPackageIndex (p_id pkg) (Some encoded) (as_i64 (ia_sequence (si_payload document))))
      (committed (settle e w4)) = Inr (committed w')"
    using execute_autocommit [OF t4 upd] by auto
  ultimately have tables: "packages (committed w') = map (\<lambda>r. if p_id r = p_id pkg then r\<lparr>p_signed_index := Some encoded,
        p_index_sequence := as_i64 (ia_sequence (si_payload document))\<rparr> else r)
        (packages (read_after (locate_keys x headers org_slug name) e w))"
    by (simp add: apply_update_iff)
  obtain row where "row \<in> set (publisher_keys (read_after (locate_package x headers org_slug name) e w))"
      "k_org_id row = o_id org_row" "vouched_by x preimage (si_signatures document) row"
    using verify_any_row [OF keys key] located(4) [OF tok org pkg] by auto
  then show ?thesis
    using tok located(1,2) [OF tok org] pkg auth ident pre seq enc out tables
    by (intro exI [of _ token] exI [of _ org_row] exI [of _ pkg] exI [of _ row] exI [of _ preimage]
        exI [of _ encoded]) simp
qed

lemma lookup_world:
  "snd (find_org slug e w) = settle e w" "snd (find_package org name e w) = settle e w"
  "snd (load_keys x i e w) = settle e w"
  by (simp_all add: find_org_def find_package_def load_keys_def monad_defs query_def Let_def split: option.split sum.split)

lemma locate_keys_packages:
  assumes "leaves_packages e" "txn w = None" "fst (require_token x headers e w) = Inr token"
  shows "packages (read_after (locate_org x headers slug) e w) = packages (committed w)
     \<and> packages (read_after (locate_keys x headers slug name) e w) = packages (committed w)"
proof -
  obtain w1 where tok: "require_token x headers e w = (Inr token, w1)" using assms(3) by (cases "require_token x headers e w") auto
  have t1: "txn w1 = None" "packages (committed w1) = packages (committed w)"
    using require_token_txn [of x headers e w] require_token_packages [OF assms(1) tok] tok assms(2) by auto
  note s = leaves_packages_settle [OF assms(1)]
  have keep: "packages (view w') = packages (committed w)" if "txn w' = None" "packages (committed w') = packages (committed w)" for w'
    using that by (simp add: view_def pending_def)
  obtain r where org: "find_org slug e w1 = (r, settle e w1)" using lookup_world(1) [of slug e w1] by (metis prod.collapse)
  have "snd (locate_org x headers slug e w) = settle e w1"
    using tok org by (simp add: locate_org_def bind_a_run)
  moreover have "\<exists>w'. snd (locate_keys x headers slug name e w) = w' \<and> txn w' = None \<and> packages (committed w') = packages (committed w)"
  proof (cases r)
    case (Inr org_row)
    have "snd (bind_a (find_package org_row name) (\<lambda>_. load_keys x (o_id org_row)) e w2) \<in> {settle e w2, settle e (settle e w2)}" for w2
      using lookup_world(2) [of org_row name e w2] lookup_world(3) [of x "o_id org_row"]
      by (cases "find_package org_row name e w2") (auto simp: bind_a_def split: sum.split)
    moreover have "snd (locate_keys x headers slug name e w)
        = snd (bind_a (find_package org_row name) (\<lambda>_. load_keys x (o_id org_row)) e (settle e w1))"
      using tok org Inr by (simp add: locate_keys_def locate_org_def bind_a_run)
    ultimately have "snd (locate_keys x headers slug name e w) \<in> {settle e (settle e w1), settle e (settle e (settle e w1))}"
      by metis
    then show ?thesis using t1 s by auto
  qed (use tok org t1 s in \<open>simp add: locate_keys_def locate_org_def bind_a_run\<close>)
  ultimately show ?thesis using t1 s by (auto simp: read_after_def keep)
qed

text \<open>C15. A stored index is vouched for by an enrolled key and does not go below the sequence that was read.
  A replacement that succeeds was sent with publish authority over the organisation that has the
  slug of the URL in the organisation table as the request read it, names a package of that organisation in the
  package table as read, and carries a signature of its own preimage that verifies under a row
  of the key table, as read, that is enrolled for this organisation and in a state that may
  verify. The sequence is not below the one of the package row that was read, and what the update does is
  exactly to store the document and its sequence in the row of that package and to leave every other
  package alone. When no other session writes packages between the read and the update, and
  both sequences fit the signed column, the stored sequence is therefore not lowered; the code does not guard
  the update itself, so in a race it can be, as \<open>concurrent\_bump\_is\_rolled\_back\<close> shows.\<close>

theorem put_signed_index_is_vouched_and_monotone:
  assumes "put_signed_index x org_slug name headers document e w = (Inr out, w')" and "txn w = None"
  shows "\<exists>token (org_row :: org_row) pkg key preimage encoded.
    fst (require_token x headers e w) = Inr token
    \<and> org_row \<in> set (orgs (read_after (require_token x headers) e w)) \<and> o_slug org_row = org_slug
    \<and> (t_org_id token = None \<or> t_org_id token = Some (o_id org_row) \<and> parse (t_role token) \<in> {Owner, Publisher})
    \<and> pkg \<in> set (packages (read_after (locate_org x headers org_slug) e w))
    \<and> p_org_id pkg = o_id org_row \<and> p_name pkg = name
    \<and> ia_org (si_payload document) = org_slug \<and> ia_name (si_payload document) = name
    \<and> key \<in> set (publisher_keys (read_after (locate_package x headers org_slug name) e w)) \<and> k_org_id key = o_id org_row
    \<and> index_preimage x document = Inr preimage \<and> vouched_by x preimage (si_signatures document) key
    \<and> index_to_json x document = Inr encoded \<and> out = document
    \<and> as_u64 (max (p_index_sequence pkg) 0) \<le> ia_sequence (si_payload document)
    \<and> packages (committed w') = map (\<lambda>r. if p_id r = p_id pkg then r\<lparr>p_signed_index := Some encoded,
        p_index_sequence := as_i64 (ia_sequence (si_payload document))\<rparr> else r)
        (packages (read_after (locate_keys x headers org_slug name) e w))
    \<and> (leaves_packages e \<and> int (ia_sequence (si_payload document)) \<le> i64_max \<and> p_index_sequence pkg \<le> i64_max \<longrightarrow>
         pkg \<in> set (packages (committed w)) \<and> p_index_sequence pkg \<le> int (ia_sequence (si_payload document))
         \<and> packages (committed w') = map (\<lambda>r. if p_id r = p_id pkg then r\<lparr>p_signed_index := Some encoded,
             p_index_sequence := int (ia_sequence (si_payload document))\<rparr> else r) (packages (committed w)))"
proof -
  obtain token and org_row :: org_row and pkg key preimage encoded where
    run: "fst (require_token x headers e w) = Inr token"
      "org_row \<in> set (orgs (read_after (require_token x headers) e w))" "o_slug org_row = org_slug"
      "authorize_publish (t_org_id token) (parse (t_role token)) (o_id org_row) = Inr ()"
      "pkg \<in> set (packages (read_after (locate_org x headers org_slug) e w))"
      "p_org_id pkg = o_id org_row" "p_name pkg = name"
      "ia_org (si_payload document) = org_slug" "ia_name (si_payload document) = name"
      "key \<in> set (publisher_keys (read_after (locate_package x headers org_slug name) e w))" "k_org_id key = o_id org_row"
      "index_preimage x document = Inr preimage" "vouched_by x preimage (si_signatures document) key"
      "index_to_json x document = Inr encoded" "out = document"
    and seq: "as_u64 (max (p_index_sequence pkg) 0) \<le> ia_sequence (si_payload document)"
    and upd: "packages (committed w') = map (\<lambda>r. if p_id r = p_id pkg then r\<lparr>p_signed_index := Some encoded,
        p_index_sequence := as_i64 (ia_sequence (si_payload document))\<rparr> else r)
        (packages (read_after (locate_keys x headers org_slug name) e w))"
    using put_signed_index_run [OF assms] by blast
  have "t_org_id token = None \<or> t_org_id token = Some (o_id org_row) \<and> parse (t_role token) \<in> {Owner, Publisher}"
    using run(4) by (cases "parse (t_role token)") (auto simp: authorize_publish_def split: option.splits if_splits)
  moreover have "pkg \<in> set (packages (committed w)) \<and> p_index_sequence pkg \<le> int (ia_sequence (si_payload document))
      \<and> packages (committed w') = map (\<lambda>r. if p_id r = p_id pkg then r\<lparr>p_signed_index := Some encoded,
             p_index_sequence := int (ia_sequence (si_payload document))\<rparr> else r) (packages (committed w))"
    if calm: "leaves_packages e" and small: "int (ia_sequence (si_payload document)) \<le> i64_max" "p_index_sequence pkg \<le> i64_max"
  proof -
    have "as_u64 (max (p_index_sequence pkg) 0) = nat (max (p_index_sequence pkg) 0)"
      using small(2) by (intro as_u64_nonneg) (auto simp: i64_max_def)
    then show ?thesis
      using seq run(5) upd as_i64_small [OF small(1)] locate_keys_packages [OF calm assms(2) run(1)] by simp
  qed
  ultimately show ?thesis using run seq upd
    by (intro exI [of _ token] exI [of _ org_row] exI [of _ pkg] exI [of _ key] exI [of _ preimage]
        exI [of _ encoded]) blast
qed

text \<open>Reading back what was stored.\<close>

definition leaves_catalog :: "env \<Rightarrow> bool" where
  "leaves_catalog e \<longleftrightarrow> (\<forall>t d. packages (peer_db e t d) = packages d \<and> orgs (peer_db e t d) = orgs d)"

lemma leaves_catalog_settle:
  "leaves_catalog e \<Longrightarrow> packages (committed (settle e w)) = packages (committed w)
     \<and> orgs (committed (settle e w)) = orgs (committed w)"
  using settle_committed [of e w] by (auto simp: leaves_catalog_def)

lemma find_map_same:
  "(\<And>a. P (f a) = P a) \<Longrightarrow> List.find P (map f xs) = map_option f (List.find P xs)"
  by (induction xs) auto

text \<open>A stored index is served verbatim: after a successful replacement, while no other session
  writes organisations or packages and the database answers, reading the index of that package
  returns the very document that was submitted, given that decoding inverts encoding.\<close>

theorem signed_index_round_trip:
  assumes "put_signed_index x org_slug name headers document e w = (Inr out, w')" and "txn w = None"
    and "leaves_catalog e" and "\<And>t. outcome_at e t = Served"
    and "\<And>d j. index_to_json x d = Inr j \<Longrightarrow> index_from_json x j = Some d"
  shows "\<exists>w''. get_signed_index x org_slug name e w' = (Inr document, w'')"
proof -
  obtain token w1 org_row w2 pkg w3 keys w4 encoded d where
    tok: "require_token x headers e w = (Inr token, w1)"
    and org: "find_org org_slug e w1 = (Inr org_row, w2)"
    and pkg: "find_package org_row name e w2 = (Inr pkg, w3)"
    and keys: "load_keys x (o_id org_row) e w3 = (Inr keys, w4)"
    and enc: "index_to_json x document = Inr encoded"
    and upd: "execute (SetPackageIndex (p_id pkg) (Some encoded) (as_i64 (ia_sequence (si_payload document)))) e w4
      = (Inr d, w')"
    using assms(1) by (auto simp: put_signed_index_def bind_a_Inr_iff not_less)
  let ?f = "\<lambda>r. if p_id r = p_id pkg then r\<lparr>p_signed_index := Some encoded,
        p_index_sequence := as_i64 (ia_sequence (si_payload document))\<rparr> else r"
  note s = leaves_catalog_settle [OF assms(3)]
  have t1: "txn w1 = None" using require_token_txn [of x headers e w] tok assms(2) by auto
  have w2: "w2 = settle e w1" "org_by_slug org_slug (committed w2) = Some org_row"
    using org t1 by (auto simp: find_org_def bind_a_Inr_iff query_Inr_iff split: option.splits)
  have w3: "w3 = settle e w2" "package_by_name (o_id org_row) name (committed w3) = Some pkg"
    using pkg t1 w2(1) by (auto simp: find_package_def bind_a_Inr_iff query_Inr_iff split: option.splits)
  have w4: "w4 = settle e w3" using keys by (auto simp: load_keys_def bind_a_Inr_iff query_Inr_iff)
  have t4: "txn w4 = None" using t1 w2 w3 w4 by simp
  have ap: "apply_write (SetPackageIndex (p_id pkg) (Some encoded) (as_i64 (ia_sequence (si_payload document))))
      (committed (settle e w4)) = Inr (committed w')" and t': "txn w' = None"
    using execute_autocommit [OF t4 upd] by auto
  then have tables: "packages (committed w') = map ?f (packages (committed w3))"
      "orgs (committed w') = orgs (committed w2)"
    using s w4 w3 by (simp_all add: apply_update_iff)
  have found: "org_by_slug org_slug (committed (settle e w')) = Some org_row"
    using w2(2) tables(2) s by (simp add: org_by_slug_def)
  have "package_by_name (o_id org_row) name (committed (settle e (settle e w'))) = Some (?f pkg)"
    using w3(2) tables(1) s by (simp add: package_by_name_def find_map_same)
  then have "get_signed_index x org_slug name e w' = (Inr document, settle e (settle e w'))"
    using found assms(4) assms(5) [OF enc] t'
    by (simp add: get_signed_index_def find_org_def find_package_def bind_assoc bind_steps ok_or_def stored_index_def)
  then show ?thesis by blast
qed

subsection \<open>Examples and a race\<close>

definition key_2 :: key_row where
  "key_2 = \<lparr>k_id = 42, k_org_id = 7, k_key_id = ''k'', k_algorithm = ''ed25519'', k_public_key_multibase = ''p'',
     k_state = ''active'', k_revoked_reason = None, k_enrolled_at = 0\<rparr>"

definition db_5 :: db where
  "db_5 = db_3\<lparr>publisher_keys := [key_2]\<rparr>"

lemma db_5_sel [simp]:
  "tokens db_5 = [token_1]" "publisher_keys db_5 = [key_2]" "packages db_5 = [pkg_1]"
  "orgs db_5 = [\<lparr>o_id = 7, o_slug = ''acme'', o_created_at = 0, o_created_by_token = None\<rparr>]"
  by (simp_all add: db_5_def)

definition doc_1 :: signed_index where
  "doc_1 = \<lparr>si_schema = ''s'', si_payload = \<lparr>ia_org = ''acme'', ia_name = ''kit'', ia_sequence = 2,
      ia_versions = [], ia_mirrors = []\<rparr>,
    si_signatures = [\<lparr>ds_algorithm = ''ed25519'', ds_key_id = ''k'', ds_signature = ''pm''\<rparr>]\<rparr>"

lemma doc_1_sel [simp]:
  "si_payload doc_1 = \<lparr>ia_org = ''acme'', ia_name = ''kit'', ia_sequence = 2, ia_versions = [], ia_mirrors = []\<rparr>"
  "si_signatures doc_1 = [\<lparr>ds_algorithm = ''ed25519'', ds_key_id = ''k'', ds_signature = ''pm''\<rparr>]"
  by (simp_all add: doc_1_def)

text \<open>A coding of documents that decodes what it encodes: it refuses all documents but one.\<close>

definition toy_index :: index_ext where
  "toy_index = signing_ext.extend toy_signing
     \<lparr>SIGNED_INDEX_SCHEMA_V1 = ''s'', index_validate = (\<lambda>_. Inr ()), index_preimage = (\<lambda>_. Inr ''m''),
      index_to_json = (\<lambda>d. if d = doc_1 then Inr (JString ''doc'') else Inl ''unsupported''),
      index_from_json = (\<lambda>j. if j = JString ''doc'' then Some doc_1 else None),
      mirrors_from_json = (\<lambda>_. None), sort_desc = rev\<rparr>"

lemma toy_index_sel [simp]:
  "index_validate toy_index d = Inr ()" "index_preimage toy_index d = Inr ''m''"
  "index_to_json toy_index d = (if d = doc_1 then Inr (JString ''doc'') else Inl ''unsupported'')"
  "index_from_json toy_index j = (if j = JString ''doc'' then Some doc_1 else None)"
  "signing_algorithm toy_index = ''ed25519''" "state_verifies toy_index st = (st \<noteq> Revoked)"
  "public_key toy_index k = Inr (pk_public_key_multibase k)" "is_point toy_index p"
  "signature_bytes toy_index s = Inr (ds_signature s)" "verify_strict toy_index p m b = (b = p @ m)"
  "sha256_hex toy_index = sha256_hex toy_ext" "rfc3339 toy_index = rfc3339 toy_ext"
  by (simp_all add: toy_index_def toy_signing_def ext.defs signing_ext.defs)

text \<open>Another session bumps the package's sequence between the read and the update.\<close>

definition bumped :: "package_row" where
  "bumped = pkg_1\<lparr>p_index_sequence := 5\<rparr>"

definition racing :: "nat \<Rightarrow> env" where
  "racing n = calm\<lparr>peer_db := (\<lambda>t d. if t = n then d\<lparr>packages := [bumped]\<rparr> else d)\<rparr>"

lemma racing_sel [simp]:
  "peer_db (racing n) t d = (if t = n then d\<lparr>packages := [bumped]\<rparr> else d)" "peer_locks (racing n) t = []"
  "outcome_at (racing n) t = Served" "clock_at (racing n) t = int t"
  by (simp_all add: racing_def)

lemma racing_settle:
  "txn w = None \<Longrightarrow> settle (racing n) w =
     (if tick w = n then w\<lparr>committed := (committed w)\<lparr>packages := [bumped]\<rparr>, tick := Suc n\<rparr>
      else w\<lparr>tick := Suc (tick w)\<rparr>)"
  by (simp add: settle_def Let_def admits_def pending_def)

lemma token_5_run:
  "e = calm \<or> e = racing 5 \<Longrightarrow> require_token toy_index hdr_1 e (start db_5) = (Inr token_1, (start db_5)\<lparr>tick := 2\<rparr>)"
  by (auto simp: require_token_def hdr_1_def bearer_example monad_defs query_def utc_now_def Let_def racing_settle
      calm_settle find_token_by_hash_def hash_token_def token_1_def toy_ext_def)

lemma key_2_row: "row_to_key toy_index key_2 = \<lparr>pk_key_id = ''k'', pk_algorithm = ''ed25519'',
    pk_public_key_multibase = ''p'', pk_state = Active, pk_enrolled_at = Some ''t'', pk_revoked_reason = None\<rparr>"
  by (simp add: row_to_key_def key_2_def row_state_def toy_ext_def)

lemma doc_1_vouched:
  "verify_any toy_index ''m'' (si_signatures doc_1) [row_to_key toy_index key_2] = Inr (row_to_key toy_index key_2)"
  by (simp add: verify_any_def candidate_def verify_one_def key_2_row)

lemma pkg_1_sel [simp]:
  "p_id pkg_1 = 21" "p_org_id pkg_1 = 7" "p_name pkg_1 = ''kit''" "p_index_sequence pkg_1 = 2"
  by (simp_all add: pkg_1_def)

lemma as_64_small [simp]: "as_u64 2 = 2" "as_i64 2 = 2"
  by (simp_all add: as_u64_nonneg as_i64_small i64_max_def)

lemma put_index_example:
  assumes "e = calm \<or> e = racing 5"
  shows "\<exists>w'. put_signed_index toy_index ''acme'' ''kit'' hdr_1 doc_1 e (start db_5) = (Inr doc_1, w')
     \<and> packages (committed w') = [pkg_1\<lparr>p_signed_index := Some (JString ''doc''), p_index_sequence := 2\<rparr>]"
proof -
  have a: "authorize_publish (t_org_id token_1) (parse (t_role token_1)) 7 = Inr ()"
    by (simp add: token_1_def authorize_publish_def parse_def)
  have k: "k_org_id key_2 = 7" by (simp add: key_2_def)
  show ?thesis
    using assms token_5_run [OF assms]
    by (elim disjE)
       (simp_all add: put_signed_index_def bind_a_run bind_assoc find_org_def find_package_def load_keys_def bind_steps
        racing_settle calm_settle org_by_slug_def package_by_name_def key_rows_def a k doc_1_vouched [simplified]
        ok_or_def bind_execute store_write_def apply_write.simps update_row_def bumped_def)
qed

theorem put_signed_index_is_vouched_and_monotone_witness:
  "\<exists>w' pkg. put_signed_index toy_index ''acme'' ''kit'' hdr_1 doc_1 calm (start db_5) = (Inr doc_1, w')
     \<and> vouched_by toy_index ''m'' (si_signatures doc_1) key_2 \<and> packages (committed w') = [pkg]
     \<and> p_index_sequence pkg = 2 \<and> p_index_sequence pkg_1 \<le> p_index_sequence pkg"
proof -
  obtain w' where run: "put_signed_index toy_index ''acme'' ''kit'' hdr_1 doc_1 calm (start db_5) = (Inr doc_1, w')"
    using put_index_example by blast
  have "leaves_packages calm" by (simp add: leaves_packages_def)
  have keys: "publisher_keys (read_after (locate_package toy_index hdr_1 ''acme'' ''kit'') calm (start db_5)) = [key_2]"
    by (simp add: read_after_def locate_package_def locate_org_def bind_a_run token_5_run find_org_def find_package_def
        bind_steps bind_assoc calm_settle org_by_slug_def package_by_name_def ok_or_def)
  have packages: "packages (read_after (locate_org toy_index hdr_1 ''acme'') calm (start db_5)) = [pkg_1]"
    by (simp add: read_after_def locate_org_def bind_a_run token_5_run find_org_def bind_steps calm_settle
        org_by_slug_def ok_or_def)
  have "vouched_by toy_index ''m'' (si_signatures doc_1) key_2"
    and "\<exists>pkg \<in> set (packages (committed (start db_5))). packages (committed w') =
      map (\<lambda>r. if p_id r = p_id pkg then r\<lparr>p_signed_index := Some (JString ''doc''), p_index_sequence := 2\<rparr> else r) [pkg_1]"
    using put_signed_index_is_vouched_and_monotone [OF run, unfolded keys packages] \<open>leaves_packages calm\<close>
    by (auto simp: i64_max_def)
  then show ?thesis using run by auto
qed

theorem signed_index_round_trip_witness:
  "\<exists>w' w''. put_signed_index toy_index ''acme'' ''kit'' hdr_1 doc_1 calm (start db_5) = (Inr doc_1, w')
     \<and> get_signed_index toy_index ''acme'' ''kit'' calm w' = (Inr doc_1, w'')"
proof -
  obtain w' where run: "put_signed_index toy_index ''acme'' ''kit'' hdr_1 doc_1 calm (start db_5) = (Inr doc_1, w')"
    using put_index_example by blast
  have "leaves_catalog calm" by (simp add: leaves_catalog_def)
  moreover have "index_from_json toy_index j = Some d" if "index_to_json toy_index d = Inr j" for d j
    using that by (simp split: if_splits)
  ultimately show ?thesis using signed_index_round_trip [OF run] run by simp
qed

text \<open>The sequence is compared with the package row as it was read, and the update carries no
  condition, so a replacement that races with a publish can store a smaller sequence than the one
  the publish had just committed: here sequence 5 is committed right before the update runs, and
  the accepted document puts the package back to sequence 2.
\<close>

theorem concurrent_bump_is_rolled_back:
  "\<exists>w'. put_signed_index toy_index ''acme'' ''kit'' hdr_1 doc_1 (racing 5) (start db_5) = (Inr doc_1, w')
     \<and> map p_index_sequence (packages (peer_db (racing 5) 5 db_5)) = [5]
     \<and> map p_index_sequence (packages (committed w')) = [2]"
proof -
  have "map p_index_sequence (packages (peer_db (racing 5) 5 db_5)) = [5]" by (simp add: bumped_def)
  then show ?thesis using put_index_example [of "racing 5"] by auto
qed

subsection \<open>Invariants\<close>

lemma immutable_put_signed_index [keep_rules]: "keeps frozen_rely (frozen v) (put_signed_index x org name h d)"
  unfolding put_signed_index_def find_org_def find_package_def load_keys_def by (intro keep_rules)

lemma schema_put_signed_index [keep_rules]: "keeps schema_rely schema_inv (put_signed_index x org name h d)"
  unfolding put_signed_index_def find_org_def find_package_def load_keys_def by (intro keep_rules)

end
