(* ===== verification/Verify.thy ===== *)
theory Verify
  imports World
begin

section \<open>Tag verification (\<^verbatim>\<open>src/verify.rs\<close>)\<close>

text \<open>
  Before a version is published the server asks the forge whether the declared tag exists. Only
  repositories on \<open>github.com\<close> are asked; which version control systems use git tags and
  what the forge answers are parameters.
\<close>

datatype tag_policy = Off | Github

datatype tag_check = Skipped | Verified "string option" | Missing

subsection \<open>Repository addresses\<close>

definition trim_end_str :: "string \<Rightarrow> string \<Rightarrow> string" where
  "trim_end_str p s = rev (trim_with [rev p] (rev s))"

definition repo_char :: "char \<Rightarrow> bool" where
  "repo_char c \<longleftrightarrow> is_ascii_alphanumeric c \<or> c = CHR ''.'' \<or> c = CHR ''_'' \<or> c = CHR ''-''"

definition valid_repo_segment :: "string \<Rightarrow> bool" where
  "valid_repo_segment segment \<longleftrightarrow>
     segment \<noteq> [] \<and> list_all repo_char segment
     \<and> trim_end_matches (CHR ''.'') (trim_start_matches (CHR ''.'') segment) \<noteq> []"

definition or_else :: "'a option \<Rightarrow> 'a option \<Rightarrow> 'a option" where
  "or_else a b = (case a of None \<Rightarrow> b | Some _ \<Rightarrow> a)"

definition parse_github :: "string \<Rightarrow> (string \<times> string) option" where
  "parse_github repo_url =
     Option.bind
       (or_else (or_else (strip_prefix repo_url ''https://github.com/'') (strip_prefix repo_url ''http://github.com/''))
          (strip_prefix repo_url ''git@github.com:''))
       (\<lambda>rest.
          case split_once (CHR ''/'') (trim_end_str ''.git'' (trim_end_matches (CHR ''/'') rest)) of
            Some (owner, repo) \<Rightarrow>
              if CHR ''/'' \<notin> set repo \<and> valid_repo_segment owner \<and> valid_repo_segment repo
              then Some (owner, repo) else None
          | None \<Rightarrow> None)"

subsection \<open>The request\<close>

text \<open>\<open>utf8\_percent\_encode\<close> with the unreserved characters of RFC 3986 left alone.\<close>

definition unreserved :: "char \<Rightarrow> bool" where
  "unreserved c \<longleftrightarrow> is_ascii_alphanumeric c \<or> c \<in> set ''-._~''"

definition upper_nibble :: "nat \<Rightarrow> char" where
  "upper_nibble n = ''0123456789ABCDEF'' ! n"

definition encode_byte :: "char \<Rightarrow> string" where
  "encode_byte c =
     (if unreserved c then [c]
      else [CHR ''%'', upper_nibble (byte_of c div 16), upper_nibble (byte_of c mod 16)])"

definition percent_encode :: "string \<Rightarrow> string" where
  "percent_encode s = concat (map encode_byte s)"

definition tag_url :: "string \<Rightarrow> string \<Rightarrow> string \<Rightarrow> string" where
  "tag_url owner repo tag =
     ''https://api.github.com/repos/'' @ percent_encode owner @ ''/'' @ percent_encode repo
     @ ''/git/ref/tags/'' @ percent_encode tag"

text \<open>
  The forge: a URL and a bearer token at some moment give a transport error or a status with the
  body, which may not be JSON.
\<close>

type_synonym forge = "string \<Rightarrow> string option \<Rightarrow> nat \<Rightarrow> unit + nat \<times> json option"

definition send :: "forge \<Rightarrow> string \<Rightarrow> string option \<Rightarrow> (unit, nat \<times> json option) act" where
  "send forge url token e w = (forge url token (tick w), w\<lparr>tick := Suc (tick w)\<rparr>)"

fun json_index :: "json \<Rightarrow> string \<Rightarrow> json" where
  "json_index (JObject members) k = (case map_of members k of None \<Rightarrow> JNull | Some v \<Rightarrow> v)"
| "json_index _ k = JNull"

fun json_as_str :: "json \<Rightarrow> string option" where
  "json_as_str (JString s) = Some s"
| "json_as_str _ = None"

definition ref_commit :: "json \<Rightarrow> string option" where
  "ref_commit body =
     (if json_as_str (json_index (json_index body ''object'') ''type'') = Some ''commit''
      then json_as_str (json_index (json_index body ''object'') ''sha'') else None)"

record tag_verifier =
  tv_policy :: tag_policy
  tv_github_token :: "string option"
  tv_forge :: forge
  tv_uses_git_tags :: "string \<Rightarrow> bool"

definition verify_tag :: "tag_verifier \<Rightarrow> string \<Rightarrow> string \<Rightarrow> string \<Rightarrow> (unit, tag_check) act" where
  "verify_tag tv vcs repo_url tag =
     (if tv_policy tv = Off then ret Skipped
      else if \<not> tv_uses_git_tags tv vcs then ret Skipped
      else (case parse_github repo_url of
              None \<Rightarrow> ret Skipped
            | Some (owner, repo) \<Rightarrow>
                bind_a (send (tv_forge tv) (tag_url owner repo tag) (tv_github_token tv)) (\<lambda>(status, body).
                  if status = 404 then ret Missing
                  else bind_a (lift (guard_r (\<not> (400 \<le> status \<and> status < 600)) ())) (\<lambda>_.
                       bind_a (lift (ok_or () body)) (\<lambda>json.
                         ret (Verified (ref_commit json)))))))"

subsection \<open>Properties\<close>

lemma repo_char_unreserved: "repo_char c \<Longrightarrow> unreserved c"
  by (auto simp: repo_char_def unreserved_def)

lemma percent_encode_id: "list_all unreserved s \<Longrightarrow> percent_encode s = s"
  by (induction s) (auto simp: percent_encode_def encode_byte_def)

lemma upper_nibble_chars: "n < 16 \<Longrightarrow> upper_nibble n \<in> set ''0123456789ABCDEF''"
  unfolding upper_nibble_def by (rule nth_mem) simp

lemma percent_encode_chars:
  "c \<in> set (percent_encode s) \<Longrightarrow> c \<notin> set ''/?#''"
proof -
  assume "c \<in> set (percent_encode s)"
  then obtain b where b: "c \<in> set (encode_byte b)" by (auto simp: percent_encode_def)
  have "byte_of b < 256" by (simp add: byte_of_def)
  then have n: "upper_nibble (byte_of b div 16) \<in> set ''0123456789ABCDEF''"
      "upper_nibble (byte_of b mod 16) \<in> set ''0123456789ABCDEF''"
    using upper_nibble_chars by auto
  show ?thesis
  proof (cases "unreserved b")
    case True
    then show ?thesis
      using b by (auto simp: encode_byte_def unreserved_def ascii_defs)
  next
    case False
    then have "c \<in> set ''%0123456789ABCDEF''" using b n by (auto simp: encode_byte_def)
    then show ?thesis by auto
  qed
qed

lemma parse_github_Some:
  "parse_github url = Some (owner, repo) \<Longrightarrow>
     valid_repo_segment owner \<and> valid_repo_segment repo \<and> CHR ''/'' \<notin> set repo \<and> CHR ''/'' \<notin> set owner"
  by (auto simp: parse_github_def split: option.splits bind_splits if_splits
      dest: split_once_Some_iff [THEN iffD1])

text \<open>Reading a percent-encoded segment.\<close>

definition hex_value :: "char \<Rightarrow> nat" where
  "hex_value c = (if byte_of c < 58 then byte_of c - 48 else byte_of c - 55)"

fun percent_decode :: "string \<Rightarrow> string" where
  "percent_decode (c # h # l # s) =
     (if c = CHR ''%'' then char_of (16 * hex_value h + hex_value l) # percent_decode s
      else c # percent_decode (h # l # s))"
| "percent_decode s = s"

lemma hex_value_nibble: "n < 16 \<Longrightarrow> hex_value (upper_nibble n) = n"
proof -
  assume "n < 16"
  then have "n \<in> set [0..<16]" by simp
  moreover have "list_all (\<lambda>n. hex_value (upper_nibble n) = n) [0..<16]"
    by (simp add: upt_rec hex_value_def upper_nibble_def byte_of_def)
  ultimately show ?thesis by (simp only: list_all_iff)
qed

lemma percent_decode_plain: "c \<noteq> CHR ''%'' \<Longrightarrow> percent_decode (c # s) = c # percent_decode s"
proof (cases s)
  case (Cons h t)
  assume "c \<noteq> CHR ''%''"
  then show ?thesis using Cons by (cases t) auto
qed simp

lemma percent_decode_encode: "percent_decode (percent_encode s) = s"
proof (induction s)
  case (Cons c s)
  have "byte_of c < 256" by (simp add: byte_of_def)
  then have "16 * hex_value (upper_nibble (byte_of c div 16)) + hex_value (upper_nibble (byte_of c mod 16)) = byte_of c"
    using hex_value_nibble [of "byte_of c div 16"] hex_value_nibble [of "byte_of c mod 16"] by simp
  moreover have "unreserved c \<Longrightarrow> c \<noteq> CHR ''%''"
    by (auto simp: unreserved_def ascii_defs)
  moreover have "percent_encode (c # s) = encode_byte c @ percent_encode s" by (simp add: percent_encode_def)
  ultimately show ?case
    using Cons by (simp add: encode_byte_def percent_decode_plain byte_of_def)
qed (simp add: percent_encode_def)

text \<open>The request sent to the forge asks for exactly the declared tag: for every repository
  address that is recognised and every tag, the path has the ten segments of the reference
  endpoint, the owner and repository appear verbatim, the last segment decodes to the tag, and
  nothing in it can start a query or a fragment.\<close>

theorem tag_url_names_exactly_the_tag:
  assumes "parse_github repo_url = Some (owner, repo)"
  shows "split_on (CHR ''/'') (tag_url owner repo tag) =
      [''https:'', [], ''api.github.com'', ''repos'', owner, repo, ''git'', ''ref'', ''tags'', percent_encode tag]
    \<and> percent_decode (percent_encode tag) = tag
    \<and> set (tag_url owner repo tag) \<inter> set ''?#'' = {}"
proof -
  note seg = parse_github_Some [OF assms]
  have "list_all unreserved owner" "list_all unreserved repo"
    using seg repo_char_unreserved by (auto simp: valid_repo_segment_def list_all_iff)
  then have enc: "percent_encode owner = owner" "percent_encode repo = repo"
    by (simp_all add: percent_encode_id)
  let ?segments = "[''https:'', [], ''api.github.com'', ''repos'', owner, repo, ''git'', ''ref'', ''tags'', percent_encode tag]"
  have url: "tag_url owner repo tag = join_with ''/'' ?segments" by (simp add: tag_url_def enc)
  have noslash: "CHR ''/'' \<notin> set p" if "p \<in> set ?segments" for p
    using that seg percent_encode_chars [of "CHR ''/''" tag] by auto
  have "split_on (CHR ''/'') (tag_url owner repo tag) = ?segments"
    unfolding url by (rule split_on_join) (simp, rule noslash)
  moreover have "CHR ''?'' \<notin> set (percent_encode s)" "CHR ''#'' \<notin> set (percent_encode s)" for s
    using percent_encode_chars [of "CHR ''?''" s] percent_encode_chars [of "CHR ''#''" s] by auto
  then have "set (tag_url owner repo tag) \<inter> set ''?#'' = {}" by (simp add: tag_url_def)
  ultimately show ?thesis using percent_decode_encode by blast
qed

lemma verify_tag_cases:
  assumes "verify_tag tv vcs repo_url tag e w = (Inr check, w')"
  shows "(check = Skipped \<and> (tv_policy tv = Off \<or> \<not> tv_uses_git_tags tv vcs \<or> parse_github repo_url = None))
    \<or> (\<exists>owner repo status body. parse_github repo_url = Some (owner, repo)
         \<and> tv_forge tv (tag_url owner repo tag) (tv_github_token tv) (tick w) = Inr (status, body)
         \<and> (if status = 404 then check = Missing
            else \<not> (400 \<le> status \<and> status < 600) \<and> (\<exists>json. body = Some json \<and> check = Verified (ref_commit json))))"
  using assms
  by (auto simp: verify_tag_def bind_a_Inr_iff send_def split: if_splits option.splits prod.splits)

lemma verify_tag_world: "snd (verify_tag tv vcs url tag e w) = w \<or> snd (verify_tag tv vcs url tag e w) = w\<lparr>tick := Suc (tick w)\<rparr>"
  by (auto simp: verify_tag_def bind_a_def send_def split: option.split prod.split sum.split)

theorem tag_url_names_exactly_the_tag_witness:
  "split_on (CHR ''/'') (tag_url ''zed'' ''kit'' ''v1/x?y'') =
     [''https:'', [], ''api.github.com'', ''repos'', ''zed'', ''kit'', ''git'', ''ref'', ''tags'', ''v1%2Fx%3Fy'']"
proof -
  have "parse_github ''https://github.com/zed/kit.git/'' = Some (''zed'', ''kit'')"
    by (simp add: parse_github_def strip_prefix_def starts_with_def or_else_def trim_end_matches_def trim_end_str_def
        trim_with.simps split_once_def valid_repo_segment_def repo_char_def ascii_defs trim_start_matches_def)
  moreover have "percent_encode ''v1/x?y'' = ''v1%2Fx%3Fy''"
    by (simp add: percent_encode_def encode_byte_def unreserved_def ascii_defs upper_nibble_def)
  ultimately show ?thesis using tag_url_names_exactly_the_tag by metis
qed

end
