(* ===== verification/Storage.thy ===== *)
theory Storage
  imports Verify StorageReport External
begin

section \<open>The artifact store (\<^verbatim>\<open>src/storage.rs\<close>)\<close>

text \<open>
  One content-addressed store behind three backends. The objects of the live backend are the
  \<open>objects\<close> of the world: keys for process memory and for a bucket, paths (staging files
  included) for a directory. Every request to the backend is one step: other processes may have
  changed the objects before it, and it may fail before or after taking effect. Error texts are
  constructors of \<open>store_err\<close>; the handlers turn all of them into the same response.
\<close>

datatype artifact_store = Memory nat | Local string | S3 string

definition MAX_BUFFERED_ARTIFACT_BYTES :: nat where
  "MAX_BUFFERED_ARTIFACT_BYTES = 100 * 1024 * 1024"

definition IMMUTABLE_CACHE_CONTROL :: string where
  "IMMUTABLE_CACHE_CONTROL = ''public, max-age=31536000, immutable''"

definition COPY_BUFFER_BYTES :: nat where
  "COPY_BUFFER_BYTES = 64 * 1024"

record expected_artifact =
  ea_len :: nat
  ea_sha256 :: string
  ea_content_type :: string

datatype io_kind = IoNotFound | IoAlreadyExists | IoOther

datatype store_err =
    InvalidDigest
  | MemoryConflict string
  | AccountingOverflow
  | CapacityExceeded nat nat
  | LocalConflict string
  | NoParent
  | NoFileName
  | LostRace string
  | PutRejected
  | PutUnverified store_err
  | GetFailed
  | LengthOverflow
  | NotInMemory string
  | PresignFailed
  | TooLargeToBuffer string nat
  | Io io_kind

subsection \<open>Steps of the backend\<close>

definition look :: "(string \<times> blob) list \<Rightarrow> string \<Rightarrow> blob option" where
  "look os k = map_of os k"

definition set_object :: "string \<Rightarrow> blob \<Rightarrow> (string \<times> blob) list \<Rightarrow> (string \<times> blob) list" where
  "set_object k b os = (k, b) # filter (\<lambda>(k', _). k' \<noteq> k) os"

definition del_object :: "string \<Rightarrow> (string \<times> blob) list \<Rightarrow> (string \<times> blob) list" where
  "del_object k os = filter (\<lambda>(k', _). k' \<noteq> k) os"

definition store_settle :: "env \<Rightarrow> world \<Rightarrow> world" where
  "store_settle e w = w\<lparr>objects := peer_objects e (tick w) (objects w), tick := Suc (tick w)\<rparr>"

text \<open>
  A request: \<open>f\<close> maps the objects it finds to its answer and the objects it leaves. A refused
  request does nothing, an unacknowledged one has its effect and reports a failure.
\<close>

definition request ::
  "'e \<Rightarrow> ((string \<times> blob) list \<Rightarrow> ('e + 'a) \<times> (string \<times> blob) list) \<Rightarrow> ('e, 'a) act" where
  "request failure f e w =
     (let w' = store_settle e w; (r, os) = f (objects w'); out = outcome_at e (tick w)
      in if out = Served then (r, w'\<lparr>objects := os\<rparr>)
         else if out = Unacknowledged then (Inl failure, w'\<lparr>objects := os\<rparr>)
         else (Inl failure, w'))"

text \<open>Process memory cannot fail: the lock is taken and the map is there.\<close>

definition locked ::
  "((string \<times> blob) list \<Rightarrow> ('e + 'a) \<times> (string \<times> blob) list) \<Rightarrow> ('e, 'a) act" where
  "locked f e w =
     (let w' = store_settle e w; (r, os) = f (objects w') in (r, w'\<lparr>objects := os\<rparr>))"

definition plain_blob :: "string \<Rightarrow> blob" where
  "plain_blob bytes = \<lparr>content = bytes, content_type = None, cache_control = None, sha256_metadata = None\<rparr>"

text \<open>A path is a directory when some object lies below it.\<close>

definition is_directory :: "(string \<times> blob) list \<Rightarrow> string \<Rightarrow> bool" where
  "is_directory os path \<longleftrightarrow> list_ex (\<lambda>(k, _). starts_with k (path @ ''/'')) os"

definition fs_metadata :: "string \<Rightarrow> (io_kind, bool \<times> nat) act" where
  "fs_metadata path = request IoOther (\<lambda>os.
     (case look os path of
        Some b \<Rightarrow> Inr (True, length (content b))
      | None \<Rightarrow> if is_directory os path then Inr (False, 0) else Inl IoNotFound, os))"

definition fs_open :: "string \<Rightarrow> (io_kind, string) act" where
  "fs_open path = request IoOther (\<lambda>os.
     (case look os path of Some b \<Rightarrow> Inr (content b) | None \<Rightarrow> Inl IoNotFound, os))"

definition fs_step :: "(io_kind, unit) act" where
  "fs_step = request IoOther (\<lambda>os. (Inr (), os))"

definition fs_create_new :: "string \<Rightarrow> (io_kind, unit) act" where
  "fs_create_new path = request IoOther (\<lambda>os.
     if look os path \<noteq> None \<or> is_directory os path then (Inl IoAlreadyExists, os)
     else (Inr (), set_object path (plain_blob []) os))"

definition fs_write_all :: "string \<Rightarrow> string \<Rightarrow> (io_kind, unit) act" where
  "fs_write_all path bytes = request IoOther (\<lambda>os. (Inr (), set_object path (plain_blob bytes) os))"

definition fs_hard_link :: "string \<Rightarrow> string \<Rightarrow> (io_kind, unit) act" where
  "fs_hard_link source path = request IoOther (\<lambda>os.
     case look os source of
       None \<Rightarrow> (Inl IoNotFound, os)
     | Some b \<Rightarrow> if look os path \<noteq> None \<or> is_directory os path then (Inl IoAlreadyExists, os)
                else (Inr (), set_object path b os))"

definition fs_remove_file :: "string \<Rightarrow> (io_kind, unit) act" where
  "fs_remove_file path = request IoOther (\<lambda>os.
     if look os path = None then (Inl IoNotFound, os) else (Inr (), del_object path os))"

definition s3_put_object :: "string \<Rightarrow> blob \<Rightarrow> (unit, unit) act" where
  "s3_put_object key b = request () (\<lambda>os.
     if look os key \<noteq> None then (Inl (), os) else (Inr (), set_object key b os))"

definition s3_get_object :: "string \<Rightarrow> (unit, blob) act" where
  "s3_get_object key = request () (\<lambda>os.
     (case look os key of None \<Rightarrow> Inl () | Some b \<Rightarrow> Inr b, os))"

subsection \<open>Hashing a stream\<close>

text \<open>
  A reader yields its bytes in pieces; the loop stops as soon as more than the expected length was
  read. The pieces of a stored object are buffers of 64 KiB; the result does not depend on them.
\<close>

fun hash_pieces :: "('x ext_scheme) \<Rightarrow> nat \<Rightarrow> nat \<Rightarrow> string \<Rightarrow> string list \<Rightarrow> store_err + nat \<times> string" where
  "hash_pieces x expected_len len hashed [] = Inr (len, sha256_hex x hashed)"
| "hash_pieces x expected_len len hashed (piece # pieces) =
     (case checked_add len (length piece) of
        None \<Rightarrow> Inl LengthOverflow
      | Some len' \<Rightarrow>
          if expected_len < len' then Inr (len', [])
          else hash_pieces x expected_len len' (hashed @ piece) pieces)"

function buffers :: "string \<Rightarrow> string list" where
  "buffers s = (if s = [] then [] else take COPY_BUFFER_BYTES s # buffers (drop COPY_BUFFER_BYTES s))"
  by pat_completeness auto
termination
  by (relation "measure length") (auto simp: COPY_BUFFER_BYTES_def)

declare buffers.simps [simp del]

definition hash_async_reader :: "('x ext_scheme) \<Rightarrow> string \<Rightarrow> nat \<Rightarrow> store_err + nat \<times> string" where
  "hash_async_reader x body expected_len = hash_pieces x expected_len 0 [] (buffers body)"

subsection \<open>Comparing with what is stored\<close>

definition matches_hash :: "expected_artifact \<Rightarrow> nat \<times> string \<Rightarrow> bool" where
  "matches_hash expected r \<longleftrightarrow> fst r = ea_len expected \<and> snd r = ea_sha256 expected"

definition local_object_matches ::
  "('x ext_scheme) \<Rightarrow> string \<Rightarrow> expected_artifact \<Rightarrow> (store_err, bool option) act" where
  "local_object_matches x path expected =
     bind_a (attempt (fs_metadata path)) (\<lambda>metadata.
       case metadata of
         Inl IoNotFound \<Rightarrow> ret None
       | Inl k \<Rightarrow> throw (Io k)
       | Inr (is_file, len) \<Rightarrow>
           if \<not> is_file \<or> len \<noteq> ea_len expected then ret (Some False)
           else bind_a (map_err Io (fs_open path)) (\<lambda>body.
                bind_a (lift (hash_async_reader x body (ea_len expected))) (\<lambda>r.
                  ret (Some (matches_hash expected r)))))"

definition object_metadata_matches :: "blob \<Rightarrow> expected_artifact \<Rightarrow> bool" where
  "object_metadata_matches object expected \<longleftrightarrow>
     length (content object) = ea_len expected
     \<and> content_type object = Some (ea_content_type expected)
     \<and> cache_control object = Some IMMUTABLE_CACHE_CONTROL
     \<and> sha256_metadata object = Some (ea_sha256 expected)"

definition s3_object_matches ::
  "('x ext_scheme) \<Rightarrow> string \<Rightarrow> expected_artifact \<Rightarrow> (store_err, bool) act" where
  "s3_object_matches x key expected =
     bind_a (map_err (\<lambda>_. GetFailed) (s3_get_object key)) (\<lambda>object.
       if \<not> object_metadata_matches object expected then ret False
       else bind_a (lift (hash_async_reader x (content object) (ea_len expected))) (\<lambda>r.
              ret (matches_hash expected r)))"

subsection \<open>Writing\<close>

text \<open>
  \<open>PathBuf::join\<close>, \<open>Path::parent\<close> and \<open>Path::file\_name\<close> on paths without dot segments
  and without a trailing slash, as the store's keys give them; the parent keeps its slash.
\<close>

definition local_path :: "string \<Rightarrow> string \<Rightarrow> string" where
  "local_path dir key =
     (if starts_with key ''/'' then key
      else if dir = [] \<or> ends_with dir ''/'' then dir @ key else dir @ ''/'' @ key)"

definition split_path :: "string \<Rightarrow> (string \<times> string) option" where
  "split_path path =
     (if path = [] \<or> path = ''/'' then None
      else case rsplit_once (CHR ''/'') path of
             None \<Rightarrow> Some ([], path)
           | Some (parent, file_name) \<Rightarrow> Some (parent @ ''/'', file_name))"

definition staging_path :: "('x ext_scheme) \<Rightarrow> string \<Rightarrow> string \<Rightarrow> uuid \<Rightarrow> string" where
  "staging_path x parent file_name u =
     parent @ ''.'' @ file_name @ ''.upload-'' @ uuid_str x u @ ''.tmp''"

definition promote ::
  "('x ext_scheme) \<Rightarrow> string \<Rightarrow> string \<Rightarrow> expected_artifact \<Rightarrow> (store_err, unit) act" where
  "promote x temporary path expected =
     bind_a (attempt (fs_hard_link temporary path)) (\<lambda>linked.
       case linked of
         Inr _ \<Rightarrow> ret ()
       | Inl IoAlreadyExists \<Rightarrow>
           bind_a (local_object_matches x path expected) (\<lambda>found.
             case found of
               Some True \<Rightarrow> ret ()
             | Some False \<Rightarrow> throw (LostRace path)
             | None \<Rightarrow> throw (Io IoAlreadyExists))
       | Inl k \<Rightarrow> throw (Io k))"

definition stage_and_promote ::
  "('x ext_scheme) \<Rightarrow> string \<Rightarrow> string \<Rightarrow> string \<Rightarrow> expected_artifact \<Rightarrow> (store_err, unit) act" where
  "stage_and_promote x temporary path bytes expected =
     bind_a (map_err Io (fs_create_new temporary)) (\<lambda>_.
     bind_a (map_err Io (fs_write_all temporary bytes)) (\<lambda>_.
     bind_a (map_err Io fs_step) (\<lambda>_.
     bind_a (map_err Io fs_step) (\<lambda>_.
       promote x temporary path expected))))"

definition put_absent ::
  "('x ext_scheme) \<Rightarrow> string \<Rightarrow> string \<Rightarrow> expected_artifact \<Rightarrow> (store_err, unit) act" where
  "put_absent x path bytes expected =
     bind_a (lift (ok_or NoParent (split_path path))) (\<lambda>(parent, file_name).
     bind_a (map_err Io fs_step) (\<lambda>_.
     bind_a (lift (guard_r (file_name \<noteq> []) NoFileName)) (\<lambda>_.
     bind_a new_v4 (\<lambda>u.
     bind_a (attempt (stage_and_promote x (staging_path x parent file_name u) path bytes expected)) (\<lambda>result.
     bind_a (attempt (fs_remove_file (staging_path x parent file_name u))) (\<lambda>cleanup.
       case result of
         Inl err \<Rightarrow> throw err
       | Inr _ \<Rightarrow>
           (case cleanup of
              Inl IoNotFound \<Rightarrow> map_err Io fs_step
            | Inl k \<Rightarrow> throw (Io k)
            | Inr _ \<Rightarrow> map_err Io fs_step)))))))"

definition put_local ::
  "('x ext_scheme) \<Rightarrow> string \<Rightarrow> string \<Rightarrow> expected_artifact \<Rightarrow> (store_err, unit) act" where
  "put_local x path bytes expected =
     bind_a (local_object_matches x path expected) (\<lambda>found.
       case found of
         Some True \<Rightarrow> ret ()
       | Some False \<Rightarrow> throw (LocalConflict path)
       | None \<Rightarrow> put_absent x path bytes expected)"

fun total_bytes :: "nat \<Rightarrow> (string \<times> blob) list \<Rightarrow> nat option" where
  "total_bytes acc [] = Some acc"
| "total_bytes acc ((_, b) # os) = Option.bind (checked_add acc (length (content b))) (\<lambda>n. total_bytes n os)"

definition put_memory :: "nat \<Rightarrow> string \<Rightarrow> string \<Rightarrow> (store_err, unit) act" where
  "put_memory max_bytes key bytes = locked (\<lambda>os.
     case look os key of
       Some existing \<Rightarrow> (if content existing = bytes then Inr () else Inl (MemoryConflict key), os)
     | None \<Rightarrow>
         (case Option.bind (total_bytes 0 os) (\<lambda>retained. checked_add retained (length bytes)) of
            None \<Rightarrow> (Inl AccountingOverflow, os)
          | Some next_bytes \<Rightarrow>
              if max_bytes < next_bytes then (Inl (CapacityExceeded next_bytes max_bytes), os)
              else (Inr (), set_object key (plain_blob bytes) os)))"

definition put_s3 :: "('x ext_scheme) \<Rightarrow> string \<Rightarrow> string \<Rightarrow> expected_artifact \<Rightarrow> (store_err, unit) act" where
  "put_s3 x key bytes expected =
     bind_a (attempt (s3_put_object key
       \<lparr>content = bytes, content_type = Some (ea_content_type expected),
        cache_control = Some IMMUTABLE_CACHE_CONTROL, sha256_metadata = Some (ea_sha256 expected)\<rparr>)) (\<lambda>put.
       case put of
         Inr _ \<Rightarrow> ret ()
       | Inl _ \<Rightarrow>
           bind_a (attempt (s3_object_matches x key expected)) (\<lambda>found.
             case found of
               Inr True \<Rightarrow> ret ()
             | Inr False \<Rightarrow> throw PutRejected
             | Inl verify_error \<Rightarrow> throw (PutUnverified verify_error)))"

definition is_digest :: "string \<Rightarrow> bool" where
  "is_digest s \<longleftrightarrow> length s = 64 \<and> list_all (\<lambda>c. is_ascii_hexdigit c \<and> \<not> is_ascii_uppercase c) s"

definition put_verified ::
  "('x ext_scheme) \<Rightarrow> artifact_store \<Rightarrow> string \<Rightarrow> string \<Rightarrow> string \<Rightarrow> string \<Rightarrow> (store_err, unit) act" where
  "put_verified x store key bytes ctype sha256 =
     (if \<not> is_digest sha256 then throw InvalidDigest
      else let expected = \<lparr>ea_len = length bytes, ea_sha256 = sha256, ea_content_type = ctype\<rparr>
           in case store of
                Memory max_bytes \<Rightarrow> put_memory max_bytes key bytes
              | Local dir \<Rightarrow> put_local x (local_path dir key) bytes expected
              | S3 _ \<Rightarrow> put_s3 x key bytes expected)"

text \<open>A loop whose body may return early.\<close>

fun for_each :: "('k \<Rightarrow> ('e, unit) act) \<Rightarrow> 'k list \<Rightarrow> ('e, unit) act" where
  "for_each body [] = ret ()"
| "for_each body (k # ks) = bind_a (body k) (\<lambda>_. for_each body ks)"

definition put_public_aliases ::
  "('x ext_scheme) \<Rightarrow> artifact_store \<Rightarrow> string list \<Rightarrow> string \<Rightarrow> string \<Rightarrow> string \<Rightarrow> (store_err, unit) act" where
  "put_public_aliases x store keys bytes ctype sha256 =
     (case store of
        Memory _ \<Rightarrow> ret ()
      | _ \<Rightarrow> for_each (\<lambda>key. put_verified x store key bytes ctype sha256) keys)"

subsection \<open>Reading\<close>

datatype download = Redirect string | DownloadBytes string | DownloadFile string nat

definition guard_buffered :: "string \<Rightarrow> nat \<Rightarrow> store_err + unit" where
  "guard_buffered key len = guard_r (\<not> MAX_BUFFERED_ARTIFACT_BYTES < len) (TooLargeToBuffer key len)"

text \<open>\<open>presign\<close> makes the signed URL of a bucket and key, with the cache policy and lifetime.\<close>

definition download ::
  "(string \<Rightarrow> string \<Rightarrow> string \<Rightarrow> nat \<Rightarrow> string option) \<Rightarrow> artifact_store \<Rightarrow> string \<Rightarrow> (store_err, download) act" where
  "download presign store key =
     (case store of
        Memory _ \<Rightarrow>
          locked (\<lambda>os. (case look os key of None \<Rightarrow> Inl (NotInMemory key) | Some b \<Rightarrow> Inr (DownloadBytes (content b)), os))
      | Local dir \<Rightarrow>
          bind_a (map_err Io (fs_open (local_path dir key))) (\<lambda>body.
          bind_a (map_err Io fs_step) (\<lambda>_. ret (DownloadFile body (length body))))
      | S3 bucket \<Rightarrow>
          lift (map_sum id Redirect (ok_or PresignFailed (presign bucket key IMMUTABLE_CACHE_CONTROL 600))))"

definition get_bytes :: "artifact_store \<Rightarrow> string \<Rightarrow> (store_err, string) act" where
  "get_bytes store key =
     (case store of
        Memory _ \<Rightarrow>
          bind_a (locked (\<lambda>os. (case look os key of None \<Rightarrow> Inl (NotInMemory key) | Some b \<Rightarrow> Inr (content b), os))) (\<lambda>bytes.
          bind_a (lift (guard_buffered key (length bytes))) (\<lambda>_. ret bytes))
      | Local dir \<Rightarrow>
          bind_a (map_err Io (fs_metadata (local_path dir key))) (\<lambda>(_, len).
          bind_a (lift (guard_buffered key len)) (\<lambda>_.
            map_err Io (fs_open (local_path dir key))))
      | S3 _ \<Rightarrow>
          bind_a (map_err (\<lambda>_. GetFailed) (s3_get_object key)) (\<lambda>object.
          bind_a (lift (guard_buffered key (length (content object)))) (\<lambda>_.
          bind_a (lift (guard_buffered key (length (content object)))) (\<lambda>_.
            ret (content object)))))"

definition is_not_found :: "string \<Rightarrow> bool" where
  "is_not_found rendered \<longleftrightarrow>
     (let lowered = to_ascii_lowercase rendered
      in contains_str lowered ''notfound'' \<or> contains_str lowered ''not found''
         \<or> contains_str lowered ''nosuchkey'' \<or> contains_str lowered ''status code: 404'')"

text \<open>
  \<open>modified\<close> gives the modification time the backend reports for an object, already printed;
  \<open>head_error\<close> is the SDK's rendering of a failed HEAD, of an absent key or of a refusal.
\<close>

definition head ::
  "(string \<Rightarrow> string option) \<Rightarrow> (bool \<Rightarrow> string) \<Rightarrow> artifact_store \<Rightarrow> string \<Rightarrow> (store_err + string, object_head option) act" where
  "head modified head_error store key =
     (case store of
        Memory _ \<Rightarrow>
          locked (\<lambda>os. (Inr (map_option (\<lambda>b. no_head\<lparr>oh_size := Some (length (content b))\<rparr>) (look os key)), os))
      | Local dir \<Rightarrow>
          bind_a (attempt (fs_metadata (local_path dir key))) (\<lambda>metadata.
            case metadata of
              Inr (_, len) \<Rightarrow>
                ret (Some (no_head\<lparr>oh_size := Some len, oh_last_modified := modified (local_path dir key)\<rparr>))
            | Inl IoNotFound \<Rightarrow> ret None
            | Inl k \<Rightarrow> throw (Inl (Io k)))
      | S3 _ \<Rightarrow>
          bind_a (attempt (request False (\<lambda>os. (case look os key of None \<Rightarrow> Inl True | Some b \<Rightarrow> Inr b, os)))) (\<lambda>response.
            case response of
              Inr object \<Rightarrow>
                ret (Some \<lparr>oh_size = Some (length (content object)), oh_sha256 = sha256_metadata object,
                   oh_content_type = content_type object, oh_cache_control = cache_control object,
                   oh_last_modified = modified key\<rparr>)
            | Inl absent \<Rightarrow>
                if is_not_found (head_error absent) then ret None
                else throw (Inr (redact_backend_error (head_error absent)))))"

subsection \<open>Names\<close>

definition artifact_key :: "string \<Rightarrow> string \<Rightarrow> string" where
  "artifact_key sha256 extension = ''artifacts/'' @ sha256 @ ''.'' @ extension"

definition safe_r2_segment :: "string \<Rightarrow> bool" where
  "safe_r2_segment part \<longleftrightarrow>
     part \<noteq> [] \<and> CHR 0x00 \<notin> set part \<and> CHR 0x5C \<notin> set part
     \<and> list_all (\<lambda>segment. segment \<noteq> [] \<and> segment \<noteq> ''.'' \<and> segment \<noteq> ''..'') (split_on (CHR ''/'') part)"

definition safe_r2_segments :: "string list \<Rightarrow> bool" where
  "safe_r2_segments parts \<longleftrightarrow> list_all safe_r2_segment parts"

definition github_alias :: "string \<Rightarrow> string \<Rightarrow> string \<Rightarrow> string \<Rightarrow> string \<Rightarrow> string \<Rightarrow> string" where
  "github_alias owner repo vcs_tag name ver extension =
     ''github/'' @ owner @ ''/'' @ repo @ ''/'' @ vcs_tag @ ''/'' @ name @ ''-'' @ ver @ ''.'' @ extension"

definition package_alias :: "string \<Rightarrow> string \<Rightarrow> string \<Rightarrow> string \<Rightarrow> string" where
  "package_alias org name ver extension =
     ''packages/'' @ org @ ''/'' @ name @ ''/'' @ ver @ ''/'' @ name @ ''-'' @ ver @ ''.'' @ extension"

definition guessable_alias_keys ::
  "string \<Rightarrow> string \<Rightarrow> string \<Rightarrow> string \<Rightarrow> string \<Rightarrow> string \<Rightarrow> string list" where
  "guessable_alias_keys org name ver vcs_tag extension repo_url =
     (let (owner, repo) = (case parse_github repo_url of None \<Rightarrow> (org, name) | Some p \<Rightarrow> p)
      in (if safe_r2_segments [owner, repo, vcs_tag, name, ver, extension]
          then [github_alias owner repo vcs_tag name ver extension] else [])
       @ (if safe_r2_segments [org, name, ver, extension]
          then [package_alias org name ver extension] else []))"

subsection \<open>Description and health\<close>

datatype storage_config = MemoryConfig nat | LocalConfig string | S3Config string "string option" string bool

definition describe :: "artifact_store \<Rightarrow> storage_config \<Rightarrow> storage_backend" where
  "describe store config =
     (case store of
        Memory _ \<Rightarrow> process_memory
      | Local dir \<Rightarrow> filesystem dir
      | S3 bucket \<Rightarrow>
          (case config of
             S3Config _ endpoint_url region force_path_style \<Rightarrow> object_store bucket region endpoint_url force_path_style
           | _ \<Rightarrow> object_store bucket [] None False))"

text \<open>\<open>elapsed\<close> is the measured time in milliseconds, \<open>rendered\<close> the text of a backend error.\<close>

definition probe :: "nat \<Rightarrow> string \<Rightarrow> artifact_store \<Rightarrow> (store_err, storage_health) act" where
  "probe elapsed rendered store =
     bind_a (attempt (case store of
        Memory _ \<Rightarrow> ret ()
      | Local dir \<Rightarrow>
          bind_a (map_err (\<lambda>_. rendered) (fs_metadata dir)) (\<lambda>(is_file, _).
            if \<not> is_file then ret () else throw (dir @ '' is not a directory''))
      | S3 _ \<Rightarrow> map_err (\<lambda>_. rendered) fs_step)) (\<lambda>outcome.
       ret (case outcome of
              Inr _ \<Rightarrow> Reachable (min elapsed u64_max)
            | Inl error \<Rightarrow> Unreachable (redact_backend_error error)))"

subsection \<open>Objects are immutable\<close>

lemma look_set [simp]: "look (set_object k b os) k' = (if k' = k then Some b else look os k')"
proof -
  have "look (filter (\<lambda>(k', _). k' \<noteq> k) os) k' = look os k'" if "k' \<noteq> k"
    using that by (induction os) (auto simp: look_def)
  then show ?thesis by (auto simp: set_object_def look_def)
qed

lemma look_del [simp]: "look (del_object k os) k' = (if k' = k then None else look os k')"
  by (induction os) (auto simp: del_object_def look_def)

definition is_staging :: "('x ext_scheme) \<Rightarrow> string \<Rightarrow> bool" where
  "is_staging x k \<longleftrightarrow> (\<exists>parent file_name u. k = staging_path x parent file_name u)"

text \<open>
  What the other processes do to the objects: they never replace or remove one, their own staging
  files apart; the staging files of this request carry its own fresh identifiers.
\<close>

definition store_rely :: "('x ext_scheme) \<Rightarrow> env \<Rightarrow> bool" where
  "store_rely x e \<longleftrightarrow>
     (\<forall>t os k b. look os k = Some b \<longrightarrow>
        (is_staging x k \<longrightarrow> (\<exists>parent file_name n. k = staging_path x parent file_name (uuid_at e n))) \<longrightarrow>
        look (peer_objects e t os) k = Some b)"

lemma keeps_case_io [keep_rules]:
  "keeps R P a \<Longrightarrow> keeps R P b \<Longrightarrow> keeps R P c \<Longrightarrow>
     keeps R P (case k of IoNotFound \<Rightarrow> a | IoAlreadyExists \<Rightarrow> b | IoOther \<Rightarrow> c)"
  by (cases k) auto

lemma keeps_case_bool [keep_rules]: "keeps R P a \<Longrightarrow> keeps R P b \<Longrightarrow> keeps R P (case v of True \<Rightarrow> a | False \<Rightarrow> b)"
  by (cases v) auto

lemma keeps_for_each:
  assumes "\<And>k. keeps R P (body k)"
  shows "keeps R P (for_each body ks)"
  using assms by (induction ks) (auto intro: keeps_ret keeps_bind simp del: ret_run)

locale store_invariant = world_invariant +
  assumes keep_store: "rely e \<Longrightarrow> P e w \<Longrightarrow> P e (store_settle e w)"
begin

lemma keeps_request:
  assumes "\<And>e w. rely e \<Longrightarrow> P e w \<Longrightarrow> P e (w\<lparr>objects := snd (f (objects w))\<rparr>)"
  shows "keeps rely P (request failure f)"
proof -
  have "P e (snd (request failure f e w))" if "rely e" "P e w" for e w
    using keep_store [OF that] assms [OF that(1) keep_store [OF that]]
    by (auto simp: request_def Let_def split: prod.split)
  then show ?thesis by (simp add: keeps_def)
qed

lemma keeps_locked:
  assumes "\<And>e w. rely e \<Longrightarrow> P e w \<Longrightarrow> P e (w\<lparr>objects := snd (f (objects w))\<rparr>)"
  shows "keeps rely P (locked f)"
proof -
  have "P e (snd (locked f e w))" if "rely e" "P e w" for e w
    using assms [OF that(1) keep_store [OF that]] by (auto simp: locked_def Let_def split: prod.split)
  then show ?thesis by (simp add: keeps_def)
qed

lemma keeps_readers [keep_rules]:
  "keeps rely P (fs_metadata p1)" "keeps rely P (fs_open p2)" "keeps rely P fs_step"
  "keeps rely P (s3_get_object k)"
  by (auto simp: fs_metadata_def fs_open_def fs_step_def s3_get_object_def intro!: keeps_request)

lemma keeps_local_matches [keep_rules]: "keeps rely P (local_object_matches x path expected)"
  unfolding local_object_matches_def by (intro keep_rules)

lemma keeps_s3_matches [keep_rules]: "keeps rely P (s3_object_matches x key expected)"
  unfolding s3_object_matches_def by (intro keep_rules)

text \<open>The writes, each under the condition that its change of the objects is harmless.\<close>

lemma keeps_put_local:
  assumes "\<And>e w b k. rely e \<Longrightarrow> P e w \<Longrightarrow> look (objects w) k = None \<Longrightarrow> P e (w\<lparr>objects := set_object k b (objects w)\<rparr>)"
    and "\<And>e w b parent f u. rely e \<Longrightarrow> P e w \<Longrightarrow>
      P e (w\<lparr>objects := set_object (staging_path x parent f u) b (objects w)\<rparr>)
      \<and> P e (w\<lparr>objects := del_object (staging_path x parent f u) (objects w)\<rparr>)"
  shows "keeps rely P (put_local x path bytes expected)"
proof -
  have same: "w\<lparr>objects := objects w\<rparr> = w" for w :: world by simp
  have create: "keeps rely P (fs_create_new (staging_path x parent f u))"
    and write_all: "keeps rely P (fs_write_all (staging_path x parent f u) b)"
    and remove: "keeps rely P (fs_remove_file (staging_path x parent f u))"
    and link: "keeps rely P (fs_hard_link p1 p2)" for parent f u b p1 p2
    using assms
    by (auto simp: fs_create_new_def fs_write_all_def fs_remove_file_def fs_hard_link_def same
        intro!: keeps_request split: option.split)
  show ?thesis
    unfolding put_local_def put_absent_def stage_and_promote_def promote_def
    by (intro keep_rules create write_all remove link)
qed

lemma keeps_put_verified:
  assumes "\<And>e w b k. rely e \<Longrightarrow> P e w \<Longrightarrow> look (objects w) k = None \<Longrightarrow> P e (w\<lparr>objects := set_object k b (objects w)\<rparr>)"
    and "\<And>e w b parent f u. rely e \<Longrightarrow> P e w \<Longrightarrow>
      P e (w\<lparr>objects := set_object (staging_path x parent f u) b (objects w)\<rparr>)
      \<and> P e (w\<lparr>objects := del_object (staging_path x parent f u) (objects w)\<rparr>)"
  shows "keeps rely P (put_verified x store key bytes ctype sha)"
proof -
  have same: "w\<lparr>objects := objects w\<rparr> = w" for w :: world by simp
  have s3: "keeps rely P (put_s3 x key bytes expected)" for expected
  proof -
    have "keeps rely P (s3_put_object key b)" for b
      using assms(1) by (auto simp: s3_put_object_def same intro!: keeps_request)
    then show ?thesis unfolding put_s3_def by (intro keep_rules)
  qed
  have memory: "keeps rely P (put_memory n key bytes)" for n
    unfolding put_memory_def
  proof (rule keeps_locked)
    fix e w
    assume "rely e" "P e w"
    then show "P e (w\<lparr>objects := snd (case look (objects w) key of
        Some existing \<Rightarrow> (if content existing = bytes then Inr () else Inl (MemoryConflict key), objects w)
      | None \<Rightarrow> (case Option.bind (total_bytes 0 (objects w)) (\<lambda>retained. checked_add retained (length bytes)) of
            None \<Rightarrow> (Inl AccountingOverflow, objects w)
          | Some next_bytes \<Rightarrow> if n < next_bytes then (Inl (CapacityExceeded next_bytes n), objects w)
              else (Inr (), set_object key (plain_blob bytes) (objects w))))\<rparr>)"
      using assms(1) by (auto split: option.split simp del: bind_eq_None_conv)
  qed
  show ?thesis
  proof (cases store)
    case (Memory n)
    show ?thesis unfolding put_verified_def Let_def Memory artifact_store.case
      by (intro keeps_if keeps_throw memory)
  next
    case (Local dir)
    show ?thesis unfolding put_verified_def Let_def Local artifact_store.case
      by (intro keeps_if keeps_throw keeps_put_local assms)
  next
    case (S3 bucket)
    show ?thesis unfolding put_verified_def Let_def S3 artifact_store.case
      by (intro keeps_if keeps_throw s3)
  qed
qed

lemma keeps_put_public_aliases:
  assumes "\<And>key. keeps rely P (put_verified x store key bytes ctype sha)"
  shows "keeps rely P (put_public_aliases x store keys bytes ctype sha)"
proof -
  have loop: "keeps rely P (for_each (\<lambda>key. put_verified x store key bytes ctype sha) keys)"
    by (rule keeps_for_each [OF assms])
  have "put_public_aliases x store keys bytes ctype sha = ret ()
      \<or> put_public_aliases x store keys bytes ctype sha = for_each (\<lambda>key. put_verified x store key bytes ctype sha) keys"
    unfolding put_public_aliases_def by (cases store) simp_all
  then show ?thesis using loop keeps_ret by metis
qed

end

text \<open>An object that is there stays there, unchanged, whatever a write does.\<close>

definition stored :: "('x ext_scheme) \<Rightarrow> string \<Rightarrow> blob \<Rightarrow> env \<Rightarrow> world \<Rightarrow> bool" where
  "stored x k b e w \<longleftrightarrow> \<not> is_staging x k \<and> look (objects w) k = Some b"

lemma settle_objects [simp]: "objects (settle e w) = objects w"
  by simp

interpretation kept: store_invariant "store_rely x" "stored x k b" for x k b
proof
  fix e w
  assume "store_rely x e" "stored x k b e w"
  then show "stored x k b e (store_settle e w)"
    by (auto simp: store_rely_def stored_def store_settle_def)
qed (auto simp: stored_def rollback_txn_def)

lemma stored_put_verified [keep_rules]:
  "keeps (store_rely x) (stored x k b) (put_verified x store key bytes ctype sha)"
  by (rule kept.keeps_put_verified) (auto simp: stored_def is_staging_def)

lemma stored_put_aliases [keep_rules]:
  "keeps (store_rely x) (stored x k b) (put_public_aliases x store keys bytes ctype sha)"
  by (rule kept.keeps_put_public_aliases) (rule stored_put_verified)

subsection \<open>A successful write is stored\<close>

lemma concat_buffers: "concat (buffers s) = s"
proof (induction s rule: buffers.induct)
  case (1 s)
  show ?case
  proof (cases "s = []")
    case True
    then show ?thesis by (simp only: buffers.simps [of "[]"]) simp
  next
    case False
    then show ?thesis using 1 by (simp add: buffers.simps [of s])
  qed
qed

text \<open>However the bytes arrive, a result within the expected length covers all of them.\<close>

lemma hash_pieces_complete:
  "hash_pieces x n len hashed pieces = Inr (l, d) \<Longrightarrow> l \<le> n \<Longrightarrow>
     l = len + length (concat pieces) \<and> d = sha256_hex x (hashed @ concat pieces)"
proof (induction pieces arbitrary: len hashed)
  case (Cons p pieces)
  then have "hash_pieces x n (len + length p) (hashed @ p) pieces = Inr (l, d)"
    by (auto split: option.splits if_splits simp: checked_add_Some_iff)
  from Cons.IH [OF this Cons.prems(2)] show ?case by simp
qed simp

definition backed :: "('x ext_scheme) \<Rightarrow> string \<Rightarrow> string \<Rightarrow> nat \<Rightarrow> world \<Rightarrow> bool" where
  "backed x name sha len w \<longleftrightarrow>
     (\<exists>b. look (objects w) name = Some b \<and> length (content b) = len \<and> sha256_hex x (content b) = sha)"

lemma matches_hash_backed:
  "hash_async_reader x body (ea_len expected) = Inr r \<Longrightarrow> matches_hash expected r \<Longrightarrow>
     length body = ea_len expected \<and> sha256_hex x body = ea_sha256 expected"
  using hash_pieces_complete [of x "ea_len expected" 0 "[]" "buffers body" "fst r" "snd r"]
  by (cases r) (simp add: hash_async_reader_def matches_hash_def concat_buffers)

lemma request_Inr_iff:
  "request failure f e w = (Inr a, w') \<longleftrightarrow>
     outcome_at e (tick w) = Served
     \<and> (\<exists>os. f (objects (store_settle e w)) = (Inr a, os) \<and> w' = (store_settle e w)\<lparr>objects := os\<rparr>)"
  by (auto simp: request_def Let_def split: prod.splits)

lemma attempt_bind: "bind_a (attempt m) f e w = (case m e w of (r, w') \<Rightarrow> f r e w')"
  by (simp add: bind_a_def attempt_def split: prod.split)

lemma local_matches_True:
  assumes "local_object_matches x path expected e w = (Inr (Some True), w')"
  shows "backed x path (ea_sha256 expected) (ea_len expected) w'"
proof -
  obtain body w1 r where opened: "fs_open path e w1 = (Inr body, w')"
      and hash: "hash_async_reader x body (ea_len expected) = Inr r" "matches_hash expected r"
    using assms
    by (auto simp: local_object_matches_def attempt_bind bind_a_Inr_iff split: prod.splits sum.splits
        io_kind.splits if_splits)
  obtain b where "look (objects w') path = Some b" "content b = body"
    using opened by (auto simp: fs_open_def request_Inr_iff split: option.splits)
  then show ?thesis using matches_hash_backed [OF hash] by (auto simp: backed_def)
qed

lemma s3_matches_True:
  assumes "s3_object_matches x key expected e w = (Inr True, w')"
  shows "backed x key (ea_sha256 expected) (ea_len expected) w'"
proof -
  obtain b r where got: "s3_get_object key e w = (Inr b, w')"
      and hash: "hash_async_reader x (content b) (ea_len expected) = Inr r" "matches_hash expected r"
    using assms by (auto simp: s3_object_matches_def bind_a_Inr_iff split: if_splits)
  have "look (objects w') key = Some b"
    using got by (auto simp: s3_get_object_def request_Inr_iff split: option.splits)
  then show ?thesis using matches_hash_backed [OF hash] by (auto simp: backed_def)
qed

lemma put_s3_backed:
  assumes "put_s3 x key bytes expected e w = (Inr u, w')"
    and "sha256_hex x bytes = ea_sha256 expected" "length bytes = ea_len expected"
  shows "backed x key (ea_sha256 expected) (ea_len expected) w'"
proof -
  let ?b = "\<lparr>content = bytes, content_type = Some (ea_content_type expected),
      cache_control = Some IMMUTABLE_CACHE_CONTROL, sha256_metadata = Some (ea_sha256 expected)\<rparr>"
  consider "s3_put_object key ?b e w = (Inr (), w')" | w1 where "s3_object_matches x key expected e w1 = (Inr True, w')"
    using assms(1)
    by (auto simp: put_s3_def attempt_bind split: prod.splits sum.splits bool.splits)
  then show ?thesis
  proof cases
    case 1
    then have "look (objects w') key = Some ?b"
      by (auto simp: s3_put_object_def request_Inr_iff split: if_splits)
    then show ?thesis using assms(2,3) by (auto simp: backed_def)
  qed (rule s3_matches_True)
qed

lemma put_memory_backed:
  assumes "put_memory n key bytes e w = (Inr u, w')"
  shows "backed x key (sha256_hex x bytes) (length bytes) w'"
  using assms
  by (auto simp: put_memory_def locked_def Let_def backed_def plain_blob_def
      split: prod.splits option.splits if_splits simp del: bind_eq_None_conv)

text \<open>The staging file of this request is not touched by others until it is linked.\<close>

lemma own_staging_kept:
  assumes "store_rely x e" "look os (staging_path x parent f (uuid_at e n)) = Some b"
  shows "look (peer_objects e t os) (staging_path x parent f (uuid_at e n)) = Some b"
  using assms unfolding store_rely_def by blast

lemma stage_and_promote_backed:
  assumes "store_rely x e" and tmp: "tmp = staging_path x parent f (uuid_at e n)" and "path \<noteq> tmp"
    and "stage_and_promote x tmp path bytes expected e w = (Inr u, w')"
    and "sha256_hex x bytes = ea_sha256 expected" "length bytes = ea_len expected"
  shows "backed x path (ea_sha256 expected) (ea_len expected) w'"
proof -
  obtain w1 w2 w3 w4 where w1: "fs_create_new tmp e w = (Inr (), w1)"
    and w2: "fs_write_all tmp bytes e w1 = (Inr (), w2)" and w3: "fs_step e w2 = (Inr (), w3)"
    and w4: "fs_step e w3 = (Inr (), w4)" and link: "promote x tmp path expected e w4 = (Inr u, w')"
    using assms(4) by (auto simp: stage_and_promote_def bind_a_Inr_iff)
  note own = own_staging_kept [OF assms(1), of _ parent f n, folded tmp]
  have "look (objects w2) tmp = Some (plain_blob bytes)"
    using w2 by (auto simp: fs_write_all_def request_Inr_iff)
  then have "look (objects w4) tmp = Some (plain_blob bytes)"
    using w3 w4 own by (auto simp: fs_step_def request_Inr_iff store_settle_def)
  then have src: "look (objects (store_settle e w4)) tmp = Some (plain_blob bytes)"
    using own by (auto simp: store_settle_def)
  consider "fs_hard_link tmp path e w4 = (Inr (), w')"
    | w5 where "local_object_matches x path expected e w5 = (Inr (Some True), w')"
    using link
    by (auto simp: promote_def attempt_bind bind_a_Inr_iff split: prod.splits sum.splits io_kind.splits
        option.splits bool.splits)
  then show ?thesis
  proof cases
    case 1
    then have "look (objects w') path = Some (plain_blob bytes)"
      using src by (auto simp: fs_hard_link_def request_Inr_iff split: if_splits)
    then show ?thesis using assms(5,6) by (auto simp: backed_def plain_blob_def)
  qed (rule local_matches_True)
qed

lemma backed_stored: "backed x k sha len w \<and> \<not> is_staging x k \<longleftrightarrow>
    (\<exists>b. stored x k b e w \<and> length (content b) = len \<and> sha256_hex x (content b) = sha)"
  by (auto simp: backed_def stored_def)

lemma backed_keeps:
  assumes "\<And>b. keeps (store_rely x) (stored x k b) m" "store_rely x e" "\<not> is_staging x k" "backed x k sha len w"
  shows "backed x k sha len (snd (m e w))"
proof -
  obtain b where "stored x k b e w" "length (content b) = len" "sha256_hex x (content b) = sha"
    using assms(3,4) by (auto simp: backed_def stored_def)
  then show ?thesis using keeps_snd [OF assms(1,2)] by (auto simp: backed_def stored_def)
qed

lemma put_absent_run:
  assumes "put_absent x path bytes expected e w = (Inr u, w')"
  shows "\<exists>parent f n w1 w2 r w3.
      stage_and_promote x (staging_path x parent f (uuid_at e n)) path bytes expected e w1 = (Inr (), w2)
      \<and> fs_remove_file (staging_path x parent f (uuid_at e n)) e w2 = (r, w3) \<and> fs_step e w3 = (Inr u, w')"
proof -
  obtain parent f w1 where "bind_a (attempt (stage_and_promote x (staging_path x parent f (uuid_at e (tick w1))) path bytes expected))
      (\<lambda>result. bind_a (attempt (fs_remove_file (staging_path x parent f (uuid_at e (tick w1))))) (\<lambda>cleanup.
       case result of
         Inl err \<Rightarrow> throw err
       | Inr _ \<Rightarrow>
           (case cleanup of
              Inl IoNotFound \<Rightarrow> map_err Io fs_step
            | Inl k \<Rightarrow> throw (Io k)
            | Inr _ \<Rightarrow> map_err Io fs_step))) e (w1\<lparr>tick := Suc (tick w1)\<rparr>) = (Inr u, w')"
    using assms by (auto simp: put_absent_def bind_a_Inr_iff [of "lift _"] bind_a_Inr_iff [of "map_err _ _"]
        bind_a_Inr_iff [of new_v4] new_v4_def)
  note run = this [unfolded attempt_bind]
  obtain r1 w2 where st: "stage_and_promote x (staging_path x parent f (uuid_at e (tick w1))) path bytes expected e
      (w1\<lparr>tick := Suc (tick w1)\<rparr>) = (r1, w2)" by fastforce
  obtain r2 w3 where rm: "fs_remove_file (staging_path x parent f (uuid_at e (tick w1))) e w2 = (r2, w3)" by fastforce
  have "r1 = Inr () \<and> fs_step e w3 = (Inr u, w')"
    using run by (auto simp: st rm split: sum.splits io_kind.splits)
  then show ?thesis using st rm by blast
qed

lemma put_local_backed:
  assumes "store_rely x e" "\<not> is_staging x path" "put_local x path bytes expected e w = (Inr u, w')"
    and "sha256_hex x bytes = ea_sha256 expected" "length bytes = ea_len expected"
  shows "backed x path (ea_sha256 expected) (ea_len expected) w'"
proof -
  obtain found w0 where found: "local_object_matches x path expected e w = (Inr found, w0)"
    and rest: "(case found of
         Some True \<Rightarrow> ret ()
       | Some False \<Rightarrow> throw (LocalConflict path)
       | None \<Rightarrow> put_absent x path bytes expected) e w0 = (Inr u, w')"
    using assms(3) by (auto simp: put_local_def bind_a_Inr_iff)
  consider "local_object_matches x path expected e w = (Inr (Some True), w')"
    | parent f n w1 w2 r w3 where
      "stage_and_promote x (staging_path x parent f (uuid_at e n)) path bytes expected e w1 = (Inr (), w2)"
      "fs_remove_file (staging_path x parent f (uuid_at e n)) e w2 = (r, w3)" "fs_step e w3 = (Inr u, w')"
  proof (cases found)
    case None
    then have "put_absent x path bytes expected e w0 = (Inr u, w')" using rest by simp
    from put_absent_run [OF this] that(2) show thesis by blast
  next
    case (Some ok)
    then show thesis using rest found that(1) by (cases ok) auto
  qed
  then show ?thesis
  proof cases
    case 1
    then show ?thesis by (rule local_matches_True)
  next
    case 2
    let ?tmp = "staging_path x parent f (uuid_at e n)"
    have "backed x path (ea_sha256 expected) (ea_len expected) w2"
      using stage_and_promote_backed [OF assms(1) refl _ 2(1) assms(4,5)] assms(2)
      unfolding is_staging_def by blast
    moreover have "keeps (store_rely x) (stored x path b) (fs_remove_file ?tmp)" for b
      unfolding fs_remove_file_def by (rule kept.keeps_request) (auto simp: stored_def is_staging_def)
    ultimately have "backed x path (ea_sha256 expected) (ea_len expected) w3"
      using backed_keeps [OF _ assms(1,2)] 2(2) by (metis snd_conv)
    then show ?thesis
      using backed_keeps [OF kept.keeps_readers(3) assms(1,2)] 2(3) by (metis snd_conv)
  qed
qed

definition object_name :: "artifact_store \<Rightarrow> string \<Rightarrow> string" where
  "object_name store key = (case store of Local dir \<Rightarrow> local_path dir key | _ \<Rightarrow> key)"

lemma not_staging: "\<not> ends_with (object_name store key) ''.tmp'' \<Longrightarrow> \<not> is_staging x (object_name store key)"
  unfolding is_staging_def staging_path_def ends_with_iff by (metis append.assoc)

end
