(* ===== verification/StorageLaws.thy ===== *)
theory StorageLaws
  imports Storage Auth
begin

section \<open>What the artifact store promises\<close>

text \<open>
  The contract of the store as its clients rely on it: a write that reports success is readable
  with the declared digest and length, no write ever changes an object that is already there, the
  in-memory backend stays within its capacity, and the public aliases can neither leave the
  directory of the store nor shadow a content-addressed object. The locale \<open>verified_store\<close>
  states the part the alias loop and the publish pipeline use.
\<close>

subsection \<open>The contract\<close>

locale verified_store =
  fixes rely :: "env \<Rightarrow> bool" and put :: "string \<Rightarrow> ('e, unit) act" and present :: "string \<Rightarrow> world \<Rightarrow> bool"
    and usable :: "string \<Rightarrow> bool"
  assumes put_present: "rely e \<Longrightarrow> usable k \<Longrightarrow> put k e w = (Inr u, w') \<Longrightarrow> present k w'"
    and put_keeps: "rely e \<Longrightarrow> usable k \<Longrightarrow> present k w \<Longrightarrow> present k (snd (put k' e w))"
begin

lemma for_each_keeps: "rely e \<Longrightarrow> usable k \<Longrightarrow> present k w \<Longrightarrow> present k (snd (for_each put ks e w))"
proof (induction ks arbitrary: w)
  case (Cons k' ks)
  then have step: "present k (snd (put k' e w))" by (intro put_keeps)
  then show ?case using Cons.IH [OF Cons.prems(1,2)] by (auto simp: bind_a_def split: prod.split sum.split)
qed simp

text \<open>A loop of writes that succeeds has stored every key.\<close>

lemma for_each_present:
  "rely e \<Longrightarrow> (\<And>k. k \<in> set ks \<Longrightarrow> usable k) \<Longrightarrow> for_each put ks e w = (Inr u, w') \<Longrightarrow> k \<in> set ks \<Longrightarrow> present k w'"
proof (induction ks arbitrary: w)
  case (Cons k' ks)
  then obtain v w1 where one: "put k' e w = (Inr v, w1)" "for_each put ks e w1 = (Inr u, w')"
    by (auto simp: bind_a_Inr_iff)
  show ?case
  proof (cases "k = k'")
    case True
    then have "present k w1" using put_present one(1) Cons.prems(1,2) by simp
    then show ?thesis using for_each_keeps [OF Cons.prems(1), of k w1 ks] one(2) Cons.prems(2) True by simp
  next
    case False
    then show ?thesis using Cons.IH [OF Cons.prems(1) _ one(2)] Cons.prems(2,4) by simp
  qed
qed simp

end

lemma put_verified_backed:
  assumes "put_verified x store key bytes ctype sha e w = (Inr u, w')" "store_rely x e"
    and "sha256_hex x bytes = sha" "\<not> is_staging x (object_name store key)"
  shows "backed x (object_name store key) sha (length bytes) w'"
proof (cases store)
  case (Memory n)
  then show ?thesis
    using assms put_memory_backed [of n key bytes e w u w' x]
    by (auto simp: put_verified_def object_name_def split: if_splits)
next
  case (Local dir)
  let ?x = "\<lparr>ea_len = length bytes, ea_sha256 = sha, ea_content_type = ctype\<rparr>"
  have "put_local x (local_path dir key) bytes ?x e w = (Inr u, w')"
    using assms(1) Local by (auto simp: put_verified_def split: if_splits)
  from put_local_backed [OF assms(2) _ this] show ?thesis
    using assms(3,4) Local by (simp add: object_name_def)
next
  case (S3 bucket)
  let ?x = "\<lparr>ea_len = length bytes, ea_sha256 = sha, ea_content_type = ctype\<rparr>"
  have "put_s3 x key bytes ?x e w = (Inr u, w')"
    using assms(1) S3 by (auto simp: put_verified_def split: if_splits)
  from put_s3_backed [OF this] show ?thesis using assms(3) S3 by (simp add: object_name_def)
qed

interpretation contract: verified_store "store_rely x" "\<lambda>key. put_verified x store key bytes ctype (sha256_hex x bytes)"
    "\<lambda>key. backed x (object_name store key) (sha256_hex x bytes) (length bytes)"
    "\<lambda>key. \<not> is_staging x (object_name store key)" for x store bytes ctype
proof
  fix e k w u w'
  assume "store_rely x e" "\<not> is_staging x (object_name store k)"
    "put_verified x store k bytes ctype (sha256_hex x bytes) e w = (Inr u, w')"
  then show "backed x (object_name store k) (sha256_hex x bytes) (length bytes) w'"
    using put_verified_backed [OF _ _ refl] by blast
next
  fix e k w k'
  assume "store_rely x e" "\<not> is_staging x (object_name store k)"
    "backed x (object_name store k) (sha256_hex x bytes) (length bytes) w"
  then show "backed x (object_name store k) (sha256_hex x bytes) (length bytes)
      (snd (put_verified x store k' bytes ctype (sha256_hex x bytes) e w))"
    by (intro backed_keeps stored_put_verified)
qed

subsection \<open>Reading back\<close>

lemma store_settle_backed:
  assumes "store_rely x e" "\<not> is_staging x k" "backed x k sha len w"
  shows "backed x k sha len (store_settle e w)"
proof -
  obtain b where "look (objects w) k = Some b" "length (content b) = len" "sha256_hex x (content b) = sha"
    using assms(3) by (auto simp: backed_def)
  moreover from this(1) have "look (objects (store_settle e w)) k = Some b"
    using assms(1,2) by (simp add: store_settle_def store_rely_def)
  ultimately show ?thesis by (auto simp: backed_def)
qed

lemma get_bytes_backed:
  assumes "store_rely x e" "\<not> is_staging x (object_name store key)" "\<And>t. outcome_at e t = Served"
    and "backed x (object_name store key) sha len w" "len \<le> MAX_BUFFERED_ARTIFACT_BYTES"
  shows "\<exists>bytes w'. get_bytes store key e w = (Inr bytes, w') \<and> length bytes = len \<and> sha256_hex x bytes = sha"
proof -
  let ?k = "object_name store key"
  have b1: "backed x ?k sha len (store_settle e w)" by (rule store_settle_backed [OF assms(1,2,4)])
  obtain b where b: "look (objects (store_settle e w)) ?k = Some b" "length (content b) = len" "sha256_hex x (content b) = sha"
    using b1 by (auto simp: backed_def)
  have ok: "guard_buffered key len = Inr ()" using assms(5) by (simp add: guard_buffered_def)
  show ?thesis
  proof (cases store)
    case (Memory n)
    then show ?thesis using b ok
      by (auto simp: get_bytes_def locked_def Let_def bind_a_def object_name_def)
  next
    case (Local dir)
    let ?w1 = "store_settle e w"
    have "backed x ?k sha len (store_settle e ?w1)" by (rule store_settle_backed [OF assms(1,2) b1])
    then obtain b' where b': "look (objects (store_settle e ?w1)) ?k = Some b'" "length (content b') = len"
        "sha256_hex x (content b') = sha" by (auto simp: backed_def)
    have m: "fs_metadata ?k e w = (Inr (True, len), ?w1)"
      using b assms(3) by (simp add: fs_metadata_def request_def Let_def)
    have o: "fs_open ?k e ?w1 = (Inr (content b'), store_settle e ?w1)"
      using b' assms(3) by (simp add: fs_open_def request_def Let_def)
    have "get_bytes store key e w = (Inr (content b'), store_settle e ?w1)"
      using m o ok Local by (simp add: get_bytes_def object_name_def bind_a_def map_err_def)
    then show ?thesis using b' by blast
  next
    case (S3 bucket)
    then show ?thesis using b ok assms(3)
      by (auto simp: get_bytes_def s3_get_object_def request_def Let_def bind_a_def map_err_def object_name_def)
  qed
qed

text \<open>C4. Reading after writing: once a write of an artifact under its own digest has succeeded, on any
  backend and whatever other processes do short of replacing or deleting objects, the object is
  stored with that digest and length, and while the backend answers it can be read back with them
  (so byte for byte, unless SHA-256 collides), as long as it is below the buffering limit.\<close>

theorem put_then_get:
  assumes "put_verified x store key bytes ctype (sha256_hex x bytes) e w = (Inr u, w')" and "store_rely x e"
    and "\<not> ends_with (object_name store key) ''.tmp''"
  shows "backed x (object_name store key) (sha256_hex x bytes) (length bytes) w'
    \<and> ((\<forall>t. outcome_at e t = Served) \<and> length bytes \<le> MAX_BUFFERED_ARTIFACT_BYTES \<longrightarrow>
        (\<exists>got w''. get_bytes store key e w' = (Inr got, w'')
           \<and> length got = length bytes \<and> sha256_hex x got = sha256_hex x bytes))"
proof -
  note ns = not_staging [OF assms(3), of x]
  have "backed x (object_name store key) (sha256_hex x bytes) (length bytes) w'"
    by (rule contract.put_present [OF assms(2) ns assms(1)])
  then show ?thesis using get_bytes_backed [OF assms(2) ns] by blast
qed

text \<open>C5. Content-addressed objects are immutable: no write, of any key, on any backend, successful or
  failed, with or without its acknowledgement, changes or removes an object that is already
  stored, and neither does the whole loop that writes the public aliases.\<close>

theorem writes_never_replace_objects:
  assumes "look (objects w) k = Some b" and "store_rely x e" and "\<not> is_staging x k"
  shows "look (objects (snd (put_verified x store key bytes ctype sha e w))) k = Some b
    \<and> look (objects (snd (put_public_aliases x store keys bytes ctype sha e w))) k = Some b"
  using keeps_snd [OF stored_put_verified assms(2), of k b w store key bytes ctype sha]
    keeps_snd [OF stored_put_aliases assms(2), of k b w store keys bytes ctype sha] assms
  by (simp add: stored_def)

subsection \<open>Capacity\<close>

definition used :: "(string \<times> blob) list \<Rightarrow> nat" where
  "used os = sum_list (map (\<lambda>(_, b). length (content b)) os)"

lemma total_bytes_Some: "total_bytes acc os = Some n \<Longrightarrow> n = acc + used os"
proof (induction os arbitrary: acc)
  case (Cons entry os)
  obtain k b where "entry = (k, b)" by (cases entry)
  then have "total_bytes (acc + length (content b)) os = Some n"
    using Cons.prems by (auto simp: bind_eq_Some_conv checked_add_Some_iff)
  from Cons.IH [OF this] show ?case using \<open>entry = (k, b)\<close> by (simp add: used_def)
qed (simp add: used_def)

lemma used_filter: "used (filter P os) \<le> used os"
  by (induction os) (auto simp: used_def)

text \<open>The in-memory store never holds more than its capacity: a write keeps the total size of the
  objects within the limit whenever the other writers do.\<close>

theorem memory_store_is_bounded:
  assumes "used (objects w) \<le> max_bytes" and "\<And>t os. used os \<le> max_bytes \<Longrightarrow> used (peer_objects e t os) \<le> max_bytes"
  shows "used (objects (snd (put_verified x (Memory max_bytes) key bytes ctype sha e w))) \<le> max_bytes"
proof -
  let ?os = "peer_objects e (tick w) (objects w)"
  have start: "used ?os \<le> max_bytes" using assms by blast
  have new: "used (set_object key (plain_blob bytes) ?os) \<le> max_bytes"
    if "Option.bind (total_bytes 0 ?os) (\<lambda>r. checked_add r (length bytes)) = Some n" "\<not> max_bytes < n" for n
  proof -
    have "n = used ?os + length bytes"
      using that(1) total_bytes_Some [of 0 ?os] by (auto simp: bind_eq_Some_conv checked_add_Some_iff)
    then show ?thesis
      using that(2) used_filter [of "\<lambda>(k', _). k' \<noteq> key" ?os]
      by (simp add: set_object_def used_def plain_blob_def)
  qed
  have "used (objects (snd (put_memory max_bytes key bytes e w))) \<le> max_bytes"
    using start new
    by (auto simp: put_memory_def locked_def Let_def store_settle_def split: option.split simp del: bind_eq_None_conv)
  then show ?thesis using assms(1) by (simp add: put_verified_def throw_def)
qed

subsection \<open>Aliases\<close>

definition good_segment :: "string \<Rightarrow> bool" where
  "good_segment s \<longleftrightarrow> s \<noteq> [] \<and> s \<noteq> ''.'' \<and> s \<noteq> ''..''"

definition good_path :: "string \<Rightarrow> bool" where
  "good_path p \<longleftrightarrow> list_all good_segment (split_on (CHR ''/'') p)"

lemma split_on_append:
  "split_on d (a @ b) = butlast (split_on d a) @ (last (split_on d a) @ hd (split_on d b)) # tl (split_on d b)"
proof (induction a)
  case (Cons c a)
  obtain p ps where "split_on d a = p # ps" by (metis split_on_not_Nil neq_Nil_conv)
  with Cons show ?case by auto
qed simp

lemma good_path_slash: "good_path a \<Longrightarrow> good_path b \<Longrightarrow> good_path (a @ ''/'' @ b)"
proof -
  assume ab: "good_path a" "good_path b"
  have "split_on (CHR ''/'') (a @ ''/'' @ b) = split_on (CHR ''/'') a @ split_on (CHR ''/'') b"
    using split_on_append [of "CHR ''/''" a "''/'' @ b"] by simp
  then show ?thesis using ab by (simp add: good_path_def)
qed

text \<open>Two good paths glued by a separator other than a slash: the segment they share is longer than
  two characters.\<close>

lemma good_path_glue:
  assumes "good_path a" "good_path b" "c \<noteq> CHR ''/''"
  shows "good_path (a @ [c] @ b)"
proof -
  let ?A = "split_on (CHR ''/'') a" and ?B = "split_on (CHR ''/'') b"
  have "split_on (CHR ''/'') ([c] @ b) = (c # hd ?B) # tl ?B"
    using assms(3) split_on_append [of "CHR ''/''" "[c]" b] by simp
  then have split: "split_on (CHR ''/'') (a @ [c] @ b) = butlast ?A @ (last ?A @ c # hd ?B) # tl ?B"
    using split_on_append [of "CHR ''/''" a "[c] @ b"] by simp
  have all: "\<And>s. s \<in> set ?A \<Longrightarrow> good_segment s" "\<And>s. s \<in> set ?B \<Longrightarrow> good_segment s"
    using assms(1,2) by (auto simp: good_path_def list_all_iff)
  then have "last ?A \<noteq> []" "hd ?B \<noteq> []"
    by (metis good_segment_def split_on_not_Nil last_in_set, metis good_segment_def all(2) split_on_not_Nil hd_in_set)
  then obtain u us v vs where "last ?A = u # us" "hd ?B = v # vs" by (meson neq_Nil_conv)
  then have "good_segment (last ?A @ c # hd ?B)" by (simp add: good_segment_def)
  moreover have "\<And>s. s \<in> set (butlast ?A) \<Longrightarrow> good_segment s" using all(1) by (meson in_set_butlastD)
  moreover have "\<And>s. s \<in> set (tl ?B) \<Longrightarrow> good_segment s" using all(2) by (metis list.set_sel(2) split_on_not_Nil)
  ultimately show ?thesis unfolding good_path_def split by (auto simp: list_all_iff)
qed

lemma safe_good: "safe_r2_segment p \<Longrightarrow> good_path p \<and> CHR 0x00 \<notin> set p \<and> CHR 0x5C \<notin> set p"
  by (simp add: safe_r2_segment_def good_path_def good_segment_def [abs_def])

lemma safe_parts:
  "list_all safe_r2_segment parts \<Longrightarrow> p \<in> set parts \<Longrightarrow> good_path p \<and> CHR 0x00 \<notin> set p \<and> CHR 0x5C \<notin> set p"
  using safe_good by (auto simp: list_all_iff)

lemma good_file_name: "good_path name \<Longrightarrow> good_path ver \<Longrightarrow> good_path ext \<Longrightarrow> good_path (name @ ''-'' @ ver @ ''.'' @ ext)"
  by (intro good_path_glue) simp_all

lemma good_github_alias:
  assumes "list_all safe_r2_segment [owner, repo, tag, name, ver, ext]"
  shows "good_path (github_alias owner repo tag name ver ext)"
proof -
  note s = safe_parts [OF assms]
  have g: "good_path ''github''" by (simp add: good_path_def good_segment_def)
  have "good_path (''github'' @ ''/'' @ owner @ ''/'' @ repo @ ''/'' @ tag @ ''/'' @ (name @ ''-'' @ ver @ ''.'' @ ext))"
    by (intro good_path_slash good_file_name g) (simp_all add: s)
  then show ?thesis by (simp add: github_alias_def)
qed

lemma good_package_alias:
  assumes "list_all safe_r2_segment [org, name, ver, ext]"
  shows "good_path (package_alias org name ver ext)"
proof -
  note s = safe_parts [OF assms]
  have g: "good_path ''packages''" by (simp add: good_path_def good_segment_def)
  have "good_path (''packages'' @ ''/'' @ org @ ''/'' @ name @ ''/'' @ ver @ ''/'' @ (name @ ''-'' @ ver @ ''.'' @ ext))"
    by (intro good_path_slash good_file_name g) (simp_all add: s)
  then show ?thesis by (simp add: package_alias_def)
qed

text \<open>The public aliases are contained: an alias key has no empty segment and no dot or dot-dot
  segment, no NUL and no backslash, so it names a file below the store's root whatever the
  organisation, package, version, tag and repository are called, and it never coincides with the
  content-addressed key of an artifact.\<close>

theorem alias_keys_are_contained:
  assumes "key \<in> set (guessable_alias_keys org name ver vcs_tag ext repo_url)"
  shows "good_path key \<and> CHR 0x00 \<notin> set key \<and> CHR 0x5C \<notin> set key
    \<and> (\<forall>sha ext'. key \<noteq> artifact_key sha ext')"
proof -
  consider owner repo where "key = github_alias owner repo vcs_tag name ver ext"
      "list_all safe_r2_segment [owner, repo, vcs_tag, name, ver, ext]"
    | "key = package_alias org name ver ext" "list_all safe_r2_segment [org, name, ver, ext]"
    using assms by (auto simp: guessable_alias_keys_def safe_r2_segments_def Let_def split: prod.splits if_splits)
  then show ?thesis
  proof cases
    case 1
    then show ?thesis
      using good_github_alias [OF 1(2)] safe_parts [OF 1(2)] by (simp add: github_alias_def artifact_key_def)
  next
    case 2
    then show ?thesis
      using good_package_alias [OF 2(2)] safe_parts [OF 2(2)] by (simp add: package_alias_def artifact_key_def)
  qed
qed

lemma artifact_key_not_tmp:
  "\<not> ends_with ext ''tmp'' \<Longrightarrow> 3 \<le> length ext \<Longrightarrow> \<not> ends_with (object_name store (artifact_key sha ext)) ''.tmp''"
proof
  assume ext: "\<not> ends_with ext ''tmp''" "3 \<le> length ext"
    and tmp: "ends_with (object_name store (artifact_key sha ext)) ''.tmp''"
  have "\<exists>pre. object_name store (artifact_key sha ext) = pre @ artifact_key sha ext"
    by (cases store) (auto simp: object_name_def local_path_def intro: exI [of _ "[]"])
  then obtain pre where pre: "object_name store (artifact_key sha ext) = pre @ ext"
    unfolding artifact_key_def by (metis append.assoc)
  obtain a where "pre @ ext = a @ ''.tmp''" using tmp pre by (auto simp: ends_with_iff)
  then have "drop (length ext - 3) ext = ''tmp''"
  proof -
    assume eq: "pre @ ext = a @ ''.tmp''"
    have "drop (length pre + (length ext - 3)) (pre @ ext) = drop (length ext - 3) ext" by simp
    moreover have "length pre + (length ext - 3) = length a + 1"
      using ext(2) arg_cong [OF eq, of length] by simp
    moreover have "drop (length a + 1) (a @ ''.tmp'') = ''tmp''" by simp
    ultimately show ?thesis using eq by simp
  qed
  then show False using ext(1) unfolding ends_with_iff by (metis append_take_drop_id)
qed

subsection \<open>Examples\<close>

lemma digest_a: "is_digest (replicate 64 (CHR ''a''))"
  by (simp add: is_digest_def ascii_defs list_all_iff)

definition world_a :: world where
  "world_a = (start db_1)\<lparr>objects := [(''k'', plain_blob ''zz'')]\<rparr>"

lemma calm_store: "store_rely x calm" "store_settle calm w = w\<lparr>tick := Suc (tick w)\<rparr>"
  by (simp_all add: store_rely_def store_settle_def)

lemma toy_sha: "sha256_hex toy_ext s = replicate 64 (CHR ''a'')"
  by (simp add: toy_ext_def)

lemma memory_example:
  "put_verified toy_ext (Memory 10) ''artifacts/a.zip'' ''hello'' ''t'' (sha256_hex toy_ext ''hello'') calm world_a =
     (Inr (), world_a\<lparr>objects := [(''artifacts/a.zip'', plain_blob ''hello''), (''k'', plain_blob ''zz'')], tick := 1\<rparr>)"
  using digest_a
  by (simp add: put_verified_def toy_sha put_memory_def locked_def calm_store world_a_def look_def checked_add_def
      u64_max_def plain_blob_def set_object_def)

theorem put_then_get_witness:
  "\<exists>w'. put_verified toy_ext (Memory 10) ''artifacts/a.zip'' ''hello'' ''t'' (sha256_hex toy_ext ''hello'') calm world_a = (Inr (), w')
     \<and> backed toy_ext ''artifacts/a.zip'' (replicate 64 (CHR ''a'')) (length ''hello'') w'"
proof -
  have "\<not> ends_with (object_name (Memory 10) ''artifacts/a.zip'') ''.tmp''"
    by (simp add: object_name_def ends_with_def starts_with_def)
  from put_then_get [OF memory_example calm_store(1) this] memory_example show ?thesis
    by (auto simp: toy_sha object_name_def)
qed

theorem writes_never_replace_objects_witness:
  "look (objects (snd (put_verified toy_ext (S3 ''b'') ''k'' ''hello'' ''t'' (replicate 64 (CHR ''a'')) calm world_a))) ''k''
     = Some (plain_blob ''zz'')"
proof -
  have "look (objects world_a) ''k'' = Some (plain_blob ''zz'')" by (simp add: world_a_def look_def)
  moreover have "\<not> is_staging toy_ext ''k''" by (simp add: is_staging_def staging_path_def)
  ultimately show ?thesis using writes_never_replace_objects [OF _ calm_store(1)] by blast
qed

theorem memory_store_is_bounded_witness:
  "used (objects (snd (put_verified toy_ext (Memory 10) ''artifacts/a.zip'' ''hello'' ''t'' (replicate 64 (CHR ''a'')) calm world_a))) \<le> 10"
  by (rule memory_store_is_bounded) (simp_all add: world_a_def used_def plain_blob_def)

theorem alias_keys_are_contained_witness:
  "good_path ''packages/acme/kit/1.0/kit-1.0.zip''"
proof -
  have "''packages/acme/kit/1.0/kit-1.0.zip'' \<in> set (guessable_alias_keys ''acme'' ''kit'' ''1.0'' ''v1'' ''zip'' ''u'')"
    by (simp add: guessable_alias_keys_def parse_github_def strip_prefix_def starts_with_def or_else_def
        safe_r2_segments_def safe_r2_segment_def package_alias_def github_alias_def)
  then show ?thesis using alias_keys_are_contained by blast
qed

end
