(* ===== verification/Contract.thy ===== *)
theory Contract
  imports Mirrors StorageLaws
begin

section \<open>Types of a publication\<close>

text \<open>
  The contract types of \<open>zed-interfaces\<close> that a publication carries, with the members the server
  reads, and the functions of that crate the server calls on them, as fields of \<open>publish_ext\<close>.
  Members the server never looks at are kept as opaque JSON so that equality of manifests means
  what it means in the code. An artifact format is its name; the crate gives its file extension
  and content type.
\<close>

record manifest_package =
  pg_org :: string
  pg_name :: string
  pg_version :: string
  pg_description :: "string option"
  pg_vcs :: string
  pg_repo_url :: string
  pg_version_scheme :: string
  pg_keywords :: "string list"

record manifest =
  mf_package :: manifest_package
  mf_rest :: json

record publish_meta =
  pm_manifest :: manifest
  pm_sha256 :: string
  pm_size :: nat
  pm_format :: string
  pm_vcs_tag :: string
  pm_vcs_commit :: "string option"
  pm_published_at :: "string option"
  pm_mirrors :: "json list"
  pm_signatures :: "detached_signature list"

record version_attestation =
  va_org :: string
  va_name :: string
  va_version :: string
  va_sha256 :: string
  va_size :: nat
  va_format :: string
  va_vcs_tag :: string
  va_vcs_commit :: string
  va_published_at :: string
  va_mirrors :: "json list"

record binary_source =
  bs_repository :: string
  bs_vcs_tag :: string
  bs_vcs_commit :: "string option"

record binary_file =
  bf_path :: string
  bf_size :: nat
  bf_sha256 :: string
  bf_executable :: bool

record binary_manifest =
  bm_source :: "binary_source option"
  bm_files :: "binary_file list"
  bm_rest :: json

record publish_ext = index_ext +
  manifest_validate :: "manifest \<Rightarrow> string + unit"
  manifest_to_json :: "manifest \<Rightarrow> string + json"
  manifest_parse :: "string \<Rightarrow> string + manifest"
  format_extension :: "string \<Rightarrow> string"
  format_content_type :: "string \<Rightarrow> string"
  mirrors_to_json :: "json list \<Rightarrow> string + json"
  signatures_to_json :: "detached_signature list \<Rightarrow> string + json"
  version_preimage :: "version_attestation \<Rightarrow> string + string"
  meta_from_str :: "string \<Rightarrow> string + publish_meta"
  binary_from_json :: "string \<Rightarrow> string + binary_manifest"
  binary_validate_against :: "binary_manifest \<Rightarrow> manifest \<Rightarrow> string + unit"
  binary_canonical_json :: "binary_manifest \<Rightarrow> string + string"
  safe_relative_path :: "string \<Rightarrow> string + unit"
  unicode_lowercase :: "string \<Rightarrow> string"
  PUBLISH_META_FIELD :: string
  PUBLISH_ARTIFACT_FIELD :: string

end
