(* ===== verification/BinaryArtifact.thy ===== *)
theory BinaryArtifact
  imports Contract
begin

section \<open>Native-binary archives (\<^verbatim>\<open>src/binary_artifact.rs\<close>)\<close>

text \<open>
  A ZIP that carries the reserved descriptor must satisfy the whole binary profile before it is
  published. The ZIP reader is the \<open>zip\<close> crate: what it exposes of an archive is the record
  \<open>zip_archive\<close>, given by a function of the uploaded bytes. The walk over the raw central
  directory, which finds what the reader hides, is the server's own and works on the bytes. A refusal
  is its text; the texts leave out the index of an entry, the octal kind of an unsupported Unix file,
  the name of a compression method and the reader's own words for a failed read, and where several
  files are unlisted they may name another one than the code, which goes through them in byte order.
\<close>

definition DEFAULT_MAX_BINARY_ARCHIVE_BYTES :: nat where
  "DEFAULT_MAX_BINARY_ARCHIVE_BYTES = 1024 * 1024 * 1024"

definition DEFAULT_MAX_BINARY_EXPANDED_BYTES :: nat where
  "DEFAULT_MAX_BINARY_EXPANDED_BYTES = 2 * 1024 * 1024 * 1024"

definition DEFAULT_MAX_BINARY_ENTRIES :: nat where
  "DEFAULT_MAX_BINARY_ENTRIES = 200000"

definition DEFAULT_MAX_BINARY_COMPRESSION_RATIO :: nat where
  "DEFAULT_MAX_BINARY_COMPRESSION_RATIO = 1000"

definition MAX_DESCRIPTOR_BYTES :: nat where
  "MAX_DESCRIPTOR_BYTES = 4 * 1024 * 1024"

definition MAX_PACKAGE_MANIFEST_BYTES :: nat where
  "MAX_PACKAGE_MANIFEST_BYTES = 4 * 1024 * 1024"

definition BINARY_ARCHIVE_ROOT :: string where
  "BINARY_ARCHIVE_ROOT = ''pkg''"

definition BINARY_DESCRIPTOR_PATH :: string where
  "BINARY_DESCRIPTOR_PATH = ''.zpkg-binary.json''"

definition BINARY_PACKAGE_MANIFEST_PATH :: string where
  "BINARY_PACKAGE_MANIFEST_PATH = ''.zpkg.toml''"

definition BINARY_DESCRIPTOR_ARCHIVE_PATH :: string where
  "BINARY_DESCRIPTOR_ARCHIVE_PATH = ''pkg/.zpkg-binary.json''"

subsection \<open>Limits\<close>

definition bounded_u64_override :: "string option \<Rightarrow> nat \<Rightarrow> nat" where
  "bounded_u64_override var ceiling =
     (case Option.bind var parse_u64 of
        Some n \<Rightarrow> if 0 < n then min n ceiling else ceiling
      | None \<Rightarrow> ceiling)"

definition bounded_usize_override :: "string option \<Rightarrow> nat \<Rightarrow> nat" where
  "bounded_usize_override var ceiling =
     (case Option.bind var parse_u64 of
        Some n \<Rightarrow> if 0 < n then min n ceiling else ceiling
      | None \<Rightarrow> ceiling)"

record binary_limits =
  max_binary_archive_bytes :: nat
  max_binary_expanded_bytes :: nat
  max_binary_entries :: nat
  max_binary_compression_ratio :: nat

definition limits_from_env :: "(string \<Rightarrow> string option) \<Rightarrow> binary_limits" where
  "limits_from_env var =
     \<lparr>max_binary_archive_bytes = bounded_u64_override (var ''ZED_MAX_BINARY_ARCHIVE_BYTES'') DEFAULT_MAX_BINARY_ARCHIVE_BYTES,
      max_binary_expanded_bytes = bounded_u64_override (var ''ZED_MAX_BINARY_EXPANDED_BYTES'') DEFAULT_MAX_BINARY_EXPANDED_BYTES,
      max_binary_entries = bounded_usize_override (var ''ZED_MAX_BINARY_ENTRIES'') DEFAULT_MAX_BINARY_ENTRIES,
      max_binary_compression_ratio =
        bounded_u64_override (var ''ZED_MAX_BINARY_COMPRESSION_RATIO'') DEFAULT_MAX_BINARY_COMPRESSION_RATIO\<rparr>"

subsection \<open>The ZIP reader\<close>

text \<open>The bytes an entry inflates to, and whether reading fails after them.\<close>

record zip_entry =
  ze_name_raw :: string
  ze_encrypted :: bool
  ze_stored_or_deflated :: bool
  ze_symlink :: bool
  ze_file :: bool
  ze_dir :: bool
  ze_size :: nat
  ze_compressed_size :: nat
  ze_unix_mode :: "nat option"
  ze_enclosed_name :: "string option"
  ze_data :: string
  ze_fails :: bool

record zip_archive =
  za_directory_start :: nat
  za_entries :: "(string + zip_entry) list"
  za_by_name :: "string \<Rightarrow> string + zip_entry"
  za_overlapping :: "string + bool"

type_synonym zip_reader = "string \<Rightarrow> string + zip_archive"

subsection \<open>Paths\<close>

definition replace_backslash :: "string \<Rightarrow> string" where
  "replace_backslash s = map (\<lambda>c. if c = CHR 0x5C then CHR ''/'' else c) s"

definition portable_path_key :: "('x publish_ext_scheme) \<Rightarrow> string \<Rightarrow> string" where
  "portable_path_key x path = unicode_lowercase x (replace_backslash path)"

definition trim_dots_and_spaces :: "string \<Rightarrow> string" where
  "trim_dots_and_spaces s = rev (dropWhile (\<lambda>c. c = CHR ''.'' \<or> c = CHR '' '') (rev s))"

fun normalize_segments :: "('x publish_ext_scheme) \<Rightarrow> string list \<Rightarrow> string list \<Rightarrow> string list option" where
  "normalize_segments x components [] = Some components"
| "normalize_segments x components (raw # rest) =
     (if raw = [] \<or> raw = ''.'' then normalize_segments x components rest
      else if raw = ''..'' then
        (if components = [] then None else normalize_segments x (butlast components) rest)
      else if trim_dots_and_spaces raw = [] then normalize_segments x components rest
      else normalize_segments x (components @ [unicode_lowercase x (trim_dots_and_spaces raw)]) rest)"

definition normalized_archive_path :: "('x publish_ext_scheme) \<Rightarrow> string \<Rightarrow> string option" where
  "normalized_archive_path x path =
     map_option (join_with ''/'') (normalize_segments x [] (split_on (CHR ''/'') (replace_backslash path)))"

text \<open>Well-formed UTF-8, the test of \<open>str::from\_utf8\<close>.\<close>

definition cont :: "char \<Rightarrow> bool" where
  "cont c \<longleftrightarrow> 128 \<le> byte_of c \<and> byte_of c < 192"

fun utf8 :: "string \<Rightarrow> bool" where
  "utf8 [] = True"
| "utf8 (a # s) =
     (if byte_of a < 128 then utf8 s
      else if 194 \<le> byte_of a \<and> byte_of a < 224 then
        (case s of b # s1 \<Rightarrow> cont b \<and> utf8 s1 | _ \<Rightarrow> False)
      else if 224 \<le> byte_of a \<and> byte_of a < 240 then
        (case s of b # c # s2 \<Rightarrow> cont b \<and> cont c \<and> (byte_of a = 224 \<longrightarrow> 160 \<le> byte_of b)
             \<and> (byte_of a = 237 \<longrightarrow> byte_of b < 160) \<and> utf8 s2 | _ \<Rightarrow> False)
      else if 240 \<le> byte_of a \<and> byte_of a < 245 then
        (case s of b # c # d # s3 \<Rightarrow> cont b \<and> cont c \<and> cont d \<and> (byte_of a = 240 \<longrightarrow> 144 \<le> byte_of b)
             \<and> (byte_of a = 244 \<longrightarrow> byte_of b < 144) \<and> utf8 s3 | _ \<Rightarrow> False)
      else False)"

subsection \<open>The raw central directory\<close>

definition slice_get :: "string \<Rightarrow> nat \<Rightarrow> nat \<Rightarrow> string option" where
  "slice_get bytes a b = (if a \<le> b \<and> b \<le> length bytes then Some (take (b - a) (drop a bytes)) else None)"

definition u16_le :: "string \<Rightarrow> nat \<Rightarrow> nat" where
  "u16_le header i = byte_of (header ! i) + 256 * byte_of (header ! (i + 1))"

definition u32_le :: "string \<Rightarrow> nat \<Rightarrow> nat" where
  "u32_le header i = u16_le header i + 65536 * u16_le header (i + 2)"

function zip64_from :: "string \<Rightarrow> nat \<Rightarrow> bool option" where
  "zip64_from extra offset =
     (if offset < length extra then
        (case slice_get extra offset (offset + 4) of
           None \<Rightarrow> None
         | Some header \<Rightarrow>
             (let data_end = offset + 4 + u16_le header 2
              in if length extra < data_end then None
                 else if u16_le header 0 = 1 then Some True
                 else zip64_from extra data_end))
      else Some False)"
  by pat_completeness auto
termination
  by (relation "measure (\<lambda>(extra, offset). length extra - offset)") auto

declare zip64_from.simps [simp del]

definition contains_zip64_extra :: "string \<Rightarrow> bool option" where
  "contains_zip64_extra extra = zip64_from extra 0"

definition central_magic :: string where
  "central_magic = [CHR ''P'', CHR ''K'', CHR 0x01, CHR 0x02]"

text \<open>A violation is kept only when none was found before.\<close>

definition note_violation :: "bool \<Rightarrow> string \<Rightarrow> string option \<Rightarrow> string option" where
  "note_violation found text old = (if found \<and> old = None then Some text else old)"

definition header_violation :: "string \<Rightarrow> string option \<Rightarrow> string option" where
  "header_violation header old =
     note_violation (u32_le header 20 = 2 ^ 32 - 1 \<or> u32_le header 24 = 2 ^ 32 - 1
         \<or> u16_le header 34 = 2 ^ 16 - 1 \<or> u32_le header 42 = 2 ^ 32 - 1)
       ''binary ZIP contains an unnecessary per-entry ZIP64 sentinel''
       (note_violation (odd (u16_le header 8 div 8))
          ''binary ZIP entries must not use general-purpose bit 3 data descriptors'' old)"

definition extra_violation :: "string \<Rightarrow> string option \<Rightarrow> string option" where
  "extra_violation extra old =
     note_violation (contains_zip64_extra extra = None)
       ''binary ZIP contains a malformed central-directory extra field''
       (note_violation (contains_zip64_extra extra = Some True)
          ''binary ZIP contains an unnecessary per-entry ZIP64 extra field'' old)"

definition reserved_alias :: "('x publish_ext_scheme) \<Rightarrow> string \<Rightarrow> bool" where
  "reserved_alias x raw \<longleftrightarrow>
     raw \<noteq> BINARY_DESCRIPTOR_ARCHIVE_PATH \<and> utf8 raw
     \<and> normalized_archive_path x raw = Some BINARY_DESCRIPTOR_ARCHIVE_PATH"

text \<open>One header: the file name, the violation seen so far and the offset of the next header.\<close>

definition central_header ::
  "('x publish_ext_scheme) \<Rightarrow> string \<Rightarrow> nat \<Rightarrow> string option \<Rightarrow> string + string \<times> string option \<times> nat" where
  "central_header x bytes offset violation =
     bind_r (ok_or ''truncated ZIP central-directory header'' (slice_get bytes offset (saturating_add offset 46))) (\<lambda>header.
     bind_r (ok_or ''ZIP central-directory offset overflow'' (checked_add offset 46)) (\<lambda>name_start.
     bind_r (ok_or ''ZIP central-directory filename length overflow'' (checked_add name_start (u16_le header 28))) (\<lambda>name_end.
     bind_r (ok_or ''truncated ZIP central-directory filename'' (slice_get bytes name_start name_end)) (\<lambda>raw.
     bind_r (ok_or ''ZIP central-directory extra-field length overflow'' (checked_add name_end (u16_le header 30))) (\<lambda>extra_end.
     bind_r (ok_or ''truncated ZIP central-directory extra field'' (slice_get bytes name_end extra_end)) (\<lambda>extra.
     bind_r (guard_r (\<not> reserved_alias x raw)
       (''reserved binary descriptor path must be exactly `'' @ BINARY_DESCRIPTOR_ARCHIVE_PATH @ ''`, got `'' @ raw @ ''`'')) (\<lambda>_.
     bind_r (ok_or ''ZIP central-directory entry length overflow'' (checked_add extra_end (u16_le header 32))) (\<lambda>next.
     bind_r (guard_r (\<not> length bytes < next) ''truncated ZIP central-directory entry'') (\<lambda>_.
       Inr (raw, extra_violation extra (header_violation header violation), next))))))))))"

lemma slice_get_bound: "slice_get bytes a b = Some s \<Longrightarrow> a \<le> b \<and> b \<le> length bytes \<and> length s = b - a"
  by (auto simp: slice_get_def split: if_splits)

lemma central_header_next:
  "central_header x bytes offset violation = Inr (raw, violation', next) \<Longrightarrow> offset < next \<and> next \<le> length bytes"
  by (auto simp: central_header_def bind_r_Inr_iff checked_add_Some_iff)

text \<open>The entry counter cannot overflow: there are fewer headers than bytes.\<close>

function walk_directory ::
  "('x publish_ext_scheme) \<Rightarrow> string \<Rightarrow> nat \<Rightarrow> string list \<Rightarrow> string option \<Rightarrow> string + string list \<times> string option" where
  "walk_directory x bytes offset names violation =
     (if slice_get bytes offset (saturating_add offset 4) \<noteq> Some central_magic then Inr (names, violation)
      else (case central_header x bytes offset violation of
              Inl err \<Rightarrow> Inl err
            | Inr (raw, violation', next) \<Rightarrow> walk_directory x bytes next (names @ [raw]) violation'))"
  by pat_completeness auto
termination
proof (relation "measure (\<lambda>(x, bytes, offset, names, violation). length bytes - offset)")
  fix x :: "'x publish_ext_scheme" and bytes offset names violation r p raw q violation' "next"
  assume "central_header x bytes offset violation = Inr r" "(raw, p) = r" "(violation', next) = p"
  then have "offset < next \<and> next \<le> length bytes" using central_header_next by metis
  then show "((x, bytes, next, names @ [raw], violation'), (x, bytes, offset, names, violation))
      \<in> measure (\<lambda>(x, bytes, offset, names, violation). length bytes - offset)"
    by (simp add: diff_less_mono2)
qed simp

declare walk_directory.simps [simp del]

datatype descriptor_presence = Absent | Present

definition descriptor_presence ::
  "('x publish_ext_scheme) \<Rightarrow> zip_reader \<Rightarrow> string \<Rightarrow> string + descriptor_presence" where
  "descriptor_presence x open_zip bytes =
     bind_r (map_error (\<lambda>error. ''invalid ZIP archive: '' @ error) (open_zip bytes)) (\<lambda>archive.
     bind_r (walk_directory x bytes (za_directory_start archive) [] None) (\<lambda>(names, violation).
     bind_r (guard_r (length names = length (za_entries archive))
       (''ZIP central directory contains duplicate or inconsistently indexed entries: raw count ''
        @ show_nat (length names) @ '', parser exposes '' @ show_nat (length (za_entries archive)))) (\<lambda>_.
       let exact = length (filter (\<lambda>raw. raw = BINARY_DESCRIPTOR_ARCHIVE_PATH) names)
       in if exact = 0 then Inr Absent
          else if exact = 1 then (case violation of Some text \<Rightarrow> Inl text | None \<Rightarrow> Inr Present)
          else Inl (''binary ZIP contains '' @ show_nat exact @ '' copies of `'' @ BINARY_DESCRIPTOR_ARCHIVE_PATH @ ''`''))))"

subsection \<open>Scanning the entries\<close>

text \<open>Byte order of strings, and the first key at or after a given one, as \<open>BTreeMap::range\<close> yields it.\<close>

fun bytes_le :: "string \<Rightarrow> string \<Rightarrow> bool" where
  "bytes_le [] b = True"
| "bytes_le (x # a) [] = False"
| "bytes_le (x # a) (y # b) = (byte_of x < byte_of y \<or> x = y \<and> bytes_le a b)"

fun next_key :: "string \<Rightarrow> string list \<Rightarrow> string option" where
  "next_key from [] = None"
| "next_key from (k # ks) =
     (if bytes_le from k
      then (case next_key from ks of None \<Rightarrow> Some k | Some m \<Rightarrow> Some (if bytes_le k m then k else m))
      else next_key from ks)"

definition has_descendant :: "string \<Rightarrow> string list \<Rightarrow> bool" where
  "has_descendant portable keys \<longleftrightarrow>
     (case next_key (portable @ ''/'') keys of None \<Rightarrow> False | Some k \<Rightarrow> starts_with k (portable @ ''/''))"

text \<open>The proper ancestors of a path: its prefixes before a slash.\<close>

definition ancestors :: "string \<Rightarrow> string list" where
  "ancestors path = map (\<lambda>i. take i path) (filter (\<lambda>i. path ! i = CHR ''/'') [0..<length path])"

record scan =
  sc_regular :: "string list"
  sc_portable :: "(string \<times> string) list"
  sc_portable_regular :: "string list"
  sc_descriptor :: "string option"
  sc_manifest :: "string option"
  sc_expanded :: nat

definition empty_scan :: scan where
  "empty_scan = \<lparr>sc_regular = [], sc_portable = [], sc_portable_regular = [], sc_descriptor = None,
     sc_manifest = None, sc_expanded = 0\<rparr>"

definition enforce_compression_ratio :: "binary_limits \<Rightarrow> string \<Rightarrow> nat \<Rightarrow> nat \<Rightarrow> string + unit" where
  "enforce_compression_ratio limits name expanded compressed =
     (if expanded = 0 then Inr ()
      else if compressed = 0 then Inl (''ZIP entry `'' @ name @ ''` has zero compressed bytes'')
      else let ratio = saturating_add expanded (compressed - 1) div compressed
           in guard_r (\<not> max_binary_compression_ratio limits < ratio)
                (''ZIP entry `'' @ name @ ''` has compression ratio '' @ show_nat ratio @ '':1, above the ''
                 @ show_nat (max_binary_compression_ratio limits) @ '':1 limit''))"

definition read_small_entry :: "zip_entry \<Rightarrow> nat \<Rightarrow> string \<Rightarrow> string + string" where
  "read_small_entry entry limit name =
     (if limit < length (ze_data entry)
      then Inl (''ZIP entry `'' @ name @ ''` exceeds the '' @ show_nat limit @ ''-byte limit'')
      else if ze_fails entry then Inl (''reading `'' @ name @ ''` failed: '')
      else Inr (ze_data entry))"

text \<open>The refusals that look at one entry alone.\<close>

definition allowed_mode :: "zip_entry \<Rightarrow> bool" where
  "allowed_mode entry \<longleftrightarrow>
     (case ze_unix_mode entry of
        None \<Rightarrow> True
      | Some mode \<Rightarrow>
          (let kind = (mode div 4096) mod 16
           in kind = 0 \<or> (ze_file entry \<and> kind = 8) \<or> (ze_dir entry \<and> kind = 4)))"

definition quoted :: "string \<Rightarrow> string \<Rightarrow> string \<Rightarrow> string" where
  "quoted before name after = before @ ''`'' @ name @ ''`'' @ after"

text \<open>The name a refusal quotes; the refusal is only made when there is one.\<close>

definition the_default :: "string option \<Rightarrow> string" where
  "the_default found = (case found of None \<Rightarrow> [] | Some s \<Rightarrow> s)"

definition check_entry :: "zip_entry \<Rightarrow> string + unit" where
  "check_entry entry =
     bind_r (guard_r (utf8 (ze_name_raw entry)) ''ZIP entry name is not UTF-8'') (\<lambda>_.
     bind_r (guard_r (\<not> ze_encrypted entry) (quoted ''ZIP entry '' (ze_name_raw entry) '' is encrypted'')) (\<lambda>_.
     bind_r (guard_r (ze_stored_or_deflated entry)
       (quoted ''ZIP entry '' (ze_name_raw entry) '' uses unsupported compression'')) (\<lambda>_.
     bind_r (guard_r (\<not> ze_symlink entry) (quoted ''ZIP entry '' (ze_name_raw entry) '' is a symlink'')) (\<lambda>_.
     bind_r (guard_r (ze_file entry \<or> ze_dir entry)
       (quoted ''ZIP entry '' (ze_name_raw entry) '' is neither a regular file nor a directory'')) (\<lambda>_.
     bind_r (guard_r (\<not> (ze_dir entry \<and> ze_size entry \<noteq> 0))
       (quoted ''ZIP directory entry '' (ze_name_raw entry) ('' carries '' @ show_nat (ze_size entry) @ '' bytes of data''))) (\<lambda>_.
       guard_r (allowed_mode entry)
         (quoted ''ZIP entry '' (ze_name_raw entry) '' carries unsupported Unix file type'')))))))"

text \<open>The path below the root; \<open>None\<close> for the root directory itself.\<close>

definition entry_path :: "('x publish_ext_scheme) \<Rightarrow> zip_entry \<Rightarrow> string + string option" where
  "entry_path x entry =
     bind_r (ok_or (quoted ''ZIP entry '' (ze_name_raw entry) '' escapes the archive root'') (ze_enclosed_name entry)) (\<lambda>enclosed.
       let normalized = replace_backslash enclosed
       in if ze_dir entry \<and> trim_end_matches (CHR ''/'') normalized = BINARY_ARCHIVE_ROOT
          then bind_r (guard_r (ze_name_raw entry = BINARY_ARCHIVE_ROOT @ ''/'')
                 (quoted ''ZIP root directory '' (ze_name_raw entry) '' is not canonically encoded'')) (\<lambda>_. Inr None)
          else bind_r (ok_or (quoted ''ZIP entry '' (ze_name_raw entry) '' is not beneath `pkg/`'')
                 (strip_prefix normalized (BINARY_ARCHIVE_ROOT @ ''/''))) (\<lambda>rest.
               let relative = trim_end_matches (CHR ''/'') rest
               in bind_r (safe_relative_path x relative) (\<lambda>_.
                  bind_r (guard_r (ze_name_raw entry =
                      BINARY_ARCHIVE_ROOT @ ''/'' @ relative @ (if ze_dir entry then ''/'' else []))
                    (quoted (quoted ''ZIP entry '' (ze_name_raw entry) '' is not canonically encoded as '')
                      (BINARY_ARCHIVE_ROOT @ ''/'' @ relative @ (if ze_dir entry then ''/'' else [])) [])) (\<lambda>_. Inr (Some relative)))))"

definition add_path :: "('x publish_ext_scheme) \<Rightarrow> zip_entry \<Rightarrow> string \<Rightarrow> scan \<Rightarrow> string + scan" where
  "add_path x entry relative sc =
     (let portable = portable_path_key x relative
      in bind_r (guard_r (map_of (sc_portable sc) portable = None)
           (quoted (quoted ''ZIP entries '' (the_default (map_of (sc_portable sc) portable)) '' and '') relative
              '' collide under portable path rules'')) (\<lambda>_.
         bind_r (guard_r (list_all (\<lambda>a. a \<notin> set (sc_portable_regular sc)) (ancestors portable))
           (quoted (quoted ''ZIP file '' (the_default (List.find (\<lambda>a. a \<in> set (sc_portable_regular sc)) (ancestors portable)))
              '' is an ancestor of '') relative [])) (\<lambda>_.
         bind_r (guard_r (\<not> (ze_file entry \<and> has_descendant portable (map fst (sc_portable sc))))
           (quoted (quoted ''ZIP file '' relative '' is an ancestor of '')
              (the_default (Option.bind (next_key (portable @ ''/'') (map fst (sc_portable sc))) (map_of (sc_portable sc)))) [])) (\<lambda>_.
           Inr (sc\<lparr>sc_portable := (portable, relative) # sc_portable sc\<rparr>)))))"

definition add_file ::
  "('x publish_ext_scheme) \<Rightarrow> binary_limits \<Rightarrow> zip_entry \<Rightarrow> string \<Rightarrow> scan \<Rightarrow> string + scan" where
  "add_file x limits entry relative sc =
     bind_r (guard_r (relative \<notin> set (sc_regular sc)) (quoted ''binary ZIP contains duplicate file '' relative [])) (\<lambda>_.
     bind_r (enforce_compression_ratio limits (ze_name_raw entry) (ze_size entry) (ze_compressed_size entry)) (\<lambda>_.
     bind_r (ok_or ''binary ZIP expanded size overflows u64'' (checked_add (sc_expanded sc) (ze_size entry))) (\<lambda>expanded.
     bind_r (guard_r (\<not> max_binary_expanded_bytes limits < expanded)
       (''binary ZIP expands past the '' @ show_nat (max_binary_expanded_bytes limits) @ ''-byte limit'')) (\<lambda>_.
       let sc' = sc\<lparr>sc_portable_regular := portable_path_key x relative # sc_portable_regular sc,
                    sc_regular := relative # sc_regular sc, sc_expanded := expanded\<rparr>
       in if relative = BINARY_DESCRIPTOR_PATH then
            bind_r (guard_r (sc_descriptor sc = None) ''binary ZIP has multiple descriptors'') (\<lambda>_.
            bind_r (read_small_entry entry MAX_DESCRIPTOR_BYTES BINARY_DESCRIPTOR_PATH) (\<lambda>bytes.
              Inr (sc'\<lparr>sc_descriptor := Some bytes\<rparr>)))
          else if relative = BINARY_PACKAGE_MANIFEST_PATH then
            bind_r (guard_r (sc_manifest sc = None) ''binary ZIP has multiple package manifests'') (\<lambda>_.
            bind_r (read_small_entry entry MAX_PACKAGE_MANIFEST_BYTES BINARY_PACKAGE_MANIFEST_PATH) (\<lambda>bytes.
              Inr (sc'\<lparr>sc_manifest := Some bytes\<rparr>)))
          else Inr sc'))))"

definition scan_entry ::
  "('x publish_ext_scheme) \<Rightarrow> binary_limits \<Rightarrow> string + zip_entry \<Rightarrow> scan \<Rightarrow> string + scan" where
  "scan_entry x limits opened sc =
     bind_r (map_error (\<lambda>error. ''opening ZIP entry failed: '' @ error) opened) (\<lambda>entry.
     bind_r (check_entry entry) (\<lambda>_.
     bind_r (entry_path x entry) (\<lambda>path.
       case path of
         None \<Rightarrow> Inr sc
       | Some relative \<Rightarrow>
           bind_r (add_path x entry relative sc) (\<lambda>sc'.
             if ze_dir entry then Inr sc' else add_file x limits entry relative sc'))))"

fun scan_entries ::
  "('x publish_ext_scheme) \<Rightarrow> binary_limits \<Rightarrow> (string + zip_entry) list \<Rightarrow> scan \<Rightarrow> string + scan" where
  "scan_entries x limits [] sc = Inr sc"
| "scan_entries x limits (opened # rest) sc = bind_r (scan_entry x limits opened sc) (scan_entries x limits rest)"

subsection \<open>The profile\<close>

definition require_canonical_zip_magic :: "string \<Rightarrow> string + unit" where
  "require_canonical_zip_magic bytes =
     guard_r (slice_get bytes 0 4 = Some [CHR ''P'', CHR ''K'', CHR 0x03, CHR 0x04])
       ''binary artifact is not a canonical ZIP; self-extracting prefixes are forbidden''"

definition ensure_descriptor_matches_publish :: "binary_manifest \<Rightarrow> publish_meta \<Rightarrow> string + unit" where
  "ensure_descriptor_matches_publish descriptor meta =
     bind_r (ok_or ''binary publication requires source provenance in `.zpkg-binary.json`'' (bm_source descriptor)) (\<lambda>source.
     bind_r (guard_r (bs_repository source = pg_repo_url (mf_package (pm_manifest meta)))
       ''binary descriptor source repository does not match publish metadata'') (\<lambda>_.
     bind_r (guard_r (bs_vcs_tag source = pm_vcs_tag meta)
       ''binary descriptor source tag does not match publish metadata'') (\<lambda>_.
       guard_r (bs_vcs_commit source = pm_vcs_commit meta)
         ''binary descriptor source commit does not match publish metadata'')))"

fun hash_zip_pieces :: "('x publish_ext_scheme) \<Rightarrow> nat \<Rightarrow> nat \<Rightarrow> string \<Rightarrow> bool \<Rightarrow> string list \<Rightarrow> string + string" where
  "hash_zip_pieces x expected_size read hashed fails [] =
     bind_r (guard_r (\<not> fails) ''reading ZIP payload failed: '') (\<lambda>_.
     bind_r (guard_r (read = expected_size)
       (''ZIP payload size mismatch: expected '' @ show_nat expected_size @ '', got '' @ show_nat read)) (\<lambda>_.
       Inr (sha256_hex x hashed)))"
| "hash_zip_pieces x expected_size read hashed fails (piece # pieces) =
     bind_r (ok_or ''ZIP payload size overflows u64'' (checked_add read (length piece))) (\<lambda>read'.
     bind_r (guard_r (\<not> expected_size < read') ''ZIP payload exceeds its descriptor-declared size'') (\<lambda>_.
       hash_zip_pieces x expected_size read' (hashed @ piece) fails pieces))"

definition hash_zip_entry :: "('x publish_ext_scheme) \<Rightarrow> zip_entry \<Rightarrow> nat \<Rightarrow> string + string" where
  "hash_zip_entry x entry expected_size =
     hash_zip_pieces x expected_size 0 [] (ze_fails entry) (buffers (ze_data entry))"

definition executable_mode :: "nat \<Rightarrow> bool" where
  "executable_mode mode \<longleftrightarrow> odd (mode div 64) \<or> odd (mode div 8) \<or> odd mode"

definition check_payload :: "('x publish_ext_scheme) \<Rightarrow> zip_archive \<Rightarrow> binary_file \<Rightarrow> string + unit" where
  "check_payload x archive expected =
     bind_r (map_error (\<lambda>error. quoted ''opening '' (BINARY_ARCHIVE_ROOT @ ''/'' @ bf_path expected)
         ('' for integrity verification failed: '' @ error))
       (za_by_name archive (BINARY_ARCHIVE_ROOT @ ''/'' @ bf_path expected))) (\<lambda>entry.
     bind_r (guard_r (case ze_unix_mode entry of None \<Rightarrow> True | Some mode \<Rightarrow> executable_mode mode = bf_executable expected)
       (quoted (quoted ''payload '' (bf_path expected) '' executable mode disagrees with '') BINARY_DESCRIPTOR_ARCHIVE_PATH [])) (\<lambda>_.
     bind_r (hash_zip_entry x entry (bf_size expected)) (\<lambda>actual.
       guard_r (actual = bf_sha256 expected)
         (quoted ''payload digest mismatch for '' (bf_path expected) ('': expected '' @ bf_sha256 expected @ '', got '' @ actual)))))"

definition check_listing :: "binary_manifest \<Rightarrow> string list \<Rightarrow> string + unit" where
  "check_listing descriptor regular =
     bind_r (all_ok (\<lambda>path. guard_r (path = BINARY_DESCRIPTOR_PATH \<or> path \<in> set (map bf_path (bm_files descriptor)))
       (quoted ''binary ZIP contains unlisted payload file '' path [])) regular) (\<lambda>_.
     bind_r (all_ok (\<lambda>f. guard_r (bf_path f \<in> set regular)
       (quoted ''binary descriptor lists missing payload file '' (bf_path f) [])) (bm_files descriptor)) (\<lambda>_.
       guard_r (saturating_add (length (bm_files descriptor)) 1 = length regular)
         ''binary descriptor and archive payload counts differ''))"

definition check_descriptor ::
  "('x publish_ext_scheme) \<Rightarrow> publish_meta \<Rightarrow> scan \<Rightarrow> string + binary_manifest" where
  "check_descriptor x meta sc =
     bind_r (ok_or (quoted ''binary ZIP is missing '' BINARY_DESCRIPTOR_ARCHIVE_PATH []) (sc_descriptor sc)) (\<lambda>descriptor_bytes.
     bind_r (map_error (\<lambda>error. quoted ''parsing '' BINARY_DESCRIPTOR_ARCHIVE_PATH ('' failed: '' @ error))
       (binary_from_json x descriptor_bytes)) (\<lambda>descriptor.
     bind_r (ok_or (quoted ''binary ZIP is missing '' (''pkg/'' @ BINARY_PACKAGE_MANIFEST_PATH) []) (sc_manifest sc)) (\<lambda>manifest_bytes.
     bind_r (guard_r (utf8 manifest_bytes) ''embedded `.zpkg.toml` is not UTF-8'') (\<lambda>_.
     bind_r (map_error (\<lambda>error. ''parsing embedded `.zpkg.toml` failed: '' @ error) (manifest_parse x manifest_bytes)) (\<lambda>embedded.
     bind_r (binary_validate_against x descriptor embedded) (\<lambda>_.
     bind_r (binary_canonical_json x descriptor) (\<lambda>canonical.
     bind_r (guard_r (descriptor_bytes = canonical) (quoted [] BINARY_DESCRIPTOR_ARCHIVE_PATH '' is not canonical JSON'')) (\<lambda>_.
     bind_r (guard_r (embedded = pm_manifest meta) ''embedded `.zpkg.toml` does not exactly match publish metadata'') (\<lambda>_.
       Inr descriptor)))))))))"

definition verify_binary_zip ::
  "('x publish_ext_scheme) \<Rightarrow> binary_limits \<Rightarrow> zip_reader \<Rightarrow> publish_meta \<Rightarrow> string \<Rightarrow> string + binary_manifest" where
  "verify_binary_zip x limits open_zip meta bytes =
     bind_r (guard_r (\<not> max_binary_archive_bytes limits < length bytes)
       (''binary ZIP is '' @ show_nat (length bytes) @ '' bytes, above the ''
        @ show_nat (max_binary_archive_bytes limits) @ ''-byte limit'')) (\<lambda>_.
     bind_r (require_canonical_zip_magic bytes) (\<lambda>_.
     bind_r (map_error (\<lambda>error. ''invalid binary ZIP: '' @ error) (open_zip bytes)) (\<lambda>archive.
     bind_r (map_error (\<lambda>error. ''checking overlapping ZIP entries failed: '' @ error) (za_overlapping archive)) (\<lambda>overlapping.
     bind_r (guard_r (\<not> overlapping) ''binary ZIP contains overlapping file ranges; refusing'') (\<lambda>_.
     bind_r (guard_r (\<not> max_binary_entries limits < length (za_entries archive))
       (''binary ZIP has '' @ show_nat (length (za_entries archive)) @ '' entries, above the ''
        @ show_nat (max_binary_entries limits) @ ''-entry limit'')) (\<lambda>_.
     bind_r (scan_entries x limits (za_entries archive) empty_scan) (\<lambda>sc.
     bind_r (check_descriptor x meta sc) (\<lambda>descriptor.
     bind_r (ensure_descriptor_matches_publish descriptor meta) (\<lambda>_.
     bind_r (check_listing descriptor (sc_regular sc)) (\<lambda>_.
     bind_r (all_ok (check_payload x archive) (bm_files descriptor)) (\<lambda>_.
       Inr descriptor)))))))))))"

definition verify_publish ::
  "('x publish_ext_scheme) \<Rightarrow> binary_limits \<Rightarrow> zip_reader \<Rightarrow> publish_meta \<Rightarrow> string \<Rightarrow> string + binary_manifest option" where
  "verify_publish x limits open_zip meta bytes =
     (if pm_format meta \<noteq> ''zip'' then Inr None
      else bind_r (guard_r (length bytes = pm_size meta)
             (''publish metadata declares '' @ show_nat (pm_size meta) @ '' bytes, but the upload contains ''
              @ show_nat (length bytes))) (\<lambda>_.
           bind_r (descriptor_presence x open_zip bytes) (\<lambda>presence.
             case presence of
               Absent \<Rightarrow> Inr None
             | Present \<Rightarrow> bind_r (verify_binary_zip x limits open_zip meta bytes) (\<lambda>d. Inr (Some d)))))"

end
