(* ===== verification/BinaryLaws.thy ===== *)
theory BinaryLaws
  imports BinaryArtifact
begin

section \<open>What a verified binary archive satisfies\<close>

text \<open>
  Soundness of the binary profile: the listing is exact, every payload has its declared size and
  digest, no two entries can land on the same file on a case-insensitive or Windows host, and the
  reserved descriptor cannot be smuggled in under another spelling. The lookups in ordered maps
  are shown to be what they stand for.
\<close>

subsection \<open>Ordered lookups\<close>

lemma byte_of_inj: "byte_of a = byte_of b \<Longrightarrow> a = b"
  by (simp add: byte_of_def)

lemma bytes_le_refl: "bytes_le a a"
  by (induction a) auto

lemma bytes_le_linear: "bytes_le a b \<or> bytes_le b a"
  by (induction a b rule: bytes_le.induct) (auto dest: byte_of_inj simp: not_less_iff_gr_or_eq neq_iff intro: byte_of_inj)

lemma bytes_le_trans: "bytes_le a b \<Longrightarrow> bytes_le b c \<Longrightarrow> bytes_le a c"
proof (induction a arbitrary: b c)
  case (Cons x a)
  then obtain y b' z c' where "b = y # b'" "c = z # c'" by (cases b; cases c) auto
  then show ?case using Cons by auto
qed simp

lemma bytes_le_prefix: "starts_with k p \<Longrightarrow> bytes_le p k"
proof (induction p arbitrary: k)
  case (Cons x p)
  then show ?case by (cases k) (auto simp: starts_with_def)
qed simp

text \<open>Between a prefix and a string with that prefix, every string has it.\<close>

lemma bytes_le_between:
  "bytes_le p m \<Longrightarrow> bytes_le m k \<Longrightarrow> starts_with k p \<Longrightarrow> starts_with m p"
proof (induction p arbitrary: m k)
  case (Cons x p)
  then obtain y m' z k' where "m = y # m'" "k = z # k'" by (cases m; cases k) (auto simp: starts_with_def)
  then show ?case using Cons by (auto simp: starts_with_def)
qed (simp add: starts_with_def)

lemma next_key_None: "next_key from ks = None \<longleftrightarrow> (\<forall>k\<in>set ks. \<not> bytes_le from k)"
  by (induction ks) (auto split: option.split)

lemma next_key_Some:
  "next_key from ks = Some m \<Longrightarrow> m \<in> set ks \<and> bytes_le from m \<and> (\<forall>k\<in>set ks. bytes_le from k \<longrightarrow> bytes_le m k)"
proof (induction ks arbitrary: m)
  case (Cons k ks)
  show ?case
  proof (cases "bytes_le from k")
    case True
    show ?thesis
    proof (cases "next_key from ks")
      case None
      then show ?thesis using Cons.prems True next_key_None [of "from" ks] bytes_le_refl by auto
    next
      case (Some n)
      note ih = Cons.IH [OF Some]
      have m: "m = (if bytes_le k n then k else n)" using Some True Cons.prems by simp
      show ?thesis
      proof (cases "bytes_le k n")
        case le: True
        have "bytes_le k k'" if "k' \<in> set ks" "bytes_le from k'" for k'
          using ih that bytes_le_trans [OF le] by blast
        then show ?thesis using m le True bytes_le_refl by auto
      next
        case False
        then have "bytes_le n k" using bytes_le_linear by blast
        then show ?thesis using m False ih by auto
      qed
    qed
  next
    case False
    then show ?thesis using Cons by auto
  qed
qed simp

text \<open>The ordered-map probe for a file above existing entries is exact: looking only at the first key
  at or after the prefix finds a descendant whenever there is one.\<close>

lemma has_descendant_iff:
  "has_descendant portable keys \<longleftrightarrow> (\<exists>k\<in>set keys. starts_with k (portable @ ''/''))"
proof
  assume "has_descendant portable keys"
  then show "\<exists>k\<in>set keys. starts_with k (portable @ ''/'')"
    by (auto simp: has_descendant_def dest: next_key_Some split: option.splits)
next
  assume "\<exists>k\<in>set keys. starts_with k (portable @ ''/'')"
  then obtain k where k: "k \<in> set keys" "starts_with k (portable @ ''/'')" by blast
  then have le: "bytes_le (portable @ ''/'') k" by (intro bytes_le_prefix)
  then obtain m where m: "next_key (portable @ ''/'') keys = Some m"
    using next_key_None [of "portable @ ''/''" keys] k(1) by (cases "next_key (portable @ ''/'') keys") auto
  have "starts_with m (portable @ ''/'')"
    using next_key_Some [OF m] k le bytes_le_between by blast
  then show "has_descendant portable keys" using m by (simp add: has_descendant_def)
qed

lemma ancestors_iff: "a \<in> set (ancestors p) \<longleftrightarrow> starts_with p (a @ ''/'')"
proof
  assume "a \<in> set (ancestors p)"
  then obtain i where i: "i < length p" "p ! i = CHR ''/''" "a = take i p" by (auto simp: ancestors_def)
  then have "p = a @ [CHR ''/''] @ drop (Suc i) p" using id_take_nth_drop [OF i(1)] by simp
  then show "starts_with p (a @ ''/'')" unfolding starts_with_iff by auto
next
  assume "starts_with p (a @ ''/'')"
  then obtain r where "p = a @ CHR ''/'' # r" by (auto simp: starts_with_iff)
  then show "a \<in> set (ancestors p)"
    by (auto simp: ancestors_def intro!: image_eqI [of _ _ "length a"])
qed

subsection \<open>Paths do not conflict\<close>

text \<open>The paths an archive lays out: below the root, in order, with a mark for regular files.\<close>

definition listed :: "('x publish_ext_scheme) \<Rightarrow> string + zip_entry \<Rightarrow> (string \<times> zip_entry) option" where
  "listed x opened =
     (case opened of
        Inl _ \<Rightarrow> None
      | Inr entry \<Rightarrow> (case entry_path x entry of Inr (Some r) \<Rightarrow> Some (r, entry) | _ \<Rightarrow> None))"

definition layout :: "('x publish_ext_scheme) \<Rightarrow> (string + zip_entry) list \<Rightarrow> (string \<times> zip_entry) list" where
  "layout x entries = List.map_filter (listed x) entries"

definition regular :: "(string \<times> zip_entry) list \<Rightarrow> (string \<times> zip_entry) list" where
  "regular ps = filter (\<lambda>(_, entry). \<not> ze_dir entry) ps"

definition compatible :: "('x publish_ext_scheme) \<Rightarrow> string \<times> zip_entry \<Rightarrow> string \<times> zip_entry \<Rightarrow> bool" where
  "compatible x a b \<longleftrightarrow>
     (let p = portable_path_key x (fst a); q = portable_path_key x (fst b)
      in p \<noteq> q \<and> (\<not> ze_dir (snd a) \<longrightarrow> \<not> starts_with q (p @ ''/''))
         \<and> (\<not> ze_dir (snd b) \<longrightarrow> \<not> starts_with p (q @ ''/'')))"

definition scanned :: "('x publish_ext_scheme) \<Rightarrow> binary_limits \<Rightarrow> (string \<times> zip_entry) list \<Rightarrow> scan \<Rightarrow> bool" where
  "scanned x limits ps sc \<longleftrightarrow>
     sc_portable sc = rev (map (\<lambda>(r, _). (portable_path_key x r, r)) ps)
     \<and> sc_portable_regular sc = rev (map (\<lambda>(r, _). portable_path_key x r) (regular ps))
     \<and> sc_regular sc = rev (map fst (regular ps))
     \<and> sc_expanded sc = sum_list (map (\<lambda>(_, entry). ze_size entry) (regular ps))
     \<and> sc_expanded sc \<le> max_binary_expanded_bytes limits
     \<and> distinct (map fst (regular ps)) \<and> sorted_wrt (compatible x) ps"

lemma empty_scanned: "scanned x limits [] empty_scan"
  by (simp add: scanned_def empty_scan_def regular_def)

lemma layout_simps:
  "layout x [] = []"
  "layout x (opened # rest) = (case listed x opened of None \<Rightarrow> layout x rest | Some p \<Rightarrow> p # layout x rest)"
  by (simp_all add: layout_def List.map_filter_def split: option.split)

lemma add_path_fields:
  "add_path x entry r sc = Inr sc' \<Longrightarrow> \<exists>ps. sc' = sc\<lparr>sc_portable := ps\<rparr>"
  by (auto simp: add_path_def bind_r_Inr_iff Let_def)

lemma add_path_compatible:
  assumes "scanned x limits ps sc" "add_path x entry r sc = Inr sc'" "ze_file entry \<or> ze_dir entry" "p \<in> set ps"
  shows "compatible x p (r, entry)"
proof -
  let ?k = "portable_path_key x"
  obtain q old where p: "p = (q, old)" by (cases p)
  have keys: "map fst (sc_portable sc) = rev (map (\<lambda>(r, _). ?k r) ps)"
    using assms(1) by (simp add: scanned_def rev_map split_def)
  have none: "map_of (sc_portable sc) (?k r) = None"
    and anc: "\<forall>a \<in> set (ancestors (?k r)). a \<notin> set (sc_portable_regular sc)"
    and desc: "ze_file entry \<Longrightarrow> \<not> has_descendant (?k r) (map fst (sc_portable sc))"
    using assms(2) by (auto simp: add_path_def bind_r_Inr_iff Let_def list_all_iff)
  have "?k q \<in> set (map fst (sc_portable sc))" using keys assms(4) p by force
  then have "?k q \<noteq> ?k r" using none by (metis list.set_map map_of_eq_None_iff)
  moreover have "\<not> starts_with (?k r) (?k q @ ''/'')" if "\<not> ze_dir old"
  proof -
    have "?k q \<in> set (sc_portable_regular sc)"
      using assms(1,4) p that by (force simp: scanned_def regular_def)
    then show ?thesis using anc ancestors_iff by blast
  qed
  moreover have "\<not> starts_with (?k q) (?k r @ ''/'')" if "\<not> ze_dir entry"
  proof -
    have "ze_file entry" using assms(3) that by simp
    from desc [OF this] show ?thesis
      using \<open>?k q \<in> set (map fst (sc_portable sc))\<close> unfolding has_descendant_iff by blast
  qed
  ultimately show ?thesis by (simp add: compatible_def p)
qed

lemma add_file_fields:
  assumes "add_file x limits entry r sc = Inr sc'"
  shows "sc_portable sc' = sc_portable sc \<and> sc_portable_regular sc' = portable_path_key x r # sc_portable_regular sc
    \<and> sc_regular sc' = r # sc_regular sc \<and> r \<notin> set (sc_regular sc)
    \<and> sc_expanded sc' = sc_expanded sc + ze_size entry \<and> sc_expanded sc' \<le> max_binary_expanded_bytes limits
    \<and> enforce_compression_ratio limits (ze_name_raw entry) (ze_size entry) (ze_compressed_size entry) = Inr ()"
  using assms by (auto simp: add_file_def bind_r_Inr_iff Let_def checked_add_Some_iff split: if_splits)

lemma check_entry_kind: "check_entry entry = Inr u \<Longrightarrow> ze_file entry \<or> ze_dir entry"
  by (auto simp: check_entry_def bind_r_Inr_iff)

lemma regular_snoc: "regular (ps @ [(r, entry)]) = regular ps @ (if ze_dir entry then [] else [(r, entry)])"
  by (simp add: regular_def)

lemma scan_entry_step:
  assumes "scanned x limits ps sc" "scan_entry x limits opened sc = Inr sc'"
  shows "scanned x limits (ps @ (case listed x opened of None \<Rightarrow> [] | Some p \<Rightarrow> [p])) sc'"
proof -
  obtain entry path where opened: "opened = Inr entry" and ok: "check_entry entry = Inr ()"
    and path: "entry_path x entry = Inr path"
    and rest: "(case path of None \<Rightarrow> Inr sc | Some r \<Rightarrow> bind_r (add_path x entry r sc) (\<lambda>sc'.
             if ze_dir entry then Inr sc' else add_file x limits entry r sc')) = Inr sc'"
    using assms(2) by (auto simp: scan_entry_def bind_r_Inr_iff)
  show ?thesis
  proof (cases path)
    case None
    then show ?thesis using rest assms(1) opened path by (simp add: listed_def)
  next
    case (Some r)
    then obtain sc1 where one: "add_path x entry r sc = Inr sc1"
      and two: "(if ze_dir entry then Inr sc1 else add_file x limits entry r sc1) = Inr sc'"
      using rest by (auto simp: bind_r_Inr_iff)
    have new: "\<forall>p\<in>set ps. compatible x p (r, entry)"
      using add_path_compatible [OF assms(1) one check_entry_kind [OF ok]] by blast
    have sc1: "sc1 = sc\<lparr>sc_portable := (portable_path_key x r, r) # sc_portable sc\<rparr>"
      using one by (auto simp: add_path_def bind_r_Inr_iff Let_def)
    have "scanned x limits (ps @ [(r, entry)]) sc'"
    proof (cases "ze_dir entry")
      case True
      then have "sc' = sc1" using two by simp
      then show ?thesis using assms(1) new sc1 True
        by (simp add: scanned_def regular_snoc sorted_wrt_append)
    next
      case False
      then have "add_file x limits entry r sc1 = Inr sc'" using two by simp
      note f = add_file_fields [OF this]
      have "r \<notin> fst ` set (regular ps)" using f sc1 assms(1) by (simp add: scanned_def)
      then show ?thesis using assms(1) new sc1 False f
        by (simp add: scanned_def regular_snoc sorted_wrt_append)
    qed
    then show ?thesis using opened path Some by (simp add: listed_def)
  qed
qed

lemma scan_entries_scanned:
  "scanned x limits ps sc \<Longrightarrow> scan_entries x limits entries sc = Inr sc' \<Longrightarrow>
     scanned x limits (ps @ layout x entries) sc'"
proof (induction entries arbitrary: ps sc)
  case Nil
  then show ?case by (simp add: layout_simps)
next
  case (Cons opened entries)
  then obtain sc1 where one: "scan_entry x limits opened sc = Inr sc1" "scan_entries x limits entries sc1 = Inr sc'"
    by (auto simp: bind_r_Inr_iff)
  from Cons.IH [OF scan_entry_step [OF Cons.prems(1) one(1)] one(2)] show ?case
    by (auto simp: layout_simps split: option.splits)
qed

text \<open>Every entry that was scanned passed the checks on its own.\<close>

lemma scan_entries_each:
  "scan_entries x limits entries sc = Inr sc' \<Longrightarrow> opened \<in> set entries \<Longrightarrow>
     \<exists>entry. opened = Inr entry \<and> check_entry entry = Inr ()
       \<and> (\<forall>r. listed x opened = Some (r, entry) \<longrightarrow> \<not> ze_dir entry \<longrightarrow>
            enforce_compression_ratio limits (ze_name_raw entry) (ze_size entry) (ze_compressed_size entry) = Inr ())"
proof (induction entries arbitrary: sc)
  case (Cons o1 entries)
  then obtain sc1 where one: "scan_entry x limits o1 sc = Inr sc1" "scan_entries x limits entries sc1 = Inr sc'"
    by (auto simp: bind_r_Inr_iff)
  show ?case
  proof (cases "opened = o1")
    case True
    obtain entry path where e: "o1 = Inr entry" "check_entry entry = Inr ()" "entry_path x entry = Inr path"
      and rest: "(case path of None \<Rightarrow> Inr sc | Some r \<Rightarrow> bind_r (add_path x entry r sc) (\<lambda>sc'.
             if ze_dir entry then Inr sc' else add_file x limits entry r sc')) = Inr sc1"
      using one(1) by (auto simp: scan_entry_def bind_r_Inr_iff)
    have "enforce_compression_ratio limits (ze_name_raw entry) (ze_size entry) (ze_compressed_size entry) = Inr ()"
      if "path = Some r" "\<not> ze_dir entry" for r
      using rest that by (auto simp: bind_r_Inr_iff dest: add_file_fields)
    then show ?thesis using True e by (auto simp: listed_def split: option.splits)
  next
    case False
    then show ?thesis using Cons.IH [OF one(2)] Cons.prems(2) by simp
  qed
qed simp

subsection \<open>Payloads\<close>

lemma hash_zip_pieces_Inr:
  "hash_zip_pieces x n read hashed fails pieces = Inr d \<Longrightarrow>
     \<not> fails \<and> read + length (concat pieces) = n \<and> d = sha256_hex x (hashed @ concat pieces)"
proof (induction pieces arbitrary: read hashed)
  case (Cons p pieces)
  then have "hash_zip_pieces x n (read + length p) (hashed @ p) fails pieces = Inr d"
    by (auto simp: bind_r_Inr_iff checked_add_Some_iff)
  from Cons.IH [OF this] show ?case by simp
qed (auto simp: bind_r_Inr_iff)

lemma check_payload_Inr:
  "check_payload x archive f = Inr u \<Longrightarrow>
     \<exists>entry. za_by_name archive (''pkg/'' @ bf_path f) = Inr entry \<and> \<not> ze_fails entry
       \<and> length (ze_data entry) = bf_size f \<and> sha256_hex x (ze_data entry) = bf_sha256 f"
  using hash_zip_pieces_Inr [of x "bf_size f" 0 "[]"]
  by (fastforce simp: check_payload_def hash_zip_entry_def bind_r_Inr_iff BINARY_ARCHIVE_ROOT_def concat_buffers)

lemma check_listing_Inr:
  "check_listing d paths = Inr u \<Longrightarrow>
     set paths \<subseteq> insert BINARY_DESCRIPTOR_PATH (bf_path ` set (bm_files d))
     \<and> bf_path ` set (bm_files d) \<subseteq> set paths \<and> saturating_add (length (bm_files d)) 1 = length paths"
  by (auto simp: check_listing_def bind_r_Inr_iff all_ok_Inr_iff)

lemma add_file_descriptor: "add_file x limits entry r sc = Inr sc' \<Longrightarrow> sc_descriptor sc' = sc_descriptor sc \<or> r = BINARY_DESCRIPTOR_PATH"
  by (auto simp: add_file_def bind_r_Inr_iff Let_def split: if_splits)

lemma scan_entry_descriptor:
  assumes "scan_entry x limits opened sc = Inr sc'" "sc_descriptor sc = None \<or> BINARY_DESCRIPTOR_PATH \<in> set (sc_regular sc)"
  shows "sc_descriptor sc' = None \<or> BINARY_DESCRIPTOR_PATH \<in> set (sc_regular sc')"
proof -
  obtain entry path where
    rest: "(case path of None \<Rightarrow> Inr sc | Some r \<Rightarrow> bind_r (add_path x entry r sc) (\<lambda>sc'.
             if ze_dir entry then Inr sc' else add_file x limits entry r sc')) = Inr sc'"
    using assms(1) by (auto simp: scan_entry_def bind_r_Inr_iff)
  show ?thesis
  proof (cases path)
    case (Some r)
    then obtain ps where two: "(if ze_dir entry then Inr (sc\<lparr>sc_portable := ps\<rparr>)
        else add_file x limits entry r (sc\<lparr>sc_portable := ps\<rparr>)) = Inr sc'"
      using rest by (auto simp: bind_r_Inr_iff dest: add_path_fields)
    show ?thesis
    proof (cases "ze_dir entry")
      case False
      then have "add_file x limits entry r (sc\<lparr>sc_portable := ps\<rparr>) = Inr sc'" using two by simp
      from add_file_fields [OF this] add_file_descriptor [OF this] show ?thesis using assms(2) by auto
    qed (use two assms(2) in auto)
  qed (use rest assms(2) in simp)
qed

lemma scan_entries_descriptor:
  "scan_entries x limits entries sc = Inr sc' \<Longrightarrow> (sc_descriptor sc = None \<or> BINARY_DESCRIPTOR_PATH \<in> set (sc_regular sc)) \<Longrightarrow>
     sc_descriptor sc' = None \<or> BINARY_DESCRIPTOR_PATH \<in> set (sc_regular sc')"
proof (induction entries arbitrary: sc)
  case (Cons o1 entries)
  then obtain sc1 where one: "scan_entry x limits o1 sc = Inr sc1" "scan_entries x limits entries sc1 = Inr sc'"
    by (auto simp: bind_r_Inr_iff)
  from Cons.IH [OF one(2) scan_entry_descriptor [OF one(1) Cons.prems(2)]] show ?case .
qed simp

lemma ratio_bound:
  assumes "enforce_compression_ratio limits name size' compressed = Inr u" "size' + compressed \<le> u64_max"
  shows "size' \<le> max_binary_compression_ratio limits * compressed"
proof (cases "size' = 0 \<or> compressed = 0")
  case False
  then have "(size' + (compressed - 1)) div compressed \<le> max_binary_compression_ratio limits"
    using assms by (auto simp: enforce_compression_ratio_def Let_def saturating_add_def not_less split: if_splits)
  then have "((size' + (compressed - 1)) div compressed) * compressed \<le> max_binary_compression_ratio limits * compressed"
    by (rule mult_right_mono) (rule le0)
  moreover have "size' \<le> ((size' + (compressed - 1)) div compressed) * compressed"
  proof -
    have "size' + (compressed - 1) = ((size' + (compressed - 1)) div compressed) * compressed
        + (size' + (compressed - 1)) mod compressed" by simp
    moreover have "(size' + (compressed - 1)) mod compressed < compressed"
      using False by (intro mod_less_divisor) simp
    ultimately show ?thesis by linarith
  qed
  ultimately show ?thesis by (rule order_trans [rotated])
qed (use assms in \<open>auto simp: enforce_compression_ratio_def split: if_splits\<close>)

subsection \<open>The verified archive\<close>

lemma verify_publish_Some:
  assumes "verify_publish x limits open_zip meta bytes = Inr (Some d)"
  shows "verify_binary_zip x limits open_zip meta bytes = Inr d \<and> length bytes = pm_size meta
    \<and> descriptor_presence x open_zip bytes = Inr Present"
proof -
  obtain presence where "pm_format meta = ''zip''" "length bytes = pm_size meta"
      "descriptor_presence x open_zip bytes = Inr presence"
      "(case presence of Absent \<Rightarrow> Inr None
        | Present \<Rightarrow> bind_r (verify_binary_zip x limits open_zip meta bytes) (\<lambda>d. Inr (Some d))) = Inr (Some d)"
    using assms by (auto simp: verify_publish_def bind_r_Inr_iff split: if_splits)
  then show ?thesis by (cases presence) (auto simp: bind_r_Inr_iff)
qed

lemma verify_binary_zip_Inr:
  assumes "verify_binary_zip x limits open_zip meta bytes = Inr d"
  shows "\<exists>archive sc. open_zip bytes = Inr archive \<and> length bytes \<le> max_binary_archive_bytes limits
    \<and> length (za_entries archive) \<le> max_binary_entries limits
    \<and> scan_entries x limits (za_entries archive) empty_scan = Inr sc
    \<and> check_descriptor x meta sc = Inr d \<and> ensure_descriptor_matches_publish d meta = Inr ()
    \<and> check_listing d (sc_regular sc) = Inr () \<and> all_ok (check_payload x archive) (bm_files d) = Inr ()"
  using assms by (auto simp: verify_binary_zip_def bind_r_Inr_iff not_less)

lemma check_descriptor_Inr:
  "check_descriptor x meta sc = Inr d \<Longrightarrow> \<exists>bytes text. sc_descriptor sc = Some bytes \<and> binary_from_json x bytes = Inr d
     \<and> sc_manifest sc = Some text \<and> manifest_parse x text = Inr (pm_manifest meta)"
  by (auto simp: check_descriptor_def bind_r_Inr_iff)

lemma listing_distinct:
  assumes "distinct paths" "D \<in> set paths" "set paths = insert D (f ` set xs)" "length xs + 1 = length paths"
  shows "distinct (map f xs) \<and> D \<notin> f ` set xs"
proof -
  have "card (insert D (f ` set xs)) = length xs + 1"
    using assms distinct_card by metis
  moreover have "card (f ` set xs) \<le> length xs" using card_image_le card_length le_trans by blast
  ultimately have "D \<notin> f ` set xs" "card (f ` set xs) = length xs"
    by (auto simp: card_insert_if split: if_splits)
  then show ?thesis by (simp add: card_distinct)
qed

subsection \<open>Every entry of the archive\<close>

text \<open>
  Where an entry is unpacked, read off its raw name: below \<^verbatim>\<open>pkg/\<close>, a directory with a slash at the end.
\<close>

definition at_path :: "zip_entry \<Rightarrow> string \<Rightarrow> bool" where
  "at_path e r \<longleftrightarrow> ze_name_raw e = ''pkg/'' @ r @ (if ze_dir e then ''/'' else [])"

definition file_entries :: "zip_entry list \<Rightarrow> zip_entry list" where
  "file_entries es = filter (\<lambda>e. \<not> ze_dir e) es"

text \<open>Two entries a host that ignores case and separators can unpack side by side.\<close>

definition host_path :: "('x publish_ext_scheme) \<Rightarrow> string \<Rightarrow> string" where
  "host_path x r = unicode_lowercase x (map (\<lambda>c. if c = CHR 0x5C then CHR ''/'' else c) r)"

definition side_by_side :: "('x publish_ext_scheme) \<Rightarrow> zip_entry \<Rightarrow> zip_entry \<Rightarrow> bool" where
  "side_by_side x a b \<longleftrightarrow> (\<forall>r s. at_path a r \<longrightarrow> at_path b s \<longrightarrow> host_path x r \<noteq> host_path x s
     \<and> (\<not> ze_dir a \<longrightarrow> (\<nexists>t. host_path x s = host_path x r @ ''/'' @ t))
     \<and> (\<not> ze_dir b \<longrightarrow> (\<nexists>t. host_path x r = host_path x s @ ''/'' @ t)))"

definition placed :: "('x publish_ext_scheme) \<Rightarrow> zip_entry \<Rightarrow> bool" where
  "placed x e \<longleftrightarrow> ze_dir e \<and> ze_name_raw e = ''pkg/'' \<or> (\<exists>r. at_path e r \<and> safe_relative_path x r = Inr ())"

lemma at_path_unique: "at_path e r \<Longrightarrow> at_path e s \<Longrightarrow> r = s"
  by (simp add: at_path_def)

lemma entry_path_placed:
  "entry_path x e = Inr path \<Longrightarrow> placed x e \<and> (path = None \<longrightarrow> ze_dir e) \<and> (\<forall>r. path = Some r \<longrightarrow> at_path e r)
     \<and> (path = None \<longrightarrow> ze_name_raw e = ''pkg/'')"
  by (auto simp: entry_path_def bind_r_Inr_iff Let_def BINARY_ARCHIVE_ROOT_def at_path_def placed_def split: if_splits)

lemma entry_path_at:
  assumes "entry_path x e = Inr path" "at_path e r"
  shows "path = Some r"
proof (cases path)
  case None
  then have "length (ze_name_raw e) = 4" "ze_dir e" using entry_path_placed [OF assms(1)] by auto
  then show ?thesis using assms(2) by (simp add: at_path_def)
next
  case (Some s)
  then show ?thesis using entry_path_placed [OF assms(1)] at_path_unique assms(2) by blast
qed

lemma scan_entries_entries:
  "scan_entries x limits entries sc = Inr sc' \<Longrightarrow>
     \<exists>es. entries = map Inr es \<and> (\<forall>e\<in>set es. check_entry e = Inr () \<and> (\<exists>path. entry_path x e = Inr path))"
proof (induction entries arbitrary: sc)
  case (Cons opened entries)
  then obtain sc1 where one: "scan_entry x limits opened sc = Inr sc1" "scan_entries x limits entries sc1 = Inr sc'"
    by (auto simp: bind_r_Inr_iff)
  from one(1) obtain e where "opened = Inr e" "check_entry e = Inr () \<and> (\<exists>path. entry_path x e = Inr path)"
    by (auto simp: scan_entry_def bind_r_Inr_iff)
  moreover obtain es where "entries = map Inr es" "\<forall>e\<in>set es. check_entry e = Inr () \<and> (\<exists>path. entry_path x e = Inr path)"
    using Cons.IH [OF one(2)] by blast
  ultimately show ?case by (intro exI [of _ "e # es"]) simp
qed simp

lemma listed_Inr: "entry_path x e = Inr path \<Longrightarrow> listed x (Inr e) = map_option (\<lambda>r. (r, e)) path"
  by (simp add: listed_def split: option.split)

lemma compatible_side_by_side: "at_path a r \<Longrightarrow> at_path b s \<Longrightarrow> compatible x (r, a) (s, b) \<Longrightarrow> side_by_side x a b"
  using at_path_unique
  by (auto simp: compatible_def Let_def side_by_side_def host_path_def portable_path_key_def replace_backslash_def
      starts_with_iff) blast+

lemma layout_side_by_side:
  assumes "\<forall>e\<in>set es. \<exists>path. entry_path x e = Inr path" "sorted_wrt (compatible x) (layout x (map Inr es))"
  shows "sorted_wrt (side_by_side x) es"
  using assms
proof (induction es)
  case (Cons a es)
  obtain path where path: "entry_path x a = Inr path" using Cons.prems by auto
  have "side_by_side x a b" if b: "b \<in> set es" for b
  proof (cases path)
    case None
    then show ?thesis using entry_path_at [OF path] by (auto simp: side_by_side_def)
  next
    case (Some r)
    obtain q where q: "entry_path x b = Inr q" using Cons.prems(1) b by auto
    show ?thesis
    proof (cases q)
      case None
      then show ?thesis using entry_path_at [OF q] by (auto simp: side_by_side_def)
    next
      case s: (Some s)
      have "(s, b) \<in> set (layout x (map Inr es))"
        using b q s by (force simp: layout_def List.map_filter_def listed_Inr)
      then have "compatible x (r, a) (s, b)"
        using Cons.prems(2) path Some by (simp add: layout_simps listed_Inr)
      then show ?thesis using entry_path_placed [OF path] entry_path_placed [OF q] Some s compatible_side_by_side by blast
    qed
  qed
  moreover have "sorted_wrt (side_by_side x) es"
    using Cons path by (cases path) (simp_all add: layout_simps listed_Inr)
  ultimately show ?case by simp
qed simp

lemma regular_layout:
  assumes "\<forall>e\<in>set es. \<exists>path. entry_path x e = Inr path"
  shows "map ze_name_raw (file_entries es) = map (\<lambda>p. ''pkg/'' @ fst p) (regular (layout x (map Inr es)))"
    and "map ze_size (file_entries es) = map (\<lambda>(_, e). ze_size e) (regular (layout x (map Inr es)))"
proof -
  have "map ze_name_raw (file_entries es) = map (\<lambda>p. ''pkg/'' @ fst p) (regular (layout x (map Inr es)))
      \<and> map ze_size (file_entries es) = map (\<lambda>(_, e). ze_size e) (regular (layout x (map Inr es)))"
    using assms
  proof (induction es)
    case Nil
    then show ?case by (simp add: file_entries_def layout_simps regular_def)
  next
    case (Cons a es)
    then obtain path where path: "entry_path x a = Inr path" by auto
    then show ?case
      using Cons entry_path_placed [OF path]
      by (cases path) (auto simp: file_entries_def layout_simps listed_Inr regular_def at_path_def)
  qed
  then show "map ze_name_raw (file_entries es) = map (\<lambda>p. ''pkg/'' @ fst p) (regular (layout x (map Inr es)))"
    "map ze_size (file_entries es) = map (\<lambda>(_, e). ze_size e) (regular (layout x (map Inr es)))" by blast+
qed

text \<open>The two embedded documents are read from the entries of their names.\<close>

definition read_from :: "zip_entry list \<Rightarrow> string \<Rightarrow> string option \<Rightarrow> bool" where
  "read_from es path found \<longleftrightarrow> (\<forall>bytes. found = Some bytes \<longrightarrow>
     (\<exists>e\<in>set (file_entries es). ze_name_raw e = ''pkg/'' @ path \<and> ze_data e = bytes \<and> \<not> ze_fails e))"

lemma read_small_entry_Inr: "read_small_entry entry limit name = Inr bytes \<Longrightarrow> bytes = ze_data entry \<and> \<not> ze_fails entry"
  by (simp add: read_small_entry_def split: if_splits)

lemma add_file_reads:
  assumes "add_file x limits e r sc = Inr sc'"
  shows "sc_descriptor sc' = sc_descriptor sc \<or> r = BINARY_DESCRIPTOR_PATH \<and> sc_descriptor sc' = Some (ze_data e) \<and> \<not> ze_fails e"
    and "sc_manifest sc' = sc_manifest sc \<or> r = BINARY_PACKAGE_MANIFEST_PATH \<and> sc_manifest sc' = Some (ze_data e) \<and> \<not> ze_fails e"
  using assms by (auto simp: add_file_def bind_r_Inr_iff Let_def dest!: read_small_entry_Inr split: if_splits)

lemma scan_entry_reads:
  assumes "scan_entry x limits (Inr e) sc = Inr sc'"
    and "read_from es BINARY_DESCRIPTOR_PATH (sc_descriptor sc)" "read_from es BINARY_PACKAGE_MANIFEST_PATH (sc_manifest sc)"
  shows "read_from (es @ [e]) BINARY_DESCRIPTOR_PATH (sc_descriptor sc')
    \<and> read_from (es @ [e]) BINARY_PACKAGE_MANIFEST_PATH (sc_manifest sc')"
proof -
  have old: "read_from (es @ [e]) BINARY_DESCRIPTOR_PATH (sc_descriptor sc)
      \<and> read_from (es @ [e]) BINARY_PACKAGE_MANIFEST_PATH (sc_manifest sc)"
    using assms(2,3) by (auto simp: read_from_def file_entries_def)
  obtain path where path: "entry_path x e = Inr path"
    and rest: "(case path of None \<Rightarrow> Inr sc | Some r \<Rightarrow> bind_r (add_path x e r sc) (\<lambda>sc'.
             if ze_dir e then Inr sc' else add_file x limits e r sc')) = Inr sc'"
    using assms(1) by (auto simp: scan_entry_def bind_r_Inr_iff)
  show ?thesis
  proof (cases path)
    case (Some r)
    then obtain ps where two: "(if ze_dir e then Inr (sc\<lparr>sc_portable := ps\<rparr>)
        else add_file x limits e r (sc\<lparr>sc_portable := ps\<rparr>)) = Inr sc'"
      using rest by (auto simp: bind_r_Inr_iff dest: add_path_fields)
    show ?thesis
    proof (cases "ze_dir e")
      case False
      then have "add_file x limits e r (sc\<lparr>sc_portable := ps\<rparr>) = Inr sc'" using two by simp
      note reads = add_file_reads [OF this]
      have "e \<in> set (file_entries (es @ [e]))" "ze_name_raw e = ''pkg/'' @ r"
        using False entry_path_placed [OF path] Some by (auto simp: file_entries_def at_path_def)
      then show ?thesis using reads old by (auto simp: read_from_def)
    qed (use two old in auto)
  qed (use rest old in simp)
qed

lemma scan_entries_reads:
  "scan_entries x limits (map Inr es') sc = Inr sc' \<Longrightarrow>
     read_from es BINARY_DESCRIPTOR_PATH (sc_descriptor sc) \<Longrightarrow> read_from es BINARY_PACKAGE_MANIFEST_PATH (sc_manifest sc) \<Longrightarrow>
     read_from (es @ es') BINARY_DESCRIPTOR_PATH (sc_descriptor sc')
     \<and> read_from (es @ es') BINARY_PACKAGE_MANIFEST_PATH (sc_manifest sc')"
proof (induction es' arbitrary: es sc)
  case (Cons e es')
  then obtain sc1 where one: "scan_entry x limits (Inr e) sc = Inr sc1" "scan_entries x limits (map Inr es') sc1 = Inr sc'"
    by (auto simp: bind_r_Inr_iff)
  from scan_entry_reads [OF one(1) Cons.prems(2,3)] Cons.IH [OF one(2), of "es @ [e]"] show ?case by simp
qed simp

text \<open>C7. A binary archive that passes is exactly what its descriptor says. Whatever the raw names in the
  archive are, its files are the listed payloads below \<^verbatim>\<open>pkg/\<close> and the descriptor itself, nothing more
  and nothing less, each once; every listed payload can be read and has the declared size and digest;
  the descriptor and the package manifest are the contents of the entries of those names, and the
  manifest is the one being published; the declared source repository, tag and commit are those of the
  publication; and the archive respects the limits on size, number of entries and expanded size.\<close>

theorem verified_archive_is_exactly_described:
  assumes "verify_publish x limits open_zip meta bytes = Inr (Some d)" and "length (bm_files d) < u64_max"
  shows "\<exists>archive es. open_zip bytes = Inr archive \<and> za_entries archive = map Inr es
    \<and> ze_name_raw ` set (file_entries es) = insert ''pkg/.zpkg-binary.json'' ((\<lambda>f. ''pkg/'' @ bf_path f) ` set (bm_files d))
    \<and> distinct (map ze_name_raw (file_entries es)) \<and> length (file_entries es) = length (bm_files d) + 1
    \<and> (\<forall>f\<in>set (bm_files d). \<exists>entry. za_by_name archive (''pkg/'' @ bf_path f) = Inr entry \<and> \<not> ze_fails entry
         \<and> length (ze_data entry) = bf_size f \<and> sha256_hex x (ze_data entry) = bf_sha256 f)
    \<and> (\<exists>e\<in>set (file_entries es). ze_name_raw e = ''pkg/.zpkg-binary.json'' \<and> binary_from_json x (ze_data e) = Inr d)
    \<and> (\<exists>e\<in>set (file_entries es). ze_name_raw e = ''pkg/.zpkg.toml'' \<and> manifest_parse x (ze_data e) = Inr (pm_manifest meta))
    \<and> bm_source d = Some \<lparr>bs_repository = pg_repo_url (mf_package (pm_manifest meta)), bs_vcs_tag = pm_vcs_tag meta,
         bs_vcs_commit = pm_vcs_commit meta\<rparr>
    \<and> length bytes \<le> max_binary_archive_bytes limits \<and> length es \<le> max_binary_entries limits
    \<and> sum_list (map ze_size (file_entries es)) \<le> max_binary_expanded_bytes limits"
proof -
  obtain archive sc where z: "open_zip bytes = Inr archive" "length bytes \<le> max_binary_archive_bytes limits"
      "length (za_entries archive) \<le> max_binary_entries limits"
    and scan: "scan_entries x limits (za_entries archive) empty_scan = Inr sc"
    and desc: "check_descriptor x meta sc = Inr d" and src: "ensure_descriptor_matches_publish d meta = Inr ()"
    and list: "check_listing d (sc_regular sc) = Inr ()" and pay: "all_ok (check_payload x archive) (bm_files d) = Inr ()"
    using verify_publish_Some [OF assms(1)] verify_binary_zip_Inr by metis
  obtain es where es: "za_entries archive = map Inr es" "\<forall>e\<in>set es. \<exists>path. entry_path x e = Inr path"
    using scan_entries_entries [OF scan] by blast
  let ?files = "regular (layout x (map Inr es))"
  have sc: "scanned x limits (layout x (map Inr es)) sc"
    using scan_entries_scanned [OF empty_scanned scan] es(1) by simp
  then have reg: "sc_regular sc = rev (map fst ?files)" "distinct (map fst ?files)"
    by (simp_all add: scanned_def)
  note names = regular_layout [OF es(2)]
  obtain json toml where json: "sc_descriptor sc = Some json" "binary_from_json x json = Inr d"
    and toml: "sc_manifest sc = Some toml" "manifest_parse x toml = Inr (pm_manifest meta)"
    using check_descriptor_Inr [OF desc] by auto
  have D: "BINARY_DESCRIPTOR_PATH \<in> set (sc_regular sc)"
    using scan_entries_descriptor [OF scan] json(1) by (auto simp: empty_scan_def)
  note l = check_listing_Inr [OF list]
  have eq: "fst ` set ?files = insert BINARY_DESCRIPTOR_PATH (bf_path ` set (bm_files d))" using l D reg(1) by auto
  have "ze_name_raw ` set (file_entries es) = (\<lambda>p. ''pkg/'' @ p) ` fst ` set ?files"
    using arg_cong [OF names(1), of set] by (simp add: image_image)
  then have "ze_name_raw ` set (file_entries es) = insert ''pkg/.zpkg-binary.json'' ((\<lambda>f. ''pkg/'' @ bf_path f) ` set (bm_files d))"
    unfolding eq by (simp add: BINARY_DESCRIPTOR_PATH_def image_image)
  moreover have "distinct (map ze_name_raw (file_entries es))"
    using reg(2) unfolding names(1) by (simp add: distinct_map inj_on_def)
  moreover have "length (file_entries es) = length (bm_files d) + 1"
    using l assms(2) reg(1) arg_cong [OF names(1), of length] by (simp add: saturating_add_def)
  moreover have "\<forall>f\<in>set (bm_files d). \<exists>entry. za_by_name archive (''pkg/'' @ bf_path f) = Inr entry \<and> \<not> ze_fails entry
         \<and> length (ze_data entry) = bf_size f \<and> sha256_hex x (ze_data entry) = bf_sha256 f"
    using pay check_payload_Inr unfolding all_ok_Inr_iff by blast
  moreover have "bm_source d = Some \<lparr>bs_repository = pg_repo_url (mf_package (pm_manifest meta)), bs_vcs_tag = pm_vcs_tag meta,
         bs_vcs_commit = pm_vcs_commit meta\<rparr>"
    using src by (auto simp: ensure_descriptor_matches_publish_def bind_r_Inr_iff)
  moreover have "sum_list (map ze_size (file_entries es)) \<le> max_binary_expanded_bytes limits"
    using sc unfolding names(2) by (simp add: scanned_def)
  moreover have "read_from es BINARY_DESCRIPTOR_PATH (Some json)" "read_from es BINARY_PACKAGE_MANIFEST_PATH (Some toml)"
    using scan_entries_reads [of x limits es empty_scan sc "[]"] scan es(1) json(1) toml(1)
    by (auto simp: read_from_def empty_scan_def)
  then have "\<exists>e\<in>set (file_entries es). ze_name_raw e = ''pkg/.zpkg-binary.json'' \<and> binary_from_json x (ze_data e) = Inr d"
    "\<exists>e\<in>set (file_entries es). ze_name_raw e = ''pkg/.zpkg.toml'' \<and> manifest_parse x (ze_data e) = Inr (pm_manifest meta)"
    using json(2) toml(2) by (auto simp: read_from_def BINARY_DESCRIPTOR_PATH_def BINARY_PACKAGE_MANIFEST_PATH_def)
  ultimately show ?thesis using z es(1) by (intro exI [of _ archive] exI [of _ es]) simp
qed

text \<open>C13. Unpacking a verified archive is safe on every host. Every entry of the archive is an unencrypted
  file or directory and no symbolic link, and lies at a safe relative path below \<^verbatim>\<open>pkg/\<close> (or is that
  directory itself); no two entries have the same path up to case and separators; no file lies where
  another entry needs a directory; and no file claims to expand beyond the permitted ratio.\<close>

theorem verified_archive_paths_do_not_conflict:
  assumes "verify_publish x limits open_zip meta bytes = Inr (Some d)"
  shows "\<exists>archive es. open_zip bytes = Inr archive \<and> za_entries archive = map Inr es
    \<and> sorted_wrt (side_by_side x) es
    \<and> (\<forall>e\<in>set es. (ze_file e \<or> ze_dir e) \<and> \<not> ze_symlink e \<and> \<not> ze_encrypted e \<and> placed x e
         \<and> (\<not> ze_dir e \<and> ze_size e + ze_compressed_size e \<le> u64_max \<longrightarrow>
              ze_size e \<le> max_binary_compression_ratio limits * ze_compressed_size e))"
proof -
  obtain archive sc where z: "open_zip bytes = Inr archive"
    and scan: "scan_entries x limits (za_entries archive) empty_scan = Inr sc"
    using verify_publish_Some [OF assms(1)] verify_binary_zip_Inr by metis
  obtain es where es: "za_entries archive = map Inr es"
      "\<forall>e\<in>set es. check_entry e = Inr () \<and> (\<exists>path. entry_path x e = Inr path)"
    using scan_entries_entries [OF scan] by blast
  have "sorted_wrt (compatible x) (layout x (map Inr es))"
    using scan_entries_scanned [OF empty_scanned scan] es(1) by (simp add: scanned_def)
  then have "sorted_wrt (side_by_side x) es" using layout_side_by_side es(2) by blast
  moreover have "(ze_file e \<or> ze_dir e) \<and> \<not> ze_symlink e \<and> \<not> ze_encrypted e \<and> placed x e
         \<and> (\<not> ze_dir e \<and> ze_size e + ze_compressed_size e \<le> u64_max \<longrightarrow>
              ze_size e \<le> max_binary_compression_ratio limits * ze_compressed_size e)" if e: "e \<in> set es" for e
  proof -
    obtain path where path: "entry_path x e = Inr path" using es(2) e by blast
    have "ze_size e \<le> max_binary_compression_ratio limits * ze_compressed_size e"
      if regular: "\<not> ze_dir e" "ze_size e + ze_compressed_size e \<le> u64_max"
    proof -
      obtain r where "path = Some r" using entry_path_placed [OF path] regular(1) by (cases path) auto
      then have "listed x (Inr e) = Some (r, e)" using listed_Inr [OF path] by simp
      then show ?thesis using scan_entries_each [OF scan, of "Inr e"] es(1) e regular ratio_bound by fastforce
    qed
    moreover have "(ze_file e \<or> ze_dir e) \<and> \<not> ze_symlink e \<and> \<not> ze_encrypted e"
      using es(2) e by (auto simp: check_entry_def bind_r_Inr_iff)
    ultimately show ?thesis using entry_path_placed [OF path] by blast
  qed
  ultimately show ?thesis using z es(1) by blast
qed

lemma walk_step:
  "slice_get bytes offset (saturating_add offset 4) = Some central_magic \<Longrightarrow>
     walk_directory x bytes offset names violation =
       (case central_header x bytes offset violation of
          Inl err \<Rightarrow> Inl err
        | Inr (raw, violation', next) \<Rightarrow> walk_directory x bytes next (names @ [raw]) violation')"
  "slice_get bytes offset (saturating_add offset 4) \<noteq> Some central_magic \<Longrightarrow>
     walk_directory x bytes offset names violation = Inr (names, violation)"
  by (simp_all only: walk_directory.simps [of x bytes offset names violation] simp_thms if_True if_False)

lemma filter_eq_replicate: "filter (\<lambda>raw. raw = c) ns = replicate (length (filter (\<lambda>raw. raw = c) ns)) c"
  by (induction ns) auto

lemma walk_no_alias:
  "walk_directory x bytes offset names violation = Inr (names', violation') \<Longrightarrow>
     (\<forall>raw\<in>set names. \<not> reserved_alias x raw) \<Longrightarrow> \<forall>raw\<in>set names'. \<not> reserved_alias x raw"
proof (induction x bytes offset names violation rule: walk_directory.induct)
  case (1 x bytes offset names violation)
  show ?case
  proof (cases "slice_get bytes offset (saturating_add offset 4) = Some central_magic")
    case True
    have step: "(case central_header x bytes offset violation of
              Inl err \<Rightarrow> Inl err
            | Inr (raw, violation', next) \<Rightarrow> walk_directory x bytes next (names @ [raw]) violation') = Inr (names', violation')"
      using 1(2) walk_step(1) [OF True] by metis
    obtain raw v after where h: "central_header x bytes offset violation = Inr (raw, v, after)"
      using step by (cases "central_header x bytes offset violation") auto
    then have rest: "walk_directory x bytes after (names @ [raw]) v = Inr (names', violation')" using step by simp
    have "\<not> reserved_alias x raw" using h by (auto simp: central_header_def bind_r_Inr_iff)
    moreover have "\<forall>raw\<in>set (names @ [raw]). \<not> reserved_alias x raw" using 1(3) calculation by simp
    moreover have "\<not> slice_get bytes offset (saturating_add offset 4) \<noteq> Some central_magic" using True by simp
    ultimately show ?thesis using 1(1) [OF _ h refl refl rest] by blast
  next
    case False
    then have "names' = names" using 1(2) walk_step(2) [OF False, of x names violation] by simp
    then show ?thesis using 1(3) by simp
  qed
qed

text \<open>C14. The reserved descriptor cannot be smuggled in. For every ZIP upload that is accepted, the names
  in the raw central directory, duplicates included, agree in number with what the ZIP reader
  exposes, and the names that a host could resolve to the reserved path are none, when the upload is
  treated as a source archive, or exactly the one canonical spelling, when it was verified as a
  binary archive.\<close>

theorem descriptor_cannot_be_smuggled:
  assumes "verify_publish x limits open_zip meta bytes = Inr r" and "pm_format meta = ''zip''"
  shows "\<exists>archive names violation. open_zip bytes = Inr archive
    \<and> walk_directory x bytes (za_directory_start archive) [] None = Inr (names, violation)
    \<and> length names = length (za_entries archive)
    \<and> filter (\<lambda>raw. raw = BINARY_DESCRIPTOR_ARCHIVE_PATH
          \<or> utf8 raw \<and> normalized_archive_path x raw = Some BINARY_DESCRIPTOR_ARCHIVE_PATH) names
        = (if r = None then [] else [BINARY_DESCRIPTOR_ARCHIVE_PATH])"
proof -
  obtain presence where p: "descriptor_presence x open_zip bytes = Inr presence" "r = None \<longleftrightarrow> presence = Absent"
  proof -
    obtain presence where p: "descriptor_presence x open_zip bytes = Inr presence"
        "(case presence of Absent \<Rightarrow> Inr None
          | Present \<Rightarrow> bind_r (verify_binary_zip x limits open_zip meta bytes) (\<lambda>d. Inr (Some d))) = Inr r"
      using assms by (auto simp: verify_publish_def bind_r_Inr_iff)
    then have "r = None \<longleftrightarrow> presence = Absent" by (cases presence) (auto simp: bind_r_Inr_iff)
    then show thesis using p(1) that by blast
  qed
  obtain archive names violation where a: "open_zip bytes = Inr archive"
      "walk_directory x bytes (za_directory_start archive) [] None = Inr (names, violation)"
      "length names = length (za_entries archive)"
    and exact: "length (filter (\<lambda>raw. raw = BINARY_DESCRIPTOR_ARCHIVE_PATH) names) = (if presence = Absent then 0 else 1)"
    using p(1) by (auto simp: descriptor_presence_def bind_r_Inr_iff Let_def split: if_splits option.splits)
  let ?D = BINARY_DESCRIPTOR_ARCHIVE_PATH
  let ?only = "filter (\<lambda>raw. raw = ?D) names"
  have same: "filter (\<lambda>raw. raw = ?D \<or> utf8 raw \<and> normalized_archive_path x raw = Some ?D) names = ?only"
    using walk_no_alias [OF a(2)] by (intro filter_cong) (auto simp: reserved_alias_def)
  have "?only = replicate (length ?only) ?D" by (rule filter_eq_replicate)
  also have "\<dots> = (if r = None then [] else [?D])" using exact p(2) by simp
  finally have "filter (\<lambda>raw. raw = ?D \<or> utf8 raw \<and> normalized_archive_path x raw = Some ?D) names
      = (if r = None then [] else [?D])" using same by (rule trans [rotated])
  then show ?thesis using a by blast
qed

text \<open>An operator can only tighten the limits: whatever the environment variables hold, every limit
  is positive and at most its built-in ceiling.\<close>

theorem limits_only_tighten:
  "(let l = limits_from_env var in
     0 < max_binary_archive_bytes l \<and> max_binary_archive_bytes l \<le> DEFAULT_MAX_BINARY_ARCHIVE_BYTES
     \<and> 0 < max_binary_expanded_bytes l \<and> max_binary_expanded_bytes l \<le> DEFAULT_MAX_BINARY_EXPANDED_BYTES
     \<and> 0 < max_binary_entries l \<and> max_binary_entries l \<le> DEFAULT_MAX_BINARY_ENTRIES
     \<and> 0 < max_binary_compression_ratio l \<and> max_binary_compression_ratio l \<le> DEFAULT_MAX_BINARY_COMPRESSION_RATIO)"
proof -
  have "0 < c \<Longrightarrow> 0 < bounded_u64_override v c \<and> bounded_u64_override v c \<le> c
      \<and> 0 < bounded_usize_override v c \<and> bounded_usize_override v c \<le> c" for v c
    by (simp add: bounded_u64_override_def bounded_usize_override_def split: option.split)
  then show ?thesis
    by (simp add: limits_from_env_def DEFAULT_MAX_BINARY_ARCHIVE_BYTES_def DEFAULT_MAX_BINARY_EXPANDED_BYTES_def
        DEFAULT_MAX_BINARY_ENTRIES_def DEFAULT_MAX_BINARY_COMPRESSION_RATIO_def)
qed

text \<open>Reading back a directory entry that was laid out as the format prescribes.\<close>

definition fixed_header :: "char \<Rightarrow> string" where
  "fixed_header n = central_magic @ replicate 24 (CHR 0x00) @ [n, CHR 0x00] @ replicate 16 (CHR 0x00)"

lemma fixed_header_fields:
  "length (fixed_header n) = 46" "take 4 (fixed_header n) = central_magic"
  "u16_le (fixed_header n) 28 = byte_of n"
  "u16_le (fixed_header n) 30 = 0" "u16_le (fixed_header n) 32 = 0"
  "header_violation (fixed_header n) v = v"
  by (simp_all add: fixed_header_def central_magic_def header_violation_def note_violation_def u16_le_def u32_le_def
      nth_append byte_of_def)

lemma slice_middle: "slice_get (a @ b @ c) (length a) (length a + length b) = Some b"
  by (simp add: slice_get_def)

lemma header_step:
  assumes "byte_of n = length name" "length (pre @ fixed_header n @ name @ rest) \<le> u64_max" "\<not> reserved_alias x name"
  shows "central_header x (pre @ fixed_header n @ name @ rest) (length pre) v = Inr (name, v, length pre + 46 + length name)
    \<and> slice_get (pre @ fixed_header n @ name @ rest) (length pre) (saturating_add (length pre) 4) = Some central_magic"
proof -
  let ?s = "pre @ fixed_header n @ name @ rest"
  have len: "length ?s = length pre + 46 + length name + length rest" by (simp add: fixed_header_fields)
  have sat: "saturating_add (length pre) 46 = length pre + 46" "saturating_add (length pre) 4 = length pre + 4"
    using assms(2) len by (simp_all add: saturating_add_def)
  have add: "checked_add (length pre) 46 = Some (length pre + 46)"
      "checked_add (length pre + 46) (length name) = Some (length pre + 46 + length name)"
      "checked_add (length pre + 46 + length name) 0 = Some (length pre + 46 + length name)"
    using assms(2) len by (simp_all add: checked_add_def)
  have h: "slice_get ?s (length pre) (length pre + 46) = Some (fixed_header n)"
    using slice_middle [of pre "fixed_header n" "name @ rest"] by (simp add: fixed_header_fields)
  have raw: "slice_get ?s (length pre + 46) (length pre + 46 + length name) = Some name"
    using slice_middle [of "pre @ fixed_header n" name rest] by (simp add: fixed_header_fields)
  have extra: "slice_get ?s (length pre + 46 + length name) (length pre + 46 + length name) = Some []"
    using len by (simp add: slice_get_def)
  have "extra_violation [] v = v" for v
    by (simp add: extra_violation_def note_violation_def contains_zip64_extra_def zip64_from.simps)
  then have "central_header x ?s (length pre) v = Inr (name, v, length pre + 46 + length name)"
    using assms(1,3) len by (simp add: central_header_def sat add h raw extra fixed_header_fields)
  moreover have "slice_get ?s (length pre) (length pre + 4) = Some (take 4 (fixed_header n))"
    using len by (simp add: slice_get_def fixed_header_fields)
  ultimately show ?thesis by (simp add: sat fixed_header_fields)
qed

lemma walk_header:
  assumes "byte_of n = length name" "length (pre @ fixed_header n @ name @ rest) \<le> u64_max" "\<not> reserved_alias x name"
  shows "walk_directory x (pre @ fixed_header n @ name @ rest) (length pre) names v =
    walk_directory x (pre @ fixed_header n @ name @ rest) (length pre + 46 + length name) (names @ [name]) v"
  using header_step [OF assms, of v] by (simp add: walk_step(1))

subsection \<open>An example archive\<close>

definition manifest_1 :: manifest where
  "manifest_1 = \<lparr>mf_package = \<lparr>pg_org = ''acme'', pg_name = ''kit'', pg_version = ''2.0.0'', pg_description = None,
     pg_vcs = ''git'', pg_repo_url = ''u'', pg_version_scheme = ''semver'', pg_keywords = [''k'']\<rparr>, mf_rest = JNull\<rparr>"

definition meta_1 :: publish_meta where
  "meta_1 = \<lparr>pm_manifest = manifest_1, pm_sha256 = replicate 64 (CHR ''a''), pm_size = 131, pm_format = ''zip'',
     pm_vcs_tag = ''v2'', pm_vcs_commit = None, pm_published_at = None, pm_mirrors = [], pm_signatures = []\<rparr>"

definition desc_1 :: binary_manifest where
  "desc_1 = \<lparr>bm_source = Some \<lparr>bs_repository = ''u'', bs_vcs_tag = ''v2'', bs_vcs_commit = None\<rparr>,
     bm_files = [\<lparr>bf_path = ''.zpkg.toml'', bf_size = 1, bf_sha256 = replicate 64 (CHR ''a''), bf_executable = False\<rparr>],
     bm_rest = JNull\<rparr>"

definition toy_publish :: publish_ext where
  "toy_publish = index_ext.extend toy_index
     \<lparr>manifest_validate = (\<lambda>_. Inr ()), manifest_to_json = (\<lambda>_. Inr JNull), manifest_parse = (\<lambda>_. Inr manifest_1),
      format_extension = (\<lambda>_. ''zip''), format_content_type = (\<lambda>_. ''application/zip''), mirrors_to_json = (\<lambda>_. Inr (JArray [])),
      signatures_to_json = (\<lambda>_. Inr (JArray [])), version_preimage = (\<lambda>_. Inr ''m''), meta_from_str = (\<lambda>_. Inr meta_1),
      binary_from_json = (\<lambda>_. Inr desc_1), binary_validate_against = (\<lambda>_ _. Inr ()),
      binary_canonical_json = (\<lambda>_. Inr ''D''), safe_relative_path = (\<lambda>_. Inr ()), unicode_lowercase = to_ascii_lowercase,
      PUBLISH_META_FIELD = ''meta'', PUBLISH_ARTIFACT_FIELD = ''artifact''\<rparr>"

lemma toy_publish_sel [simp]:
  "manifest_validate toy_publish m = Inr ()" "manifest_to_json toy_publish m = Inr JNull"
  "manifest_parse toy_publish s = Inr manifest_1" "format_extension toy_publish f = ''zip''"
  "format_content_type toy_publish f = ''application/zip''" "mirrors_to_json toy_publish ms = Inr (JArray [])"
  "signatures_to_json toy_publish ss = Inr (JArray [])" "meta_from_str toy_publish s = Inr meta_1"
  "binary_from_json toy_publish s = Inr desc_1" "binary_validate_against toy_publish d m = Inr ()"
  "binary_canonical_json toy_publish d = Inr ''D''" "safe_relative_path toy_publish s = Inr ()"
  "unicode_lowercase toy_publish = to_ascii_lowercase" "sha256_hex toy_publish s = replicate 64 (CHR ''a'')"
  "PUBLISH_META_FIELD toy_publish = ''meta''" "PUBLISH_ARTIFACT_FIELD toy_publish = ''artifact''"
  by (simp_all add: toy_publish_def toy_index_def toy_signing_def toy_ext_def ext.defs signing_ext.defs index_ext.defs)

definition zip_bytes_1 :: string where
  "zip_bytes_1 = [CHR ''P'', CHR ''K'', CHR 0x03, CHR 0x04] @ fixed_header (CHR 0x15) @ ''pkg/.zpkg-binary.json''
     @ fixed_header (CHR 0x0E) @ ''pkg/.zpkg.toml''"

definition entry_1 :: "string \<Rightarrow> string \<Rightarrow> zip_entry" where
  "entry_1 name data = \<lparr>ze_name_raw = name, ze_encrypted = False, ze_stored_or_deflated = True, ze_symlink = False,
     ze_file = True, ze_dir = False, ze_size = 1, ze_compressed_size = 1, ze_unix_mode = None,
     ze_enclosed_name = Some name, ze_data = data, ze_fails = False\<rparr>"

definition archive_1 :: zip_archive where
  "archive_1 = \<lparr>za_directory_start = 4,
     za_entries = [Inr (entry_1 ''pkg/.zpkg-binary.json'' ''D''), Inr (entry_1 ''pkg/.zpkg.toml'' ''M'')],
     za_by_name = (\<lambda>_. Inr (entry_1 ''pkg/.zpkg.toml'' ''M'')), za_overlapping = Inr False\<rparr>"

definition zip_1 :: zip_reader where
  "zip_1 bytes = Inr archive_1"

lemma not_alias_1: "\<not> reserved_alias toy_publish ''pkg/.zpkg-binary.json''" "\<not> reserved_alias toy_publish ''pkg/.zpkg.toml''"
  by (simp_all add: reserved_alias_def BINARY_DESCRIPTOR_ARCHIVE_PATH_def normalized_archive_path_def replace_backslash_def
      trim_dots_and_spaces_def to_ascii_lowercase_def to_lower_char_def is_ascii_uppercase_def byte_of_def)

lemma walk_1: "walk_directory toy_publish zip_bytes_1 4 [] None = Inr ([''pkg/.zpkg-binary.json'', ''pkg/.zpkg.toml''], None)"
proof -
  let ?a = "[CHR ''P'', CHR ''K'', CHR 0x03, CHR 0x04]"
  let ?b = "?a @ fixed_header (CHR 0x15) @ ''pkg/.zpkg-binary.json''"
  have one: "zip_bytes_1 = ?a @ fixed_header (CHR 0x15) @ ''pkg/.zpkg-binary.json'' @ (fixed_header (CHR 0x0E) @ ''pkg/.zpkg.toml'')"
    and two: "zip_bytes_1 = ?b @ fixed_header (CHR 0x0E) @ ''pkg/.zpkg.toml'' @ []"
    by (simp_all add: zip_bytes_1_def)
  have len: "length zip_bytes_1 = 131" "length ?b = 71" by (simp_all add: zip_bytes_1_def fixed_header_fields)
  have "walk_directory toy_publish zip_bytes_1 (length ?a) [] None =
      walk_directory toy_publish zip_bytes_1 (length ?a + 46 + length ''pkg/.zpkg-binary.json'') ([] @ [''pkg/.zpkg-binary.json'']) None"
    unfolding one by (rule walk_header) (simp_all add: byte_of_def not_alias_1 fixed_header_fields u64_max_def)
  moreover have "walk_directory toy_publish zip_bytes_1 (length ?b) [''pkg/.zpkg-binary.json''] None =
      walk_directory toy_publish zip_bytes_1 (length ?b + 46 + length ''pkg/.zpkg.toml'') ([''pkg/.zpkg-binary.json''] @ [''pkg/.zpkg.toml'']) None"
    unfolding two by (rule walk_header) (simp_all add: byte_of_def not_alias_1 fixed_header_fields u64_max_def)
  moreover have "walk_directory toy_publish zip_bytes_1 131 ns None = Inr (ns, None)" for ns
    by (rule walk_step(2)) (simp add: slice_get_def len saturating_add_def u64_max_def)
  moreover have "(4 :: nat) = Suc (Suc (Suc (Suc 0)))" by simp
  ultimately show ?thesis using len by (simp only:) simp
qed

definition limits_1 :: binary_limits where
  "limits_1 = limits_from_env (\<lambda>_. None)"

lemma limits_1_sel [simp]:
  "max_binary_archive_bytes limits_1 = 1073741824" "max_binary_expanded_bytes limits_1 = 2147483648"
  "max_binary_entries limits_1 = 200000" "max_binary_compression_ratio limits_1 = 1000"
  by (simp_all add: limits_1_def limits_from_env_def bounded_u64_override_def bounded_usize_override_def
      DEFAULT_MAX_BINARY_ARCHIVE_BYTES_def DEFAULT_MAX_BINARY_EXPANDED_BYTES_def DEFAULT_MAX_BINARY_ENTRIES_def
      DEFAULT_MAX_BINARY_COMPRESSION_RATIO_def)

lemma presence_1: "descriptor_presence toy_publish zip_1 zip_bytes_1 = Inr Present"
  by (simp add: descriptor_presence_def zip_1_def archive_1_def walk_1 BINARY_DESCRIPTOR_ARCHIVE_PATH_def)

definition scan_1 :: scan where
  "scan_1 = \<lparr>sc_regular = [''.zpkg.toml'', ''.zpkg-binary.json''],
     sc_portable = [(''.zpkg.toml'', ''.zpkg.toml''), (''.zpkg-binary.json'', ''.zpkg-binary.json'')],
     sc_portable_regular = [''.zpkg.toml'', ''.zpkg-binary.json''], sc_descriptor = Some ''D'',
     sc_manifest = Some ''M'', sc_expanded = 2\<rparr>"

lemma entry_1_sel [simp]:
  "ze_name_raw (entry_1 n d) = n" "ze_encrypted (entry_1 n d) = False" "ze_stored_or_deflated (entry_1 n d)"
  "ze_symlink (entry_1 n d) = False" "ze_file (entry_1 n d)" "ze_dir (entry_1 n d) = False" "ze_size (entry_1 n d) = 1"
  "ze_compressed_size (entry_1 n d) = 1" "ze_unix_mode (entry_1 n d) = None" "ze_enclosed_name (entry_1 n d) = Some n"
  "ze_data (entry_1 n d) = d" "ze_fails (entry_1 n d) = False"
  by (simp_all add: entry_1_def)

lemma entry_path_1:
  "entry_path toy_publish (entry_1 ''pkg/.zpkg-binary.json'' d) = Inr (Some ''.zpkg-binary.json'')"
  "entry_path toy_publish (entry_1 ''pkg/.zpkg.toml'' d) = Inr (Some ''.zpkg.toml'')"
  by (simp_all add: entry_path_def replace_backslash_def strip_prefix_def starts_with_def
      BINARY_ARCHIVE_ROOT_def trim_end_matches_def)

lemma portable_1: "portable_path_key toy_publish ''.zpkg-binary.json'' = ''.zpkg-binary.json''"
  "portable_path_key toy_publish ''.zpkg.toml'' = ''.zpkg.toml''"
  by (simp_all add: portable_path_key_def replace_backslash_def to_ascii_lowercase_def to_lower_char_def
      is_ascii_uppercase_def byte_of_def)

lemma scan_entries_1: "scan_entries toy_publish limits_1 (za_entries archive_1) empty_scan = Inr scan_1"
proof -
  have c: "check_entry (entry_1 ''pkg/.zpkg-binary.json'' d) = Inr ()" "check_entry (entry_1 ''pkg/.zpkg.toml'' d) = Inr ()" for d
    by (simp_all add: check_entry_def allowed_mode_def byte_of_def)
  have a: "ancestors ''.zpkg-binary.json'' = []" "ancestors ''.zpkg.toml'' = []"
    by (simp_all add: ancestors_def upt_rec)
  show ?thesis
    by (simp add: Let_def archive_1_def scan_entry_def c entry_path_1 add_path_def portable_1 a has_descendant_iff
        starts_with_def add_file_def enforce_compression_ratio_def checked_add_def u64_max_def
        saturating_add_def read_small_entry_def empty_scan_def scan_1_def BINARY_DESCRIPTOR_PATH_def
        BINARY_PACKAGE_MANIFEST_PATH_def MAX_DESCRIPTOR_BYTES_def MAX_PACKAGE_MANIFEST_BYTES_def)
qed

lemma verify_1: "verify_publish toy_publish limits_1 zip_1 meta_1 zip_bytes_1 = Inr (Some desc_1)"
proof -
  have len: "length zip_bytes_1 = 131" by (simp add: zip_bytes_1_def fixed_header_fields)
  have magic: "require_canonical_zip_magic zip_bytes_1 = Inr ()"
    by (simp add: require_canonical_zip_magic_def slice_get_def zip_bytes_1_def fixed_header_fields)
  have d: "check_descriptor toy_publish meta_1 scan_1 = Inr desc_1"
    by (simp add: check_descriptor_def scan_1_def meta_1_def byte_of_def)
  have s: "ensure_descriptor_matches_publish desc_1 meta_1 = Inr ()"
    by (simp add: ensure_descriptor_matches_publish_def desc_1_def meta_1_def manifest_1_def)
  have l: "check_listing desc_1 (sc_regular scan_1) = Inr ()"
    by (simp add: check_listing_def desc_1_def scan_1_def BINARY_DESCRIPTOR_PATH_def saturating_add_def u64_max_def)
  have b: "buffers ''M'' = [''M'']"
    by (subst buffers.simps, subst buffers.simps) (simp add: COPY_BUFFER_BYTES_def)
  have p: "all_ok (check_payload toy_publish archive_1) (bm_files desc_1) = Inr ()"
    by (simp add: check_payload_def archive_1_def desc_1_def hash_zip_entry_def b checked_add_def u64_max_def)
  have "verify_binary_zip toy_publish limits_1 zip_1 meta_1 zip_bytes_1 = Inr desc_1"
    using scan_entries_1 magic d s l p len
    by (simp add: verify_binary_zip_def zip_1_def archive_1_def)
  then show ?thesis using presence_1 len by (simp add: verify_publish_def meta_1_def)
qed

lemma meta_1_format: "pm_format meta_1 = ''zip''"
  by (simp add: meta_1_def)

theorem verified_archive_is_exactly_described_witness:
  "\<exists>archive es. zip_1 zip_bytes_1 = Inr archive \<and> za_entries archive = map Inr es
     \<and> ze_name_raw ` set (file_entries es) = {''pkg/.zpkg-binary.json'', ''pkg/.zpkg.toml''}"
proof -
  have "length (bm_files desc_1) < u64_max" by (simp add: desc_1_def u64_max_def)
  from verified_archive_is_exactly_described [OF verify_1 this] show ?thesis by (auto simp: desc_1_def)
qed

theorem verified_archive_paths_do_not_conflict_witness:
  "\<exists>archive es. zip_1 zip_bytes_1 = Inr archive \<and> za_entries archive = map Inr es \<and> sorted_wrt (side_by_side toy_publish) es"
  using verified_archive_paths_do_not_conflict [OF verify_1] by blast

theorem descriptor_cannot_be_smuggled_witness:
  "\<exists>names violation. walk_directory toy_publish zip_bytes_1 4 [] None = Inr (names, violation) \<and> length names = 2"
  using descriptor_cannot_be_smuggled [OF verify_1 meta_1_format] by (auto simp: zip_1_def archive_1_def)

end
