(* ===== verification/Plane.thy ===== *)
theory Plane
  imports Auth
begin

section \<open>Reading the canonical data plane\<close>

text \<open>
  The canonical registry lives behind the crate \<open>zed-orm-core\<close>. Its read functions are the fields
  of \<open>registry_read\<close>; each takes the moment of the call first, so that two calls of one request may
  see different states. The error type is the crate's, with the variants the server tells apart;
  \<open>map\_orm\_error\<close> is the server's translation (\<^verbatim>\<open>src/routes/account.rs\<close>).
\<close>

datatype orm_error =
    VisibilityWindowExpired string
  | VisibilityDownloadLimitExceeded string
  | OrmNotFound string
  | PolicyViolation string
  | OrmDatabase string
  | OrmOther string

fun map_orm_error :: "orm_error \<Rightarrow> api_err" where
  "map_orm_error (VisibilityWindowExpired m) = conflict ''visibility_window_closed'' m"
| "map_orm_error (VisibilityDownloadLimitExceeded m) = conflict ''visibility_window_closed'' m"
| "map_orm_error (OrmNotFound m) = not_found m"
| "map_orm_error (PolicyViolation m) =
     (let normalized = to_ascii_lowercase m
      in if contains_str normalized ''membership'' \<or> contains_str normalized ''role''
            \<or> contains_str normalized ''permission''
         then forbidden ''forbidden'' ''insufficient registry permission''
         else bad_request ''invalid_request'' m)"
| "map_orm_error (OrmDatabase m) =
     (let normalized = to_ascii_lowercase m
      in if contains_str normalized ''duplicate'' \<or> contains_str normalized ''unique''
         then conflict ''already_exists'' ''the registry entity already exists''
         else api_err 500 ''internal'' ''internal database error'')"
| "map_orm_error (OrmOther m) = api_err 500 ''internal'' ''internal registry error''"

record canonical_package =
  cp_id :: uuid
  cp_org_id :: uuid
  cp_project_id :: "uuid option"
  cp_visibility :: string

record registry_read =
  package_by_org_and_name :: "nat \<Rightarrow> string \<Rightarrow> string \<Rightarrow> orm_error + (canonical_package \<times> uuid) option"
  package_version_by :: "nat \<Rightarrow> uuid \<Rightarrow> string \<Rightarrow> orm_error + json option"
  packages_for_artifact :: "nat \<Rightarrow> string \<Rightarrow> orm_error + canonical_package list"
  user_by_subject :: "nat \<Rightarrow> string \<Rightarrow> uuid \<Rightarrow> orm_error + uuid option"
  org_role_for_user :: "nat \<Rightarrow> uuid \<Rightarrow> uuid \<Rightarrow> orm_error + string option"
  project_role_for_user :: "nat \<Rightarrow> uuid \<Rightarrow> uuid \<Rightarrow> orm_error + string option"

definition plane_read :: "(nat \<Rightarrow> orm_error + 'a) \<Rightarrow> (orm_error, 'a) act" where
  "plane_read f e w = (f (tick w), w\<lparr>tick := Suc (tick w)\<rparr>)"

definition registry_read_unavailable :: api_err where
  "registry_read_unavailable = service_unavailable ''registry_data_plane_unavailable''
     ''canonical registry read context is not configured''"

text \<open>Whether the user is a member of the organisation or of the owning project at some moments.\<close>

definition member_of :: "registry_read \<Rightarrow> uuid \<Rightarrow> uuid option \<Rightarrow> uuid \<Rightarrow> bool" where
  "member_of read org project user \<longleftrightarrow>
     (\<exists>t role. org_role_for_user read t org user = Inr (Some role))
     \<or> (\<exists>p t role. project = Some p \<and> project_role_for_user read t p user = Inr (Some role))"

lemma plane_read_iff: "plane_read f e w = (r, w') \<longleftrightarrow> f (tick w) = r \<and> w' = w\<lparr>tick := Suc (tick w)\<rparr>"
  by (auto simp: plane_read_def)

text \<open>A read of the canonical plane leaves the world of this request alone.\<close>

lemma keeps_plane_read:
  assumes "\<And>e w. R e \<Longrightarrow> P e w \<Longrightarrow> P e (w\<lparr>tick := Suc (tick w)\<rparr>)"
  shows "keeps R P (plane_read f)"
  using assms by (simp add: keeps_def plane_read_def)

text \<open>A response is its status, its headers and its body.\<close>

record reply =
  re_status :: nat
  re_headers :: "(string \<times> string) list"
  re_body :: string

end
