(* ===== verification/Publish.thy ===== *)
theory Publish
  imports BinaryLaws Plane
begin

section \<open>The publish pipeline (\<^verbatim>\<open>src/routes/publish.rs\<close>)\<close>

text \<open>
  Authenticate, authorise on the organisation of the URL, read the upload, check it against its own
  manifest, its digest, its binary descriptor, the repository's tag and the publisher's signature,
  store the bytes, record the version in one transaction, mirror it to the canonical data plane and
  append to the audit log. A multipart body is the list of what \<open>next\_field\<close> yields: an error, or
  a part with its name and the outcome of reading it as text and as bytes. The canonical data plane
  (\<open>zed-orm-core\<close>) is a function that accepts or refuses an input at some moment; the world keeps
  the accepted ones. Fields of its input that this server never fills are left out.
\<close>

record part =
  part_name :: "string option"
  part_text :: "string + string"
  part_bytes :: "string + string"

record publish_state =
  ps_postgres :: bool
  ps_store :: artifact_store
  ps_verifier :: tag_verifier
  ps_registry_write :: "(machine_publish \<Rightarrow> nat \<Rightarrow> orm_error option) option"
  ps_limits :: binary_limits
  ps_zip :: zip_reader

record publish_response =
  pr_org :: string
  pr_name :: string
  pr_version :: string
  pr_sha256 :: string

subsection \<open>Reading the upload\<close>

definition duplicate_field :: "string \<Rightarrow> api_err" where
  "duplicate_field f = bad_request ''invalid_multipart'' (''duplicate multipart field `'' @ f @ ''`'')"

fun read_fields ::
  "('x publish_ext_scheme) \<Rightarrow> publish_meta option \<Rightarrow> string option \<Rightarrow> (string + part) list
   \<Rightarrow> (publish_meta option \<times> string option) api_result" where
  "read_fields x meta artifact [] = Inr (meta, artifact)"
| "read_fields x meta artifact (Inl error # parts) = Inl (bad_request ''invalid_multipart'' error)"
| "read_fields x meta artifact (Inr p # parts) =
     (case part_name p of
        None \<Rightarrow> Inl (bad_request ''invalid_multipart'' ''multipart fields must have a name'')
      | Some name \<Rightarrow>
          if name = PUBLISH_META_FIELD x then
            bind_r (guard_r (meta = None) (duplicate_field name)) (\<lambda>_.
            bind_r (map_error (bad_request ''invalid_meta'') (part_text p)) (\<lambda>s.
            bind_r (map_error (bad_request ''invalid_meta'') (meta_from_str x s)) (\<lambda>m.
              read_fields x (Some m) artifact parts)))
          else if name = PUBLISH_ARTIFACT_FIELD x then
            bind_r (guard_r (artifact = None) (duplicate_field name)) (\<lambda>_.
            bind_r (map_error (bad_request ''invalid_artifact'') (part_bytes p)) (\<lambda>bytes.
              read_fields x meta (Some bytes) parts))
          else Inl (bad_request ''invalid_multipart'' (''unexpected multipart field `'' @ name @ ''`'')))"

definition read_multipart ::
  "('x publish_ext_scheme) \<Rightarrow> (string + part) list \<Rightarrow> (publish_meta \<times> string) api_result" where
  "read_multipart x parts =
     bind_r (read_fields x None None parts) (\<lambda>(meta, artifact).
     bind_r (ok_or (bad_request ''invalid_meta'' ''missing meta field'') meta) (\<lambda>m.
     bind_r (ok_or (bad_request ''invalid_artifact'' ''missing artifact field'') artifact) (\<lambda>bytes.
       Inr (m, bytes))))"

subsection \<open>Checks\<close>

definition org_not_found :: "string \<Rightarrow> api_err" where
  "org_not_found slug = api_err 404 ''org_not_found''
     (''org `'' @ slug @ ''` does not exist; claim it first with `zed org claim '' @ slug @ ''`'')"

definition publish_org :: "string \<Rightarrow> org_row handler" where
  "publish_org slug =
     bind_a (sql (query (org_by_slug slug))) (\<lambda>found. lift (ok_or (org_not_found slug) found))"

definition names_version :: "manifest_package \<Rightarrow> string \<Rightarrow> string \<Rightarrow> string \<Rightarrow> bool" where
  "names_version m org_slug name ver \<longleftrightarrow> pg_org m = org_slug \<and> pg_name m = name \<and> pg_version m = ver"

definition manifest_url_mismatch :: "manifest_package \<Rightarrow> string \<Rightarrow> string \<Rightarrow> string \<Rightarrow> api_err" where
  "manifest_url_mismatch m org_slug name ver = bad_request ''manifest_url_mismatch''
     (''manifest says '' @ version_subject (pg_org m) (pg_name m) (pg_version m)
      @ '', url says '' @ version_subject org_slug name ver)"

definition sha256_mismatch :: "string \<Rightarrow> string \<Rightarrow> api_err" where
  "sha256_mismatch declared actual = bad_request ''sha256_mismatch''
     (''client declared '' @ declared @ '', server computed '' @ actual)"

definition artifact_size_mismatch :: "nat \<Rightarrow> nat \<Rightarrow> api_err" where
  "artifact_size_mismatch declared actual = bad_request ''artifact_size_mismatch''
     (''client declared '' @ show_nat declared @ '' bytes, server received '' @ show_nat actual)"

definition check_upload ::
  "('x publish_ext_scheme) \<Rightarrow> publish_state \<Rightarrow> string \<Rightarrow> string \<Rightarrow> string \<Rightarrow> publish_meta \<Rightarrow> string
   \<Rightarrow> string api_result" where
  "check_upload x st org_slug name ver meta artifact =
     (let m = mf_package (pm_manifest meta); actual_sha = sha256_hex x artifact
      in bind_r (map_error (bad_request ''invalid_manifest'') (manifest_validate x (pm_manifest meta))) (\<lambda>_.
         bind_r (guard_r (names_version m org_slug name ver) (manifest_url_mismatch m org_slug name ver)) (\<lambda>_.
         bind_r (guard_r (actual_sha = pm_sha256 meta) (sha256_mismatch (pm_sha256 meta) actual_sha)) (\<lambda>_.
         bind_r (guard_r (length artifact = pm_size meta)
           (artifact_size_mismatch (pm_size meta) (length artifact))) (\<lambda>_.
         bind_r (map_error (bad_request ''invalid_binary_artifact'')
           (verify_publish x (ps_limits st) (ps_zip st) meta artifact)) (\<lambda>_.
           Inr actual_sha))))))"

definition canonical_commit :: "string \<Rightarrow> string option" where
  "canonical_commit v =
     (if (length v = 40 \<or> length v = 64) \<and> list_all is_ascii_hexdigit v then Some (to_ascii_lowercase v) else None)"

definition vcs_commit_mismatch :: "string \<Rightarrow> api_err" where
  "vcs_commit_mismatch m = bad_request ''vcs_commit_mismatch'' m"

definition validate_verified_vcs_commit :: "string option \<Rightarrow> string option \<Rightarrow> unit api_result" where
  "validate_verified_vcs_commit declared verified =
     (case declared of
        None \<Rightarrow> Inr ()
      | Some d \<Rightarrow>
          (case verified of
             None \<Rightarrow> Inl (vcs_commit_mismatch
               ''publish metadata declares a VCS commit, but the verified tag did not resolve directly to a commit'')
           | Some v \<Rightarrow>
               if canonical_commit d = None \<or> canonical_commit d \<noteq> canonical_commit v
               then Inl (vcs_commit_mismatch (''publish metadata declares VCS commit `'' @ d
                      @ ''`, but tag verification resolved `'' @ v @ ''`''))
               else Inr ()))"

definition tag_not_found :: "string \<Rightarrow> string \<Rightarrow> api_err" where
  "tag_not_found tag url = bad_request ''tag_not_found''
     (''tag `'' @ tag @ ''` not found on '' @ url @ ''; authors must tag the backing repo before publishing'')"

definition check_tag :: "publish_state \<Rightarrow> publish_meta \<Rightarrow> unit handler" where
  "check_tag st meta =
     (let m = mf_package (pm_manifest meta)
      in bind_a (map_err (\<lambda>_. from_anyhow) (verify_tag (ps_verifier st) (pg_vcs m) (pg_repo_url m) (pm_vcs_tag meta)))
           (\<lambda>checked.
             case checked of
               Missing \<Rightarrow> throw (tag_not_found (pm_vcs_tag meta) (pg_repo_url m))
             | Verified commit \<Rightarrow> lift (validate_verified_vcs_commit (pm_vcs_commit meta) commit)
             | Skipped \<Rightarrow> ret ()))"

definition publication_time :: "('x publish_ext_scheme) \<Rightarrow> publish_meta \<Rightarrow> datetime handler" where
  "publication_time x meta =
     (case pm_published_at meta of
        Some raw \<Rightarrow> lift (ok_or (bad_request ''invalid_published_at''
          ''published_at must be an RFC 3339 timestamp'') (rfc3339_parse x raw))
      | None \<Rightarrow> utc_now)"

definition attestation ::
  "('x publish_ext_scheme) \<Rightarrow> string \<Rightarrow> string \<Rightarrow> string \<Rightarrow> publish_meta \<Rightarrow> string \<Rightarrow> int \<Rightarrow> datetime \<Rightarrow> version_attestation" where
  "attestation x org_slug name ver meta actual_sha artifact_len published_at =
     \<lparr>va_org = org_slug, va_name = name, va_version = ver, va_sha256 = actual_sha,
      va_size = as_u64 (max artifact_len 0), va_format = pm_format meta, va_vcs_tag = pm_vcs_tag meta,
      va_vcs_commit = (case pm_vcs_commit meta of None \<Rightarrow> [] | Some c \<Rightarrow> c),
      va_published_at = (case pm_published_at meta of None \<Rightarrow> rfc3339 x published_at | Some raw \<Rightarrow> raw),
      va_mirrors = pm_mirrors meta\<rparr>"

definition check_signatures ::
  "('x publish_ext_scheme) \<Rightarrow> uuid \<Rightarrow> publish_meta \<Rightarrow> version_attestation \<Rightarrow> unit handler" where
  "check_signatures x org_id meta att =
     (if pm_signatures meta = [] then ret ()
      else bind_a (lift (map_error
             (\<lambda>error. bad_request ''invalid_signature'' (''cannot reconstruct the signed payload: '' @ error))
             (version_preimage x att))) (\<lambda>preimage.
           bind_a (load_keys x org_id) (\<lambda>enrolled.
           bind_a (lift (map_error
             (\<lambda>error. bad_request ''signature_invalid'' (''no enrolled key verifies this publication: '' @ error))
             (verify_any x preimage (pm_signatures meta) enrolled))) (\<lambda>_. ret ()))))"

subsection \<open>The canonical data plane\<close>

definition adopt_machine_publish ::
  "(machine_publish \<Rightarrow> nat \<Rightarrow> orm_error option) \<Rightarrow> machine_publish \<Rightarrow> (orm_error, unit) act" where
  "adopt_machine_publish context input e w =
     (case context input (tick w) of
        None \<Rightarrow> (Inr (), w\<lparr>adopted := adopted w @ [input], tick := Suc (tick w)\<rparr>)
      | Some err \<Rightarrow> (Inl err, w\<lparr>tick := Suc (tick w)\<rparr>))"

definition keywords_json :: "string list \<Rightarrow> json" where
  "keywords_json ks = JArray (map JString ks)"

definition machine_input ::
  "('x publish_ext_scheme) \<Rightarrow> org_row \<Rightarrow> publish_meta \<Rightarrow> string \<Rightarrow> int \<Rightarrow> string \<Rightarrow> string option \<Rightarrow> json \<Rightarrow> machine_publish" where
  "machine_input x org_row meta actual_sha artifact_len key user_agent manifest_json =
     (let m = mf_package (pm_manifest meta)
      in \<lparr>mp_org_slug = pg_org m, mp_org_name = Some (o_slug org_row), mp_package_name = pg_name m,
          mp_description = pg_description m, mp_vcs = pg_vcs m, mp_repo_url = pg_repo_url m,
          mp_keywords = keywords_json (pg_keywords m), mp_version = pg_version m,
          mp_version_scheme = pg_version_scheme m, mp_sha256 = actual_sha, mp_size_bytes = artifact_len,
          mp_format = format_extension x (pm_format meta), mp_vcs_tag = Some (pm_vcs_tag meta),
          mp_vcs_commit = pm_vcs_commit meta, mp_artifact_key = key, mp_manifest = manifest_json,
          mp_user_agent = user_agent\<rparr>)"

definition registry_unavailable :: api_err where
  "registry_unavailable = service_unavailable ''registry_data_plane_unavailable''
     ''canonical registry write context is not configured''"

definition adopt_canonical_publish ::
  "('x publish_ext_scheme) \<Rightarrow> publish_state \<Rightarrow> org_row \<Rightarrow> publish_meta \<Rightarrow> string \<Rightarrow> int \<Rightarrow> string \<Rightarrow> string option
   \<Rightarrow> unit handler" where
  "adopt_canonical_publish x st org_row meta actual_sha artifact_len key user_agent =
     (case ps_registry_write st of
        None \<Rightarrow> throw registry_unavailable
      | Some context \<Rightarrow>
          bind_a (lift (map_error
            (\<lambda>error. bad_request ''invalid_manifest'' (''manifest serialization failed: '' @ error))
            (manifest_to_json x (pm_manifest meta)))) (\<lambda>manifest_json.
            map_err map_orm_error (adopt_machine_publish context
              (machine_input x org_row meta actual_sha artifact_len key user_agent manifest_json))))"

subsection \<open>Immutability\<close>

definition legacy_version_matches ::
  "('x publish_ext_scheme) \<Rightarrow> version_row \<Rightarrow> publish_meta \<Rightarrow> string \<Rightarrow> int \<Rightarrow> string \<Rightarrow> bool" where
  "legacy_version_matches x existing meta actual_sha artifact_len key \<longleftrightarrow>
     v_sha256 existing = actual_sha \<and> v_size existing = artifact_len
     \<and> v_format existing = format_extension x (pm_format meta) \<and> v_vcs_tag existing = pm_vcs_tag meta
     \<and> v_vcs_commit existing = pm_vcs_commit meta \<and> v_artifact_key existing = key"

definition version_exists :: "string \<Rightarrow> string \<Rightarrow> string \<Rightarrow> string \<Rightarrow> api_err" where
  "version_exists org_slug name ver why =
     conflict ''version_exists'' (version_subject org_slug name ver @ '' is already published'' @ why)"

definition find_package_row :: "org_row \<Rightarrow> string \<Rightarrow> package_row option handler" where
  "find_package_row org_row name = sql (query (package_by_name (o_id org_row) name))"

definition check_existing ::
  "('x publish_ext_scheme) \<Rightarrow> publish_state \<Rightarrow> org_row \<Rightarrow> string \<Rightarrow> string \<Rightarrow> string \<Rightarrow> publish_meta
   \<Rightarrow> string \<Rightarrow> int \<Rightarrow> string \<Rightarrow> string option \<Rightarrow> unit handler" where
  "check_existing x st org_row org_slug name ver meta actual_sha artifact_len key user_agent =
     bind_a (find_package_row org_row name) (\<lambda>found.
       case found of
         None \<Rightarrow> ret ()
       | Some pkg \<Rightarrow>
           bind_a (sql (query (version_by_name (p_id pkg) ver))) (\<lambda>existing.
             case existing of
               None \<Rightarrow> ret ()
             | Some v \<Rightarrow>
                 if \<not> legacy_version_matches x v meta actual_sha artifact_len key
                 then throw (version_exists org_slug name ver '' with different immutable facts'')
                 else bind_a (adopt_canonical_publish x st org_row meta actual_sha artifact_len key user_agent) (\<lambda>_.
                        throw (version_exists org_slug name ver ''; canonical projection reconciled''))))"

subsection \<open>The transaction\<close>

text \<open>\<open>i64::saturating\_add(1).max(1)\<close>.\<close>

definition next_sequence :: "int \<Rightarrow> int" where
  "next_sequence n = max (min (n + 1) i64_max) 1"

definition package_upsert_missing :: api_err where
  "package_upsert_missing =
     api_err 500 ''package_upsert_missing'' ''package row missing immediately after upsert''"

definition package_candidate :: "org_row \<Rightarrow> string \<Rightarrow> publish_meta \<Rightarrow> uuid \<Rightarrow> datetime \<Rightarrow> package_row" where
  "package_candidate org_row name meta i now =
     (let m = mf_package (pm_manifest meta)
      in \<lparr>p_id = i, p_org_id = o_id org_row, p_name = name, p_description = pg_description m, p_vcs = pg_vcs m,
          p_repo_url = pg_repo_url m, p_version_scheme = pg_version_scheme m,
          p_tags = keywords_json (pg_keywords m), p_created_at = now, p_index_sequence = 1, p_signed_index = None\<rparr>)"

definition upsert_package :: "org_row \<Rightarrow> string \<Rightarrow> publish_meta \<Rightarrow> package_row handler" where
  "upsert_package org_row name meta =
     bind_a new_v4 (\<lambda>i.
     bind_a utc_now (\<lambda>now.
     bind_a (sql (execute (UpsertPackage (package_candidate org_row name meta i now)))) (\<lambda>_.
     bind_a (sql (query (package_by_name (o_id org_row) name))) (\<lambda>found.
     bind_a (lift (ok_or package_upsert_missing found)) (\<lambda>row.
     bind_a (sql (execute (SetPackageSequence (p_id row) (next_sequence (p_index_sequence row))))) (\<lambda>_.
       ret (row\<lparr>p_index_sequence := next_sequence (p_index_sequence row)\<rparr>)))))))"

definition version_candidate ::
  "('x publish_ext_scheme) \<Rightarrow> uuid \<Rightarrow> uuid \<Rightarrow> string \<Rightarrow> publish_meta \<Rightarrow> string \<Rightarrow> int \<Rightarrow> string \<Rightarrow> datetime \<Rightarrow> json \<Rightarrow> json
   \<Rightarrow> version_row" where
  "version_candidate x i pkg_id ver meta actual_sha artifact_len key published_at mirrors signatures =
     \<lparr>v_id = i, v_package_id = pkg_id, v_version = ver, v_sha256 = actual_sha, v_size = artifact_len,
      v_format = format_extension x (pm_format meta), v_vcs_tag = pm_vcs_tag meta,
      v_vcs_commit = pm_vcs_commit meta, v_artifact_key = key, v_yanked = False,
      v_published_at = published_at, v_mirrors = mirrors, v_signatures = signatures\<rparr>"

text \<open>Why a transaction did not commit: some failure, or the refusal of the version row.\<close>

datatype record_failure = Failed api_err | Rejected db_err package_row

definition record_version ::
  "org_row \<Rightarrow> string \<Rightarrow> publish_meta \<Rightarrow> (uuid \<Rightarrow> uuid \<Rightarrow> version_row) \<Rightarrow> (record_failure, unit) act" where
  "record_version org_row name meta row =
     bind_a (map_err Failed (sql begin_txn)) (\<lambda>_.
     in_txn
       (bind_a (map_err Failed (upsert_package org_row name meta)) (\<lambda>pkg.
        bind_a new_v4 (\<lambda>i.
        bind_a (map_err (\<lambda>err. Rejected err pkg) (execute (InsertVersion (row i (p_id pkg))))) (\<lambda>_.
          map_err Failed (sql commit_txn))))))"

definition settle_rejection ::
  "('x publish_ext_scheme) \<Rightarrow> publish_state \<Rightarrow> org_row \<Rightarrow> string \<Rightarrow> string \<Rightarrow> string \<Rightarrow> publish_meta
   \<Rightarrow> string \<Rightarrow> int \<Rightarrow> string \<Rightarrow> string option \<Rightarrow> db_err \<Rightarrow> package_row \<Rightarrow> unit handler" where
  "settle_rejection x st org_row org_slug name ver meta actual_sha artifact_len key user_agent err pkg =
     (if err = UniqueConstraintViolation then
        bind_a (sql (query (version_by_name (p_id pkg) ver))) (\<lambda>existing.
        bind_a (case existing of
                  None \<Rightarrow> ret ()
                | Some v \<Rightarrow>
                    if legacy_version_matches x v meta actual_sha artifact_len key
                    then adopt_canonical_publish x st org_row meta actual_sha artifact_len key user_agent
                    else ret ()) (\<lambda>_.
          throw (version_exists org_slug name ver ''; versions are immutable'')))
      else throw from_db_err)"

definition record_publication ::
  "('x publish_ext_scheme) \<Rightarrow> publish_state \<Rightarrow> org_row \<Rightarrow> string \<Rightarrow> string \<Rightarrow> string \<Rightarrow> publish_meta
   \<Rightarrow> string \<Rightarrow> int \<Rightarrow> string \<Rightarrow> string option \<Rightarrow> (uuid \<Rightarrow> uuid \<Rightarrow> version_row) \<Rightarrow> unit handler" where
  "record_publication x st org_row org_slug name ver meta actual_sha artifact_len key user_agent row =
     bind_a (attempt (record_version org_row name meta row)) (\<lambda>r.
       case r of
         Inr _ \<Rightarrow> ret ()
       | Inl (Failed err) \<Rightarrow> throw err
       | Inl (Rejected err pkg) \<Rightarrow>
           settle_rejection x st org_row org_slug name ver meta actual_sha artifact_len key user_agent err pkg)"

subsection \<open>The handler\<close>

text \<open>From the storing of the bytes on.\<close>

definition store_and_record ::
  "('x publish_ext_scheme) \<Rightarrow> publish_state \<Rightarrow> token_row \<Rightarrow> org_row \<Rightarrow> string \<Rightarrow> string \<Rightarrow> string \<Rightarrow> publish_meta
   \<Rightarrow> string \<Rightarrow> string \<Rightarrow> string option \<Rightarrow> datetime \<Rightarrow> json \<Rightarrow> json \<Rightarrow> publish_response handler" where
  "store_and_record x st token org_row org_slug name ver meta artifact actual_sha user_agent published_at mirrors signatures =
     (let ext = format_extension x (pm_format meta); ctype = format_content_type x (pm_format meta);
          key = artifact_key actual_sha ext; artifact_len = as_i64 (length artifact);
          alias_keys = guessable_alias_keys org_slug name ver (pm_vcs_tag meta) ext
            (pg_repo_url (mf_package (pm_manifest meta)))
      in bind_a (map_err (\<lambda>_. from_anyhow) (put_verified x (ps_store st) key artifact ctype actual_sha)) (\<lambda>_.
         bind_a (attempt (put_public_aliases x (ps_store st) alias_keys artifact ctype actual_sha)) (\<lambda>_.
         bind_a (record_publication x st org_row org_slug name ver meta actual_sha artifact_len key user_agent
           (\<lambda>i pkg. version_candidate x i pkg ver meta actual_sha artifact_len key published_at mirrors signatures)) (\<lambda>_.
         bind_a (adopt_canonical_publish x st org_row meta actual_sha artifact_len key user_agent) (\<lambda>_.
         bind_a (record_audit x (ps_postgres st) (o_id org_row) token Publish (version_subject org_slug name ver)
           (Some (''sha256='' @ actual_sha))) (\<lambda>_.
           ret \<lparr>pr_org = org_slug, pr_name = name, pr_version = ver, pr_sha256 = actual_sha\<rparr>))))))"

definition publish_checked ::
  "('x publish_ext_scheme) \<Rightarrow> publish_state \<Rightarrow> token_row \<Rightarrow> org_row \<Rightarrow> string \<Rightarrow> string \<Rightarrow> string \<Rightarrow> publish_meta
   \<Rightarrow> string \<Rightarrow> string option \<Rightarrow> publish_response handler" where
  "publish_checked x st token org_row org_slug name ver meta artifact user_agent =
     bind_a (lift (check_upload x st org_slug name ver meta artifact)) (\<lambda>actual_sha.
     bind_a (check_tag st meta) (\<lambda>_.
     bind_a (publication_time x meta) (\<lambda>published_at.
     bind_a (check_signatures x (o_id org_row) meta
       (attestation x org_slug name ver meta actual_sha (as_i64 (length artifact)) published_at)) (\<lambda>_.
     bind_a (lift (map_error
       (\<lambda>error. bad_request ''invalid_mirrors'' (''mirror set is not encodable: '' @ error))
       (mirrors_to_json x (pm_mirrors meta)))) (\<lambda>mirrors.
     bind_a (lift (map_error
       (\<lambda>error. bad_request ''invalid_signature'' (''signature set is not encodable: '' @ error))
       (signatures_to_json x (pm_signatures meta)))) (\<lambda>signatures.
     bind_a (check_existing x st org_row org_slug name ver meta actual_sha (as_i64 (length artifact))
       (artifact_key actual_sha (format_extension x (pm_format meta))) user_agent) (\<lambda>_.
       store_and_record x st token org_row org_slug name ver meta artifact actual_sha user_agent
         published_at mirrors signatures)))))))"

definition user_agent_of :: "headers \<Rightarrow> string option" where
  "user_agent_of headers = Option.bind (map_of headers ''user-agent'') header_to_str"

definition publish ::
  "('x publish_ext_scheme) \<Rightarrow> publish_state \<Rightarrow> string \<Rightarrow> string \<Rightarrow> string \<Rightarrow> headers \<Rightarrow> (string + part) list
   \<Rightarrow> publish_response handler" where
  "publish x st org_slug name ver headers parts =
     bind_a (require_token x headers) (\<lambda>token.
     bind_a (publish_org org_slug) (\<lambda>org_row.
     bind_a (lift (authorize_publish (t_org_id token) (parse (t_role token)) (o_id org_row))) (\<lambda>_.
     bind_a (lift (read_multipart x parts)) (\<lambda>(meta, artifact).
       publish_checked x st token org_row org_slug name ver meta artifact (user_agent_of headers)))))"

end
