(* ===== verification/PublishLaws.thy ===== *)
theory PublishLaws
  imports Publish
begin

section \<open>What publishing guarantees\<close>

text \<open>
  An invariant of the database, the objects and the adopted publications is kept by the whole
  handler when it is kept by the few steps that change them: the locale \<open>publish_invariant\<close>
  follows the text of the handler once, and is interpreted for the schema, for the immutability of
  versions, for the audit chain and for the property that every recorded version has its bytes.
\<close>

lemma check_upload_sha: "check_upload x st org_slug name ver meta artifact = Inr sha \<Longrightarrow> sha = sha256_hex x artifact"
  by (auto simp: check_upload_def Let_def bind_r_Inr_iff)

lemma keeps_lift_bind: "(\<And>a. r = Inr a \<Longrightarrow> keeps R P (f a)) \<Longrightarrow> keeps R P (bind_a (lift r) f)"
  by (cases r) (auto simp: keeps_def bind_a_def)

locale publish_invariant = store_invariant +
  assumes keep_adopt: "rely e \<Longrightarrow> P e w \<Longrightarrow> P e (w\<lparr>adopted := published\<rparr>)"
begin

lemma keeps_adopt [keep_rules]:
  "keeps rely P (adopt_canonical_publish x st org_row meta sha len key agent)"
proof -
  have "P e (w\<lparr>adopted := published, tick := Suc (tick w)\<rparr>)" if "rely e" "P e w" for e w published
    using keep_tick [OF that(1) keep_adopt [OF that, of published]] by simp
  then have "keeps rely P (adopt_machine_publish ctx input)" for ctx input
    by (auto simp: keeps_def adopt_machine_publish_def keep_tick split: option.split)
  then show ?thesis unfolding adopt_canonical_publish_def by (intro keep_rules)
qed

lemma keeps_tag [keep_rules]: "keeps rely P (check_tag st meta)"
proof -
  have "keeps rely P (verify_tag tv vcs url tag)" for tv vcs url tag
    unfolding keeps_def using verify_tag_world [of tv vcs url tag] keep_tick by metis
  moreover have "keeps rely P (case c of Missing \<Rightarrow> throw a | Verified commit \<Rightarrow> lift (f commit) | Skipped \<Rightarrow> ret b)"
    for c a f b by (cases c) (auto intro: keep_rules simp del: ret_run throw_run lift_run)
  ultimately show ?thesis unfolding check_tag_def Let_def by (intro keeps_bind keeps_map_err)
qed

lemma keeps_checks [keep_rules]:
  "keeps rely P (require_token x headers)" "keeps rely P (publish_org slug)"
  "keeps rely P (publication_time x' meta)" "keeps rely P (check_signatures x' org meta att)"
  "keeps rely P (check_existing x' st org_row org_slug name ver meta sha len key agent)"
  unfolding require_token_def publish_org_def publication_time_def check_signatures_def load_keys_def
    check_existing_def find_package_row_def
  by (intro keep_rules)+

lemma keeps_publish_from:
  assumes "\<And>token org_row meta artifact agent at mirrors signatures.
    keeps rely P (store_and_record x st token org_row org_slug name ver meta artifact (sha256_hex x artifact)
      agent at mirrors signatures)"
  shows "keeps rely P (publish x st org_slug name ver headers parts)"
proof -
  have "keeps rely P (publish_checked x st token org_row org_slug name ver meta artifact agent)"
    for token org_row meta artifact agent
    unfolding publish_checked_def
  proof (rule keeps_lift_bind)
    fix sha
    assume "check_upload x st org_slug name ver meta artifact = Inr sha"
    then have sha: "sha = sha256_hex x artifact" by (rule check_upload_sha)
    show "keeps rely P (bind_a (check_tag st meta) (\<lambda>_.
       bind_a (publication_time x meta) (\<lambda>published_at.
       bind_a (check_signatures x (o_id org_row) meta
         (attestation x org_slug name ver meta sha (as_i64 (length artifact)) published_at)) (\<lambda>_.
       bind_a (lift (map_error
         (\<lambda>error. bad_request ''invalid_mirrors'' (''mirror set is not encodable: '' @ error))
         (mirrors_to_json x (pm_mirrors meta)))) (\<lambda>mirrors.
       bind_a (lift (map_error
         (\<lambda>error. bad_request ''invalid_signature'' (''signature set is not encodable: '' @ error))
         (signatures_to_json x (pm_signatures meta)))) (\<lambda>signatures.
       bind_a (check_existing x st org_row org_slug name ver meta sha (as_i64 (length artifact))
         (artifact_key sha (format_extension x (pm_format meta))) agent) (\<lambda>_.
         store_and_record x st token org_row org_slug name ver meta artifact sha agent published_at mirrors signatures)))))))"
      unfolding sha by (intro keep_rules assms)
  qed
  then show ?thesis unfolding publish_def by (intro keep_rules)
qed

lemma keeps_record_publication:
  assumes upsert: "\<And>r. keeps rely P (execute (UpsertPackage r))"
    and sequence: "\<And>i n. keeps rely P (execute (SetPackageSequence i n))"
    and row: "\<And>i pkg. keeps rely P (execute (InsertVersion (row i pkg)))"
  shows "keeps rely P (record_publication x st org_row org_slug name ver meta sha len key agent row)"
proof -
  have "keeps rely P (record_version org_row name meta row)"
    unfolding record_version_def upsert_package_def by (intro keep_rules assms)
  moreover have "keeps rely P (case r of Inr _ \<Rightarrow> ret () | Inl (Failed err) \<Rightarrow> throw err
      | Inl (Rejected err pkg) \<Rightarrow> settle_rejection x st org_row org_slug name ver meta sha len key agent err pkg)" for r
  proof (cases r)
    case (Inl f)
    then show ?thesis
      by (cases f) (simp_all only: sum.case record_failure.case settle_rejection_def, (intro keep_rules)+)
  next
    case (Inr u)
    then show ?thesis by (simp only: sum.case) (intro keep_rules)
  qed
  ultimately show ?thesis unfolding record_publication_def by (intro keeps_bind keeps_attempt)
qed

lemma keeps_publish:
  assumes "\<And>e w os. rely e \<Longrightarrow> P e w \<Longrightarrow> P e (w\<lparr>objects := os\<rparr>)"
    and "\<And>r. keeps rely P (execute (UpsertPackage r))" "\<And>i n. keeps rely P (execute (SetPackageSequence i n))"
    and "\<And>r. keeps rely P (execute (InsertVersion r))"
    and "\<And>pg org token action subject detail. keeps rely P (record_audit x pg org token action subject detail)"
  shows "keeps rely P (publish x st org_slug name ver headers parts)"
proof (rule keeps_publish_from)
  have put: "keeps rely P (put_verified x store key bytes ctype sha)" for store key bytes ctype sha
    by (rule keeps_put_verified) (auto intro: assms(1))
  then show "keeps rely P (store_and_record x st token org_row org_slug name ver meta artifact sha agent at mirrors signatures)"
    for token org_row meta artifact sha agent at mirrors signatures
    unfolding store_and_record_def Let_def
    by (intro keep_rules keeps_put_public_aliases keeps_record_publication assms)
qed

end

interpretation schema_publish: publish_invariant schema_rely schema_inv
  by unfold_locales (auto simp: schema_inv_def store_settle_def)

interpretation immutable_publish: publish_invariant frozen_rely "frozen v" for v
  by unfold_locales (auto simp: frozen_iff store_settle_def)

interpretation chain_publish: publish_invariant "audit_rely x" "chain_inv x" for x
  by unfold_locales (auto simp: chain_inv_def store_settle_def pending_def)

lemma schema_publish_kept [keep_rules]: "keeps schema_rely schema_inv (publish x st org_slug name ver headers parts)"
  by (intro schema_publish.keeps_publish keep_rules schema.keeps_record_audit) (simp add: schema_inv_def)

lemma immutable_publish_kept [keep_rules]: "keeps frozen_rely (frozen v) (publish x st org_slug name ver headers parts)"
  by (intro immutable_publish.keeps_publish keep_rules) (simp add: frozen_iff)

lemma chain_publish_kept [keep_rules]:
  assumes "digest_ok x"
  shows "keeps (audit_rely x) (chain_inv x) (publish x st org_slug name ver headers parts)"
  using assms by (intro chain_publish.keeps_publish keep_rules) (simp_all add: chain_inv_def pending_def)

subsection \<open>Every recorded version has its bytes\<close>

definition row_backed :: "('x ext_scheme) \<Rightarrow> artifact_store \<Rightarrow> version_row \<Rightarrow> world \<Rightarrow> bool" where
  "row_backed x store v w \<longleftrightarrow>
     \<not> is_staging x (object_name store (v_artifact_key v))
     \<and> (\<exists>b. look (objects w) (object_name store (v_artifact_key v)) = Some b
          \<and> sha256_hex x (content b) = v_sha256 v \<and> as_i64 (length (content b)) = v_size v)"

text \<open>A row that some other session writes.\<close>

definition foreign :: "env \<Rightarrow> version_row \<Rightarrow> bool" where
  "foreign e v \<longleftrightarrow> (\<exists>t d. v \<in> set (versions (peer_db e t d)) \<and> v \<notin> set (versions d))"

lemma foreignI: "v \<in> set (versions (peer_db e t d)) \<Longrightarrow> v \<notin> set (versions d) \<Longrightarrow> foreign e v"
  unfolding foreign_def by blast

text \<open>
  Every committed version is old, foreign or backed, every version about to be committed is backed,
  and the objects in \<open>need\<close> are there.
\<close>

definition accounted ::
  "('x ext_scheme) \<Rightarrow> artifact_store \<Rightarrow> version_row set \<Rightarrow> (string \<times> blob) set \<Rightarrow> env \<Rightarrow> world \<Rightarrow> bool" where
  "accounted x store old need e w \<longleftrightarrow>
     (\<forall>v\<in>set (versions (committed w)). v \<in> old \<or> foreign e v \<or> row_backed x store v w)
     \<and> (\<forall>v. InsertVersion v \<in> set (pending w) \<longrightarrow> row_backed x store v w)
     \<and> (\<forall>i b. SetVersionYanked i b \<notin> set (pending w))
     \<and> (\<forall>(k, b)\<in>need. \<not> is_staging x k \<and> look (objects w) k = Some b)"

lemma apply_write_new_versions:
  "apply_write wr d = Inr d' \<Longrightarrow> v \<in> set (versions d') \<Longrightarrow> (\<And>i b. wr \<noteq> SetVersionYanked i b) \<Longrightarrow>
     v \<in> set (versions d) \<or> wr = InsertVersion v"
  by (cases wr) (auto simp: apply_write.simps bind_r_Inr_iff insert_row_Inr_iff)

lemma apply_all_new_versions:
  "apply_all ws d = Inr d' \<Longrightarrow> v \<in> set (versions d') \<Longrightarrow> (\<And>i b. SetVersionYanked i b \<notin> set ws) \<Longrightarrow>
     v \<in> set (versions d) \<or> InsertVersion v \<in> set ws"
proof (induction ws arbitrary: d)
  case (Cons wr ws)
  then obtain d1 where d1: "apply_write wr d = Inr d1" "apply_all ws d1 = Inr d'" by (auto simp: bind_r_Inr_iff)
  have "v \<in> set (versions d1) \<or> InsertVersion v \<in> set ws" using Cons.IH [OF d1(2)] Cons.prems by auto
  moreover have "\<And>i b. wr \<noteq> SetVersionYanked i b" using Cons.prems(3) by (metis list.set_intros(1))
  ultimately show ?case using apply_write_new_versions [OF d1(1), of v] by auto
qed simp

lemma view_new_versions:
  "v \<in> set (versions (view w)) \<Longrightarrow> (\<And>i b. SetVersionYanked i b \<notin> set (pending w)) \<Longrightarrow>
     v \<in> set (versions (committed w)) \<or> InsertVersion v \<in> set (pending w)"
  using apply_all_new_versions [of "pending w" "committed w"] by (auto simp: view_def split: sum.splits)

text \<open>A change of the world that keeps the objects outside staging keeps the property.\<close>

lemma row_backed_mono:
  "row_backed x store v w \<Longrightarrow> (\<And>k b. \<not> is_staging x k \<Longrightarrow> look (objects w) k = Some b \<Longrightarrow> look (objects w') k = Some b) \<Longrightarrow>
     row_backed x store v w'"
  unfolding row_backed_def by blast

lemma accounted_mono:
  assumes "accounted x store old need e w"
    and "\<And>k b. \<not> is_staging x k \<Longrightarrow> look (objects w) k = Some b \<Longrightarrow> look (objects w') k = Some b"
    and "\<And>v. v \<in> set (versions (committed w')) \<Longrightarrow>
      v \<in> set (versions (committed w)) \<or> foreign e v \<or> InsertVersion v \<in> set (pending w)"
    and "set (pending w') \<subseteq> set (pending w)"
  shows "accounted x store old need e w'"
proof -
  have m: "row_backed x store v w \<Longrightarrow> row_backed x store v w'" for v using row_backed_mono assms(2) by blast
  have "\<forall>v\<in>set (versions (committed w')). v \<in> old \<or> foreign e v \<or> row_backed x store v w'"
    using assms(1,3) m unfolding accounted_def by blast
  moreover have "\<forall>v. InsertVersion v \<in> set (pending w') \<longrightarrow> row_backed x store v w'"
    using assms(1,4) m unfolding accounted_def by blast
  moreover have "\<forall>i b. SetVersionYanked i b \<notin> set (pending w')"
    using assms(1,4) unfolding accounted_def by blast
  moreover have "\<forall>(k, b)\<in>need. \<not> is_staging x k \<and> look (objects w') k = Some b"
    using assms(1,2) unfolding accounted_def by blast
  ultimately show ?thesis unfolding accounted_def by blast
qed

interpretation accounted: publish_invariant "store_rely x" "accounted x store old need" for x store old need
proof
  fix e w
  assume a: "store_rely x e" "accounted x store old need e w"
  show "accounted x store old need e (settle e w)"
    using settle_committed [of e w] foreignI by (intro accounted_mono [OF a(2)]) auto
  show "accounted x store old need e (store_settle e w)"
    using a(1) by (intro accounted_mono [OF a(2)]) (auto simp: store_settle_def store_rely_def pending_def)
  show "accounted x store old need e (w\<lparr>committed := view w\<rparr>)"
    using a(2) view_new_versions [of _ w] by (intro accounted_mono [OF a(2)]) (auto simp: accounted_def)
qed (erule accounted_mono; simp add: rollback_txn_def pending_def)+

lemma accounted_execute:
  assumes "\<And>i b. wr \<noteq> SetVersionYanked i b"
    and "\<And>e w v. accounted x store old need e w \<Longrightarrow> wr = InsertVersion v \<Longrightarrow> row_backed x store v w"
  shows "keeps (store_rely x) (accounted x store old need) (execute wr)"
proof (rule accounted.keeps_execute)
  fix e w d
  assume a: "accounted x store old need e w" and d: "apply_write wr (view w) = Inr d"
  have same: "row_backed x store v (store_write wr d w) = row_backed x store v w" for v
    by (simp add: row_backed_def store_write_def split: option.split)
  have new: "v \<in> set (versions (committed w)) \<or> InsertVersion v \<in> set (pending w) \<or> wr = InsertVersion v"
    if "v \<in> set (versions d)" for v
    using apply_write_new_versions [OF d that] view_new_versions [of v w] assms(1) a by (auto simp: accounted_def)
  have b: "row_backed x store v w" if "wr = InsertVersion v" for v using assms(2) a that by blast
  show "accounted x store old need e (store_write wr d w)"
  proof (cases "txn w")
    case None
    then have "store_write wr d w = w\<lparr>committed := d\<rparr>" by (simp add: store_write_def)
    moreover have "\<forall>v\<in>set (versions d). v \<in> old \<or> foreign e v \<or> row_backed x store v w"
      using a new b unfolding accounted_def by blast
    ultimately show ?thesis using a same unfolding accounted_def by simp
  next
    case (Some ws)
    then have "store_write wr d w = w\<lparr>txn := Some (ws @ [wr])\<rparr>" by (simp add: store_write_def)
    then show ?thesis using a b same assms(1) Some unfolding accounted_def by (auto simp: pending_def)
  qed
qed

lemma accounted_put_verified [keep_rules]:
  "keeps (store_rely x) (accounted x store old need) (put_verified x store' key bytes ctype sha)"
proof (rule accounted.keeps_put_verified)
  fix e w b k
  assume a: "accounted x store old need e w"
  show "accounted x store old need e (w\<lparr>objects := set_object k b (objects w)\<rparr>)" if "look (objects w) k = None"
    using that by (intro accounted_mono [OF a]) (auto simp: pending_def)
  show "accounted x store old need e (w\<lparr>objects := set_object (staging_path x p f u) b (objects w)\<rparr>)
      \<and> accounted x store old need e (w\<lparr>objects := del_object (staging_path x p f u) (objects w)\<rparr>)" for p f u
    by (intro conjI accounted_mono [OF a]) (auto simp: pending_def is_staging_def)
qed

lemma accounted_put_aliases [keep_rules]:
  "keeps (store_rely x) (accounted x store old need) (put_public_aliases x store' keys bytes ctype sha)"
  by (rule accounted.keeps_put_public_aliases) (rule accounted_put_verified)

lemma accounted_record_audit [keep_rules]:
  "keeps (store_rely x) (accounted x store old need) (record_audit y pg org token action subject detail)"
  by (intro accounted.keeps_record_audit accounted_execute) simp_all

text \<open>A step whose success establishes a stronger property for what follows.\<close>

lemma keeps_then:
  assumes "keeps R P m" "\<And>e w a w'. R e \<Longrightarrow> P e w \<Longrightarrow> m e w = (Inr a, w') \<Longrightarrow> P e (snd (f a e w'))"
  shows "keeps R P (bind_a m f)"
  unfolding keeps_def
proof (intro allI impI)
  fix e w
  assume rp: "R e" "P e w"
  then have "P e (snd (m e w))" using assms(1) by (simp add: keeps_def)
  then show "P e (snd (bind_a m f e w))"
    using assms(2) [OF rp] by (auto simp: bind_a_def split: prod.split sum.split)
qed

text \<open>Extensions of archive formats never look like the staging suffix.\<close>

definition extensions_ok :: "('x publish_ext_scheme) \<Rightarrow> bool" where
  "extensions_ok x \<longleftrightarrow> (\<forall>f. \<not> ends_with (format_extension x f) ''tmp'' \<and> 3 \<le> length (format_extension x f))"

lemma accounted_tail:
  assumes "extensions_ok x" and sha: "sha = sha256_hex x artifact"
  shows "keeps (store_rely x) (accounted x (ps_store st) old {})
    (store_and_record x st token org_row org_slug name ver meta artifact sha agent at mirrors signatures)"
proof -
  let ?key = "artifact_key sha (format_extension x (pm_format meta))"
  let ?row = "\<lambda>i pkg. version_candidate x i pkg ver meta sha (as_i64 (length artifact)) ?key at mirrors signatures"
  let ?rest = "bind_a (attempt (put_public_aliases x (ps_store st)
       (guessable_alias_keys org_slug name ver (pm_vcs_tag meta) (format_extension x (pm_format meta))
          (pg_repo_url (mf_package (pm_manifest meta)))) artifact (format_content_type x (pm_format meta)) sha)) (\<lambda>_.
     bind_a (record_publication x st org_row org_slug name ver meta sha (as_i64 (length artifact)) ?key agent ?row) (\<lambda>_.
     bind_a (adopt_canonical_publish x st org_row meta sha (as_i64 (length artifact)) ?key agent) (\<lambda>_.
     bind_a (record_audit x (ps_postgres st) (o_id org_row) token Publish (version_subject org_slug name ver)
       (Some (''sha256='' @ sha))) (\<lambda>_.
       ret \<lparr>pr_org = org_slug, pr_name = name, pr_version = ver, pr_sha256 = sha\<rparr>))))"
  let ?name = "object_name (ps_store st) ?key"
  have ns: "\<not> is_staging x ?name"
    using assms(1) by (intro not_staging artifact_key_not_tmp) (simp_all add: extensions_ok_def)
  have rest: "keeps (store_rely x) (accounted x (ps_store st) old {(?name, b)}) ?rest"
    if b: "length (content b) = length artifact" "sha256_hex x (content b) = sha" for b
  proof -
    have "keeps (store_rely x) (accounted x (ps_store st) old {(?name, b)}) (execute (InsertVersion (?row i pkg)))" for i pkg
      by (rule accounted_execute) (use b ns in \<open>auto simp: accounted_def row_backed_def version_candidate_def\<close>)
    moreover have "keeps (store_rely x) (accounted x (ps_store st) old need) (execute (UpsertPackage r))"
      "keeps (store_rely x) (accounted x (ps_store st) old need) (execute (SetPackageSequence i n))" for need r i n
      by (rule accounted_execute; simp)+
    ultimately show ?thesis by (intro keep_rules accounted.keeps_record_publication)
  qed
  show ?thesis
    unfolding store_and_record_def Let_def
  proof (rule keeps_then)
    fix e w u w'
    assume e: "store_rely x e" "accounted x (ps_store st) old {} e w"
      and put: "map_err (\<lambda>_. from_anyhow) (put_verified x (ps_store st) ?key artifact
        (format_content_type x (pm_format meta)) sha) e w = (Inr u, w')"
    from put have "put_verified x (ps_store st) ?key artifact (format_content_type x (pm_format meta)) sha e w = (Inr u, w')" by simp
    moreover from this have "accounted x (ps_store st) old {} e w'"
      using keepsD [OF accounted_put_verified e] by blast
    ultimately obtain b where b: "look (objects w') ?name = Some b" "length (content b) = length artifact"
        "sha256_hex x (content b) = sha" "accounted x (ps_store st) old {} e w'"
      using contract.put_present [OF e(1) ns] unfolding sha backed_def by blast
    then have "accounted x (ps_store st) old {(?name, b)} e w'" using ns by (simp add: accounted_def)
    then have "accounted x (ps_store st) old {(?name, b)} e (snd (?rest e w'))"
      using keeps_snd [OF rest [OF b(2,3)] e(1)] by blast
    then show "accounted x (ps_store st) old {} e (snd (?rest e w'))" by (auto simp: accounted_def)
  qed (intro keep_rules)
qed

text \<open>C1. A version is recorded only after its bytes are stored: after any publish request, whatever it
  answered, whatever other requests and storage clients did in between and wherever the database or
  the store failed, every version row of the database was there before, was written by another
  session, or names an object that is stored with the digest and the length the row records. The
  store's other clients are assumed not to replace or delete finished objects.\<close>

theorem recorded_versions_have_their_bytes:
  assumes "store_rely x e" and "extensions_ok x" and "txn w = None"
    and "v \<in> set (versions (committed (snd (publish x st org_slug name ver headers parts e w))))"
  shows "v \<in> set (versions (committed w)) \<or> foreign e v
    \<or> row_backed x (ps_store st) v (snd (publish x st org_slug name ver headers parts e w))"
proof -
  have "keeps (store_rely x) (accounted x (ps_store st) (set (versions (committed w))) {})
      (publish x st org_slug name ver headers parts)"
    by (rule accounted.keeps_publish_from) (rule accounted_tail [OF assms(2) refl])
  moreover have "accounted x (ps_store st) (set (versions (committed w))) {} e w"
    using assms(3) by (simp add: accounted_def pending_def)
  ultimately show ?thesis using keeps_snd assms(1,4) by (fastforce simp: accounted_def)
qed

end
