(* ===== verification/PublishEffect.thy ===== *)
theory PublishEffect
  imports PublishLaws
begin

section \<open>The effect of a publish request\<close>

text \<open>
  What a request does to the catalogue of organisations, packages and versions while no other session writes it:
  nothing, or the whole publication.
\<close>

type_synonym catalog = "org_row list \<times> package_row list \<times> version_row list"

definition catalog :: "db \<Rightarrow> catalog" where
  "catalog d = (orgs d, packages d, versions d)"

definition undisturbed :: "env \<Rightarrow> bool" where
  "undisturbed e \<longleftrightarrow> (\<forall>t d. catalog (peer_db e t d) = catalog d)"

definition catalog_is :: "catalog \<Rightarrow> env \<Rightarrow> world \<Rightarrow> bool" where
  "catalog_is C e w \<longleftrightarrow> catalog (committed w) = C \<and> list_all touches_log (pending w)"

lemma undisturbed_settle: "undisturbed e \<Longrightarrow> catalog (committed (settle e w)) = catalog (committed w)"
  using settle_committed [of e w] unfolding undisturbed_def by metis

lemma log_write_catalog: "touches_log wr \<Longrightarrow> apply_write wr d = Inr d' \<Longrightarrow> catalog d' = catalog d"
  by (cases wr) (auto simp: apply_insert_iff catalog_def)

lemma log_writes_catalog: "list_all touches_log ws \<Longrightarrow> apply_all ws d = Inr d' \<Longrightarrow> catalog d' = catalog d"
proof (induction ws arbitrary: d)
  case (Cons wr ws)
  then obtain d1 where "apply_write wr d = Inr d1" "apply_all ws d1 = Inr d'" by (auto simp: bind_r_Inr_iff)
  then show ?case using Cons log_write_catalog [of wr d d1] by simp
qed simp

lemma catalog_view: "catalog_is C e w \<Longrightarrow> catalog (view w) = C"
  by (auto simp: catalog_is_def view_def dest: log_writes_catalog split: sum.split)

interpretation still: publish_invariant undisturbed "catalog_is C" for C
proof
  fix e w
  assume "undisturbed e" "catalog_is C e w"
  then show "catalog_is C e (settle e w)" by (simp add: catalog_is_def undisturbed_settle)
next
  fix e w
  assume "catalog_is C e w"
  then show "catalog_is C e (w\<lparr>committed := view w\<rparr>)" using catalog_view by (simp add: catalog_is_def)
qed (simp_all add: catalog_is_def rollback_txn_def pending_def store_settle_def)

lemma still_put_verified [keep_rules]:
  "keeps undisturbed (catalog_is C) (put_verified x store key bytes ctype sha)"
  by (rule still.keeps_put_verified) (simp_all add: catalog_is_def pending_def)

lemma still_put_aliases [keep_rules]:
  "keeps undisturbed (catalog_is C) (put_public_aliases x store keys bytes ctype sha)"
  by (rule still.keeps_put_public_aliases) (rule still_put_verified)

lemma still_record_audit [keep_rules]:
  "keeps undisturbed (catalog_is C) (record_audit x pg org token action subject detail)"
proof (intro still.keeps_record_audit still.keeps_execute)
  fix r e w d
  assume a: "catalog_is C e w" and d: "apply_write (InsertAudit r) (view w) = Inr d"
  have "catalog d = C" using log_write_catalog [OF _ d] catalog_view [OF a] by simp
  then show "catalog_is C e (store_write (InsertAudit r) d w)"
    using a by (auto simp: catalog_is_def store_write_def pending_def split: option.splits)
qed

subsection \<open>The transaction\<close>

text \<open>A transaction under way that has not touched the committed catalogue.\<close>

definition under_way :: "catalog \<Rightarrow> env \<Rightarrow> world \<Rightarrow> bool" where
  "under_way C e w \<longleftrightarrow> catalog (committed w) = C \<and> txn w \<noteq> None \<and> appliable w"

lemma appliable_tick [simp]: "appliable (w\<lparr>tick := n\<rparr>) = appliable w"
  by (simp add: appliable_def)

lemma under_way_steps:
  "keeps undisturbed (under_way C) (query q)" "keeps undisturbed (under_way C) (execute wr)"
  "keeps undisturbed (under_way C) utc_now" "keeps undisturbed (under_way C) new_v4"
proof -
  show "keeps undisturbed (under_way C) (query q)"
    by (simp add: keeps_def under_way_def undisturbed_settle settle_appliable)
  show "keeps undisturbed (under_way C) (execute wr)"
    unfolding keeps_def
  proof (intro allI impI)
    fix e w
    assume u: "undisturbed e" "under_way C e w"
    obtain ws where ws: "txn w = Some ws" "appliable w" using u(2) by (auto simp: under_way_def)
    obtain r w' where run: "execute wr e w = (r, w')" by fastforce
    have "committed w' = committed (settle e w)" "appliable w'" "txn w' \<noteq> None"
      using execute_in_txn [OF ws run] by auto
    then show "under_way C e (snd (execute wr e w))"
      using u run by (simp add: under_way_def undisturbed_settle)
  qed
qed (simp_all add: keeps_def under_way_def utc_now_def new_v4_def)

lemma under_way_upsert: "keeps undisturbed (under_way C) (upsert_package org_row name meta)"
  unfolding upsert_package_def by (intro keep_rules under_way_steps)

lemma apply_upsert_iff:
  "apply_write (UpsertPackage r) d = Inr d' \<longleftrightarrow>
     has_org d (p_org_id r) \<and> (\<exists>ps. upsert_row r (packages d) = Inr ps \<and> d' = d\<lparr>packages := ps\<rparr>)"
  by (auto simp: apply_write.simps bind_r_Inr_iff)

text \<open>What a successful upsert leaves in the transaction.\<close>

lemma upsert_run:
  assumes run: "upsert_package org_row name meta e w = (Inr pkg, w')" and w: "txn w = Some []"
  shows "\<exists>i now row. let c = package_candidate org_row name meta i now in
    txn w' = Some [UpsertPackage c, SetPackageSequence (p_id row) (next_sequence (p_index_sequence row))]
    \<and> appliable w' \<and> pkg = row\<lparr>p_index_sequence := next_sequence (p_index_sequence row)\<rparr>
    \<and> p_org_id row = o_id org_row \<and> p_name row = name \<and> adopted w' = adopted w \<and> objects w' = objects w
    \<and> (undisturbed e \<longrightarrow> (\<exists>ps. upsert_row c (packages (committed w)) = Inr ps \<and> row \<in> set ps))"
proof -
  define i now w1 where "i = uuid_at e (tick w)" and "now = clock_at e (Suc (tick w))"
    and "w1 = w\<lparr>tick := Suc (Suc (tick w))\<rparr>"
  have w1: "txn w1 = Some []" "committed w1 = committed w" "adopted w1 = adopted w" "objects w1 = objects w"
    using w by (simp_all add: w1_def)
  obtain d1 w2 row d2 where
    ins: "execute (UpsertPackage (package_candidate org_row name meta i now)) e w1 = (Inr d1, w2)"
    and found: "package_by_name (o_id org_row) name (view (settle e w2)) = Some row"
    and seq: "execute (SetPackageSequence (p_id row) (next_sequence (p_index_sequence row))) e (settle e w2) = (Inr d2, w')"
    and pkg: "pkg = row\<lparr>p_index_sequence := next_sequence (p_index_sequence row)\<rparr>"
    using run
    by (auto simp: upsert_package_def bind_a_Inr_iff new_v4_def utc_now_def query_Inr_iff i_def now_def w1_def)
  let ?c = "package_candidate org_row name meta i now"
  have a1: "appliable w1" using w1 by (simp add: appliable_def pending_def)
  note s1 = execute_in_txn [OF w1(1) a1 ins]
  have w2: "txn (settle e w2) = Some [UpsertPackage ?c]" "appliable (settle e w2)"
    using s1 settle_appliable by auto
  note s2 = execute_in_txn [OF w2 seq]
  have row: "p_org_id row = o_id org_row" "p_name row = name" "row \<in> set (packages (view (settle e w2)))"
    using found by (auto simp: package_by_name_def dest: find_Some_iff')
  have "\<exists>ps. upsert_row ?c (packages (committed w)) = Inr ps \<and> row \<in> set ps" if "undisturbed e"
  proof -
    have "apply_all [UpsertPackage ?c] (committed (settle e w2)) = Inr (view (settle e w2))"
      using appliable_view [OF w2(2)] w2(1) by (simp add: pending_def)
    then obtain ps where "upsert_row ?c (packages (committed (settle e w2))) = Inr ps" "packages (view (settle e w2)) = ps"
      by (auto simp: bind_r_Inr_iff apply_upsert_iff)
    moreover have "packages (committed (settle e w2)) = packages (committed w)"
      using undisturbed_settle [OF that, of w2] undisturbed_settle [OF that, of w1] s1 w1(2) by (simp add: catalog_def)
    ultimately show ?thesis using row(3) by auto
  qed
  then show ?thesis
    unfolding Let_def using s1 s2 w1 pkg row
    by (intro exI [of _ i] exI [of _ now] exI [of _ row]) simp
qed

lemma commit_outcome:
  assumes "commit_txn e w = (r, w')" "txn w = Some ws" "appliable w"
  shows "txn w' = None \<and> adopted w' = adopted w \<and> objects w' = objects w
    \<and> (committed w' = committed (settle e w) \<and> r = Inl ConnectionLost
       \<or> apply_all ws (committed (settle e w)) = Inr (committed w'))"
  using assms(1,2) appliable_view [OF settle_appliable [OF assms(3)]]
  by (auto simp: commit_txn_def Let_def rollback_txn_def pending_def split: if_splits)

text \<open>Recording touches neither the objects nor the canonical data plane.\<close>

definition aside :: "machine_publish list \<Rightarrow> (string \<times> blob) list \<Rightarrow> env \<Rightarrow> world \<Rightarrow> bool" where
  "aside as os e w \<longleftrightarrow> adopted w = as \<and> objects w = os"

interpretation aside: world_invariant "\<lambda>_. True" "aside as os" for as os
  by unfold_locales (simp_all add: aside_def rollback_txn_def)

lemma aside_execute [keep_rules]: "keeps (\<lambda>_. True) (aside as os) (execute wr)"
  by (rule aside.keeps_execute) (simp add: aside_def store_write_def split: option.split)

lemma aside_record_version [keep_rules]: "keeps (\<lambda>_. True) (aside as os) (record_version org_row name meta row)"
  unfolding record_version_def upsert_package_def by (intro keep_rules)

lemma record_version_aside:
  "record_version org_row name meta row e w = (r, w') \<Longrightarrow> adopted w' = adopted w \<and> objects w' = objects w"
  using keepsD [OF aside_record_version [of "adopted w" "objects w"], of e w] by (simp add: aside_def)

lemma in_txn_run: "in_txn m e w = (case m e w of (r, w') \<Rightarrow> (r, if isl r then rollback_txn w' else w'))"
  by (auto simp: in_txn_def split: prod.split sum.split)

text \<open>
  The transaction failed without a trace, or its three writes were applied, with or without the
  acknowledgement.
\<close>

definition recorded ::
  "org_row \<Rightarrow> string \<Rightarrow> publish_meta \<Rightarrow> (uuid \<Rightarrow> uuid \<Rightarrow> version_row) \<Rightarrow> env \<Rightarrow> db \<Rightarrow> db \<Rightarrow> bool" where
  "recorded org_row name meta row e d d' \<longleftrightarrow>
     (\<exists>i now pkg j d0. p_org_id pkg = o_id org_row \<and> p_name pkg = name
        \<and> apply_all [UpsertPackage (package_candidate org_row name meta i now),
             SetPackageSequence (p_id pkg) (next_sequence (p_index_sequence pkg)), InsertVersion (row j (p_id pkg))] d0 = Inr d'
        \<and> (undisturbed e \<longrightarrow> catalog d0 = catalog d
             \<and> (\<exists>ps. upsert_row (package_candidate org_row name meta i now) (packages d) = Inr ps \<and> pkg \<in> set ps)))"

lemma record_body_cases:
  assumes run: "bind_a (map_err Failed (upsert_package org_row name meta)) (\<lambda>pkg.
        bind_a new_v4 (\<lambda>i.
        bind_a (map_err (\<lambda>err. Rejected err pkg) (execute (InsertVersion (row i (p_id pkg))))) (\<lambda>_.
          map_err Failed (sql commit_txn)))) e w = (r, w')" and w: "txn w = Some []"
  shows "isl r \<and> (undisturbed e \<longrightarrow> catalog (committed w') = catalog (committed w))
    \<or> recorded org_row name meta row e (committed w) (committed w') \<and> txn w' = None"
proof -
  let ?C = "catalog (committed w)"
  have u0: "under_way ?C e w" using w by (simp add: under_way_def appliable_def pending_def)
  obtain q w1 where up: "upsert_package org_row name meta e w = (q, w1)" by fastforce
  have u1: "undisturbed e \<Longrightarrow> under_way ?C e w1" using keepsD [OF under_way_upsert _ u0 up] by blast
  show ?thesis
  proof (cases q)
    case (Inl err)
    then have "r = Inl (Failed err)" "w' = w1" using run up by (simp_all add: bind_a_def map_err_def)
    then show ?thesis using u1 by (simp add: under_way_def)
  next
    case (Inr pkg)
    from upsert_run [OF up [unfolded Inr] w] obtain i now p where
      t1: "txn w1 = Some [UpsertPackage (package_candidate org_row name meta i now),
             SetPackageSequence (p_id p) (next_sequence (p_index_sequence p))]" "appliable w1"
      and pkg: "pkg = p\<lparr>p_index_sequence := next_sequence (p_index_sequence p)\<rparr>"
      and p: "p_org_id p = o_id org_row" "p_name p = name"
      and ps: "undisturbed e \<longrightarrow> (\<exists>ps. upsert_row (package_candidate org_row name meta i now) (packages (committed w)) = Inr ps \<and> p \<in> set ps)"
      by (auto simp: Let_def)
    define w2 j where "w2 = w1\<lparr>tick := Suc (tick w1)\<rparr>" and "j = uuid_at e (tick w1)"
    have t2: "txn w2 = txn w1" "appliable w2" using t1 by (simp_all add: w2_def)
    have u2: "undisturbed e \<Longrightarrow> under_way ?C e w2" using u1 by (simp add: under_way_def w2_def)
    obtain q3 w3 where ins: "execute (InsertVersion (row j (p_id p))) e w2 = (q3, w3)" by fastforce
    have u3: "undisturbed e \<Longrightarrow> under_way ?C e w3" using keepsD [OF under_way_steps(2) _ u2 ins] by blast
    have run3: "(case q3 of Inl err \<Rightarrow> (Inl (Rejected err pkg), w3) | Inr d \<Rightarrow> map_err Failed (sql commit_txn) e w3) = (r, w')"
      using run up Inr ins pkg
      by (simp add: bind_a_def map_err_def new_v4_def w2_def j_def split: sum.splits)
    show ?thesis
    proof (cases q3)
      case (Inl err)
      then show ?thesis using run3 u3 by (auto simp: under_way_def)
    next
      case (Inr d)
      note s3 = execute_in_txn [OF t2(1) [unfolded t1(1)] t2(2) ins]
      obtain qc where com: "commit_txn e w3 = (qc, w')" and r: "isl r = isl qc"
        using run3 Inr by (auto simp: map_err_def sql_def split: prod.splits sum.splits)
      have "txn w' = None \<and> (committed w' = committed (settle e w3) \<and> qc = Inl ConnectionLost
         \<or> apply_all [UpsertPackage (package_candidate org_row name meta i now),
             SetPackageSequence (p_id p) (next_sequence (p_index_sequence p)), InsertVersion (row j (p_id p))]
             (committed (settle e w3)) = Inr (committed w'))"
        using commit_outcome [OF com] s3 Inr by simp
      moreover have "undisturbed e \<Longrightarrow> catalog (committed (settle e w3)) = ?C"
        using u3 undisturbed_settle [of e w3] by (simp add: under_way_def)
      ultimately show ?thesis using p ps r unfolding recorded_def by fastforce
    qed
  qed
qed

lemma record_version_cases:
  assumes run: "record_version org_row name meta row e w = (r, w')"
  shows "isl r \<and> (undisturbed e \<longrightarrow> catalog (committed w') = catalog (committed w)) \<and> pending w' \<in> {[], pending w}
    \<or> recorded org_row name meta row e (committed w) (committed w') \<and> txn w' = None"
proof (cases "outcome_at e (tick w) = Served")
  case False
  then have "r = Inl (Failed from_db_err)" "w' = settle e w"
    using run by (simp_all add: record_version_def bind_a_def sql_def map_err_def begin_txn_def Let_def)
  then show ?thesis by (simp add: undisturbed_settle)
next
  case True
  let ?w0 = "(settle e w)\<lparr>txn := Some []\<rparr>"
  let ?body = "bind_a (map_err Failed (upsert_package org_row name meta)) (\<lambda>pkg.
        bind_a new_v4 (\<lambda>i.
        bind_a (map_err (\<lambda>err. Rejected err pkg) (execute (InsertVersion (row i (p_id pkg))))) (\<lambda>_.
          map_err Failed (sql commit_txn))))"
  have "in_txn ?body e ?w0 = (r, w')"
  proof -
    have "map_err Failed (sql begin_txn) e w = (Inr (), ?w0)"
      using True by (simp add: sql_def map_err_def begin_txn_def Let_def)
    then show ?thesis using run unfolding record_version_def by (simp add: bind_a_run)
  qed
  then obtain wb where b: "?body e ?w0 = (r, wb)" "w' = (if isl r then rollback_txn wb else wb)"
    by (auto simp: in_txn_run split: prod.splits)
  have c: "undisturbed e \<Longrightarrow> catalog (committed ?w0) = catalog (committed w)" by (simp add: undisturbed_settle)
  have rec: "recorded org_row name meta row e (committed w) d" if "recorded org_row name meta row e (committed ?w0) d" for d
    using that c unfolding recorded_def catalog_def by (metis prod.inject)
  from record_body_cases [OF b(1)] show ?thesis
    using b(2) c rec by (auto simp: rollback_txn_def pending_def)
qed

lemma recorded_version_kept: "recorded org_row name meta row e d d' \<Longrightarrow> \<exists>j k. version_kept (row j k) d'"
proof -
  assume "recorded org_row name meta row e d d'"
  then obtain j k d1 where "apply_write (InsertVersion (row j k)) d1 = Inr d'"
    unfolding recorded_def by (auto simp: bind_r_Inr_iff)
  then have "version_kept (row j k) d'" by (auto simp: apply_insert_iff version_kept_def)
  then show ?thesis by blast
qed

subsection \<open>All or nothing\<close>

text \<open>The rows after an upsert: those of other names, and one of the name published.\<close>

lemma upsert_rows:
  assumes up: "upsert_row c ps0 = Inr ps" and keyed: "keyed package_clash ps0"
    and pkg: "pkg \<in> set ps" "same_package_key c pkg"
  shows "(\<forall>p\<in>set ps0. same_package_key c p \<or> p \<in> set ps)
    \<and> p_index_sequence pkg = (case List.find (same_package_key c) ps0 of None \<Rightarrow> p_index_sequence c | Some p \<Rightarrow> p_index_sequence p)"
proof (cases "list_ex (same_package_key c) ps0")
  case True
  then have ps: "ps = map (\<lambda>old. if same_package_key c old then refresh_package c old else old) ps0"
    using up by (simp add: upsert_row_def)
  have "same_package_key c (refresh_package c p) = same_package_key c p" for p
    by (simp add: same_package_key_def refresh_package_def)
  then obtain p0 where p0: "p0 \<in> set ps0" "same_package_key c p0" "pkg = refresh_package c p0"
    using pkg ps by auto
  have "List.find (same_package_key c) ps0 = Some p0"
    using p0 by (intro package_table.keyed_find [OF keyed]) (auto simp: same_package_key_def package_clash_def)
  then show ?thesis using ps p0 by (auto simp: refresh_package_def)
next
  case False
  then have n: "List.find (same_package_key c) ps0 = None" "\<forall>p\<in>set ps0. \<not> same_package_key c p"
    by (auto simp: list_ex_iff find_None_iff)
  then have "ps = ps0 @ [c]" using up False by (auto simp: upsert_row_def insert_row_Inr_iff)
  then show ?thesis using n pkg by auto
qed

definition published ::
  "org_row \<Rightarrow> string \<Rightarrow> db \<Rightarrow> db \<Rightarrow> package_row \<Rightarrow> version_row \<Rightarrow> bool" where
  "published org_row name d d' pkg v \<longleftrightarrow>
     versions d' = versions d @ [v] \<and> v_package_id v = p_id pkg
     \<and> pkg \<in> set (packages d') \<and> p_org_id pkg = o_id org_row \<and> p_name pkg = name
     \<and> p_index_sequence pkg = next_sequence (case package_by_name (o_id org_row) name d of
          None \<Rightarrow> 1 | Some p \<Rightarrow> p_index_sequence p)
     \<and> (\<forall>p\<in>set (packages d). p_org_id p = o_id org_row \<and> p_name p = name \<or> p \<in> set (packages d'))"

lemma recorded_published:
  assumes rec: "recorded org_row name meta row e d d'" and "undisturbed e" and keyed: "keyed package_clash (packages d)"
    and row: "\<And>j k. v_package_id (row j k) = k"
  shows "\<exists>pkg j. published org_row name d d' pkg (row j (p_id pkg))"
proof -
  obtain i now pkg j d0 ps where pkg: "p_org_id pkg = o_id org_row" "p_name pkg = name"
    and app: "apply_all [UpsertPackage (package_candidate org_row name meta i now),
         SetPackageSequence (p_id pkg) (next_sequence (p_index_sequence pkg)), InsertVersion (row j (p_id pkg))] d0 = Inr d'"
    and d0: "catalog d0 = catalog d"
    and ps: "upsert_row (package_candidate org_row name meta i now) (packages d) = Inr ps" "pkg \<in> set ps"
    using rec assms(2) unfolding recorded_def by blast
  let ?c = "package_candidate org_row name meta i now" and ?n = "next_sequence (p_index_sequence pkg)"
  let ?pkg = "pkg\<lparr>p_index_sequence := ?n\<rparr>"
  have c: "same_package_key ?c = (\<lambda>p. p_org_id p = o_id org_row \<and> p_name p = name)" "p_index_sequence ?c = 1"
    by (auto simp: same_package_key_def package_candidate_def Let_def)
  from keyed have keyed': "keyed package_clash ps" using keyed_upsert ps(1) by blast
  have d': "packages d' = map (\<lambda>p. if p_id p = p_id pkg then p\<lparr>p_index_sequence := ?n\<rparr> else p) ps"
      "versions d' = versions d @ [row j (p_id pkg)]"
    using app d0 ps(1) by (auto simp: catalog_def bind_r_Inr_iff apply_upsert_iff apply_update_iff apply_insert_iff)
  note rows = upsert_rows [OF ps(1) keyed ps(2), unfolded c]
  have "p \<in> set (packages d')" if "p \<in> set (packages d)" "\<not> (p_org_id p = o_id org_row \<and> p_name p = name)" for p
  proof -
    have "p \<in> set ps" using rows pkg that by auto
    moreover from this have "p_id p \<noteq> p_id pkg"
      using package_table.keyed_unique [OF keyed' _ ps(2)] that(2) pkg by (auto simp: package_clash_def)
    ultimately show ?thesis using d'(1) by force
  qed
  moreover have "?pkg \<in> set (packages d')" using d'(1) ps(2) by force
  moreover have "p_index_sequence pkg = (case package_by_name (o_id org_row) name d of None \<Rightarrow> 1 | Some p \<Rightarrow> p_index_sequence p)"
    using rows pkg by (simp add: package_by_name_def)
  ultimately have "published org_row name d d' ?pkg (row j (p_id ?pkg))"
    using d' pkg row by (auto simp: published_def)
  then show ?thesis by blast
qed

lemma settle_rejection_fails: "isl (fst (settle_rejection x st org_row org_slug name ver meta sha len key agent err pkg e w))"
  by (auto simp: settle_rejection_def bind_a_def split: prod.split sum.split)

lemma settle_rejection_still:
  "keeps undisturbed (catalog_is C) (settle_rejection x st org_row org_slug name ver meta sha len key agent err pkg)"
  unfolding settle_rejection_def by (intro keep_rules)

text \<open>Recording: nothing happened, or the publication is there and only its acknowledgement is open.\<close>

lemma record_publication_cases:
  assumes run: "record_publication x st org_row org_slug name ver meta sha len key agent row e w = (r, w')"
    and e: "undisturbed e" "catalog_is C e w" and ok: "keyed package_clash (packages (committed w))"
    and row: "\<And>j k. v_package_id (row j k) = k"
  shows "isl r \<and> catalog_is C e w'
    \<or> list_all touches_log (pending w') \<and> (\<exists>pkg j. published org_row name (committed w) (committed w') pkg (row j (p_id pkg)))"
proof -
  obtain q w1 where rv: "record_version org_row name meta row e w = (q, w1)" by fastforce
  have run1: "(case q of Inr _ \<Rightarrow> ret () | Inl (Failed err) \<Rightarrow> throw err
      | Inl (Rejected err pkg) \<Rightarrow> settle_rejection x st org_row org_slug name ver meta sha len key agent err pkg) e w1 = (r, w')"
    using run rv by (simp add: record_publication_def attempt_bind)
  from record_version_cases [OF rv] show ?thesis
  proof (elim disjE conjE)
    assume q: "isl q" and c: "undisturbed e \<longrightarrow> catalog (committed w1) = catalog (committed w)" "pending w1 \<in> {[], pending w}"
    then have c1: "catalog_is C e w1" using e by (auto simp: catalog_is_def)
    obtain f where f: "q = Inl f" using q by (cases q) auto
    show ?thesis
    proof (cases f)
      case (Failed err)
      then show ?thesis using run1 f c1 by (auto simp: throw_def)
    next
      case (Rejected err pkg)
      then have "settle_rejection x st org_row org_slug name ver meta sha len key agent err pkg e w1 = (r, w')"
        using run1 f by simp
      then have "isl r" "catalog_is C e w'"
        using settle_rejection_fails [of x st org_row org_slug name ver meta sha len key agent err pkg e w1]
          keepsD [OF settle_rejection_still e(1) c1] by auto
      then show ?thesis by blast
    qed
  next
    assume rec: "recorded org_row name meta row e (committed w) (committed w1)" and t: "txn w1 = None"
    from recorded_published [OF rec e(1) ok row] obtain pkg j where
      pub: "published org_row name (committed w) (committed w1) pkg (row j (p_id pkg))" by blast
    have c1: "catalog_is (catalog (committed w1)) e w1" using t by (simp add: catalog_is_def pending_def)
    have "catalog_is (catalog (committed w1)) e w'"
    proof (cases q)
      case (Inl f)
      show ?thesis
      proof (cases f)
        case (Failed err)
        then show ?thesis using run1 Inl c1 by simp
      next
        case (Rejected err pkg)
        then have "settle_rejection x st org_row org_slug name ver meta sha len key agent err pkg e w1 = (r, w')"
          using run1 Inl by simp
        then show ?thesis using keepsD [OF settle_rejection_still e(1) c1] by blast
      qed
    next
      case (Inr u)
      then show ?thesis using run1 c1 by simp
    qed
    moreover have "published org_row name (committed w) d' pkg v"
      if "published org_row name (committed w) d pkg v" "catalog d' = catalog d" for d d' v
      using that by (simp add: published_def catalog_def)
    ultimately show ?thesis using pub unfolding catalog_is_def by blast
  qed
qed

text \<open>
  A program concludes when it fails with the catalogue as it was, or leaves one that satisfies
  \<open>Pub\<close>, a property of the catalogue alone.
\<close>

definition concludes ::
  "catalog \<Rightarrow> (catalog \<Rightarrow> bool) \<Rightarrow> env \<Rightarrow> ('e, 'a) act \<Rightarrow> bool" where
  "concludes C Pub e m \<longleftrightarrow>
     (\<forall>w. catalog_is C e w \<longrightarrow>
        isl (fst (m e w)) \<and> catalog_is C e (snd (m e w)) \<or> Pub (catalog (committed (snd (m e w)))))"

lemma concludes_step:
  assumes "keeps undisturbed (catalog_is C) m" "undisturbed e"
    "\<And>a w w'. catalog_is C e w \<Longrightarrow> m e w = (Inr a, w') \<Longrightarrow> concludes C Pub e (f a)"
  shows "concludes C Pub e (bind_a m f)"
  unfolding concludes_def
proof (intro allI impI)
  fix w
  assume w: "catalog_is C e w"
  then have "catalog_is C e (snd (m e w))" using keeps_snd [OF assms(1,2)] by blast
  then show "isl (fst (bind_a m f e w)) \<and> catalog_is C e (snd (bind_a m f e w))
      \<or> Pub (catalog (committed (snd (bind_a m f e w))))"
    using assms(3) [OF w] unfolding concludes_def by (cases "m e w"; cases "fst (m e w)") (simp_all add: bind_a_def)
qed

lemma concludes_mono: "concludes C Pub e m \<Longrightarrow> (\<And>C'. Pub C' \<Longrightarrow> Pub' C') \<Longrightarrow> concludes C Pub' e m"
  unfolding concludes_def by blast

lemma concludes_lift: "(\<And>a. r = Inr a \<Longrightarrow> concludes C Pub e (f a)) \<Longrightarrow> concludes C Pub e (bind_a (lift r) f)"
  by (cases r) (auto simp: concludes_def bind_a_def)

lemma concludes_record:
  assumes e: "undisturbed e" and ok: "keyed package_clash (packages d)" and row: "\<And>j k. v_package_id (row j k) = k"
    and rest: "\<And>C. keeps undisturbed (catalog_is C) rest"
    and pub: "\<And>d' pkg j. published org_row name d d' pkg (row j (p_id pkg)) \<Longrightarrow> Pub (catalog d')"
  shows "concludes (catalog d) Pub e
    (bind_a (record_publication x st org_row org_slug name ver meta sha len key agent row) (\<lambda>_. rest))"
  unfolding concludes_def
proof (intro allI impI)
  let ?rp = "record_publication x st org_row org_slug name ver meta sha len key agent row"
  fix w
  assume c: "catalog_is (catalog d) e w"
  then have d: "packages (committed w) = packages d" "versions (committed w) = versions d"
    by (simp_all add: catalog_is_def catalog_def)
  obtain q w1 where run: "?rp e w = (q, w1)" by fastforce
  from record_publication_cases [OF run e c ok [folded d(1)] row]
  show "isl (fst (bind_a ?rp (\<lambda>_. rest) e w)) \<and> catalog_is (catalog d) e (snd (bind_a ?rp (\<lambda>_. rest) e w))
      \<or> Pub (catalog (committed (snd (bind_a ?rp (\<lambda>_. rest) e w))))"
  proof (elim disjE conjE exE)
    assume "isl q" "catalog_is (catalog d) e w1"
    then show ?thesis using run by (cases q) (auto simp: bind_a_def)
  next
    fix pkg j
    assume t: "list_all touches_log (pending w1)"
      and "published org_row name (committed w) (committed w1) pkg (row j (p_id pkg))"
    then have "published org_row name d (committed w1) pkg (row j (p_id pkg))"
      using d by (simp add: published_def package_by_name_def)
    then have p: "Pub (catalog (committed w1))" by (rule pub)
    have "catalog_is (catalog (committed w1)) e (snd (rest e w1))"
      using keeps_snd [OF rest e] t by (simp add: catalog_is_def)
    then have "catalog (committed (snd (bind_a ?rp (\<lambda>_. rest) e w))) = catalog (committed w1)"
      using run by (cases q) (simp_all add: bind_a_def catalog_is_def)
    then show ?thesis using p by simp
  qed
qed

text \<open>What the catalogue shows of a publication.\<close>

definition shows_publication ::
  "('x publish_ext_scheme) \<Rightarrow> org_row \<Rightarrow> string \<Rightarrow> string \<Rightarrow> publish_meta \<Rightarrow> string \<Rightarrow> db
   \<Rightarrow> catalog \<Rightarrow> bool" where
  "shows_publication x org_row name ver meta artifact d C' \<longleftrightarrow>
     (\<exists>pkg v d'. C' = catalog d' \<and> published org_row name d d' pkg v \<and> v_version v = ver
        \<and> v_sha256 v = sha256_hex x artifact \<and> v_size v = as_i64 (length artifact)
        \<and> v_artifact_key v = artifact_key (v_sha256 v) (format_extension x (pm_format meta))
        \<and> v_vcs_tag v = pm_vcs_tag meta \<and> v_vcs_commit v = pm_vcs_commit meta \<and> \<not> v_yanked v)"

lemma publish_org_row:
  assumes "publish_org slug e w = (Inr org_row, w')" "undisturbed e" "catalog_is (catalog d) e w"
  shows "org_row \<in> set (orgs d) \<and> o_slug org_row = slug"
proof -
  have "catalog (view (settle e w)) = catalog d" by (rule catalog_view [OF still.keep_settle [OF assms(2,3)]])
  then show ?thesis
    using assms(1) by (auto simp: publish_org_def bind_a_Inr_iff query_Inr_iff org_by_slug_def catalog_def dest: find_Some_iff')
qed

lemma check_upload_facts:
  "check_upload x st org_slug name ver meta artifact = Inr sha \<Longrightarrow>
     manifest_validate x (pm_manifest meta) = Inr () \<and> names_version (mf_package (pm_manifest meta)) org_slug name ver
     \<and> pm_sha256 meta = sha256_hex x artifact"
  by (auto simp: check_upload_def Let_def bind_r_Inr_iff)

lemma concludes_tail:
  assumes "undisturbed e" "keyed package_clash (packages d)" "sha = sha256_hex x artifact"
  shows "concludes (catalog d) (shows_publication x org_row name ver meta artifact d) e
    (store_and_record x st token org_row org_slug name ver meta artifact sha agent at mirrors signatures)"
  unfolding store_and_record_def Let_def
proof (intro concludes_record concludes_step keep_rules assms(1,2))
  fix d' pkg j
  assume "published org_row name d d' pkg (version_candidate x j (p_id pkg) ver meta sha (as_i64 (length artifact))
      (artifact_key sha (format_extension x (pm_format meta))) at mirrors signatures)"
  then show "shows_publication x org_row name ver meta artifact d (catalog d')"
    unfolding shows_publication_def assms(3) by (intro exI conjI) (auto simp: version_candidate_def)
qed (simp add: version_candidate_def)

lemma concludes_checked:
  assumes "undisturbed e" "keyed package_clash (packages d)"
    and pub: "\<And>sha C'. check_upload x st org_slug name ver meta artifact = Inr sha \<Longrightarrow>
      shows_publication x org_row name ver meta artifact d C' \<Longrightarrow> Pub C'"
  shows "concludes (catalog d) Pub e (publish_checked x st token org_row org_slug name ver meta artifact agent)"
  unfolding publish_checked_def
proof (rule concludes_lift)
  fix sha
  assume sha: "check_upload x st org_slug name ver meta artifact = Inr sha"
  show "concludes (catalog d) Pub e (bind_a (check_tag st meta) (\<lambda>_.
       bind_a (publication_time x meta) (\<lambda>published_at.
       bind_a (check_signatures x (o_id org_row) meta
         (attestation x org_slug name ver meta sha (as_i64 (length artifact)) published_at)) (\<lambda>_.
       bind_a (lift (map_error
         (\<lambda>error. bad_request ''invalid_mirrors'' (''mirror set is not encodable: '' @ error))
         (mirrors_to_json x (pm_mirrors meta)))) (\<lambda>mirrors.
       bind_a (lift (map_error
         (\<lambda>error. bad_request ''invalid_signature'' (''signature set is not encodable: '' @ error))
         (signatures_to_json x (pm_signatures meta)))) (\<lambda>signatures.
       bind_a (check_existing x st org_row org_slug name ver meta sha (as_i64 (length artifact))
         (artifact_key sha (format_extension x (pm_format meta))) agent) (\<lambda>_.
         store_and_record x st token org_row org_slug name ver meta artifact sha agent published_at mirrors signatures)))))))"
    by (intro concludes_step keep_rules concludes_mono [OF concludes_tail pub [OF sha]]
        check_upload_sha [OF sha] assms(1,2))
qed

text \<open>What the checks of an authenticated request establish.\<close>

definition admitted ::
  "('x publish_ext_scheme) \<Rightarrow> token_row \<Rightarrow> string \<Rightarrow> string \<Rightarrow> string \<Rightarrow> (string + part) list \<Rightarrow> db
   \<Rightarrow> org_row \<Rightarrow> publish_meta \<Rightarrow> string \<Rightarrow> bool" where
  "admitted x token org_slug name ver parts d org_row meta artifact \<longleftrightarrow>
     org_row \<in> set (orgs d) \<and> o_slug org_row = org_slug
     \<and> authorize_publish (t_org_id token) (parse (t_role token)) (o_id org_row) = Inr ()
     \<and> read_multipart x parts = Inr (meta, artifact) \<and> manifest_validate x (pm_manifest meta) = Inr ()
     \<and> names_version (mf_package (pm_manifest meta)) org_slug name ver \<and> pm_sha256 meta = sha256_hex x artifact"

lemma concludes_authorised:
  assumes "undisturbed e" "keyed package_clash (packages d)"
  shows "concludes (catalog d)
    (\<lambda>C'. \<exists>org_row meta artifact. admitted x token org_slug name ver parts d org_row meta artifact
      \<and> shows_publication x org_row name ver meta artifact d C') e
    (bind_a (publish_org org_slug) (\<lambda>org_row.
       bind_a (lift (authorize_publish (t_org_id token) (parse (t_role token)) (o_id org_row))) (\<lambda>_.
       bind_a (lift (read_multipart x parts)) (\<lambda>(meta, artifact).
         publish_checked x st token org_row org_slug name ver meta artifact agent))))"
proof (intro concludes_lift concludes_step still.keeps_checks assms(1))
  fix org_row wa wb u p
  assume wa: "catalog_is (catalog d) e wa" and org: "publish_org org_slug e wa = (Inr org_row, wb)"
    and auth: "authorize_publish (t_org_id token) (parse (t_role token)) (o_id org_row) = Inr u"
    and p: "read_multipart x parts = Inr p"
  obtain meta artifact where ma: "p = (meta, artifact)" by fastforce
  show "concludes (catalog d) (\<lambda>C'. \<exists>org_row meta artifact. admitted x token org_slug name ver parts d org_row meta artifact
      \<and> shows_publication x org_row name ver meta artifact d C') e
    (case p of (meta, artifact) \<Rightarrow> publish_checked x st token org_row org_slug name ver meta artifact agent)"
    unfolding ma prod.case
  proof (rule concludes_checked [OF assms])
    fix sha C'
    assume up: "check_upload x st org_slug name ver meta artifact = Inr sha"
      and "shows_publication x org_row name ver meta artifact d C'"
    then show "\<exists>org_row meta artifact. admitted x token org_slug name ver parts d org_row meta artifact
        \<and> shows_publication x org_row name ver meta artifact d C'"
      using publish_org_row [OF org assms(1) wa] auth p ma check_upload_facts [OF up]
      by (intro exI [of _ org_row] exI [of _ meta] exI [of _ artifact]) (simp add: admitted_def)
  qed
qed

text \<open>C2. A publish request is all or nothing, and only an authorised one is anything: while no other
  session changes organisations, packages or versions, the catalogue after the request is the one before it and the
  request failed, or it is the one before plus exactly one version. In the second case the token was
  live and may publish to the organisation of the URL, the upload's manifest is valid and names that
  organisation, package and version, the version records the digest and size of the uploaded bytes
  under their content-addressed key, its package carries the next index sequence, and every row of
  another package is untouched. This holds for every pattern of outages.\<close>

theorem publish_is_all_or_nothing:
  assumes "undisturbed e" and "schema_ok (committed w)" and "txn w = None"
    and run: "publish x st org_slug name ver headers parts e w = (r, w')"
  shows "isl r \<and> packages (committed w') = packages (committed w) \<and> versions (committed w') = versions (committed w)
    \<or> (\<exists>token org_row meta artifact pkg v.
        fst (require_token x headers e w) = Inr token \<and> org_row \<in> set (orgs (committed w)) \<and> o_slug org_row = org_slug
        \<and> authorize_publish (t_org_id token) (parse (t_role token)) (o_id org_row) = Inr ()
        \<and> read_multipart x parts = Inr (meta, artifact) \<and> manifest_validate x (pm_manifest meta) = Inr ()
        \<and> names_version (mf_package (pm_manifest meta)) org_slug name ver \<and> pm_sha256 meta = sha256_hex x artifact
        \<and> published org_row name (committed w) (committed w') pkg v \<and> v_version v = ver
        \<and> v_sha256 v = sha256_hex x artifact \<and> v_size v = as_i64 (length artifact)
        \<and> v_artifact_key v = artifact_key (v_sha256 v) (format_extension x (pm_format meta)) \<and> \<not> v_yanked v)"
    (is "?nothing \<or> ?all")
proof (rule ccontr)
  assume no: "\<not> (?nothing \<or> ?all)"
  let ?d = "committed w"
  have c0: "catalog_is (catalog ?d) e w" using assms(3) by (simp add: catalog_is_def pending_def)
  have keyed: "keyed package_clash (packages ?d)" using assms(2) by (simp add: schema_ok_def)
  obtain q w1 where tok: "require_token x headers e w = (q, w1)" by fastforce
  have c1: "catalog_is (catalog ?d) e w1" using keepsD [OF still.keeps_checks(1) assms(1) c0 tok] .
  show False
  proof (cases q)
    case (Inl err)
    then have "r = Inl err" "w' = w1" using run tok by (simp_all add: publish_def bind_a_def)
    then have ?nothing using c1 by (simp add: catalog_is_def catalog_def)
    then show False using no by blast
  next
    case (Inr token)
    let ?pub = "\<lambda>C'. \<exists>org_row meta artifact. admitted x token org_slug name ver parts ?d org_row meta artifact
      \<and> shows_publication x org_row name ver meta artifact ?d C'"
    let ?rest = "bind_a (publish_org org_slug) (\<lambda>org_row.
       bind_a (lift (authorize_publish (t_org_id token) (parse (t_role token)) (o_id org_row))) (\<lambda>_.
       bind_a (lift (read_multipart x parts)) (\<lambda>(meta, artifact).
         publish_checked x st token org_row org_slug name ver meta artifact (user_agent_of headers))))"
    have "concludes (catalog ?d) ?pub e ?rest" by (rule concludes_authorised [OF assms(1) keyed])
    moreover have "?rest e w1 = (r, w')" using run tok Inr by (simp add: publish_def bind_a_run)
    ultimately have "isl r \<and> catalog_is (catalog ?d) e w' \<or> ?pub (catalog (committed w'))"
      using c1 unfolding concludes_def by fastforce
    moreover have "isl r \<and> catalog_is (catalog ?d) e w' \<longrightarrow> ?nothing" by (simp add: catalog_is_def catalog_def)
    ultimately have "?pub (catalog (committed w'))" using no by blast
    then have ?all using tok Inr unfolding admitted_def shows_publication_def published_def catalog_def by fastforce
    then show False using no by blast
  qed
qed

subsection \<open>An example\<close>

definition st_1 :: publish_state where
  "st_1 = \<lparr>ps_postgres = True, ps_store = Memory 1000,
     ps_verifier = \<lparr>tv_policy = Off, tv_github_token = None, tv_forge = (\<lambda>_ _ _. Inl ()), tv_uses_git_tags = (\<lambda>_. True)\<rparr>,
     ps_registry_write = Some (\<lambda>_ _. None), ps_limits = limits_1, ps_zip = zip_1\<rparr>"

definition parts_1 :: "(string + part) list" where
  "parts_1 = [Inr \<lparr>part_name = Some ''meta'', part_text = Inr [], part_bytes = Inr []\<rparr>,
     Inr \<lparr>part_name = Some ''artifact'', part_text = Inr [], part_bytes = Inr zip_bytes_1\<rparr>]"

lemma st_1_sel [simp]:
  "ps_postgres st_1" "ps_store st_1 = Memory 1000" "tv_policy (ps_verifier st_1) = Off"
  "ps_registry_write st_1 = Some (\<lambda>_ _. None)" "ps_limits st_1 = limits_1" "ps_zip st_1 = zip_1"
  by (simp_all add: st_1_def)

lemma meta_1_sel [simp]:
  "pm_manifest meta_1 = manifest_1" "pm_sha256 meta_1 = replicate 64 (CHR ''a'')" "pm_size meta_1 = 131"
  "pm_format meta_1 = ''zip''" "pm_vcs_tag meta_1 = ''v2''" "pm_vcs_commit meta_1 = None" "pm_published_at meta_1 = None"
  "pm_mirrors meta_1 = []" "pm_signatures meta_1 = []"
  by (simp_all add: meta_1_def)

lemma zip_bytes_1_length: "length zip_bytes_1 = 131"
  by (simp add: zip_bytes_1_def fixed_header_fields)

lemma read_1: "read_multipart toy_publish parts_1 = Inr (meta_1, zip_bytes_1)"
  by (simp add: read_multipart_def parts_1_def)

lemma check_1: "check_upload toy_publish st_1 ''acme'' ''kit'' ''2.0.0'' meta_1 zip_bytes_1 = Inr (replicate 64 (CHR ''a''))"
  by (simp add: check_upload_def Let_def verify_1 zip_bytes_1_length names_version_def manifest_1_def)

definition key_a :: string where
  "key_a = artifact_key (replicate 64 (CHR ''a'')) ''zip''"

lemma token_publish_run: "require_token toy_publish hdr_1 calm (start db_3) = (Inr token_1, (start db_3)\<lparr>tick := 2\<rparr>)"
  by (simp add: require_token_def hdr_1_def bearer_example run_simps find_token_by_hash_def hash_token_def token_1_def)

definition world_p :: world where
  "world_p = (start db_3)\<lparr>tick := 6\<rparr>"

lemma checks_1:
  "publish toy_publish st_1 ''acme'' ''kit'' ''2.0.0'' hdr_1 parts_1 calm (start db_3) =
     store_and_record toy_publish st_1 token_1 \<lparr>o_id = 7, o_slug = ''acme'', o_created_at = 0, o_created_by_token = None\<rparr>
       ''acme'' ''kit'' ''2.0.0'' meta_1 zip_bytes_1 (replicate 64 (CHR ''a'')) (user_agent_of hdr_1) 3 (JArray []) (JArray [])
       calm world_p"
proof -
  have auth: "authorize_publish (t_org_id token_1) (parse (t_role token_1)) 7 = Inr ()"
    by (simp add: token_1_def authorize_publish_def parse_def)
  show ?thesis
    by (simp add: publish_def publish_checked_def bind_a_run token_publish_run publish_org_def bind_steps calm_settle
       bind_assoc org_by_slug_def auth read_1 check_1 check_tag_def verify_tag_def publication_time_def check_signatures_def
       check_existing_def find_package_row_def package_by_name_def version_by_name_def ver_1_def world_p_def pkg_1_def
      )
qed


definition org_1 :: org_row where
  "org_1 = \<lparr>o_id = 7, o_slug = ''acme'', o_created_at = 0, o_created_by_token = None\<rparr>"

definition blob_p :: "(string \<times> blob) list" where
  "blob_p = [(key_a, plain_blob zip_bytes_1)]"

lemma put_1: "put_verified toy_publish (Memory 1000) key_a zip_bytes_1 ctype (replicate 64 (CHR ''a'')) calm world_p =
   (Inr (), world_p\<lparr>objects := blob_p, tick := 7\<rparr>)"
  using digest_a
  by (simp add: put_verified_def put_memory_def locked_def calm_store world_p_def look_def checked_add_def
      u64_max_def set_object_def zip_bytes_1_length blob_p_def)

definition pkg_p :: package_row where
  "pkg_p = pkg_1\<lparr>p_tags := JArray [JString ''k''], p_index_sequence := 3\<rparr>"

definition ver_p :: version_row where
  "ver_p = version_candidate toy_publish 113 21 ''2.0.0'' meta_1 (replicate 64 (CHR ''a'')) 131 key_a 3 (JArray []) (JArray [])"

definition world_q :: world where
  "world_q = world_p\<lparr>objects := blob_p, tick := 16, committed := db_3\<lparr>packages := [pkg_p], versions := [ver_1, ver_p]\<rparr>\<rparr>"

lemma world_q_sel: "tick world_q = 16" "adopted world_q = []" "versions (committed world_q) = [ver_1, ver_p]" "txn world_q = None"
  by (simp_all add: world_q_def world_p_def)

lemma record_1:
  "record_version org_1 ''kit'' meta_1 (\<lambda>i pkg. version_candidate toy_publish i pkg ''2.0.0'' meta_1 (replicate 64 (CHR ''a'')) 131 key_a
       3 (JArray []) (JArray [])) calm (world_p\<lparr>objects := blob_p, tick := 7\<rparr>) = (Inr (), world_q)"
  by (simp add: record_version_def upsert_package_def run_simps world_p_def has_org_def has_package_def org_1_def
      package_candidate_def package_by_name_def same_package_key_def refresh_package_def manifest_1_def keywords_json_def
      pkg_1_def ver_1_def version_candidate_def version_clash_def pkg_p_def ver_p_def next_sequence_def i64_max_def world_q_def)

text \<open>A request that publishes a second version.\<close>

lemma publish_1:
  "\<exists>resp w'. publish toy_publish st_1 ''acme'' ''kit'' ''2.0.0'' hdr_1 parts_1 calm (start db_3) = (Inr resp, w')
     \<and> versions (committed w') = [ver_1, ver_p]"
proof -
  let ?input = "machine_input toy_publish org_1 meta_1 (replicate 64 (CHR ''a'')) 131 key_a (user_agent_of hdr_1) JNull"
  let ?w = "world_q\<lparr>adopted := [?input], tick := 17\<rparr>"
  let ?rec = "record_audit toy_publish True (o_id org_1) token_1 Publish (version_subject ''acme'' ''kit'' ''2.0.0'')
       (Some (''sha256='' @ replicate 64 (CHR ''a'')))"
  obtain w' where rec: "?rec calm ?w = (Inr (), w')" using record_audit_total by blast
  have "as_i64 131 = 131" by (simp add: as_i64_small i64_max_def)
  then have "publish toy_publish st_1 ''acme'' ''kit'' ''2.0.0'' hdr_1 parts_1 calm (start db_3) =
      (Inr \<lparr>pr_org = ''acme'', pr_name = ''kit'', pr_version = ''2.0.0'', pr_sha256 = replicate 64 (CHR ''a'')\<rparr>, w')"
    using rec
    by (simp add: checks_1 store_and_record_def Let_def zip_bytes_1_length bind_a_def put_1 record_1 attempt_def map_err_def
        put_public_aliases_def record_publication_def adopt_canonical_publish_def adopt_machine_publish_def
        key_a_def [symmetric] org_1_def [symmetric] world_q_sel)
  moreover have "catalog_is (catalog (committed ?w)) calm w'"
    by (rule keepsD [OF still_record_audit _ _ rec])
       (simp_all add: undisturbed_def catalog_is_def pending_def world_q_sel)
  then have "versions (committed w') = [ver_1, ver_p]"
    by (simp add: catalog_is_def catalog_def world_q_sel)
  ultimately show ?thesis by blast
qed

theorem publish_is_all_or_nothing_witness:
  "\<exists>resp w' pkg v. publish toy_publish st_1 ''acme'' ''kit'' ''2.0.0'' hdr_1 parts_1 calm (start db_3) = (Inr resp, w')
     \<and> versions (committed w') = [ver_1, v] \<and> v_version v = ''2.0.0'' \<and> pkg \<in> set (packages (committed w'))
     \<and> p_index_sequence pkg = 3"
proof -
  obtain resp w' where run: "publish toy_publish st_1 ''acme'' ''kit'' ''2.0.0'' hdr_1 parts_1 calm (start db_3) = (Inr resp, w')"
    using publish_1 by blast
  have ok: "schema_ok (committed (start db_3))"
    by (simp add: schema_ok_def keyed_def db_3_def db_1_def empty_db_def)
  have u: "undisturbed calm" by (simp add: undisturbed_def)
  have n: "next_sequence 2 = 3" by (simp add: next_sequence_def i64_max_def)
  from publish_is_all_or_nothing [OF u ok _ run] obtain org_row pkg v where
    "org_row \<in> set (orgs db_3)" "v_version v = ''2.0.0''" "published org_row ''kit'' db_3 (committed w') pkg v"
    by auto
  then show ?thesis using run n by (auto simp: published_def package_by_name_def)
qed

theorem recorded_versions_have_their_bytes_witness:
  "\<exists>w'. snd (publish toy_publish st_1 ''acme'' ''kit'' ''2.0.0'' hdr_1 parts_1 calm (start db_3)) = w'
     \<and> ver_p \<in> set (versions (committed w')) \<and> row_backed toy_publish (Memory 1000) ver_p w'"
proof -
  let ?p = "publish toy_publish st_1 ''acme'' ''kit'' ''2.0.0'' hdr_1 parts_1 calm (start db_3)"
  have v: "ver_p \<in> set (versions (committed (snd ?p)))" using publish_1 by auto
  have x: "extensions_ok toy_publish" by (simp add: extensions_ok_def ends_with_def starts_with_def)
  have "\<not> foreign calm ver_p" by (simp add: foreign_def)
  moreover have "ver_p \<notin> set (versions (committed (start db_3)))" by (simp add: ver_p_def ver_1_def version_candidate_def)
  ultimately show ?thesis using recorded_versions_have_their_bytes [OF calm_store(1) x _ v] v by auto
qed

end
