(* ===== verification/PublishSuccess.thy ===== *)
theory PublishSuccess
  imports PublishEffect
begin

section \<open>What a successful publish leaves behind\<close>

text \<open>
  The version row, the publication in the canonical data plane and the signature that vouches for
  them, in any environment in which published rows stay. \<open>adopted_is\<close> is the part of the world
  that belongs to the canonical data plane; every step but the adoption leaves it alone.
\<close>

definition adopted_is :: "machine_publish list \<Rightarrow> env \<Rightarrow> world \<Rightarrow> bool" where
  "adopted_is as e w \<longleftrightarrow> adopted w = as"

interpretation same_plane: store_invariant "\<lambda>_. True" "adopted_is as" for as
  by unfold_locales (simp_all add: adopted_is_def rollback_txn_def store_settle_def)

lemma same_plane_execute [keep_rules]: "keeps (\<lambda>_. True) (adopted_is as) (execute wr)"
  by (rule same_plane.keeps_execute) (simp add: adopted_is_def store_write_def split: option.split)

lemma same_plane_steps [keep_rules]:
  "keeps (\<lambda>_. True) (adopted_is as) (require_token x headers)" "keeps (\<lambda>_. True) (adopted_is as) (publish_org slug)"
  "keeps (\<lambda>_. True) (adopted_is as) (publication_time x' meta)" "keeps (\<lambda>_. True) (adopted_is as) (check_signatures x' org meta att)"
  "keeps (\<lambda>_. True) (adopted_is as) (record_version org_row name meta row)"
  unfolding require_token_def publish_org_def publication_time_def check_signatures_def load_keys_def
    record_version_def upsert_package_def
  by (intro keep_rules)+

lemma same_plane_tag [keep_rules]: "keeps (\<lambda>_. True) (adopted_is as) (check_tag st meta)"
proof -
  have "adopted (snd (check_tag st meta e w)) = adopted w" for e w
    using verify_tag_world [of "ps_verifier st" "pg_vcs (mf_package (pm_manifest meta))"
        "pg_repo_url (mf_package (pm_manifest meta))" "pm_vcs_tag meta" e w]
    by (auto simp: check_tag_def Let_def bind_a_def map_err_def split: prod.splits sum.splits tag_check.splits)
  then show ?thesis by (simp add: keeps_def adopted_is_def)
qed

lemma same_plane_put [keep_rules]:
  "keeps (\<lambda>_. True) (adopted_is as) (put_verified x store key bytes ctype sha)"
  "keeps (\<lambda>_. True) (adopted_is as) (put_public_aliases x store keys bytes ctype sha)"
proof -
  show put: "keeps (\<lambda>_. True) (adopted_is as) (put_verified x store key bytes ctype sha)" for key
    by (rule same_plane.keeps_put_verified) (simp_all add: adopted_is_def)
  show "keeps (\<lambda>_. True) (adopted_is as) (put_public_aliases x store keys bytes ctype sha)"
    by (rule same_plane.keeps_put_public_aliases) (rule put)
qed

lemma same_plane_audit [keep_rules]:
  "keeps (\<lambda>_. True) (adopted_is as) (record_audit x pg org token action subject detail)"
  by (intro same_plane.keeps_record_audit same_plane_execute)

lemma adopted_same: "keeps (\<lambda>_. True) (adopted_is (adopted w)) m \<Longrightarrow> m e w = (r, w') \<Longrightarrow> adopted w' = adopted w"
  using keepsD [of "\<lambda>_. True" "adopted_is (adopted w)" m e w r w'] by (simp add: adopted_is_def)

lemma check_existing_success:
  "check_existing x st org_row org_slug name ver meta sha len key agent e w = (Inr u, w') \<Longrightarrow> adopted w' = adopted w"
  by (auto simp: check_existing_def find_package_row_def bind_a_Inr_iff query_Inr_iff split: option.splits if_splits)

lemma record_publication_success:
  "record_publication x st org_row org_slug name ver meta sha len key agent row e w = (Inr u, w') \<Longrightarrow>
     record_version org_row name meta row e w = (Inr (), w')"
proof -
  have "settle_rejection x st org_row org_slug name ver meta sha len key agent err pkg e w1 \<noteq> (Inr u, w')" for err pkg w1
    using settle_rejection_fails [of x st org_row org_slug name ver meta sha len key agent err pkg e w1] by auto
  then show "record_publication x st org_row org_slug name ver meta sha len key agent row e w = (Inr u, w') \<Longrightarrow> ?thesis"
    by (auto simp: record_publication_def attempt_bind split: prod.splits sum.splits record_failure.splits)
qed

lemma adopt_success:
  "adopt_canonical_publish x st org_row meta sha len key agent e w = (Inr u, w') \<Longrightarrow>
     \<exists>j. manifest_to_json x (pm_manifest meta) = Inr j
       \<and> w' = w\<lparr>adopted := adopted w @ [machine_input x org_row meta sha len key agent j], tick := Suc (tick w)\<rparr>"
  by (auto simp: adopt_canonical_publish_def adopt_machine_publish_def bind_a_Inr_iff split: option.splits)


text \<open>The part of a publish that runs before the enrolled keys are read; its result is the publication time.\<close>

definition before_signatures ::
  "('x publish_ext_scheme) \<Rightarrow> publish_state \<Rightarrow> string \<Rightarrow> headers \<Rightarrow> publish_meta \<Rightarrow> int handler" where
  "before_signatures x st org_slug headers meta =
     bind_a (require_token x headers) (\<lambda>_. bind_a (publish_org org_slug) (\<lambda>_.
     bind_a (check_tag st meta) (\<lambda>_. publication_time x meta)))"

text \<open>The signature check: nothing to check, or a row that is enrolled for the organisation vouches for the
  attestation.\<close>

lemma check_signatures_vouched:
  assumes "check_signatures x org_id meta att e w = (Inr u, w')" "pm_signatures meta \<noteq> []"
  shows "\<exists>preimage. version_preimage x att = Inr preimage
    \<and> (\<exists>key\<in>set (publisher_keys (view (settle e w))). k_org_id key = org_id
         \<and> vouched_by x preimage (pm_signatures meta) key)"
proof -
  obtain preimage keys w1 key where
    "version_preimage x att = Inr preimage" "load_keys x org_id e w = (Inr keys, w1)"
    "verify_any x preimage (pm_signatures meta) keys = Inr key"
    using assms by (auto simp: check_signatures_def bind_a_Inr_iff split: if_splits)
  with verify_any_row show ?thesis by blast
qed

lemma store_and_record_success:
  assumes run: "store_and_record x st token org_row org_slug name ver meta artifact sha agent at mirrors signatures e w = (Inr resp, w')"
    and "frozen_rely e"
  shows "\<exists>v manifest_json. frozen v e w' \<and> v_version v = ver \<and> v_sha256 v = sha \<and> v_size v = as_i64 (length artifact)
    \<and> v_artifact_key v = artifact_key sha (format_extension x (pm_format meta))
    \<and> v_vcs_tag v = pm_vcs_tag meta \<and> v_vcs_commit v = pm_vcs_commit meta \<and> v_published_at v = at
    \<and> manifest_to_json x (pm_manifest meta) = Inr manifest_json
    \<and> adopted w' = adopted w @ [machine_input x org_row meta sha (as_i64 (length artifact)) (v_artifact_key v) agent manifest_json]
    \<and> resp = \<lparr>pr_org = org_slug, pr_name = name, pr_version = ver, pr_sha256 = sha\<rparr>"
proof -
  let ?len = "as_i64 (length artifact)" and ?key = "artifact_key sha (format_extension x (pm_format meta))"
  let ?row = "\<lambda>i pkg. version_candidate x i pkg ver meta sha ?len ?key at mirrors signatures"
  obtain u1 w1 u2 w2 u3 w3 u4 w4 u5 where
    put: "put_verified x (ps_store st) ?key artifact (format_content_type x (pm_format meta)) sha e w = (Inr u1, w1)"
    and ali: "attempt (put_public_aliases x (ps_store st)
       (guessable_alias_keys org_slug name ver (pm_vcs_tag meta) (format_extension x (pm_format meta))
          (pg_repo_url (mf_package (pm_manifest meta)))) artifact (format_content_type x (pm_format meta)) sha) e w1
       = (Inr u2 :: api_err + (store_err + unit), w2)"
    and rec: "record_publication x st org_row org_slug name ver meta sha ?len ?key agent ?row e w2 = (Inr u3, w3)"
    and ado: "adopt_canonical_publish x st org_row meta sha ?len ?key agent e w3 = (Inr u4, w4)"
    and aud: "record_audit x (ps_postgres st) (o_id org_row) token Publish (version_subject org_slug name ver)
       (Some (''sha256='' @ sha)) e w4 = (Inr u5, w')"
    and resp: "resp = \<lparr>pr_org = org_slug, pr_name = name, pr_version = ver, pr_sha256 = sha\<rparr>"
    using run unfolding store_and_record_def Let_def by (simp only: bind_a_Inr_iff map_err_Inr_iff ret_run prod.inject sum.inject) blast
  note rv = record_publication_success [OF rec]
  have "recorded org_row name meta ?row e (committed w2) (committed w3)" using record_version_cases [OF rv] by simp
  then obtain j k where "version_kept (?row j k) (committed w3)" using recorded_version_kept by blast
  moreover obtain m where m: "manifest_to_json x (pm_manifest meta) = Inr m"
      "w4 = w3\<lparr>adopted := adopted w3 @ [machine_input x org_row meta sha ?len ?key agent m], tick := Suc (tick w3)\<rparr>"
    using adopt_success [OF ado] by blast
  ultimately have "frozen (?row j k) e w'"
    using keepsD [OF immutable_record_audit assms(2) _ aud] by (simp add: frozen_iff)
  moreover have "adopted w' = adopted w @ [machine_input x org_row meta sha ?len ?key agent m]"
    using adopted_same [OF same_plane_put(1) put] adopted_same [OF keeps_attempt [OF same_plane_put(2)] ali]
      adopted_same [OF same_plane_steps(5) rv] adopted_same [OF same_plane_audit aud] m(2) by simp
  ultimately show ?thesis
    using m(1) resp by (intro exI [of _ "?row j k"] exI [of _ m]) (simp add: version_candidate_def)
qed

text \<open>C6. What a successful publish leaves behind, in any environment in which published rows stay: a
  version row with the digest, the size, the content-addressed key, the tag and the commit of the
  upload, and in the canonical data plane exactly one new publication, which names the organisation,
  package and version of the URL and agrees with the row on digest, size, key, tag and commit. The
  organisation is the row with the slug of the URL in the organisation table as the request read it, and the
  token of the request may publish to it. An upload that carries signatures is vouched for: the key
  table, as the request read it after the tag check, has a row of this organisation in a state
  that may verify, under which one of the signatures passes the strict check over the attestation of
  exactly these facts. The response repeats the digest of the bytes received.\<close>

theorem success_is_recorded_and_mirrored:
  assumes run: "publish x st org_slug name ver headers parts e w = (Inr resp, w')" and "frozen_rely e"
  shows "\<exists>token meta artifact (org_row :: org_row) v input. read_multipart x parts = Inr (meta, artifact)
    \<and> fst (require_token x headers e w) = Inr token
    \<and> org_row \<in> set (orgs (read_after (require_token x headers) e w)) \<and> o_slug org_row = org_slug
    \<and> (t_org_id token = None \<or> t_org_id token = Some (o_id org_row) \<and> parse (t_role token) \<in> {Owner, Publisher})
    \<and> frozen v e w' \<and> v_version v = ver \<and> v_sha256 v = sha256_hex x artifact \<and> v_size v = as_i64 (length artifact)
    \<and> v_artifact_key v = artifact_key (sha256_hex x artifact) (format_extension x (pm_format meta))
    \<and> v_vcs_tag v = pm_vcs_tag meta \<and> v_vcs_commit v = pm_vcs_commit meta
    \<and> fst (before_signatures x st org_slug headers meta e w) = Inr (v_published_at v)
    \<and> adopted w' = adopted w @ [input] \<and> mp_org_slug input = org_slug \<and> mp_package_name input = name
    \<and> mp_version input = ver \<and> mp_sha256 input = v_sha256 v \<and> mp_size_bytes input = v_size v
    \<and> mp_artifact_key input = v_artifact_key v \<and> mp_vcs_tag input = Some (v_vcs_tag v)
    \<and> mp_vcs_commit input = v_vcs_commit v \<and> pr_sha256 resp = sha256_hex x artifact
    \<and> (pm_signatures meta \<noteq> [] \<longrightarrow> (\<exists>preimage.
         version_preimage x (attestation x org_slug name ver meta (v_sha256 v) (v_size v) (v_published_at v)) = Inr preimage
         \<and> (\<exists>key\<in>set (publisher_keys (read_after (before_signatures x st org_slug headers meta) e w)).
              k_org_id key = o_id org_row \<and> vouched_by x preimage (pm_signatures meta) key)))"
proof -
  obtain token w1 org_row w2 meta artifact where
    tok: "require_token x headers e w = (Inr token, w1)" and org: "publish_org org_slug e w1 = (Inr org_row, w2)"
    and auth: "authorize_publish (t_org_id token) (parse (t_role token)) (o_id org_row) = Inr ()"
    and parts: "read_multipart x parts = Inr (meta, artifact)"
    and checked: "publish_checked x st token org_row org_slug name ver meta artifact (user_agent_of headers) e w2 = (Inr resp, w')"
    using run by (auto simp: publish_def bind_a_Inr_iff)
  let ?len = "as_i64 (length artifact)"
  obtain sha u3 w3 at w4 u5 w5 mirrors signatures u6 w6 where
    up: "check_upload x st org_slug name ver meta artifact = Inr sha"
    and tag: "check_tag st meta e w2 = (Inr u3, w3)" and time: "publication_time x meta e w3 = (Inr at, w4)"
    and sig: "check_signatures x (o_id org_row) meta (attestation x org_slug name ver meta sha ?len at) e w4 = (Inr u5, w5)"
    and ex: "check_existing x st org_row org_slug name ver meta sha ?len
      (artifact_key sha (format_extension x (pm_format meta))) (user_agent_of headers) e w5 = (Inr u6, w6)"
    and tail: "store_and_record x st token org_row org_slug name ver meta artifact sha (user_agent_of headers)
      at mirrors signatures e w6 = (Inr resp, w')"
    using checked by (auto simp: publish_checked_def bind_a_Inr_iff)
  have sha: "sha = sha256_hex x artifact" "names_version (mf_package (pm_manifest meta)) org_slug name ver"
    using check_upload_sha [OF up] check_upload_facts [OF up] by auto
  have "adopted w6 = adopted w"
    using adopted_same [OF same_plane_steps(1) tok] adopted_same [OF same_plane_steps(2) org] adopted_same [OF same_plane_tag tag]
      adopted_same [OF same_plane_steps(3) time] adopted_same [OF same_plane_steps(4) sig] check_existing_success [OF ex] by simp
  moreover have "org_row \<in> set (orgs (read_after (require_token x headers) e w))" "o_slug org_row = org_slug"
    using tok org by (auto simp: read_after_def publish_org_def bind_a_Inr_iff query_Inr_iff org_by_slug_def dest: find_Some_iff')
  moreover have "t_org_id token = None \<or> t_org_id token = Some (o_id org_row) \<and> parse (t_role token) \<in> {Owner, Publisher}"
    using auth by (cases "parse (t_role token)") (auto simp: authorize_publish_def split: option.splits if_splits)
  moreover have "before_signatures x st org_slug headers meta e w = (Inr at, w4)"
    using tok org tag time by (simp add: before_signatures_def bind_a_run)
  moreover obtain v m where "frozen v e w'" "v_version v = ver" "v_sha256 v = sha" "v_size v = ?len"
    "v_artifact_key v = artifact_key sha (format_extension x (pm_format meta))"
    "v_vcs_tag v = pm_vcs_tag meta" "v_vcs_commit v = pm_vcs_commit meta" "v_published_at v = at"
    "adopted w' = adopted w6 @ [machine_input x org_row meta sha ?len (v_artifact_key v) (user_agent_of headers) m]"
    "pr_sha256 resp = sha"
    using store_and_record_success [OF tail assms(2)] by auto
  ultimately show ?thesis
    using parts sha check_signatures_vouched [OF sig] tok
    by (intro exI [of _ token] exI [of _ meta] exI [of _ artifact] exI [of _ org_row] exI [of _ v]
        exI [of _ "machine_input x org_row meta sha ?len (v_artifact_key v) (user_agent_of headers) m"])
       (simp add: machine_input_def Let_def names_version_def read_after_def)
qed

theorem success_is_recorded_and_mirrored_witness:
  "\<exists>resp w' input. publish toy_publish st_1 ''acme'' ''kit'' ''2.0.0'' hdr_1 parts_1 calm (start db_3) = (Inr resp, w')
     \<and> adopted w' = [input] \<and> mp_version input = ''2.0.0''"
proof -
  obtain resp w' where run: "publish toy_publish st_1 ''acme'' ''kit'' ''2.0.0'' hdr_1 parts_1 calm (start db_3) = (Inr resp, w')"
    using publish_1 by blast
  have "frozen_rely calm" by (simp add: frozen_rely_def)
  from success_is_recorded_and_mirrored [OF run this] run show ?thesis by auto
qed

end
