(* ===== verification/Reads.thy ===== *)
theory Reads
  imports BinaryLaws
begin

section \<open>Package reads, listing and search (\<^verbatim>\<open>src/routes/packages.rs\<close>, \<^verbatim>\<open>list.rs\<close>, \<^verbatim>\<open>search.rs\<close>)\<close>

text \<open>
  The anonymous read side of the catalogue. The contract crate's parsers are the fields of
  \<open>read_ext\<close>. Where a query has no \<open>ORDER BY\<close>, or leaves ties, rows come in table order.
  \<open>like\<close> is the \<open>LIKE\<close> operator of PostgreSQL with a backslash as escape character.
\<close>

record read_ext = publish_ext +
  vcs_parse :: "string \<Rightarrow> string"
  scheme_lenient :: "string \<Rightarrow> string"
  artifact_format :: "string \<Rightarrow> string"
  artifact_path :: "string \<Rightarrow> string"
  signatures_from_json :: "json \<Rightarrow> detached_signature list option"

record package_metadata =
  md_org :: string
  md_name :: string
  md_description :: "string option"
  md_vcs :: string
  md_repo_url :: string
  md_version_scheme :: string
  md_latest :: "string option"
  md_tags :: "string list"
  md_versions :: "string list"
  md_mirrors :: "json list"
  md_signing_keys :: "publisher_key list"

record version_metadata =
  vm_org :: string
  vm_name :: string
  vm_version :: string
  vm_sha256 :: string
  vm_size :: nat
  vm_format :: string
  vm_vcs_tag :: string
  vm_vcs_commit :: "string option"
  vm_download_url :: string
  vm_published_at :: string
  vm_yanked :: bool
  vm_mirrors :: "json list"
  vm_signatures :: "detached_signature list"

record package_summary =
  sm_org :: string
  sm_name :: string
  sm_description :: "string option"
  sm_latest :: "string option"
  sm_tags :: "string list"

subsection \<open>One package, one version\<close>

definition version_metadata ::
  "('x read_ext_scheme) \<Rightarrow> app_config \<Rightarrow> string \<Rightarrow> string \<Rightarrow> version_row \<Rightarrow> version_metadata" where
  "version_metadata x cfg org name row =
     \<lparr>vm_org = org, vm_name = name, vm_version = v_version row, vm_sha256 = v_sha256 row,
      vm_size = as_u64 (v_size row), vm_format = artifact_format x (v_format row), vm_vcs_tag = v_vcs_tag row,
      vm_vcs_commit = v_vcs_commit row, vm_download_url = public_base_url cfg @ artifact_path x (v_sha256 row),
      vm_published_at = rfc3339 x (v_published_at row), vm_yanked = v_yanked row,
      vm_mirrors = (case mirrors_from_json x (v_mirrors row) of None \<Rightarrow> [] | Some ms \<Rightarrow> ms),
      vm_signatures = (case signatures_from_json x (v_signatures row) of None \<Rightarrow> [] | Some ss \<Rightarrow> ss)\<rparr>"

definition package_metadata_of ::
  "('x read_ext_scheme) \<Rightarrow> string \<Rightarrow> string \<Rightarrow> package_row \<Rightarrow> version_row list \<Rightarrow> publisher_key list \<Rightarrow> package_metadata" where
  "package_metadata_of x org_slug name pkg rows keys =
     (let shown = visible_versions_desc (sort_desc x) rows
      in \<lparr>md_org = org_slug, md_name = name, md_description = p_description pkg, md_vcs = vcs_parse x (p_vcs pkg),
          md_repo_url = p_repo_url pkg, md_version_scheme = scheme_lenient x (p_version_scheme pkg),
          md_latest = (case shown of [] \<Rightarrow> None | v # _ \<Rightarrow> Some v), md_tags = tags_of pkg, md_versions = shown,
          md_mirrors = latest_mirrors x rows, md_signing_keys = keys\<rparr>)"

definition get_package :: "('x read_ext_scheme) \<Rightarrow> string \<Rightarrow> string \<Rightarrow> package_metadata handler" where
  "get_package x org_slug name =
     bind_a (find_org org_slug) (\<lambda>org_row.
     bind_a (find_package org_row name) (\<lambda>pkg.
     bind_a (sql (query (versions_of (p_id pkg)))) (\<lambda>rows.
     bind_a (attempt (load_keys x (o_id org_row))) (\<lambda>keys.
       ret (package_metadata_of x org_slug name pkg rows (case keys of Inl _ \<Rightarrow> [] | Inr ks \<Rightarrow> ks))))))"

definition get_version ::
  "('x read_ext_scheme) \<Rightarrow> app_config \<Rightarrow> string \<Rightarrow> string \<Rightarrow> string \<Rightarrow> version_metadata handler" where
  "get_version x cfg org_slug name ver =
     bind_a (find_org org_slug) (\<lambda>org_row.
     bind_a (find_package org_row name) (\<lambda>pkg.
     bind_a (find_version pkg ver) (\<lambda>row.
       ret (version_metadata x cfg org_slug name row))))"

subsection \<open>Tags\<close>

definition parse_tag_filter :: "string option \<Rightarrow> string list" where
  "parse_tag_filter raw =
     (case raw of None \<Rightarrow> [] | Some s \<Rightarrow> filter (\<lambda>t. t \<noteq> []) (map trim (split_on (CHR '','') s)))"

definition has_all_tags :: "string list \<Rightarrow> string list \<Rightarrow> bool" where
  "has_all_tags have want \<longleftrightarrow> list_all (\<lambda>w. list_ex (\<lambda>h. h = w) have) want"

subsection \<open>Summaries\<close>

text \<open>\<open>find\_also\_related\<close>: each package with its organisation, if there is one.\<close>

definition with_org :: "db \<Rightarrow> package_row \<Rightarrow> package_row \<times> org_row option" where
  "with_org d pkg = (pkg, List.find (\<lambda>r. o_id r = p_org_id pkg) (orgs d))"

definition package_summary :: "('x read_ext_scheme) \<Rightarrow> package_row \<Rightarrow> org_row \<Rightarrow> version_row list \<Rightarrow> package_summary" where
  "package_summary x pkg org_row rows =
     \<lparr>sm_org = o_slug org_row, sm_name = p_name pkg, sm_description = p_description pkg,
      sm_latest = latest_visible_version (sort_desc x) rows, sm_tags = tags_of pkg\<rparr>"

fun summaries ::
  "('x read_ext_scheme) \<Rightarrow> (package_row \<times> org_row option) list \<Rightarrow> package_summary list handler" where
  "summaries x [] = ret []"
| "summaries x ((pkg, None) # rows) = summaries x rows"
| "summaries x ((pkg, Some org_row) # rows) =
     bind_a (sql (query (versions_of (p_id pkg)))) (\<lambda>found.
     bind_a (summaries x rows) (\<lambda>items.
       ret (package_summary x pkg org_row found # items)))"

subsection \<open>Listing\<close>

record list_params =
  lp_tags :: "string option"
  lp_limit :: nat
  lp_offset :: nat

record package_list =
  pl_items :: "package_summary list"
  pl_total :: nat

definition default_limit :: nat where
  "default_limit = 50"

definition SCAN_CAP :: nat where
  "SCAN_CAP = 2000"

definition newest_first :: "db \<Rightarrow> (package_row \<times> org_row option) list" where
  "newest_first d = map (with_org d) (sort_key (\<lambda>p. - p_created_at p) (packages d))"

definition list_packages :: "('x read_ext_scheme) \<Rightarrow> list_params \<Rightarrow> package_list handler" where
  "list_packages x params =
     (let limit = clamp 1 200 (lp_limit params); want = parse_tag_filter (lp_tags params)
      in if want = [] then
           bind_a (sql (query (\<lambda>d. length (packages d)))) (\<lambda>total.
           bind_a (sql (query (\<lambda>d. take limit (drop (lp_offset params) (newest_first d))))) (\<lambda>rows.
           bind_a (summaries x rows) (\<lambda>items.
             ret \<lparr>pl_items = items, pl_total = total\<rparr>)))
         else
           bind_a (sql (query (\<lambda>d. take SCAN_CAP (newest_first d)))) (\<lambda>rows.
             let matched = filter (\<lambda>(pkg, _). has_all_tags (tags_of pkg) want) rows
             in bind_a (summaries x (take limit (drop (lp_offset params) matched))) (\<lambda>items.
                  ret \<lparr>pl_items = items, pl_total = length matched\<rparr>)))"

subsection \<open>Search\<close>

record search_params =
  sp_q :: string
  sp_tags :: "string option"

record search_response =
  sr_query :: string
  sr_items :: "package_summary list"

text \<open>\<open>str::replace\<close> of one character by a string.\<close>

definition replace_char :: "char \<Rightarrow> string \<Rightarrow> string \<Rightarrow> string" where
  "replace_char c by s = concat (map (\<lambda>d. if d = c then by else [d]) s)"

definition escape_like :: "string \<Rightarrow> string" where
  "escape_like q =
     replace_char (CHR ''_'') [CHR 0x5C, CHR ''_''] (replace_char (CHR ''%'') [CHR 0x5C, CHR ''%'']
       (replace_char (CHR 0x5C) [CHR 0x5C, CHR 0x5C] q))"

definition contains_escaped :: "string \<Rightarrow> string" where
  "contains_escaped q = ''%'' @ escape_like q @ ''%''"

text \<open>A pattern that ends in the escape character is an error for the database; it matches nothing here.\<close>

function like :: "string \<Rightarrow> string \<Rightarrow> bool" where
  "like [] s = (s = [])"
| "like (c # p) s =
     (if c = CHR 0x5C then
        (case p of
           [] \<Rightarrow> False
         | e # p' \<Rightarrow> (case s of [] \<Rightarrow> False | d # s' \<Rightarrow> d = e \<and> like p' s'))
      else if c = CHR ''%'' then like p s \<or> (case s of [] \<Rightarrow> False | d # s' \<Rightarrow> like (c # p) s')
      else (case s of [] \<Rightarrow> False | d # s' \<Rightarrow> (c = CHR ''_'' \<or> d = c) \<and> like p s'))"
  by pat_completeness auto
termination
  by (relation "measure (\<lambda>(p, s). length p + length s)") auto

definition matches_query :: "string \<Rightarrow> package_row \<Rightarrow> bool" where
  "matches_query q pkg \<longleftrightarrow>
     like (contains_escaped q) (p_name pkg)
     \<or> (case p_description pkg of None \<Rightarrow> False | Some s \<Rightarrow> like (contains_escaped q) s)"

definition search_rows :: "string \<Rightarrow> db \<Rightarrow> (package_row \<times> org_row option) list" where
  "search_rows q d = take 50 (map (with_org d) (filter (matches_query q) (packages d)))"

definition search :: "('x read_ext_scheme) \<Rightarrow> search_params \<Rightarrow> search_response handler" where
  "search x params =
     bind_a (sql (query (search_rows (sp_q params)))) (\<lambda>rows.
     bind_a (summaries x (filter (\<lambda>(pkg, _). has_all_tags (tags_of pkg) (parse_tag_filter (sp_tags params))) rows)) (\<lambda>items.
       ret \<lparr>sr_query = sp_q params, sr_items = items\<rparr>))"

end
