(* ===== verification/ReadLaws.thy ===== *)
theory ReadLaws
  imports Reads
begin

section \<open>Properties of the read side\<close>

text \<open>
  The search pattern finds exactly the packages whose name or description contains the query as
  text; the pages of a listing together are the catalogue; the metadata of a package shows exactly
  its visible versions.
\<close>

subsection \<open>Literal search\<close>

definition escaped_char :: "char \<Rightarrow> string" where
  "escaped_char c = (if c \<in> {CHR 0x5C, CHR ''%'', CHR ''_''} then [CHR 0x5C, c] else [c])"

lemma replace_char_simps [simp]:
  "replace_char c by [] = []"
  "replace_char c by (d # s) = (if d = c then by else [d]) @ replace_char c by s"
  "replace_char c by (s @ t) = replace_char c by s @ replace_char c by t"
  by (auto simp: replace_char_def)

lemma escape_like_eq: "escape_like q = concat (map escaped_char q)"
  by (induction q) (auto simp: escape_like_def escaped_char_def)

lemmas like_Cons = like.simps(2)
declare like.simps(2) [simp del]

lemma like_percent: "like (CHR ''%'' # p) s \<longleftrightarrow> (\<exists>a b. s = a @ b \<and> like p b)"
proof (induction s)
  case (Cons c s)
  have "like (CHR ''%'' # p) (c # s) \<longleftrightarrow> like p (c # s) \<or> (\<exists>a b. s = a @ b \<and> like p b)"
    by (subst like_Cons) (simp add: Cons.IH)
  then show ?case
    by (auto simp: Cons_eq_append_conv)
qed (simp add: like_Cons)

lemma like_escaped_char:
  "like (escaped_char c @ p) s \<longleftrightarrow> (\<exists>s'. s = c # s' \<and> like p s')"
  by (cases s) (auto simp: escaped_char_def like_Cons)

lemma like_escaped: "like (escape_like q @ p) s \<longleftrightarrow> (\<exists>s'. s = q @ s' \<and> like p s')"
  unfolding escape_like_eq
proof (induction q arbitrary: s)
  case (Cons c q)
  show ?case
    by (simp add: like_escaped_char Cons.IH) blast
qed simp

lemma like_contains_escaped: "like (contains_escaped q) s \<longleftrightarrow> contains_str s q"
proof -
  have "like ''%'' b" for b
    by (subst like_percent) simp
  then show ?thesis
    by (simp add: contains_escaped_def like_percent like_escaped contains_str_iff) blast
qed

text \<open>Whatever wildcards and backslashes the query contains, the pattern is a plain substring test.\<close>

definition mentions :: "string \<Rightarrow> package_row \<Rightarrow> bool" where
  "mentions q pkg \<longleftrightarrow>
     contains_str (p_name pkg) q \<or> (case p_description pkg of None \<Rightarrow> False | Some s \<Rightarrow> contains_str s q)"

lemma matches_query_iff: "matches_query q pkg \<longleftrightarrow> mentions q pkg"
  by (auto simp: matches_query_def mentions_def like_contains_escaped split: option.splits)

subsection \<open>A quiet deployment\<close>

text \<open>No other session commits and every statement is served.\<close>

definition idle :: "env \<Rightarrow> bool" where
  "idle e \<longleftrightarrow> (\<forall>t d. peer_db e t d = d) \<and> (\<forall>t. outcome_at e t = Served)"

lemma idle_calm [simp]: "idle calm"
  by (simp add: idle_def calm_def)

lemma idle_settle: "idle e \<Longrightarrow> settle e w = w\<lparr>tick := Suc (tick w)\<rparr>"
  by (simp add: idle_def settle_def Let_def)

lemma idle_query:
  "idle e \<Longrightarrow> txn w = None \<Longrightarrow> sql (query f) e w = (Inr (f (committed w)), w\<lparr>tick := Suc (tick w)\<rparr>)"
  by (simp add: sql_def map_err_def query_def idle_settle view_def pending_def) (simp add: idle_def)

definition summary_of :: "('x read_ext_scheme) \<Rightarrow> db \<Rightarrow> package_row \<times> org_row option \<Rightarrow> package_summary option" where
  "summary_of x d row =
     map_option (\<lambda>org_row. package_summary x (fst row) org_row (versions_of (p_id (fst row)) d)) (snd row)"

lemma idle_summaries:
  assumes "idle e" "txn w = None"
  shows "\<exists>n. summaries x rows e w = (Inr (List.map_filter (summary_of x (committed w)) rows), w\<lparr>tick := n\<rparr>)"
  using assms
proof (induction rows arbitrary: w)
  case Nil
  show ?case
    by (rule exI [of _ "tick w"]) (simp add: ret_def List.map_filter_simps)
next
  case (Cons row rows)
  obtain pkg org where row: "row = (pkg, org)"
    by (cases row)
  show ?case
  proof (cases org)
    case None
    then show ?thesis
      using Cons row by (simp add: summary_of_def List.map_filter_simps)
  next
    case (Some org_row)
    obtain n where "summaries x rows e (w\<lparr>tick := Suc (tick w)\<rparr>) =
        (Inr (List.map_filter (summary_of x (committed w)) rows), w\<lparr>tick := n\<rparr>)"
      using Cons.IH [of "w\<lparr>tick := Suc (tick w)\<rparr>"] Cons.prems by auto
    moreover have summary: "summary_of x (committed w) (pkg, Some org_row) =
        Some (package_summary x pkg org_row (versions_of (p_id pkg) (committed w)))"
      by (simp add: summary_of_def)
    ultimately show ?thesis
      using Cons.prems row Some
      by (intro exI [of _ n]) (simp add: bind_a_def idle_query ret_def summary List.map_filter_simps)
  qed
qed

subsection \<open>Pages\<close>

definition tagged :: "string list \<Rightarrow> package_row \<times> org_row option \<Rightarrow> bool" where
  "tagged want row \<longleftrightarrow> has_all_tags (tags_of (fst row)) want"

definition selection :: "db \<Rightarrow> string list \<Rightarrow> (package_row \<times> org_row option) list" where
  "selection d want = filter (tagged want) (newest_first d)"

definition catalogue :: "('x read_ext_scheme) \<Rightarrow> db \<Rightarrow> string list \<Rightarrow> package_summary list" where
  "catalogue x d want = List.map_filter (summary_of x d) (selection d want)"

definition items_of :: "(api_err + package_list) \<times> world \<Rightarrow> package_summary list" where
  "items_of r = (case fst r of Inl _ \<Rightarrow> [] | Inr page \<Rightarrow> pl_items page)"

lemma selection_all [simp]: "selection d [] = newest_first d"
  by (auto simp: selection_def tagged_def has_all_tags_def filter_True)

lemma length_newest_first [simp]: "length (newest_first d) = length (packages d)"
  by (simp add: newest_first_def)

lemma length_selection: "length (selection d want) \<le> length (packages d)"
  using length_filter_le [of "tagged want" "newest_first d"] by (simp add: selection_def)

lemma idle_page:
  assumes "idle e" "txn w = None" "1 \<le> lp_limit params" "lp_limit params \<le> 200"
    and "parse_tag_filter (lp_tags params) = [] \<or> length (packages (committed w)) \<le> SCAN_CAP"
  defines "sel \<equiv> selection (committed w) (parse_tag_filter (lp_tags params))"
  shows "\<exists>n. list_packages x params e w =
    (Inr \<lparr>pl_items = List.map_filter (summary_of x (committed w)) (take (lp_limit params) (drop (lp_offset params) sel)),
       pl_total = length sel\<rparr>, w\<lparr>tick := n\<rparr>)"
proof -
  have limit: "clamp 1 200 (lp_limit params) = lp_limit params"
    using assms by (simp add: clamp_def)
  let ?page = "take (lp_limit params) (drop (lp_offset params) sel)"
  show ?thesis
  proof (cases "parse_tag_filter (lp_tags params) = []")
    case True
    obtain n where "summaries x ?page e (w\<lparr>tick := Suc (Suc (tick w))\<rparr>) =
        (Inr (List.map_filter (summary_of x (committed w)) ?page), w\<lparr>tick := n\<rparr>)"
      using idle_summaries [of e "w\<lparr>tick := Suc (Suc (tick w))\<rparr>" x ?page] assms by auto
    then show ?thesis
      using assms True limit by (intro exI [of _ n]) (simp add: list_packages_def bind_a_def idle_query ret_def sel_def)
  next
    case False
    have rows: "take SCAN_CAP (newest_first (committed w)) = newest_first (committed w)"
      using assms False by simp
    have match: "filter (\<lambda>(pkg, _). has_all_tags (tags_of pkg) (parse_tag_filter (lp_tags params))) rs =
        filter (tagged (parse_tag_filter (lp_tags params))) rs" for rs :: "(package_row \<times> org_row option) list"
      by (rule filter_cong) (auto simp: tagged_def)
    obtain n where "summaries x ?page e (w\<lparr>tick := Suc (tick w)\<rparr>) =
        (Inr (List.map_filter (summary_of x (committed w)) ?page), w\<lparr>tick := n\<rparr>)"
      using idle_summaries [of e "w\<lparr>tick := Suc (tick w)\<rparr>" x ?page] assms by auto
    then show ?thesis
      using assms False limit
      by (intro exI [of _ n])
         (simp add: list_packages_def bind_a_def idle_query ret_def sel_def rows match Let_def selection_def)
  qed
qed

lemma pages_concat: "concat (map (\<lambda>i. take l (drop (i * l) xs)) [0..<n]) = take (n * l) xs"
  by (induction n) (simp_all add: take_add [symmetric] add.commute [of l])

lemma map_filter_concat: "List.map_filter f (concat xss) = concat (map (List.map_filter f) xss)"
  by (induction xss) (auto simp: List.map_filter_def)

text \<open>Listing with any page size from 1 to 200 and offsets 0, 1, 2, ... pages walks the whole
  catalogue: in a quiet deployment every page is served, reports the size of the selection, and the
  pages together are the selected packages, newest first, each exactly once. With a tag filter this
  holds for up to 2000 packages, the scan cap.\<close>

theorem pages_tile_the_catalogue:
  assumes "idle e" "txn w = None" "1 \<le> l" "l \<le> 200" "length (packages (committed w)) \<le> n * l"
    and "parse_tag_filter tags = [] \<or> length (packages (committed w)) \<le> SCAN_CAP"
  shows "concat (map (\<lambda>i. items_of (list_packages x \<lparr>lp_tags = tags, lp_limit = l, lp_offset = i * l\<rparr> e w)) [0..<n])
           = catalogue x (committed w) (parse_tag_filter tags)
       \<and> (\<forall>i. \<exists>page w'. list_packages x \<lparr>lp_tags = tags, lp_limit = l, lp_offset = i * l\<rparr> e w = (Inr page, w')
            \<and> length (pl_items page) \<le> l \<and> pl_total page = length (selection (committed w) (parse_tag_filter tags)))"
proof -
  let ?sel = "selection (committed w) (parse_tag_filter tags)"
  let ?s = "summary_of x (committed w)"
  have page: "\<exists>k. list_packages x \<lparr>lp_tags = tags, lp_limit = l, lp_offset = i * l\<rparr> e w =
      (Inr \<lparr>pl_items = List.map_filter ?s (take l (drop (i * l) ?sel)), pl_total = length ?sel\<rparr>, w\<lparr>tick := k\<rparr>)" for i
    using idle_page [of e w "\<lparr>lp_tags = tags, lp_limit = l, lp_offset = i * l\<rparr>" x] assms by simp
  then have "items_of (list_packages x \<lparr>lp_tags = tags, lp_limit = l, lp_offset = i * l\<rparr> e w) =
      List.map_filter ?s (take l (drop (i * l) ?sel))" for i
    by (metis (no_types, lifting) fst_conv items_of_def package_list.select_convs(1) sum.case(2))
  then have "concat (map (\<lambda>i. items_of (list_packages x \<lparr>lp_tags = tags, lp_limit = l, lp_offset = i * l\<rparr> e w)) [0..<n]) =
      List.map_filter ?s (concat (map (\<lambda>i. take l (drop (i * l) ?sel)) [0..<n]))"
    by (simp add: map_filter_concat o_def)
  also have "\<dots> = catalogue x (committed w) (parse_tag_filter tags)"
    using length_selection [of "committed w" "parse_tag_filter tags"] assms
    by (simp add: pages_concat catalogue_def)
  finally have tiles: "concat (map (\<lambda>i. items_of (list_packages x \<lparr>lp_tags = tags, lp_limit = l, lp_offset = i * l\<rparr> e w)) [0..<n])
      = catalogue x (committed w) (parse_tag_filter tags)" .
  have "length (List.map_filter ?s (take l zs)) \<le> l" for zs
    using le_trans [OF length_filter_le [of _ "take l zs"]] by (simp add: List.map_filter_def)
  then show ?thesis
    using tiles page by fastforce
qed

subsection \<open>Search\<close>

lemma tagged_filter:
  "filter (\<lambda>(pkg, _). has_all_tags (tags_of pkg) want) (map (with_org d) ps) =
     map (with_org d) (filter (\<lambda>pkg. has_all_tags (tags_of pkg) want) ps)"
  by (induction ps) (auto simp: with_org_def)

text \<open>Search is literal and, up to its limit of 50 rows, exact: when at most 50 packages mention
  the query, the answer summarises exactly the packages that carry every wanted tag and whose name or
  description contains the query character for character; a percent sign, an underscore or a
  backslash in the query stands for itself.\<close>

theorem search_is_literal_and_exact:
  assumes "idle e" "txn w = None" "length (filter (mentions (sp_q params)) (packages (committed w))) \<le> 50"
  shows "\<exists>w'. search x params e w =
    (Inr \<lparr>sr_query = sp_q params,
       sr_items = List.map_filter (summary_of x (committed w)) (map (with_org (committed w))
         (filter (\<lambda>pkg. mentions (sp_q params) pkg \<and> has_all_tags (tags_of pkg) (parse_tag_filter (sp_tags params)))
            (packages (committed w))))\<rparr>, w')"
proof -
  let ?d = "committed w" and ?want = "parse_tag_filter (sp_tags params)"
  let ?rows = "map (with_org ?d) (filter (\<lambda>pkg. has_all_tags (tags_of pkg) ?want) (filter (mentions (sp_q params)) (packages ?d)))"
  have rows: "search_rows (sp_q params) ?d = map (with_org ?d) (filter (mentions (sp_q params)) (packages ?d))"
    using assms matches_query_iff [of "sp_q params", abs_def] by (simp add: search_rows_def)
  obtain n where "summaries x ?rows e (w\<lparr>tick := Suc (tick w)\<rparr>) =
      (Inr (List.map_filter (summary_of x ?d) ?rows), w\<lparr>tick := n\<rparr>)"
    using idle_summaries [of e "w\<lparr>tick := Suc (tick w)\<rparr>" x ?rows] assms by auto
  then show ?thesis
    using assms by (simp add: search_def bind_a_def idle_query rows tagged_filter ret_def)
qed

subsection \<open>Examples\<close>

definition toy_reads :: read_ext where
  "toy_reads = publish_ext.extend toy_publish
     (read_ext.fields (\<lambda>s. s) (\<lambda>s. s) (\<lambda>s. s) (\<lambda>s. ''/v1/artifacts/'' @ s) (\<lambda>j. Some []))"

lemma toy_reads_sel [simp]:
  "artifact_format toy_reads f = f" "artifact_path toy_reads s = ''/v1/artifacts/'' @ s"
  by (simp_all add: toy_reads_def publish_ext.defs read_ext.defs)

theorem pages_tile_the_catalogue_witness:
  "concat (map (\<lambda>i. items_of (list_packages toy_reads \<lparr>lp_tags = None, lp_limit = 1, lp_offset = i * 1\<rparr> calm (start db_3))) [0..<2])
     = catalogue toy_reads db_3 [] \<and> length (packages db_3) = 1"
  using pages_tile_the_catalogue [of calm "start db_3" 1 2 None toy_reads]
  by (simp add: db_3_def parse_tag_filter_def)

lemma mentions_kit: "mentions ''%'' pkg_1 \<longleftrightarrow> False" "mentions ''it'' pkg_1 \<longleftrightarrow> True"
  by (simp_all add: mentions_def pkg_1_def starts_with_def)

lemma pkg_1_reads: "p_org_id pkg_1 = 7" "p_name pkg_1 = ''kit''"
  by (simp_all add: pkg_1_def)

theorem search_is_literal_and_exact_witness:
  "(\<exists>w'. search toy_reads \<lparr>sp_q = ''%'', sp_tags = None\<rparr> calm (start db_3) =
     (Inr \<lparr>sr_query = ''%'', sr_items = []\<rparr>, w'))
   \<and> (\<exists>item w'. search toy_reads \<lparr>sp_q = ''it'', sp_tags = None\<rparr> calm (start db_3) =
     (Inr \<lparr>sr_query = ''it'', sr_items = [item]\<rparr>, w') \<and> sm_name item = ''kit'')"
  using search_is_literal_and_exact [of calm "start db_3" "\<lparr>sp_q = ''%'', sp_tags = None\<rparr>" toy_reads]
    search_is_literal_and_exact [of calm "start db_3" "\<lparr>sp_q = ''it'', sp_tags = None\<rparr>" toy_reads]
  by (auto simp add: mentions_kit List.map_filter_simps parse_tag_filter_def has_all_tags_def with_org_def
      summary_of_def package_summary_def pkg_1_reads)

end
