(* ===== verification/Files.thy ===== *)
theory Files
  imports ReadLaws Publish
begin

section \<open>Single files out of an artifact (\<^verbatim>\<open>src/files.rs\<close>)\<close>

text \<open>
  A reader is the bytes it yields and how it ends: cleanly, or with an error. A single call of
  \<open>read\<close> returns some prefix of what is left, at most as long as the buffer; the inflation
  budget is modelled at that level (\<open>budget_read\<close>), and \<open>budgeted\<close> is the reader it amounts
  to. The gzip, tar and zip crates are the parameters of \<open>archive_ext\<close>: the inflated stream of
  an archive; the entries of a tar stream in order, each with its path, its declared size and the
  reader of its body; the named entries of a ZIP.
\<close>

record io_failure =
  rendered :: string
  causes :: "(bool \<times> string) list"

record stream =
  s_bytes :: string
  s_end :: "io_failure option"

record tar_entry =
  te_path :: "io_failure + string"
  te_size :: nat
  te_body :: stream

datatype zip_failure = FileNotFound | ZipFailure string

record zip_file =
  zf_size :: nat
  zf_body :: stream

record archive_ext =
  gz_decode :: "string \<Rightarrow> stream"
  tar_entries :: "stream \<Rightarrow> io_failure + (io_failure + tar_entry) list"
  zip_open :: "string \<Rightarrow> zip_failure + (string \<Rightarrow> zip_failure + zip_file)"
  ARCHIVE_ROOT :: string

definition IMMUTABLE_CACHE :: string where
  "IMMUTABLE_CACHE = ''public, max-age=31536000, immutable''"

definition MAX_SERVED_FILE_BYTES :: nat where
  "MAX_SERVED_FILE_BYTES = 25 * 1024 * 1024"

definition DEFAULT_MAX_INFLATED_BYTES :: nat where
  "DEFAULT_MAX_INFLATED_BYTES = 512 * 1024 * 1024"

text \<open>\<open>flag\<close> is the value of \<open>ZED_MAX_INFLATED_BYTES\<close>, if set.\<close>

definition max_inflated_bytes :: "string option \<Rightarrow> nat" where
  "max_inflated_bytes flag =
     (case Option.bind flag parse_u64 of
        Some v \<Rightarrow> if 0 < v then v else DEFAULT_MAX_INFLATED_BYTES
      | None \<Rightarrow> DEFAULT_MAX_INFLATED_BYTES)"

datatype extract_error = TooLarge | InflationBudgetExceeded | Archive string

subsection \<open>The inflation budget\<close>

definition INFLATION_BUDGET_MSG :: string where
  "INFLATION_BUDGET_MSG = ''zed: archive exceeded the decompression budget''"

definition budget_error :: io_failure where
  "budget_error = \<lparr>rendered = INFLATION_BUDGET_MSG, causes = []\<rparr>"

text \<open>
  One call of \<open>read\<close> with a buffer of \<open>len\<close> bytes on a plain reader that has \<open>ready\<close> bytes
  at hand: an empty buffer takes nothing, a reader at its end answers with no bytes or its error.
\<close>

definition stream_read :: "stream \<Rightarrow> nat \<Rightarrow> nat \<Rightarrow> (io_failure + string) \<times> stream" where
  "stream_read s len ready =
     (if len = 0 then (Inr [], s)
      else if s_bytes s = [] then (case s_end s of None \<Rightarrow> Inr [] | Some err \<Rightarrow> Inl err, s)
      else let n = min len (max 1 ready)
           in (Inr (take n (s_bytes s)), s\<lparr>s_bytes := drop n (s_bytes s)\<rparr>))"

record budget_reader =
  inner :: stream
  remaining :: nat

definition budget_read :: "budget_reader \<Rightarrow> nat \<Rightarrow> nat \<Rightarrow> (io_failure + string) \<times> budget_reader" where
  "budget_read r buf_len ready =
     (if remaining r = 0 then (Inl budget_error, r)
      else let want = min buf_len (remaining r); (answer, s) = stream_read (inner r) want ready
           in case answer of
                Inl err \<Rightarrow> (Inl err, r\<lparr>inner := s\<rparr>)
              | Inr bytes \<Rightarrow> (Inr bytes, \<lparr>inner = s, remaining = remaining r - length bytes\<rparr>))"

definition budgeted :: "stream \<Rightarrow> nat \<Rightarrow> stream" where
  "budgeted s budget =
     (if length (s_bytes s) < budget then s
      else \<lparr>s_bytes = take budget (s_bytes s), s_end = Some budget_error\<rparr>)"

definition is_budget_error :: "io_failure \<Rightarrow> bool" where
  "is_budget_error err \<longleftrightarrow>
     list_ex (\<lambda>(is_io, cause). is_io \<and> contains_str cause INFLATION_BUDGET_MSG) ((True, rendered err) # causes err)
     \<or> contains_str (rendered err) INFLATION_BUDGET_MSG"

definition map_tar_err :: "io_failure \<Rightarrow> extract_error" where
  "map_tar_err err =
     (if contains_str (rendered err) INFLATION_BUDGET_MSG then InflationBudgetExceeded
      else if is_budget_error err then InflationBudgetExceeded
      else Archive (rendered err))"

subsection \<open>Extraction\<close>

text \<open>\<open>io::copy\<close> of \<open>take(MAX + 1)\<close>: the end of the reader is only seen below the cap.\<close>

definition read_capped :: "stream \<Rightarrow> extract_error + string" where
  "read_capped reader =
     (let buf = take (MAX_SERVED_FILE_BYTES + 1) (s_bytes reader);
          ended = (if length buf < MAX_SERVED_FILE_BYTES + 1 then s_end reader else None)
      in case ended of
           Some err \<Rightarrow> Inl (map_tar_err err)
         | None \<Rightarrow> if MAX_SERVED_FILE_BYTES < length buf then Inl TooLarge else Inr buf)"

fun scan_tar :: "string \<Rightarrow> (io_failure + tar_entry) list \<Rightarrow> extract_error + string option" where
  "scan_tar want [] = Inr None"
| "scan_tar want (Inl err # _) = Inl (map_tar_err err)"
| "scan_tar want (Inr entry # entries) =
     (case te_path entry of
        Inl err \<Rightarrow> Inl (map_tar_err err)
      | Inr path \<Rightarrow>
          if path = want then
            (if MAX_SERVED_FILE_BYTES < te_size entry then Inl TooLarge
             else map_sum id Some (read_capped (te_body entry)))
          else scan_tar want entries)"

definition extract_tar :: "('a archive_ext_scheme) \<Rightarrow> stream \<Rightarrow> string \<Rightarrow> extract_error + string option" where
  "extract_tar a s want =
     (case tar_entries a s of Inl err \<Rightarrow> Inl (map_tar_err err) | Inr entries \<Rightarrow> scan_tar want entries)"

fun from_zip_error :: "zip_failure \<Rightarrow> extract_error" where
  "from_zip_error FileNotFound = Archive ''specified file not found in archive''"
| "from_zip_error (ZipFailure m) = Archive m"

definition extract_zip :: "('a archive_ext_scheme) \<Rightarrow> string \<Rightarrow> string \<Rightarrow> extract_error + string option" where
  "extract_zip a archive want =
     (case zip_open a archive of
        Inl err \<Rightarrow> Inl (from_zip_error err)
      | Inr by_name \<Rightarrow>
          (case by_name want of
             Inl FileNotFound \<Rightarrow> Inr None
           | Inl err \<Rightarrow> Inl (from_zip_error err)
           | Inr entry \<Rightarrow>
               if MAX_SERVED_FILE_BYTES < zf_size entry then Inl TooLarge
               else map_sum id Some (read_capped (zf_body entry))))"

definition extract_file ::
  "('a archive_ext_scheme) \<Rightarrow> string option \<Rightarrow> string \<Rightarrow> string \<Rightarrow> string \<Rightarrow> extract_error + string option" where
  "extract_file a flag archive format rel_path =
     (let want = ARCHIVE_ROOT a @ ''/'' @ rel_path
      in if format = ''zip'' then extract_zip a archive want
         else extract_tar a (budgeted (gz_decode a archive) (saturating_add (max_inflated_bytes flag) 1)) want)"

fun from_extract_error :: "string option \<Rightarrow> extract_error \<Rightarrow> api_err" where
  "from_extract_error flag TooLarge = api_err 413 ''file_too_large''
     (''files larger than '' @ show_nat MAX_SERVED_FILE_BYTES
        @ '' bytes are not served individually; download the artifact instead'')"
| "from_extract_error flag InflationBudgetExceeded = api_err 413 ''archive_too_large''
     (''this artifact inflates past the '' @ show_nat (max_inflated_bytes flag)
        @ '' byte decompression budget; download the artifact instead of requesting files from it'')"
| "from_extract_error flag (Archive _) = from_anyhow"

subsection \<open>Headers of a served file\<close>

definition mime_for :: "string \<Rightarrow> string" where
  "mime_for path =
     (let ext = last (split_on (CHR ''.'') path)
      in if ext = ''css'' then ''text/css; charset=utf-8''
         else if ext = ''js'' \<or> ext = ''mjs'' \<or> ext = ''cjs'' then ''text/javascript; charset=utf-8''
         else if ext = ''json'' \<or> ext = ''map'' then ''application/json''
         else if ext = ''html'' \<or> ext = ''htm'' then ''text/html; charset=utf-8''
         else if ext = ''svg'' then ''image/svg+xml''
         else if ext = ''png'' then ''image/png''
         else if ext = ''jpg'' \<or> ext = ''jpeg'' then ''image/jpeg''
         else if ext = ''gif'' then ''image/gif''
         else if ext = ''wasm'' then ''application/wasm''
         else if ext = ''toml'' then ''application/toml''
         else if ext = ''md'' \<or> ext = ''txt'' then ''text/plain; charset=utf-8''
         else if ext = ''woff2'' then ''font/woff2''
         else ''application/octet-stream'')"

definition is_active_content :: "string \<Rightarrow> bool" where
  "is_active_content mime \<longleftrightarrow>
     (let base = trim (hd (split_on (CHR '';'') mime))
      in base \<in> {''text/html'', ''image/svg+xml'', ''application/xhtml+xml''} \<or> contains_str base ''javascript'')"

definition served_mime :: "string \<Rightarrow> string" where
  "served_mime path =
     (let guessed = mime_for path in if is_active_content guessed then ''text/plain; charset=utf-8'' else guessed)"

definition served_file_headers :: "string \<Rightarrow> (string \<times> string) list" where
  "served_file_headers path =
     [(''content-type'', served_mime path), (''cache-control'', IMMUTABLE_CACHE),
      (''content-disposition'', ''inline''), (''content-security-policy'', ''sandbox'')]"

subsection \<open>The budget is a truncation\<close>

text \<open>A sequence of reads, each with its buffer length and the bytes at hand; it stops at the first error.\<close>

fun reads :: "('r \<Rightarrow> nat \<Rightarrow> nat \<Rightarrow> (io_failure + string) \<times> 'r) \<Rightarrow> 'r \<Rightarrow> (nat \<times> nat) list \<Rightarrow> string \<times> io_failure option" where
  "reads rd r [] = ([], None)"
| "reads rd r ((len, ready) # calls) =
     (case rd r len ready of
        (Inl err, _) \<Rightarrow> ([], Some err)
      | (Inr bytes, r') \<Rightarrow> (case reads rd r' calls of (rest, stop) \<Rightarrow> (bytes @ rest, stop)))"

locale reader_simulation =
  fixes rd :: "'r \<Rightarrow> nat \<Rightarrow> nat \<Rightarrow> (io_failure + string) \<times> 'r"
    and rd' :: "'s \<Rightarrow> nat \<Rightarrow> nat \<Rightarrow> (io_failure + string) \<times> 's"
    and abs :: "'r \<Rightarrow> 's"
  assumes read_sim: "0 < len \<Longrightarrow> rd r len ready = (Inr bytes, r') \<Longrightarrow> rd' (abs r) len ready = (Inr bytes, abs r')"
    and fail_sim: "0 < len \<Longrightarrow> rd r len ready = (Inl err, r') \<Longrightarrow> \<exists>s'. rd' (abs r) len ready = (Inl err, s')"
begin

lemma reads_sim: "list_all (\<lambda>(len, _). 0 < len) calls \<Longrightarrow> reads rd r calls = reads rd' (abs r) calls"
proof (induction calls arbitrary: r)
  case (Cons call calls)
  obtain len ready where call: "call = (len, ready)" by (cases call)
  then have pos: "0 < len" "list_all (\<lambda>(len, _). 0 < len) calls" using Cons.prems by auto
  obtain answer r' where run: "rd r len ready = (answer, r')" by (cases "rd r len ready")
  show ?case
  proof (cases answer)
    case (Inl err)
    then show ?thesis using fail_sim [OF pos(1)] run call by fastforce
  next
    case (Inr bytes)
    then show ?thesis using read_sim [OF pos(1)] run call Cons.IH [OF pos(2)] by auto
  qed
qed simp

end

lemma stream_read_prefix:
  "stream_read s len ready = (Inr bytes, s') \<Longrightarrow> s_bytes s = bytes @ s_bytes s' \<and> s_end s' = s_end s"
  by (auto simp: stream_read_def Let_def split: option.splits if_splits)

lemma budget_read_short:
  assumes "length (s_bytes (inner r)) < remaining r"
  shows "budget_read r len ready =
    (let (answer, s) = stream_read (inner r) len ready
     in (answer, r\<lparr>inner := s, remaining := (case answer of Inl _ \<Rightarrow> remaining r | Inr bytes \<Rightarrow> remaining r - length bytes)\<rparr>))"
proof -
  have "take (min (min len (remaining r)) m) (s_bytes (inner r)) = take (min len m) (s_bytes (inner r))"
    "drop (min (min len (remaining r)) m) (s_bytes (inner r)) = drop (min len m) (s_bytes (inner r))" for m
    using assms by (auto simp: min_def)
  then show ?thesis
    using assms by (auto simp: budget_read_def stream_read_def Let_def split: option.split)
qed

lemma budget_read_Inr:
  assumes "budget_read r len ready = (Inr bytes, r')" "0 < len"
  shows "stream_read (budgeted (inner r) (remaining r)) len ready =
    (Inr bytes, budgeted (inner r') (remaining r'))"
proof (cases "length (s_bytes (inner r)) < remaining r")
  case True
  obtain s where run: "stream_read (inner r) len ready = (Inr bytes, s)"
      and r': "inner r' = s" "remaining r' = remaining r - length bytes"
    using assms(1) budget_read_short [OF True, of len ready] by (auto split: prod.splits)
  then have "length (s_bytes s) < remaining r'"
    using stream_read_prefix [OF run] True by simp
  then show ?thesis
    using run r' True by (simp add: budgeted_def)
next
  case False
  have "remaining r \<noteq> 0"
    using assms(1) by (cases "remaining r = 0") (simp_all add: budget_read_def)
  with False assms(2) have ne: "0 < remaining r" "s_bytes (inner r) \<noteq> []" "min len (remaining r) \<noteq> 0"
    by auto
  define m where "m = min len (max (Suc 0) ready)"
  define k where "k = min (min len (remaining r)) (max 1 ready)"
  have k: "k = min m (remaining r)" "k \<le> length (s_bytes (inner r))"
    using False by (auto simp: k_def m_def)
  have run: "bytes = take k (s_bytes (inner r))"
      "r' = \<lparr>inner = (inner r)\<lparr>s_bytes := drop k (s_bytes (inner r))\<rparr>, remaining = remaining r - k\<rparr>"
  proof -
    have "stream_read (inner r) (min len (remaining r)) ready =
        (Inr (take k (s_bytes (inner r))), (inner r)\<lparr>s_bytes := drop k (s_bytes (inner r))\<rparr>)"
      using ne assms(2) by (simp add: stream_read_def k_def Let_def)
    then show "bytes = take k (s_bytes (inner r))"
      "r' = \<lparr>inner = (inner r)\<lparr>s_bytes := drop k (s_bytes (inner r))\<rparr>, remaining = remaining r - k\<rparr>"
      using assms(1) ne(1) k(2) by (simp_all add: budget_read_def min_absorb2)
  qed
  have "take m (take (remaining r) (s_bytes (inner r))) = take k (s_bytes (inner r))"
    by (simp add: k(1))
  moreover have "drop m (take (remaining r) (s_bytes (inner r))) = take (remaining r - k) (drop k (s_bytes (inner r)))"
    by (cases "m \<le> remaining r") (simp_all add: k(1) drop_take min_def)
  moreover have "\<not> length (drop k (s_bytes (inner r))) < remaining r - k"
    using False k by simp
  ultimately show ?thesis
    using False ne assms(2) run by (simp add: budgeted_def stream_read_def Let_def m_def [symmetric])
qed

lemma budget_read_Inl:
  assumes "budget_read r len ready = (Inl err, r')" "0 < len"
  shows "stream_read (budgeted (inner r) (remaining r)) len ready = (Inl err, budgeted (inner r) (remaining r))"
  using assms
  by (auto simp: budget_read_def stream_read_def budgeted_def Let_def split: option.splits if_splits)

interpretation budget: reader_simulation budget_read stream_read "\<lambda>r. budgeted (inner r) (remaining r)"
  by unfold_locales (auto simp: budget_read_Inr dest: budget_read_Inl)

lemma reads_prefix: "\<exists>rest. s_bytes s = fst (reads stream_read s calls) @ rest"
proof (induction calls arbitrary: s)
  case (Cons call calls)
  obtain len ready where call: "call = (len, ready)" by (cases call)
  obtain answer s' where run: "stream_read s len ready = (answer, s')" by (cases "stream_read s len ready")
  show ?case
  proof (cases answer)
    case (Inr bytes)
    obtain rest where "s_bytes s' = fst (reads stream_read s' calls) @ rest" using Cons.IH by blast
    then show ?thesis
      using stream_read_prefix [of s len ready bytes s'] run Inr call by (auto split: prod.split)
  qed (use run call in simp)
qed simp

text \<open>C38. The inflation budget: whatever sizes of non-empty buffers the archive library reads with, the bytes it is
  handed are a prefix of the inflated stream, never longer than the budget, and the calls behave
  exactly like reads of the stream cut off at the budget, where every further read is the budget
  error.\<close>

theorem budget_reader_truncates:
  assumes "list_all (\<lambda>(len, _). 0 < len) calls"
  shows "reads budget_read \<lparr>inner = s, remaining = budget\<rparr> calls = reads stream_read (budgeted s budget) calls
    \<and> length (fst (reads budget_read \<lparr>inner = s, remaining = budget\<rparr> calls)) \<le> budget
    \<and> (\<exists>rest. s_bytes s = fst (reads budget_read \<lparr>inner = s, remaining = budget\<rparr> calls) @ rest)"
proof -
  have eq: "reads budget_read \<lparr>inner = s, remaining = budget\<rparr> calls = reads stream_read (budgeted s budget) calls"
    using budget.reads_sim [OF assms, of "\<lparr>inner = s, remaining = budget\<rparr>"] by simp
  obtain rest where pre: "s_bytes (budgeted s budget) = fst (reads stream_read (budgeted s budget) calls) @ rest"
    using reads_prefix by blast
  have "length (s_bytes (budgeted s budget)) \<le> budget" "\<exists>more. s_bytes s = s_bytes (budgeted s budget) @ more"
    by (auto simp: budgeted_def intro: exI [of _ "drop budget (s_bytes s)"])
  then show ?thesis using eq pre by auto
qed

theorem budget_reader_truncates_witness:
  "reads budget_read \<lparr>inner = \<lparr>s_bytes = ''abcdef'', s_end = None\<rparr>, remaining = 4\<rparr> [(3, 3), (3, 3), (1, 1)]
     = (''abcd'', Some budget_error)
   \<and> length (fst (reads budget_read \<lparr>inner = \<lparr>s_bytes = ''abcdef'', s_end = None\<rparr>, remaining = 4\<rparr> [(3, 3), (3, 3), (1, 1)])) \<le> 4"
proof -
  have "reads budget_read \<lparr>inner = \<lparr>s_bytes = ''abcdef'', s_end = None\<rparr>, remaining = 4\<rparr> [(3, 3), (3, 3), (1, 1)]
     = (''abcd'', Some budget_error)"
    by (simp add: budget_read_def stream_read_def Let_def)
  moreover have "length (fst (reads budget_read \<lparr>inner = \<lparr>s_bytes = ''abcdef'', s_end = None\<rparr>, remaining = 4\<rparr>
      [(3, 3), (3, 3), (1, 1)])) \<le> 4"
    by (intro budget_reader_truncates [THEN conjunct2, THEN conjunct1]) simp
  ultimately show ?thesis by (rule conjI)
qed

subsection \<open>What is served\<close>

lemma read_capped_bound: "read_capped s = Inr bytes \<Longrightarrow> length bytes \<le> MAX_SERVED_FILE_BYTES"
  by (auto simp: read_capped_def Let_def split: option.splits if_splits)

lemma scan_tar_bound: "scan_tar want entries = Inr (Some bytes) \<Longrightarrow> length bytes \<le> MAX_SERVED_FILE_BYTES"
proof (induction want entries rule: scan_tar.induct)
  case (3 want entry entries)
  then show ?case
    by (cases "read_capped (te_body entry)") (auto split: sum.splits if_splits dest: read_capped_bound)
qed auto

lemma extract_zip_bound: "extract_zip a archive want = Inr (Some bytes) \<Longrightarrow> length bytes \<le> MAX_SERVED_FILE_BYTES"
proof -
  assume ok: "extract_zip a archive want = Inr (Some bytes)"
  have "\<exists>reader. map_sum id Some (read_capped reader) = Inr (Some bytes)"
    using ok by (simp add: extract_zip_def split: sum.splits zip_failure.splits if_splits) blast
  then obtain reader where "map_sum id Some (read_capped reader) = Inr (Some bytes)" ..
  then show ?thesis
    by (cases "read_capped reader") (auto dest: read_capped_bound)
qed

text \<open>Serving one file is bounded and the budget is invisible to honest archives: an extracted file
  has at most 25 MiB whatever sizes the archive declares; the tar reader is never shown more than
  the budget plus one byte of inflated data; and an archive that inflates within the budget gives
  the same answer as without a budget.\<close>

theorem extraction_is_bounded:
  assumes "max_inflated_bytes flag < u64_max"
  shows "(extract_file a flag archive format path = Inr (Some bytes) \<longrightarrow> length bytes \<le> MAX_SERVED_FILE_BYTES)
    \<and> (format \<noteq> ''zip'' \<longrightarrow>
        (\<exists>seen. extract_file a flag archive format path = extract_tar a seen (ARCHIVE_ROOT a @ ''/'' @ path)
           \<and> length (s_bytes seen) \<le> max_inflated_bytes flag + 1
           \<and> (length (s_bytes (gz_decode a archive)) \<le> max_inflated_bytes flag \<longrightarrow> seen = gz_decode a archive)))"
proof -
  have "length bytes \<le> MAX_SERVED_FILE_BYTES" if "extract_file a flag archive format path = Inr (Some bytes)"
    using that extract_zip_bound scan_tar_bound
    by (auto simp: extract_file_def extract_tar_def Let_def split: if_splits sum.splits)
  moreover have "saturating_add (max_inflated_bytes flag) 1 = max_inflated_bytes flag + 1"
    using assms by (simp add: saturating_add_def)
  ultimately show ?thesis
    by (auto simp: extract_file_def budgeted_def Let_def)
qed

text \<open>Author-published markup and scripts never run from the registry's origin: whatever the path of a
  served file, its content type is not one a browser executes, and the response is sandboxed.\<close>

theorem served_files_are_inert:
  "\<not> is_active_content (served_mime path)
   \<and> map_of (served_file_headers path) ''content-type'' = Some (served_mime path)
   \<and> map_of (served_file_headers path) ''content-security-policy'' = Some ''sandbox''"
proof -
  have "trim ''text/plain'' = ''text/plain''"
    by code_simp
  then have "\<not> is_active_content ''text/plain; charset=utf-8''"
    by (simp add: is_active_content_def starts_with_def)
  then show ?thesis
    by (simp add: served_mime_def Let_def served_file_headers_def)
qed

end
