(* ===== verification/Artifacts.thy ===== *)
theory Artifacts
  imports Files
begin

section \<open>Downloads and single files (\<^verbatim>\<open>src/routes/artifacts.rs\<close>)\<close>

text \<open>
  An artifact is downloaded by its digest; when every canonical package that refers to it is
  non-public, only members of one of them may. A single file is served out of a stored artifact.
\<close>

record artifact_state =
  as_store :: artifact_store
  as_presign :: "string \<Rightarrow> string \<Rightarrow> string \<Rightarrow> nat \<Rightarrow> string option"
  as_registry_read :: "registry_read option"
  as_auth_client :: "auth_client option"
  as_audience :: string
  as_inflated_flag :: "string option"
  as_archives :: archive_ext

definition IMMUTABLE :: string where
  "IMMUTABLE = ''public, max-age=31536000, immutable''"

definition artifact_requires_private_authorization :: "canonical_package list \<Rightarrow> bool" where
  "artifact_requires_private_authorization refs \<longleftrightarrow>
     refs \<noteq> [] \<and> list_all (\<lambda>p. cp_visibility p \<noteq> ''public'') refs"

fun find_membership :: "registry_read \<Rightarrow> uuid \<Rightarrow> canonical_package list \<Rightarrow> unit handler" where
  "find_membership read user [] = throw (not_found ''artifact'')"
| "find_membership read user (p # refs) =
     bind_a (map_err map_orm_error (plane_read (\<lambda>t. org_role_for_user read t (cp_org_id p) user))) (\<lambda>org_role.
       if org_role \<noteq> None then ret ()
       else case cp_project_id p of
              None \<Rightarrow> find_membership read user refs
            | Some project \<Rightarrow>
                bind_a (map_err map_orm_error (plane_read (\<lambda>t. project_role_for_user read t project user))) (\<lambda>project_role.
                  if project_role \<noteq> None then ret () else find_membership read user refs))"

definition authorize_artifact_read ::
  "('x ext_scheme) \<Rightarrow> artifact_state \<Rightarrow> headers \<Rightarrow> string \<Rightarrow> unit handler" where
  "authorize_artifact_read x st headers sha256 =
     bind_a (lift (ok_or registry_read_unavailable (as_registry_read st))) (\<lambda>read.
     bind_a (map_err map_orm_error (plane_read (\<lambda>t. packages_for_artifact read t sha256))) (\<lambda>refs.
       if \<not> artifact_requires_private_authorization refs then ret ()
       else
         bind_a (lift (require_package_reader x (as_auth_client st) (as_audience st) headers)) (\<lambda>reader.
         bind_a (map_err map_orm_error (plane_read (\<lambda>t.
             user_by_subject read t (si_realm (session reader)) (si_subject (session reader))))) (\<lambda>found.
           case found of
             None \<Rightarrow> throw (not_found ''artifact'')
           | Some user \<Rightarrow> find_membership read user refs))))"

definition version_by_sha :: "string \<Rightarrow> db \<Rightarrow> version_row option" where
  "version_by_sha sha256 d = List.find (\<lambda>v. v_sha256 v = sha256) (versions d)"

definition body_headers :: "('x read_ext_scheme) \<Rightarrow> string \<Rightarrow> nat \<Rightarrow> (string \<times> string) list" where
  "body_headers x format len =
     [(''content-type'', format_content_type x (artifact_format x format)), (''cache-control'', IMMUTABLE),
      (''content-length'', show_nat len)]"

fun download_reply :: "('x read_ext_scheme) \<Rightarrow> string \<Rightarrow> download \<Rightarrow> reply" where
  "download_reply x format (Redirect url) =
     \<lparr>re_status = 302, re_headers = [(''location'', url)], re_body = []\<rparr>"
| "download_reply x format (DownloadBytes bytes) =
     \<lparr>re_status = 200, re_headers = body_headers x format (length bytes), re_body = bytes\<rparr>"
| "download_reply x format (DownloadFile bytes len) =
     \<lparr>re_status = 200, re_headers = body_headers x format len, re_body = bytes\<rparr>"

definition get_artifact ::
  "('x read_ext_scheme) \<Rightarrow> artifact_state \<Rightarrow> headers \<Rightarrow> string \<Rightarrow> reply handler" where
  "get_artifact x st headers sha256 =
     bind_a (authorize_artifact_read x st headers sha256) (\<lambda>_.
     bind_a (sql (query (version_by_sha sha256))) (\<lambda>found.
     bind_a (lift (ok_or (not_found ''artifact'') found)) (\<lambda>row.
     bind_a (map_err (\<lambda>_. from_anyhow) (download (as_presign st) (as_store st) (v_artifact_key row))) (\<lambda>d.
       ret (download_reply x (v_format row) d)))))"

text \<open>The extraction runs on the blocking pool: the task may be lost, then its join fails.\<close>

definition spawn_blocking :: "'a \<Rightarrow> (unit, 'a) act" where
  "spawn_blocking a e w =
     (if outcome_at e (tick w) = Served then Inr a else Inl (), w\<lparr>tick := Suc (tick w)\<rparr>)"

definition get_file ::
  "('x read_ext_scheme) \<Rightarrow> artifact_state \<Rightarrow> string \<Rightarrow> string \<Rightarrow> string \<Rightarrow> string \<Rightarrow> reply handler" where
  "get_file x st org_slug name ver path =
     bind_a (find_org org_slug) (\<lambda>org_row.
     bind_a (find_package org_row name) (\<lambda>pkg.
     bind_a (find_version pkg ver) (\<lambda>row.
     bind_a (map_err (\<lambda>_. from_anyhow) (get_bytes (as_store st) (v_artifact_key row))) (\<lambda>archive.
     bind_a (map_err (\<lambda>_. from_anyhow) (spawn_blocking
       (extract_file (as_archives st) (as_inflated_flag st) archive (artifact_format x (v_format row)) path))) (\<lambda>extracted.
     bind_a (lift (map_error (from_extract_error (as_inflated_flag st)) extracted)) (\<lambda>found.
     bind_a (lift (ok_or (not_found ''file'') found)) (\<lambda>body.
       ret \<lparr>re_status = 200, re_headers = served_file_headers path, re_body = body\<rparr>)))))))"

subsection \<open>Private artifacts\<close>

lemma find_membership_Inr:
  "find_membership read user refs e w = (Inr u, w') \<Longrightarrow>
     \<exists>p\<in>set refs. member_of read (cp_org_id p) (cp_project_id p) user"
proof (induction refs arbitrary: w)
  case (Cons p refs)
  then show ?case
    by (auto simp: bind_a_Inr_iff plane_read_iff member_of_def split: if_splits option.splits)
qed (simp add: throw_def)

lemma find_membership_Inl:
  "find_membership read user refs e w = (Inl err, w') \<Longrightarrow>
     err = not_found ''artifact'' \<or> (\<exists>orm. err = map_orm_error orm)"
proof (induction refs arbitrary: w)
  case (Cons p refs)
  show ?case
  proof (cases "org_role_for_user read (tick w) (cp_org_id p) user")
    case (Inl orm)
    then show ?thesis
      using Cons.prems by (auto simp: bind_a_def map_err_def plane_read_def)
  next
    case org: (Inr role)
    show ?thesis
    proof (cases "role = None \<and> cp_project_id p \<noteq> None")
      case False
      then show ?thesis
        using Cons org by (auto simp: bind_a_def map_err_def plane_read_def ret_def split: if_splits)
    next
      case True
      then obtain project where "cp_project_id p = Some project" by blast
      with True org Cons show ?thesis
        by (cases "project_role_for_user read (Suc (tick w)) project user")
           (auto simp: bind_a_def map_err_def plane_read_def ret_def split: if_splits)
    qed
  qed
qed (simp add: throw_def)

lemma authorize_artifact_read_Inr:
  assumes "authorize_artifact_read x st headers sha256 e w = (Inr u, w')"
    and "as_registry_read st = Some read" and "packages_for_artifact read (tick w) sha256 = Inr refs"
    and "artifact_requires_private_authorization refs"
  shows "\<exists>reader user t. require_package_reader x (as_auth_client st) (as_audience st) headers = Inr reader
    \<and> user_by_subject read t (si_realm (session reader)) (si_subject (session reader)) = Inr (Some user)
    \<and> (\<exists>p\<in>set refs. member_of read (cp_org_id p) (cp_project_id p) user)"
proof -
  obtain reader user w1 where reader: "require_package_reader x (as_auth_client st) (as_audience st) headers = Inr reader"
      and user: "user_by_subject read (Suc (tick w)) (si_realm (session reader)) (si_subject (session reader)) = Inr (Some user)"
      and found: "find_membership read user refs e w1 = (Inr u, w')"
    using assms
    by (auto simp: authorize_artifact_read_def bind_a_Inr_iff plane_read_iff throw_def lift_def ok_or_def
        split: option.splits)
  show ?thesis
    using reader user find_membership_Inr [OF found] by blast
qed

text \<open>C36. A private artifact is downloaded by members only: when every canonical package that refers to
  the digest is non-public, a download succeeds only with a session-backed delegated reader token
  whose user is a member of the organisation or of the owning project of one of those packages.
  Without such a membership the refusal is the 404 of an unknown artifact, whatever object is
  stored.\<close>

theorem private_artifacts_are_for_members:
  assumes "as_registry_read st = Some read" and "packages_for_artifact read (tick w) sha256 = Inr refs"
    and "artifact_requires_private_authorization refs"
  shows "(\<forall>reply w'. get_artifact x st headers sha256 e w = (Inr reply, w') \<longrightarrow>
      (\<exists>reader user t. require_package_reader x (as_auth_client st) (as_audience st) headers = Inr reader
         \<and> user_by_subject read t (si_realm (session reader)) (si_subject (session reader)) = Inr (Some user)
         \<and> (\<exists>p\<in>set refs. member_of read (cp_org_id p) (cp_project_id p) user)))
    \<and> (\<forall>reader user. require_package_reader x (as_auth_client st) (as_audience st) headers = Inr reader \<longrightarrow>
         (\<forall>t. user_by_subject read t (si_realm (session reader)) (si_subject (session reader)) = Inr (Some user)) \<longrightarrow>
         (\<forall>p\<in>set refs. \<forall>t. org_role_for_user read t (cp_org_id p) user = Inr None
            \<and> (\<forall>project. cp_project_id p = Some project \<longrightarrow> project_role_for_user read t project user = Inr None)) \<longrightarrow>
         fst (get_artifact x st headers sha256 e w) = Inl (not_found ''artifact''))"
proof (intro conjI allI impI)
  fix reply w'
  assume "get_artifact x st headers sha256 e w = (Inr reply, w')"
  then obtain u w1 where "authorize_artifact_read x st headers sha256 e w = (Inr u, w1)"
    by (auto simp: get_artifact_def bind_a_Inr_iff)
  then show "\<exists>reader user t. require_package_reader x (as_auth_client st) (as_audience st) headers = Inr reader
         \<and> user_by_subject read t (si_realm (session reader)) (si_subject (session reader)) = Inr (Some user)
         \<and> (\<exists>p\<in>set refs. member_of read (cp_org_id p) (cp_project_id p) user)"
    using authorize_artifact_read_Inr assms by blast
next
  fix reader user
  assume reader: "require_package_reader x (as_auth_client st) (as_audience st) headers = Inr reader"
    and user: "\<forall>t. user_by_subject read t (si_realm (session reader)) (si_subject (session reader)) = Inr (Some user)"
    and none: "\<forall>p\<in>set refs. \<forall>t. org_role_for_user read t (cp_org_id p) user = Inr None
            \<and> (\<forall>project. cp_project_id p = Some project \<longrightarrow> project_role_for_user read t project user = Inr None)"
  have none: "\<exists>w''. find_membership read user ps e v = (Inl (not_found ''artifact''), w'')" if "set ps \<subseteq> set refs" for ps v
    using that
  proof (induction ps arbitrary: v)
    case (Cons p ps)
    then show ?case
      using none by (auto simp: bind_a_def map_err_def plane_read_def split: option.split)
  qed (simp add: throw_def)
  obtain w'' where "find_membership read user refs e (w\<lparr>tick := Suc (Suc (tick w))\<rparr>) = (Inl (not_found ''artifact''), w'')"
    using none [of refs "w\<lparr>tick := Suc (Suc (tick w))\<rparr>"] by blast
  then show "fst (get_artifact x st headers sha256 e w) = Inl (not_found ''artifact'')"
    using assms reader user
    by (simp add: get_artifact_def authorize_artifact_read_def bind_a_def map_err_def plane_read_def lift_def ok_or_def)
qed

end
