(* ===== verification/ArtifactLaws.thy ===== *)
theory ArtifactLaws
  imports Artifacts PublishEffect
begin

section \<open>What a download gives\<close>

text \<open>
  The bytes of a download are the ones whose digest the client asked for, given the invariant that
  publishing maintains; the single-file route does not check membership, unlike the download.
\<close>

lemma keeps_artifact_authorization:
  assumes "\<And>e w. R e \<Longrightarrow> P e w \<Longrightarrow> P e (w\<lparr>tick := Suc (tick w)\<rparr>)"
  shows "keeps R P (authorize_artifact_read x st headers sha256)"
proof -
  note read = keeps_plane_read [where R = R and P = P, OF assms]
  have "keeps R P (find_membership r user refs)" for r user refs
    by (induction refs) (simp_all only: find_membership.simps, (intro keep_rules read)+)
  then show ?thesis
    unfolding authorize_artifact_read_def by (intro keep_rules read)
qed

lemma download_stored:
  assumes "download presign store key e w = (Inr d, w')" and "store_rely x e"
    and "stored x (object_name store key) b e w"
  shows "(case d of Redirect _ \<Rightarrow> True | DownloadBytes bytes \<Rightarrow> bytes = content b
    | DownloadFile bytes len \<Rightarrow> bytes = content b \<and> len = length (content b))"
proof -
  have "look (objects (store_settle e w)) (object_name store key) = Some b"
    using kept.keep_store [OF assms(2,3)] by (simp add: stored_def)
  then show ?thesis
    using assms(1)
    by (cases store)
       (auto simp: download_def locked_def fs_open_def request_Inr_iff bind_a_Inr_iff lift_def object_name_def
          map_sum_def split: option.splits sum.splits prod.splits)
qed

text \<open>C37. A download is what its name says: when every stored version row has its bytes (the invariant of
  publishing) and no other session rewrites version rows meanwhile, a download that answers with a
  body answers with bytes whose SHA-256 is the digest of the URL, and announces their length.\<close>

theorem download_has_the_named_digest:
  assumes "get_artifact x st headers sha256 e w = (Inr reply, w')" and "store_rely x e" and "leaves_versions e"
    and "txn w = None" and "\<forall>v\<in>set (versions (committed w)). row_backed x (as_store st) v w"
  shows "re_status reply = 302
    \<or> re_status reply = 200 \<and> sha256_hex x (re_body reply) = sha256
      \<and> map_of (re_headers reply) ''content-length'' = Some (show_nat (length (re_body reply)))"
proof -
  obtain u w1 row d where auth: "authorize_artifact_read x st headers sha256 e w = (Inr u, w1)"
      and found: "version_by_sha sha256 (view (settle e w1)) = Some row"
      and dl: "download (as_presign st) (as_store st) (v_artifact_key row) e (settle e w1) = (Inr d, w')"
      and reply: "reply = download_reply x (v_format row) d"
    using assms(1) by (auto simp: get_artifact_def bind_a_Inr_iff query_Inr_iff)
  let ?P = "\<lambda>(e::env) v. versions (committed v) = versions (committed w) \<and> txn v = None"
  have same: "versions (committed w1) = versions (committed w) \<and> txn w1 = None"
    using keepsD [OF keeps_artifact_authorization [of "\<lambda>_. True" ?P] _ _ auth] assms(4) by simp
  then have "view (settle e w1) = committed (settle e w1)"
    by simp
  then have "row \<in> set (versions (committed w))" "v_sha256 row = sha256"
    using found same quiet_settle [OF assms(3), of w1] by (auto simp: version_by_sha_def dest: find_Some_iff')
  then obtain b where ns: "\<not> is_staging x (object_name (as_store st) (v_artifact_key row))"
      and b: "look (objects w) (object_name (as_store st) (v_artifact_key row)) = Some b" "sha256_hex x (content b) = sha256"
    using assms(5) by (auto simp: row_backed_def)
  let ?S = "stored x (object_name (as_store st) (v_artifact_key row)) b"
  have "?S e w1"
    using keepsD [OF keeps_artifact_authorization [of "store_rely x" ?S] assms(2) _ auth] kept.keep_tick ns b
    by (simp add: stored_def)
  then have "?S e (settle e w1)"
    by (simp add: stored_def)
  from download_stored [OF dl assms(2) this] b reply show ?thesis
    by (cases d) (auto simp: body_headers_def)
qed

text \<open>The single-file route does not know about visibility: for an artifact that only private packages
  refer to, a request without a token is refused the archive, but the route that serves single files
  out of the very same archive answers the same whatever the canonical plane says.\<close>

theorem file_route_ignores_visibility:
  assumes "as_registry_read st = Some read" and "packages_for_artifact read (tick w) sha256 = Inr refs"
    and "artifact_requires_private_authorization refs" and "bearer_token headers = None"
  shows "fst (get_artifact x st headers sha256 e w) = Inl unauthorized
    \<and> get_file x (st\<lparr>as_registry_read := other\<rparr>) = get_file x st"
  using assms
  by (simp add: get_artifact_def authorize_artifact_read_def bind_a_def map_err_def plane_read_def lift_def ok_or_def
      require_package_reader_def introspect_def bind_r_def get_file_def fun_eq_iff)

subsection \<open>Examples\<close>

definition private_1 :: canonical_package where
  "private_1 = \<lparr>cp_id = 41, cp_org_id = 42, cp_project_id = None, cp_visibility = ''private''\<rparr>"

definition read_1 :: registry_read where
  "read_1 = \<lparr>package_by_org_and_name = (\<lambda>_ _ _. Inr (Some (private_1, 42))),
     package_version_by = (\<lambda>_ _ _. Inr (Some JNull)), packages_for_artifact = (\<lambda>_ _. Inr [private_1]),
     user_by_subject = (\<lambda>_ _ _. Inr (Some 9)), org_role_for_user = (\<lambda>_ _ _. Inr None),
     project_role_for_user = (\<lambda>_ _ _. Inr None)\<rparr>"

definition archives_1 :: archive_ext where
  "archives_1 = \<lparr>gz_decode = (\<lambda>s. \<lparr>s_bytes = s, s_end = None\<rparr>),
     tar_entries = (\<lambda>s. Inr [Inr \<lparr>te_path = Inr ''pkg/a.html'', te_size = 2, te_body = \<lparr>s_bytes = s_bytes s, s_end = None\<rparr>\<rparr>]),
     zip_open = (\<lambda>_. Inl FileNotFound), ARCHIVE_ROOT = ''pkg''\<rparr>"

definition astate_1 :: artifact_state where
  "astate_1 = \<lparr>as_store = Memory 10, as_presign = (\<lambda>_ _ _ _. None), as_registry_read = Some read_1,
     as_auth_client = None, as_audience = ''a'', as_inflated_flag = None, as_archives = archives_1\<rparr>"

definition world_f :: world where
  "world_f = (start db_3)\<lparr>objects := [(''k'', plain_blob ''zz'')]\<rparr>"

lemma world_f_sel [simp]: "committed world_f = db_3" "txn world_f = None" "tick world_f = 0"
  "objects world_f = [(''k'', plain_blob ''zz'')]"
  by (simp_all add: world_f_def start_def)

theorem extraction_is_bounded_witness:
  "extract_file archives_1 None ''zz'' ''tgz'' ''a.html'' = Inr (Some ''zz'') \<and> length ''zz'' \<le> MAX_SERVED_FILE_BYTES"
proof -
  have flag: "max_inflated_bytes None = 536870912"
    by (simp add: max_inflated_bytes_def DEFAULT_MAX_INFLATED_BYTES_def)
  then have run: "extract_file archives_1 None ''zz'' ''tgz'' ''a.html'' = Inr (Some ''zz'')"
    by (simp add: extract_file_def extract_tar_def archives_1_def budgeted_def saturating_add_def u64_max_def
        MAX_SERVED_FILE_BYTES_def read_capped_def)
  moreover have "max_inflated_bytes None < u64_max"
    by (simp add: flag u64_max_def)
  ultimately show ?thesis
    using extraction_is_bounded [of None archives_1 "''zz''" "''tgz''" "''a.html''" "''zz''"] by blast
qed

lemma plane_1: "as_registry_read astate_1 = Some read_1" "packages_for_artifact read_1 t s = Inr [private_1]"
  "artifact_requires_private_authorization [private_1]" "bearer_token [] = None"
  by (simp_all add: astate_1_def read_1_def private_1_def artifact_requires_private_authorization_def bearer_token_def)

theorem file_route_ignores_visibility_witness:
  "fst (get_artifact toy_reads astate_1 [] ''a'' calm world_f) = Inl unauthorized
   \<and> get_file toy_reads (astate_1\<lparr>as_registry_read := None\<rparr>) = get_file toy_reads astate_1"
  by (rule file_route_ignores_visibility [OF plane_1])

theorem private_artifacts_are_for_members_witness:
  "\<not> (\<exists>reply w'. get_artifact toy_reads astate_1 [] ''a'' calm world_f = (Inr reply, w'))"
proof -
  have "require_package_reader toy_reads (as_auth_client astate_1) (as_audience astate_1) [] = Inl unauthorized"
    by (simp add: require_package_reader_def introspect_def bind_r_def ok_or_def plane_1)
  then show ?thesis
    using private_artifacts_are_for_members [OF plane_1(1-3), where x = toy_reads and headers = "[]" and e = calm and w = world_f]
    by auto
qed

definition ver_f :: version_row where
  "ver_f = ver_1\<lparr>v_sha256 := replicate 64 (CHR ''a''), v_size := 2\<rparr>"

definition astate_2 :: artifact_state where
  "astate_2 = astate_1\<lparr>as_registry_read := Some (read_1\<lparr>packages_for_artifact := \<lambda>_ _. Inr []\<rparr>)\<rparr>"

definition world_d :: world where
  "world_d = (start (db_3\<lparr>versions := [ver_f]\<rparr>))\<lparr>objects := [(''k'', plain_blob ''zz'')]\<rparr>"

lemma ver_f_sel: "v_sha256 ver_f = replicate 64 (CHR ''a'')" "v_artifact_key ver_f = ''k''" "v_size ver_f = 2"
  by (simp_all add: ver_f_def ver_1_def)

lemma download_run:
  "\<exists>reply w'. get_artifact toy_reads astate_2 [] (replicate 64 (CHR ''a'')) calm world_d = (Inr reply, w')
     \<and> re_status reply = 200 \<and> re_body reply = ''zz''"
proof -
  have "authorize_artifact_read toy_reads astate_2 [] (replicate 64 (CHR ''a'')) calm world_d = (Inr (), world_d\<lparr>tick := Suc (tick world_d)\<rparr>)"
    by (simp add: authorize_artifact_read_def astate_2_def bind_a_def map_err_def plane_read_def ret_def lift_def ok_or_def
        artifact_requires_private_authorization_def)
  moreover have "as_store astate_2 = Memory 10"
    by (simp add: astate_2_def astate_1_def)
  ultimately show ?thesis
    by (simp add: get_artifact_def bind_a_def sql_def map_err_def query_def calm_settle version_by_sha_def ver_f_sel
        world_d_def start_def view_def pending_def lift_def ok_or_def download_def locked_def calm_store look_def
        plain_blob_def ret_def Let_def)
qed

theorem download_has_the_named_digest_witness:
  "\<exists>reply w'. get_artifact toy_reads astate_2 [] (replicate 64 (CHR ''a'')) calm world_d = (Inr reply, w')
     \<and> re_status reply = 200 \<and> sha256_hex toy_reads (re_body reply) = replicate 64 (CHR ''a'')"
proof -
  obtain reply w' where run: "get_artifact toy_reads astate_2 [] (replicate 64 (CHR ''a'')) calm world_d = (Inr reply, w')"
      "re_status reply = 200"
    using download_run by blast
  have "\<not> is_staging toy_reads ''k''"
    by (simp add: is_staging_def staging_path_def)
  moreover have "sha256_hex toy_reads s = replicate 64 (CHR ''a'')" for s
    by (simp add: toy_reads_def publish_ext.defs)
  ultimately have "\<forall>v\<in>set (versions (committed world_d)). row_backed toy_reads (as_store astate_2) v world_d"
    by (simp add: world_d_def start_def row_backed_def ver_f_sel astate_2_def astate_1_def object_name_def look_def plain_blob_def
        as_i64_def)
  from download_has_the_named_digest [OF run(1) calm_store(1) _ _ this] run show ?thesis
    by (simp add: leaves_versions_def world_d_def)
qed

end
