(* ===== verification/GraphTypes.thy ===== *)
theory GraphTypes
  imports Auth
begin

section \<open>Dependency graph documents\<close>

text \<open>
  The document types of the contract crate (\<^verbatim>\<open>zpkg/dependency-graph/v1\<close>), member by member as
  \<^verbatim>\<open>src/proto/zpkg_dependency_graph_v1.proto\<close> lists them, and the names and codes the export formats
  spell their enumerations with (\<^verbatim>\<open>src/routes/graph_exports/mod.rs\<close>).
\<close>

record package_version_identity =
  pi_registry :: string
  pi_org :: string
  pi_name :: string
  pi_version :: string

datatype dependency_kind = Runtime | Build | Development | Peer | Tooling

record declared_dependency =
  dd_registry :: string
  dd_org :: string
  dd_name :: string
  dd_requirement :: string
  dd_kind :: dependency_kind
  dd_optional :: bool
  dd_default_features :: bool
  dd_features :: "string list"
  dd_target :: "string option"

record resolved_node =
  rn_id :: package_version_identity
  rn_digest :: "string option"
  rn_features :: "string list"

record resolved_edge =
  ed_from :: package_version_identity
  ed_to :: package_version_identity
  ed_kind :: dependency_kind
  ed_requirement :: "string option"
  ed_target :: "string option"
  ed_optional :: bool
  ed_features :: "string list"

record registry_snapshot =
  rs_registry :: string
  rs_checkpoint :: string

record resolution_provenance =
  rp_resolver :: string
  rp_target :: string
  rp_features :: "string list"
  rp_snapshots :: "registry_snapshot list"
  rp_lock :: string

datatype completeness = Complete | Projected

record graph_projection =
  gp_target :: "string option"
  gp_features :: "string list"
  gp_kinds :: "dependency_kind list"
  gp_max_depth :: "nat option"

datatype graph_data =
    Declared package_version_identity "declared_dependency list"
  | Resolved completeness "package_version_identity list" "resolved_node list" "resolved_edge list"
      resolution_provenance "string option" "graph_projection option"

record graph_document =
  gd_schema :: string
  gd_graph :: graph_data
  gd_digest :: "string option"

text \<open>The representations a graph is served in (contract crate).\<close>

datatype graph_format = Json | Yaml | Toml | Dot | Mermaid

datatype export_format = Json5 | XmlDoc | CsvTable | MsgPack | ProtobufMessage

text \<open>The members of a stored manifest the graph is built from; both tables are sorted by key.\<close>

record graph_manifest =
  gm_org :: string
  gm_name :: string
  gm_version :: string
  gm_scheme :: string
  gm_dependencies :: "(string \<times> string) list"
  gm_build_dependencies :: "(string \<times> string) list"

fun dependency_kind_code :: "dependency_kind \<Rightarrow> nat" where
  "dependency_kind_code Runtime = 1"
| "dependency_kind_code Build = 2"
| "dependency_kind_code Development = 3"
| "dependency_kind_code Peer = 4"
| "dependency_kind_code Tooling = 5"

fun dependency_kind_name :: "dependency_kind \<Rightarrow> string" where
  "dependency_kind_name Runtime = ''runtime''"
| "dependency_kind_name Build = ''build''"
| "dependency_kind_name Development = ''development''"
| "dependency_kind_name Peer = ''peer''"
| "dependency_kind_name Tooling = ''tooling''"

fun completeness_code :: "completeness \<Rightarrow> nat" where
  "completeness_code Complete = 1"
| "completeness_code Projected = 2"

fun completeness_name :: "completeness \<Rightarrow> string" where
  "completeness_name Complete = ''complete''"
| "completeness_name Projected = ''projected''"

definition bool_name :: "bool \<Rightarrow> string" where
  "bool_name v = (if v then ''true'' else ''false'')"

end
