(* ===== verification/Protobuf.thy ===== *)
theory Protobuf
  imports GraphTypes
begin

section \<open>The Protocol Buffers projection (\<^verbatim>\<open>src/routes/graph_exports/protobuf.rs\<close>)\<close>

text \<open>
  The encoder appends to an output buffer; the model gives the bytes each function appends. The
  reader of the wire format is the one the source's tests use (\<open>protobuf\_fields\<close>), a truncated
  input being no message; on top of it, typed readers follow the schema file. The projection is
  lossless: every document is read back from its encoding.
\<close>

subsection \<open>Encoding\<close>

fun proto_varint :: "nat \<Rightarrow> string" where
  "proto_varint v = (if 128 \<le> v then char_of (v mod 128 + 128) # proto_varint (v div 128) else [char_of v])"

declare proto_varint.simps [simp del]

definition proto_u64 :: "nat \<Rightarrow> nat \<Rightarrow> string" where
  "proto_u64 field v = proto_varint (8 * field) @ proto_varint v"

definition proto_message :: "nat \<Rightarrow> string \<Rightarrow> string" where
  "proto_message field v = proto_varint (8 * field + 2) @ proto_varint (length v) @ v"

definition proto_string :: "nat \<Rightarrow> string \<Rightarrow> string" where
  "proto_string field v = proto_message field v"

definition proto_enum :: "nat \<Rightarrow> nat \<Rightarrow> string" where
  "proto_enum field v = proto_u64 field v"

definition proto_bool :: "nat \<Rightarrow> bool \<Rightarrow> string" where
  "proto_bool field v = (if v then proto_u64 field 1 else [])"

definition proto_opt :: "('a \<Rightarrow> string) \<Rightarrow> 'a option \<Rightarrow> string" where
  "proto_opt enc v = (case v of None \<Rightarrow> [] | Some a \<Rightarrow> enc a)"

definition proto_each :: "('a \<Rightarrow> string) \<Rightarrow> 'a list \<Rightarrow> string" where
  "proto_each enc vs = concat (map enc vs)"

definition proto_identity :: "package_version_identity \<Rightarrow> string" where
  "proto_identity i =
     proto_string 1 (pi_registry i) @ proto_string 2 (pi_org i) @ proto_string 3 (pi_name i) @ proto_string 4 (pi_version i)"

definition proto_declared_dependency :: "declared_dependency \<Rightarrow> string" where
  "proto_declared_dependency d =
     proto_string 1 (dd_registry d) @ proto_string 2 (dd_org d) @ proto_string 3 (dd_name d)
     @ proto_string 4 (dd_requirement d) @ proto_enum 5 (dependency_kind_code (dd_kind d))
     @ proto_bool 6 (dd_optional d) @ proto_bool 7 (dd_default_features d)
     @ proto_each (proto_string 8) (dd_features d) @ proto_opt (proto_string 9) (dd_target d)"

definition proto_resolved_node :: "resolved_node \<Rightarrow> string" where
  "proto_resolved_node n =
     proto_message 1 (proto_identity (rn_id n)) @ proto_opt (proto_string 2) (rn_digest n)
     @ proto_each (proto_string 3) (rn_features n)"

definition proto_resolved_edge :: "resolved_edge \<Rightarrow> string" where
  "proto_resolved_edge e =
     proto_message 1 (proto_identity (ed_from e)) @ proto_message 2 (proto_identity (ed_to e))
     @ proto_enum 3 (dependency_kind_code (ed_kind e)) @ proto_opt (proto_string 4) (ed_requirement e)
     @ proto_opt (proto_string 5) (ed_target e) @ proto_bool 6 (ed_optional e)
     @ proto_each (proto_string 7) (ed_features e)"

definition proto_snapshot :: "registry_snapshot \<Rightarrow> string" where
  "proto_snapshot s = proto_string 1 (rs_registry s) @ proto_string 2 (rs_checkpoint s)"

definition proto_provenance :: "resolution_provenance \<Rightarrow> string" where
  "proto_provenance p =
     proto_string 1 (rp_resolver p) @ proto_string 2 (rp_target p) @ proto_each (proto_string 3) (rp_features p)
     @ proto_each (\<lambda>s. proto_message 4 (proto_snapshot s)) (rp_snapshots p) @ proto_string 5 (rp_lock p)"

definition proto_projection :: "graph_projection \<Rightarrow> string" where
  "proto_projection p =
     proto_opt (proto_string 1) (gp_target p) @ proto_each (proto_string 2) (gp_features p)
     @ proto_each (\<lambda>k. proto_enum 3 (dependency_kind_code k)) (gp_kinds p) @ proto_opt (proto_u64 4) (gp_max_depth p)"

fun proto_graph :: "graph_data \<Rightarrow> string" where
  "proto_graph (Declared package dependencies) =
     proto_message 10 (proto_message 1 (proto_identity package)
       @ proto_each (\<lambda>d. proto_message 2 (proto_declared_dependency d)) dependencies)"
| "proto_graph (Resolved c roots nodes edges provenance parent projection) =
     proto_message 11 (proto_enum 1 (completeness_code c)
       @ proto_each (\<lambda>r. proto_message 2 (proto_identity r)) roots
       @ proto_each (\<lambda>n. proto_message 3 (proto_resolved_node n)) nodes
       @ proto_each (\<lambda>e. proto_message 4 (proto_resolved_edge e)) edges
       @ proto_message 5 (proto_provenance provenance)
       @ proto_opt (proto_string 6) parent
       @ proto_opt (\<lambda>p. proto_message 7 (proto_projection p)) projection)"

definition encode_protobuf :: "graph_document \<Rightarrow> string" where
  "encode_protobuf d =
     proto_string 1 (gd_schema d) @ proto_opt (proto_string 2) (gd_digest d) @ proto_graph (gd_graph d)"

subsection \<open>Reading the wire format\<close>

datatype wire = Varint nat | Bytes string

fun read_varint :: "string \<Rightarrow> (nat \<times> string) option" where
  "read_varint [] = None"
| "read_varint (c # s) =
     (if byte_of c < 128 then Some (byte_of c, s)
      else map_option (\<lambda>(v, rest). (byte_of c - 128 + 128 * v, rest)) (read_varint s))"

lemma read_varint_shorter: "read_varint s = Some (v, rest) \<Longrightarrow> length rest < length s"
  by (induction s arbitrary: v rest) (fastforce split: if_splits)+

function proto_fields :: "string \<Rightarrow> (nat \<times> wire) list option" where
  "proto_fields s =
     (if s = [] then Some []
      else case read_varint s of
             None \<Rightarrow> None
           | Some (key, rest) \<Rightarrow>
               (case read_varint rest of
                  None \<Rightarrow> None
                | Some (v, rest') \<Rightarrow>
                    if key mod 8 = 0 then map_option (Cons (key div 8, Varint v)) (proto_fields rest')
                    else if key mod 8 = 2 \<and> v \<le> length rest'
                      then map_option (Cons (key div 8, Bytes (take v rest'))) (proto_fields (drop v rest'))
                    else None))"
  by pat_completeness auto
termination
  by (relation "measure length") (auto dest!: read_varint_shorter)

declare proto_fields.simps [simp del]

fun proto_field :: "nat \<times> wire \<Rightarrow> string" where
  "proto_field (field, Varint v) = proto_u64 field v"
| "proto_field (field, Bytes b) = proto_message field b"

lemma read_proto_varint: "read_varint (proto_varint v @ rest) = Some (v, rest)"
proof (induction v rule: proto_varint.induct)
  case (1 v)
  show ?case
  proof (cases "128 \<le> v")
    case True
    have "v mod 128 < 128" by simp
    then show ?thesis
      using 1 True by (simp add: proto_varint.simps [of v] byte_of_def)
  next
    case False
    then show ?thesis by (simp add: proto_varint.simps [of v] byte_of_def)
  qed
qed

lemma proto_varint_not_Nil [simp]: "proto_varint v \<noteq> []"
  by (simp add: proto_varint.simps [of v])

lemma proto_fields_Cons:
  "proto_fields (proto_field f @ rest) = map_option (Cons f) (proto_fields rest)"
proof (cases f)
  case (Pair n w)
  show ?thesis
  proof (cases w)
    case (Varint v)
    then show ?thesis
      using Pair by (subst proto_fields.simps) (simp add: proto_u64_def read_proto_varint)
  next
    case (Bytes b)
    have "(8 * n + 2) mod 8 = 2" "(8 * n + 2) div 8 = n"
      by presburger+
    then show ?thesis
      using Pair Bytes by (subst proto_fields.simps) (simp add: proto_message_def read_proto_varint)
  qed
qed

lemma proto_fields_all: "proto_fields (concat (map proto_field fs)) = Some fs"
  by (induction fs) (simp_all add: proto_fields_Cons, simp add: proto_fields.simps)

subsection \<open>Reading the messages\<close>

text \<open>The values of a field, in order; a singular field takes the last one, or its default.\<close>

definition strings_at :: "nat \<Rightarrow> (nat \<times> wire) list \<Rightarrow> string list" where
  "strings_at n fs = concat (map (\<lambda>(m, w). case w of Bytes b \<Rightarrow> if m = n then [b] else [] | Varint _ \<Rightarrow> []) fs)"

definition ints_at :: "nat \<Rightarrow> (nat \<times> wire) list \<Rightarrow> nat list" where
  "ints_at n fs = concat (map (\<lambda>(m, w). case w of Varint v \<Rightarrow> if m = n then [v] else [] | Bytes _ \<Rightarrow> []) fs)"

definition last_opt :: "'a list \<Rightarrow> 'a option" where
  "last_opt xs = (if xs = [] then None else Some (last xs))"

definition string_at :: "nat \<Rightarrow> (nat \<times> wire) list \<Rightarrow> string" where
  "string_at n fs = (case last_opt (strings_at n fs) of None \<Rightarrow> [] | Some b \<Rightarrow> b)"

definition bool_at :: "nat \<Rightarrow> (nat \<times> wire) list \<Rightarrow> bool" where
  "bool_at n fs = (case last_opt (ints_at n fs) of None \<Rightarrow> False | Some v \<Rightarrow> v \<noteq> 0)"

definition read_message :: "((nat \<times> wire) list \<Rightarrow> 'a option) \<Rightarrow> string \<Rightarrow> 'a option" where
  "read_message dec b = Option.bind (proto_fields b) dec"

definition message_at :: "((nat \<times> wire) list \<Rightarrow> 'a option) \<Rightarrow> nat \<Rightarrow> (nat \<times> wire) list \<Rightarrow> 'a option" where
  "message_at dec n fs = Option.bind (last_opt (strings_at n fs)) (read_message dec)"

definition messages_at :: "((nat \<times> wire) list \<Rightarrow> 'a option) \<Rightarrow> nat \<Rightarrow> (nat \<times> wire) list \<Rightarrow> 'a list option" where
  "messages_at dec n fs = those (map (read_message dec) (strings_at n fs))"

definition kind_of_code :: "nat \<Rightarrow> dependency_kind option" where
  "kind_of_code n = map_of [(1, Runtime), (2, Build), (3, Development), (4, Peer), (5, Tooling)] n"

definition completeness_of_code :: "nat \<Rightarrow> completeness option" where
  "completeness_of_code n = map_of [(1, Complete), (2, Projected)] n"

definition kind_at :: "nat \<Rightarrow> (nat \<times> wire) list \<Rightarrow> dependency_kind option" where
  "kind_at n fs = Option.bind (last_opt (ints_at n fs)) kind_of_code"

definition read_identity :: "(nat \<times> wire) list \<Rightarrow> package_version_identity option" where
  "read_identity fs = Some \<lparr>pi_registry = string_at 1 fs, pi_org = string_at 2 fs, pi_name = string_at 3 fs,
     pi_version = string_at 4 fs\<rparr>"

definition read_declared :: "(nat \<times> wire) list \<Rightarrow> declared_dependency option" where
  "read_declared fs = map_option (\<lambda>kind.
     \<lparr>dd_registry = string_at 1 fs, dd_org = string_at 2 fs, dd_name = string_at 3 fs, dd_requirement = string_at 4 fs,
      dd_kind = kind, dd_optional = bool_at 6 fs, dd_default_features = bool_at 7 fs, dd_features = strings_at 8 fs,
      dd_target = last_opt (strings_at 9 fs)\<rparr>) (kind_at 5 fs)"

definition read_node :: "(nat \<times> wire) list \<Rightarrow> resolved_node option" where
  "read_node fs = map_option (\<lambda>i. \<lparr>rn_id = i, rn_digest = last_opt (strings_at 2 fs), rn_features = strings_at 3 fs\<rparr>)
     (message_at read_identity 1 fs)"

definition read_edge :: "(nat \<times> wire) list \<Rightarrow> resolved_edge option" where
  "read_edge fs = Option.bind (message_at read_identity 1 fs) (\<lambda>source.
     Option.bind (message_at read_identity 2 fs) (\<lambda>target.
     map_option (\<lambda>kind. \<lparr>ed_from = source, ed_to = target, ed_kind = kind, ed_requirement = last_opt (strings_at 4 fs),
       ed_target = last_opt (strings_at 5 fs), ed_optional = bool_at 6 fs, ed_features = strings_at 7 fs\<rparr>) (kind_at 3 fs)))"

definition read_snapshot :: "(nat \<times> wire) list \<Rightarrow> registry_snapshot option" where
  "read_snapshot fs = Some \<lparr>rs_registry = string_at 1 fs, rs_checkpoint = string_at 2 fs\<rparr>"

definition read_provenance :: "(nat \<times> wire) list \<Rightarrow> resolution_provenance option" where
  "read_provenance fs = map_option (\<lambda>snapshots.
     \<lparr>rp_resolver = string_at 1 fs, rp_target = string_at 2 fs, rp_features = strings_at 3 fs,
      rp_snapshots = snapshots, rp_lock = string_at 5 fs\<rparr>) (messages_at read_snapshot 4 fs)"

definition read_projection :: "(nat \<times> wire) list \<Rightarrow> graph_projection option" where
  "read_projection fs = map_option (\<lambda>kinds.
     \<lparr>gp_target = last_opt (strings_at 1 fs), gp_features = strings_at 2 fs, gp_kinds = kinds,
      gp_max_depth = last_opt (ints_at 4 fs)\<rparr>) (those (map kind_of_code (ints_at 3 fs)))"

definition read_declared_graph :: "(nat \<times> wire) list \<Rightarrow> graph_data option" where
  "read_declared_graph fs = Option.bind (message_at read_identity 1 fs) (\<lambda>package.
     map_option (Declared package) (messages_at read_declared 2 fs))"

definition read_resolved_graph :: "(nat \<times> wire) list \<Rightarrow> graph_data option" where
  "read_resolved_graph fs =
     Option.bind (Option.bind (last_opt (ints_at 1 fs)) completeness_of_code) (\<lambda>c.
     Option.bind (messages_at read_identity 2 fs) (\<lambda>roots.
     Option.bind (messages_at read_node 3 fs) (\<lambda>nodes.
     Option.bind (messages_at read_edge 4 fs) (\<lambda>edges.
     Option.bind (message_at read_provenance 5 fs) (\<lambda>provenance.
     Option.bind (case strings_at 7 fs of [] \<Rightarrow> Some None | _ \<Rightarrow> map_option Some (message_at read_projection 7 fs)) (\<lambda>projection.
       Some (Resolved c roots nodes edges provenance (last_opt (strings_at 6 fs)) projection)))))))"

definition read_document :: "(nat \<times> wire) list \<Rightarrow> graph_document option" where
  "read_document fs = map_option (\<lambda>g. \<lparr>gd_schema = string_at 1 fs, gd_graph = g, gd_digest = last_opt (strings_at 2 fs)\<rparr>)
     (if strings_at 11 fs \<noteq> [] then message_at read_resolved_graph 11 fs else message_at read_declared_graph 10 fs)"

subsection \<open>The encoders as lists of fields\<close>

lemma at_simps [simp]:
  "strings_at n [] = []" "ints_at n [] = []"
  "strings_at n ((m, Bytes b) # fs) = (if m = n then b # strings_at n fs else strings_at n fs)"
  "strings_at n ((m, Varint v) # fs) = strings_at n fs"
  "ints_at n ((m, Varint v) # fs) = (if m = n then v # ints_at n fs else ints_at n fs)"
  "ints_at n ((m, Bytes b) # fs) = ints_at n fs"
  "strings_at n (fs @ gs) = strings_at n fs @ strings_at n gs"
  "ints_at n (fs @ gs) = ints_at n fs @ ints_at n gs"
  by (simp_all add: strings_at_def ints_at_def)

lemma at_map [simp]:
  "strings_at n (map (\<lambda>a. (m, Bytes (f a))) xs) = (if m = n then map f xs else [])"
  "strings_at n (map (\<lambda>a. (m, Varint (g a))) xs) = []"
  "ints_at n (map (\<lambda>a. (m, Varint (g a))) xs) = (if m = n then map g xs else [])"
  "ints_at n (map (\<lambda>a. (m, Bytes (f a))) xs) = []"
  by (induction xs) auto

definition opt_field :: "nat \<Rightarrow> ('a \<Rightarrow> wire) \<Rightarrow> 'a option \<Rightarrow> (nat \<times> wire) list" where
  "opt_field n f v = (case v of None \<Rightarrow> [] | Some a \<Rightarrow> [(n, f a)])"

lemma at_opt [simp]:
  "strings_at n (opt_field m (\<lambda>a. Bytes (f a)) v) = (if m = n then map f (case v of None \<Rightarrow> [] | Some a \<Rightarrow> [a]) else [])"
  "strings_at n (opt_field m (\<lambda>a. Varint (g a)) v) = []"
  "ints_at n (opt_field m (\<lambda>a. Varint (g a)) v) = (if m = n then map g (case v of None \<Rightarrow> [] | Some a \<Rightarrow> [a]) else [])"
  "ints_at n (opt_field m (\<lambda>a. Bytes (f a)) v) = []"
  by (simp_all add: opt_field_def split: option.split)

lemma last_opt_simps [simp]:
  "last_opt [] = None" "last_opt [a] = Some a" "last_opt (case v of None \<Rightarrow> [] | Some a \<Rightarrow> [a]) = v"
  by (simp_all add: last_opt_def split: option.split)

lemma proto_nested_parts:
  "proto_each (proto_string n) bs = concat (map proto_field (map (\<lambda>b. (n, Bytes b)) bs))"
  "proto_each (\<lambda>a. proto_message n (f a)) xs = concat (map proto_field (map (\<lambda>a. (n, Bytes (f a))) xs))"
  "proto_each (\<lambda>a. proto_enum n (g a)) xs = concat (map proto_field (map (\<lambda>a. (n, Varint (g a))) xs))"
  "proto_opt (proto_string n) v = concat (map proto_field (opt_field n (\<lambda>b. Bytes b) v))"
  "proto_opt (proto_u64 n) i = concat (map proto_field (opt_field n (\<lambda>b. Varint b) i))"
  "proto_opt (\<lambda>a. proto_message n (f a)) a = concat (map proto_field (opt_field n (\<lambda>a. Bytes (f a)) a))"
  by (simp_all add: proto_string_def [abs_def] proto_enum_def proto_each_def proto_opt_def opt_field_def o_def
      split: option.split)

lemma proto_single_parts:
  "proto_string n b = concat (map proto_field [(n, Bytes b)])"
  "proto_message n b = concat (map proto_field [(n, Bytes b)])"
  "proto_enum n k = concat (map proto_field [(n, Varint k)])"
  "proto_bool n t = concat (map proto_field (if t then [(n, Varint 1)] else []))"
  by (simp_all add: proto_string_def proto_enum_def proto_bool_def)

lemma proto_concat: "concat (map proto_field fs) @ concat (map proto_field gs) = concat (map proto_field (fs @ gs))"
  by simp

lemma read_message_fields: "b = concat (map proto_field fs) \<Longrightarrow> read_message dec b = dec fs"
  by (simp add: read_message_def proto_fields_all)

lemma those_map_id: "(\<And>a. f (g a) = Some a) \<Longrightarrow> those (map (f \<circ> g) xs) = Some xs"
  by (induction xs) auto


subsection \<open>Every message is read back\<close>

named_theorems read_back \<open>a message is read back from its encoding\<close>

lemma kind_of_kind_code [simp]: "kind_of_code (dependency_kind_code k) = Some k"
  by (cases k) (simp_all add: kind_of_code_def)

lemma completeness_of_completeness_code [simp]: "completeness_of_code (completeness_code c) = Some c"
  by (cases c) (simp_all add: completeness_of_code_def)

lemma read_identity_back [read_back]: "read_message read_identity (proto_identity i) = Some i"
  unfolding proto_identity_def
  unfolding proto_nested_parts unfolding proto_single_parts proto_concat
  by (subst read_message_fields [OF refl]) (simp add: read_identity_def string_at_def)

lemma read_declared_back [read_back]: "read_message read_declared (proto_declared_dependency d) = Some d"
  unfolding proto_declared_dependency_def
  unfolding proto_nested_parts unfolding proto_single_parts proto_concat
  by (subst read_message_fields [OF refl])
     (simp add: read_declared_def string_at_def kind_at_def bool_at_def)

lemma read_node_back [read_back]: "read_message read_node (proto_resolved_node n) = Some n"
  unfolding proto_resolved_node_def
  unfolding proto_nested_parts unfolding proto_single_parts proto_concat
  by (subst read_message_fields [OF refl]) (simp add: read_node_def message_at_def read_back)

lemma read_edge_back [read_back]: "read_message read_edge (proto_resolved_edge e) = Some e"
  unfolding proto_resolved_edge_def
  unfolding proto_nested_parts unfolding proto_single_parts proto_concat
  by (subst read_message_fields [OF refl])
     (simp add: read_edge_def message_at_def kind_at_def bool_at_def read_back)

lemma read_snapshot_back [read_back]: "read_message read_snapshot (proto_snapshot s) = Some s"
  unfolding proto_snapshot_def
  unfolding proto_nested_parts unfolding proto_single_parts proto_concat
  by (subst read_message_fields [OF refl]) (simp add: read_snapshot_def string_at_def)

lemma read_provenance_back [read_back]: "read_message read_provenance (proto_provenance p) = Some p"
  unfolding proto_provenance_def
  unfolding proto_nested_parts unfolding proto_single_parts proto_concat
  by (subst read_message_fields [OF refl])
     (simp add: read_provenance_def string_at_def messages_at_def those_map_id read_back)

lemma read_projection_back [read_back]: "read_message read_projection (proto_projection p) = Some p"
  unfolding proto_projection_def
  unfolding proto_nested_parts unfolding proto_single_parts proto_concat
  by (subst read_message_fields [OF refl]) (simp add: read_projection_def those_map_id)

text \<open>C30. The Protocol Buffers projection is lossless: reading the encoding of any document, declared or
  resolved, with every optional member present or absent, by the wire format and the committed
  schema gives the document back.\<close>

theorem protobuf_round_trip: "read_message read_document (encode_protobuf d) = Some d"
proof (cases "gd_graph d")
  case (Declared package dependencies)
  define body where "body = proto_message 1 (proto_identity package)
       @ proto_each (\<lambda>d. proto_message 2 (proto_declared_dependency d)) dependencies"
  have "read_message read_declared_graph body = Some (gd_graph d)"
    unfolding body_def
    unfolding proto_nested_parts unfolding proto_single_parts proto_concat
    by (subst read_message_fields [OF refl])
       (simp add: read_declared_graph_def message_at_def messages_at_def those_map_id read_back Declared)
  then show ?thesis
    unfolding encode_protobuf_def Declared proto_graph.simps body_def [symmetric]
    unfolding proto_nested_parts unfolding proto_single_parts proto_concat
    by (subst read_message_fields [OF refl]) (simp add: read_document_def string_at_def message_at_def Declared [symmetric])
next
  case (Resolved c roots nodes edges provenance parent projection)
  define body where "body = proto_enum 1 (completeness_code c)
       @ proto_each (\<lambda>r. proto_message 2 (proto_identity r)) roots
       @ proto_each (\<lambda>n. proto_message 3 (proto_resolved_node n)) nodes
       @ proto_each (\<lambda>e. proto_message 4 (proto_resolved_edge e)) edges
       @ proto_message 5 (proto_provenance provenance)
       @ proto_opt (proto_string 6) parent
       @ proto_opt (\<lambda>p. proto_message 7 (proto_projection p)) projection"
  have "read_message read_resolved_graph body = Some (gd_graph d)"
    unfolding body_def
    unfolding proto_nested_parts unfolding proto_single_parts proto_concat
    by (subst read_message_fields [OF refl])
       (cases projection, simp_all add: read_resolved_graph_def message_at_def messages_at_def those_map_id read_back Resolved)
  then show ?thesis
    unfolding encode_protobuf_def Resolved proto_graph.simps body_def [symmetric]
    unfolding proto_nested_parts unfolding proto_single_parts proto_concat
    by (subst read_message_fields [OF refl]) (simp add: read_document_def string_at_def message_at_def Resolved [symmetric])
qed

end
