(* ===== verification/MessagePack.thy ===== *)
theory MessagePack
  imports Auth
begin

section \<open>The MessagePack projection (\<^verbatim>\<open>src/routes/graph_exports/messagepack.rs\<close>)\<close>

text \<open>
  The encoder appends to an output buffer; the model gives the bytes it appends. A JSON number is
  its token; \<open>as\_u64\<close> and \<open>as\_i64\<close> of \<open>serde\_json\<close> recognise the integer tokens, which JSON
  writes without leading zeros, and \<open>-0\<close> is a float. The reader follows the decoder of the
  source's tests; its first argument bounds the nesting it accepts.
\<close>

subsection \<open>Encoding\<close>

definition number_as_u64 :: "string \<Rightarrow> nat option" where
  "number_as_u64 s = (case parse_u64 s of None \<Rightarrow> None | Some n \<Rightarrow> if show_nat n = s then Some n else None)"

text \<open>The negative half of \<open>as\_i64\<close>, which is all that is left after \<open>as\_u64\<close>: the magnitude.\<close>

definition number_as_negative :: "string \<Rightarrow> nat option" where
  "number_as_negative s =
     (case strip_prefix s ''-'' of
        None \<Rightarrow> None
      | Some t \<Rightarrow> (case number_as_u64 t of None \<Rightarrow> None | Some n \<Rightarrow> if 0 < n \<and> n \<le> 2 ^ 63 then Some n else None))"

fun be_bytes :: "nat \<Rightarrow> nat \<Rightarrow> string" where
  "be_bytes 0 n = []"
| "be_bytes (Suc k) n = be_bytes k (n div 256) @ [char_of (n mod 256)]"

definition messagepack_u64 :: "nat \<Rightarrow> string" where
  "messagepack_u64 v =
     (if v \<le> 0x7f then [char_of v]
      else if v \<le> 0xff then [char_of (0xcc::nat), char_of v]
      else if v \<le> 0xffff then char_of (0xcd::nat) # be_bytes 2 v
      else if v \<le> 0xffffffff then char_of (0xce::nat) # be_bytes 4 v
      else char_of (0xcf::nat) # be_bytes 8 v)"

text \<open>A negative number by its magnitude \<open>n\<close>; the casts keep the low bytes of the two's complement.\<close>

definition messagepack_negative :: "nat \<Rightarrow> string" where
  "messagepack_negative n =
     (if n \<le> 32 then [char_of (256 - n)]
      else if n \<le> 2 ^ 7 then [char_of (0xd0::nat), char_of (256 - n)]
      else if n \<le> 2 ^ 15 then char_of (0xd1::nat) # be_bytes 2 (2 ^ 16 - n)
      else if n \<le> 2 ^ 31 then char_of (0xd2::nat) # be_bytes 4 (2 ^ 32 - n)
      else char_of (0xd3::nat) # be_bytes 8 (2 ^ 64 - n))"

definition messagepack_string :: "string \<Rightarrow> string api_result" where
  "messagepack_string v =
     (let n = length v in
      bind_r (if n \<le> 31 then Inr [char_of (0xa0 + n)]
              else if n \<le> 0xff then Inr [char_of (0xd9::nat), char_of n]
              else if n \<le> 0xffff then Inr (char_of (0xda::nat) # be_bytes 2 n)
              else if n < 2 ^ 32 then Inr (char_of (0xdb::nat) # be_bytes 4 n)
              else Inl from_anyhow) (\<lambda>prefix. Inr (prefix @ v)))"

definition messagepack_array_len :: "nat \<Rightarrow> string api_result" where
  "messagepack_array_len n =
     (if n \<le> 15 then Inr [char_of (0x90 + n)]
      else if n \<le> 0xffff then Inr (char_of (0xdc::nat) # be_bytes 2 n)
      else if n < 2 ^ 32 then Inr (char_of (0xdd::nat) # be_bytes 4 n)
      else Inl from_anyhow)"

definition messagepack_map_len :: "nat \<Rightarrow> string api_result" where
  "messagepack_map_len n =
     (if n \<le> 15 then Inr [char_of (0x80 + n)]
      else if n \<le> 0xffff then Inr (char_of (0xde::nat) # be_bytes 2 n)
      else if n < 2 ^ 32 then Inr (char_of (0xdf::nat) # be_bytes 4 n)
      else Inl from_anyhow)"

definition messagepack_number :: "string \<Rightarrow> string api_result" where
  "messagepack_number s =
     (case number_as_u64 s of
        Some v \<Rightarrow> Inr (messagepack_u64 v)
      | None \<Rightarrow> (case number_as_negative s of Some n \<Rightarrow> Inr (messagepack_negative n) | None \<Rightarrow> Inl from_anyhow))"

text \<open>The loops of \<open>messagepack\_value\<close> over the items of an array and the members of an object.\<close>

fun messagepack_value :: "json \<Rightarrow> string api_result"
  and messagepack_items :: "json list \<Rightarrow> string api_result"
  and messagepack_members :: "(string \<times> json) list \<Rightarrow> string api_result" where
  "messagepack_value JNull = Inr [char_of (0xc0::nat)]"
| "messagepack_value (JBool b) = Inr [if b then char_of (0xc3::nat) else char_of (0xc2::nat)]"
| "messagepack_value (JNumber s) = messagepack_number s"
| "messagepack_value (JString s) = messagepack_string s"
| "messagepack_value (JArray items) =
     bind_r (messagepack_array_len (length items)) (\<lambda>a. bind_r (messagepack_items items) (\<lambda>b. Inr (a @ b)))"
| "messagepack_value (JObject members) =
     bind_r (messagepack_map_len (length members)) (\<lambda>a. bind_r (messagepack_members members) (\<lambda>b. Inr (a @ b)))"
| "messagepack_items [] = Inr []"
| "messagepack_items (v # vs) =
     bind_r (messagepack_value v) (\<lambda>a. bind_r (messagepack_items vs) (\<lambda>b. Inr (a @ b)))"
| "messagepack_members [] = Inr []"
| "messagepack_members ((k, v) # ms) =
     bind_r (messagepack_string k) (\<lambda>a. bind_r (messagepack_value v) (\<lambda>b.
     bind_r (messagepack_members ms) (\<lambda>c. Inr (a @ b @ c))))"

text \<open>\<open>json\_parse\<close> is \<open>serde\_json::from\_slice\<close> on the canonical bytes.\<close>

definition encode_messagepack :: "(string \<Rightarrow> string + json) \<Rightarrow> string \<Rightarrow> string api_result" where
  "encode_messagepack json_parse canonical =
     (case json_parse canonical of Inl _ \<Rightarrow> Inl from_anyhow | Inr v \<Rightarrow> messagepack_value v)"

subsection \<open>Decoding\<close>

definition take_bytes :: "nat \<Rightarrow> string \<Rightarrow> (string \<times> string) option" where
  "take_bytes n s = (if n \<le> length s then Some (take n s, drop n s) else None)"

definition from_be :: "string \<Rightarrow> nat" where
  "from_be s = foldl (\<lambda>acc c. 256 * acc + byte_of c) 0 s"

definition read_be :: "nat \<Rightarrow> string \<Rightarrow> (nat \<times> string) option" where
  "read_be k s = map_option (\<lambda>(b, rest). (from_be b, rest)) (take_bytes k s)"

definition negative :: "nat \<Rightarrow> json" where
  "negative n = JNumber (''-'' @ show_nat n)"

text \<open>\<open>i8/i16/i32/i64::from\_be\_bytes\<close> printed: two's complement of \<open>k\<close> bytes.\<close>

definition signed_number :: "nat \<Rightarrow> nat \<Rightarrow> json" where
  "signed_number k n = (if n < 2 ^ (8 * k - 1) then JNumber (show_nat n) else negative (2 ^ (8 * k) - n))"

definition decode_string :: "nat \<Rightarrow> string \<Rightarrow> (json \<times> string) option" where
  "decode_string n s = map_option (\<lambda>(b, rest). (JString b, rest)) (take_bytes n s)"

fun decode_items :: "(string \<Rightarrow> (json \<times> string) option) \<Rightarrow> nat \<Rightarrow> string \<Rightarrow> (json list \<times> string) option" where
  "decode_items dec 0 s = Some ([], s)"
| "decode_items dec (Suc n) s = Option.bind (dec s) (\<lambda>(v, rest).
     map_option (\<lambda>(vs, rest'). (v # vs, rest')) (decode_items dec n rest))"

fun decode_members :: "(string \<Rightarrow> (json \<times> string) option) \<Rightarrow> nat \<Rightarrow> string \<Rightarrow> ((string \<times> json) list \<times> string) option" where
  "decode_members dec 0 s = Some ([], s)"
| "decode_members dec (Suc n) s = Option.bind (dec s) (\<lambda>(k, rest).
     case k of
       JString key \<Rightarrow> Option.bind (dec rest) (\<lambda>(v, rest').
         map_option (\<lambda>(ms, rest''). ((key, v) # ms, rest'')) (decode_members dec n rest'))
     | _ \<Rightarrow> None)"

definition decode_array :: "(string \<Rightarrow> (json \<times> string) option) \<Rightarrow> nat \<Rightarrow> string \<Rightarrow> (json \<times> string) option" where
  "decode_array dec n s = map_option (\<lambda>(vs, rest). (JArray vs, rest)) (decode_items dec n s)"

definition decode_map :: "(string \<Rightarrow> (json \<times> string) option) \<Rightarrow> nat \<Rightarrow> string \<Rightarrow> (json \<times> string) option" where
  "decode_map dec n s = map_option (\<lambda>(ms, rest). (JObject ms, rest)) (decode_members dec n s)"

definition decode_marker :: "(string \<Rightarrow> (json \<times> string) option) \<Rightarrow> nat \<Rightarrow> string \<Rightarrow> (json \<times> string) option" where
  "decode_marker dec m s =
     (if m \<le> 0x7f then Some (JNumber (show_nat m), s)
      else if m \<le> 0x8f then decode_map dec (m - 0x80) s
      else if m \<le> 0x9f then decode_array dec (m - 0x90) s
      else if m \<le> 0xbf then decode_string (m - 0xa0) s
      else if m = 0xc0 then Some (JNull, s)
      else if m = 0xc2 then Some (JBool False, s)
      else if m = 0xc3 then Some (JBool True, s)
      else if 0xcc \<le> m \<and> m \<le> 0xcf then map_option (\<lambda>(n, rest). (JNumber (show_nat n), rest)) (read_be (2 ^ (m - 0xcc)) s)
      else if 0xd0 \<le> m \<and> m \<le> 0xd3 then
        map_option (\<lambda>(n, rest). (signed_number (2 ^ (m - 0xd0)) n, rest)) (read_be (2 ^ (m - 0xd0)) s)
      else if 0xd9 \<le> m \<and> m \<le> 0xdb then Option.bind (read_be (2 ^ (m - 0xd9)) s) (\<lambda>(n, rest). decode_string n rest)
      else if 0xdc \<le> m \<and> m \<le> 0xdd then Option.bind (read_be (2 * (m - 0xdb)) s) (\<lambda>(n, rest). decode_array dec n rest)
      else if 0xde \<le> m \<and> m \<le> 0xdf then Option.bind (read_be (2 * (m - 0xdd)) s) (\<lambda>(n, rest). decode_map dec n rest)
      else if 0xe0 \<le> m \<and> m \<le> 0xff then Some (negative (256 - m), s)
      else None)"

fun decode_value :: "nat \<Rightarrow> string \<Rightarrow> (json \<times> string) option" where
  "decode_value 0 s = None"
| "decode_value (Suc fuel) [] = None"
| "decode_value (Suc fuel) (c # s) = decode_marker (decode_value fuel) (byte_of c) s"

subsection \<open>Lossless\<close>

lemma length_be_bytes [simp]: "length (be_bytes k n) = k"
  by (induction k arbitrary: n) auto

lemma from_be_snoc: "from_be (s @ [c]) = 256 * from_be s + byte_of c"
  by (simp add: from_be_def)

lemma byte_of_char [simp]: "byte_of (char_of (n::nat)) = n mod 256"
  by (simp add: byte_of_def)

lemma from_be_bytes: "n < 256 ^ k \<Longrightarrow> from_be (be_bytes k n) = n"
proof (induction k arbitrary: n)
  case 0
  then show ?case by (simp add: from_be_def)
next
  case (Suc k)
  have "n div 256 < 256 ^ k"
    using Suc.prems by (simp add: less_mult_imp_div_less mult.commute)
  then show ?case
    by (simp add: from_be_snoc Suc.IH)
qed

lemma read_be_bytes: "n < 256 ^ k \<Longrightarrow> read_be k (be_bytes k n @ rest) = Some (n, rest)"
  by (simp add: read_be_def take_bytes_def from_be_bytes)

lemma take_bytes_append [simp]: "n = length b \<Longrightarrow> take_bytes n (b @ rest) = Some (b, rest)"
  by (simp add: take_bytes_def)

lemma decode_value_marker:
  "m < 256 \<Longrightarrow> decode_value (Suc fuel) (char_of m # s) = decode_marker (decode_value fuel) m s"
  by simp

lemma number_as_u64_Some: "number_as_u64 s = Some n \<Longrightarrow> s = show_nat n \<and> n < 2 ^ 64"
  using parse_u64_bound [of s n] by (auto simp: number_as_u64_def u64_max_def split: option.splits if_splits)

lemma decode_u64:
  assumes "v < 2 ^ 64"
  shows "decode_value (Suc fuel) (messagepack_u64 v @ rest) = Some (JNumber (show_nat v), rest)"
proof -
  have one: "read_be 1 (char_of v # rest) = Some (v, rest)" if "v < 256"
    using that by (simp add: read_be_def take_bytes_def from_be_def)
  consider "v \<le> 0x7f" | "0x7f < v" "v \<le> 0xff" | "0xff < v" "v \<le> 0xffff" | "0xffff < v" "v \<le> 0xffffffff" | "0xffffffff < v"
    by linarith
  then show ?thesis
  proof cases
    case 1
    then show ?thesis by (simp add: messagepack_u64_def decode_marker_def)
  next
    case 2
    then show ?thesis using one by (simp add: messagepack_u64_def decode_marker_def)
  next
    case 3
    then show ?thesis by (simp add: messagepack_u64_def decode_marker_def read_be_bytes)
  next
    case 4
    then show ?thesis by (simp add: messagepack_u64_def decode_marker_def read_be_bytes)
  next
    case 5
    then show ?thesis using assms by (simp add: messagepack_u64_def decode_marker_def read_be_bytes)
  qed
qed

lemma decode_negative:
  assumes "0 < n" "n \<le> 2 ^ 63"
  shows "decode_value (Suc fuel) (messagepack_negative n @ rest) = Some (negative n, rest)"
proof -
  have one: "read_be 1 (char_of m # rest) = Some (m, rest)" if "m < 256" for m
    using that by (simp add: read_be_def take_bytes_def from_be_def)
  consider "n \<le> 32" | "32 < n" "n \<le> 2 ^ 7" | "2 ^ 7 < n" "n \<le> 2 ^ 15" | "2 ^ 15 < n" "n \<le> 2 ^ 31" | "2 ^ 31 < n"
    by linarith
  then show ?thesis
  proof cases
    case 1
    have "decode_marker (decode_value fuel) m rest = Some (negative (256 - m), rest)" if "224 \<le> m" "m \<le> 255" for m
      using that by (simp add: decode_marker_def)
    from this [of "256 - n"] show ?thesis using 1 assms by (simp add: messagepack_negative_def)
  next
    case 2
    have "\<not> 256 - n < 128" using 2 by simp
    then show ?thesis using 2 one [of "256 - n"]
      by (simp add: messagepack_negative_def decode_marker_def signed_number_def)
  next
    case 3
    have "\<not> 65536 - n < 32768" using 3 by simp
    then show ?thesis using 3 by (simp add: messagepack_negative_def decode_marker_def read_be_bytes signed_number_def)
  next
    case 4
    have "\<not> 4294967296 - n < 2147483648" using 4 by simp
    then show ?thesis using 4 by (simp add: messagepack_negative_def decode_marker_def read_be_bytes signed_number_def)
  next
    case 5
    have "\<not> 18446744073709551616 - n < 9223372036854775808" using assms by simp
    then show ?thesis using 5 assms by (simp add: messagepack_negative_def decode_marker_def read_be_bytes signed_number_def)
  qed
qed

lemma decode_number:
  assumes "messagepack_number s = Inr bs"
  shows "decode_value (Suc fuel) (bs @ rest) = Some (JNumber s, rest)"
proof (cases "number_as_u64 s")
  case (Some v)
  then show ?thesis
    using assms number_as_u64_Some [OF Some] decode_u64 [of v fuel rest] by (simp add: messagepack_number_def)
next
  case None
  then obtain n where neg: "number_as_negative s = Some n" "bs = messagepack_negative n"
    using assms by (auto simp: messagepack_number_def split: option.splits)
  then have "s = ''-'' @ show_nat n" "0 < n" "n \<le> 2 ^ 63"
    by (auto simp: number_as_negative_def strip_prefix_Some_iff split: option.splits if_splits dest!: number_as_u64_Some)
  then show ?thesis
    using decode_negative [of n fuel rest] neg by (simp add: negative_def)
qed

lemma decode_messagepack_string:
  assumes "messagepack_string v = Inr bs"
  shows "decode_value (Suc fuel) (bs @ rest) = Some (JString v, rest)"
proof -
  let ?n = "length v"
  have one: "read_be 1 (char_of ?n # v @ rest) = Some (?n, v @ rest)" if "?n < 256"
    using that by (simp add: read_be_def take_bytes_def from_be_def)
  consider "?n \<le> 31" | "31 < ?n" "?n \<le> 0xff" | "0xff < ?n" "?n \<le> 0xffff" | "0xffff < ?n" "?n < 2 ^ 32" | "2 ^ 32 \<le> ?n"
    by linarith
  then show ?thesis
  proof cases
    case 1
    then show ?thesis using assms by (auto simp: messagepack_string_def Let_def decode_marker_def decode_string_def)
  next
    case 2
    then show ?thesis using assms one by (auto simp: messagepack_string_def Let_def decode_marker_def decode_string_def)
  next
    case 3
    then show ?thesis using assms
      by (auto simp: messagepack_string_def Let_def decode_marker_def decode_string_def read_be_bytes)
  next
    case 4
    then show ?thesis using assms
      by (auto simp: messagepack_string_def Let_def decode_marker_def decode_string_def read_be_bytes)
  next
    case 5
    then show ?thesis using assms by (auto simp: messagepack_string_def Let_def)
  qed
qed

lemma decode_array_len:
  assumes "messagepack_array_len n = Inr bs"
  shows "decode_value (Suc fuel) (bs @ rest) = decode_array (decode_value fuel) n rest"
proof -
  consider "n \<le> 15" | "15 < n" "n \<le> 0xffff" | "0xffff < n" "n < 2 ^ 32" | "2 ^ 32 \<le> n"
    by linarith
  then show ?thesis
  proof cases
    case 1
    then show ?thesis using assms by (auto simp: messagepack_array_len_def decode_marker_def)
  next
    case 2
    then show ?thesis using assms by (auto simp: messagepack_array_len_def decode_marker_def read_be_bytes)
  next
    case 3
    then show ?thesis using assms by (auto simp: messagepack_array_len_def decode_marker_def read_be_bytes)
  next
    case 4
    then show ?thesis using assms by (simp add: messagepack_array_len_def)
  qed
qed

lemma decode_map_len:
  assumes "messagepack_map_len n = Inr bs"
  shows "decode_value (Suc fuel) (bs @ rest) = decode_map (decode_value fuel) n rest"
proof -
  consider "n \<le> 15" | "15 < n" "n \<le> 0xffff" | "0xffff < n" "n < 2 ^ 32" | "2 ^ 32 \<le> n"
    by linarith
  then show ?thesis
  proof cases
    case 1
    then show ?thesis using assms by (auto simp: messagepack_map_len_def decode_marker_def)
  next
    case 2
    then show ?thesis using assms by (auto simp: messagepack_map_len_def decode_marker_def read_be_bytes)
  next
    case 3
    then show ?thesis using assms by (auto simp: messagepack_map_len_def decode_marker_def read_be_bytes)
  next
    case 4
    then show ?thesis using assms by (simp add: messagepack_map_len_def)
  qed
qed

text \<open>The nesting of a value.\<close>

fun depth :: "json \<Rightarrow> nat" and depth_items :: "json list \<Rightarrow> nat" and depth_members :: "(string \<times> json) list \<Rightarrow> nat" where
  "depth (JArray items) = Suc (depth_items items)"
| "depth (JObject members) = Suc (depth_members members)"
| "depth _ = 1"
| "depth_items [] = 0"
| "depth_items (v # vs) = max (depth v) (depth_items vs)"
| "depth_members [] = 1"
| "depth_members ((k, v) # ms) = max (depth v) (depth_members ms)"

lemma depth_members_pos: "1 \<le> depth_members ms"
  by (induction ms) (auto simp: le_max_iff_disj)

lemma messagepack_reads_back:
  "messagepack_value v = Inr bs \<Longrightarrow> depth v \<le> fuel \<Longrightarrow> decode_value fuel (bs @ rest) = Some (v, rest)"
  "messagepack_items vs = Inr bs \<Longrightarrow> depth_items vs \<le> fuel \<Longrightarrow>
     decode_items (decode_value fuel) (length vs) (bs @ rest) = Some (vs, rest)"
  "messagepack_members ms = Inr bs \<Longrightarrow> depth_members ms \<le> fuel \<Longrightarrow>
     decode_members (decode_value fuel) (length ms) (bs @ rest) = Some (ms, rest)"
proof (induction v and vs and ms arbitrary: bs fuel rest and bs fuel rest and bs fuel rest
    rule: messagepack_value_messagepack_items_messagepack_members.induct)
  case 1
  then show ?case by (cases fuel) (auto simp: decode_marker_def)
next
  case (2 b)
  then show ?case by (cases fuel) (auto simp: decode_marker_def)
next
  case (3 s)
  then show ?case by (cases fuel) (auto simp: decode_number simp del: decode_value.simps)
next
  case (4 s)
  then show ?case by (cases fuel) (auto simp: decode_messagepack_string simp del: decode_value.simps)
next
  case (5 items)
  then obtain f where f: "fuel = Suc f" "depth_items items \<le> f" by (cases fuel) auto
  from 5 obtain a b where ab: "messagepack_array_len (length items) = Inr a" "messagepack_items items = Inr b" "bs = a @ b"
    by (auto simp: bind_r_Inr_iff)
  show ?case
    using decode_array_len [OF ab(1), of f "b @ rest"] 5(1) [OF ab(2) f(2), of rest] ab f
    by (simp add: decode_array_def del: decode_value.simps)
next
  case (6 members)
  then obtain f where f: "fuel = Suc f" "depth_members members \<le> f" by (cases fuel) auto
  from 6 obtain a b where ab: "messagepack_map_len (length members) = Inr a" "messagepack_members members = Inr b" "bs = a @ b"
    by (auto simp: bind_r_Inr_iff)
  show ?case
    using decode_map_len [OF ab(1), of f "b @ rest"] 6(1) [OF ab(2) f(2), of rest] ab f
    by (simp add: decode_map_def del: decode_value.simps)
next
  case 7
  then show ?case by simp
next
  case (8 v vs)
  then obtain a b where ab: "messagepack_value v = Inr a" "messagepack_items vs = Inr b" "bs = a @ b"
    by (auto simp: bind_r_Inr_iff)
  show ?case
    using 8(1) [OF ab(1), of fuel "b @ rest"] 8(2) [OF ab(2), of fuel rest] 8(4) ab by simp
next
  case 9
  then show ?case by simp
next
  case (10 k v ms)
  then obtain a b c where abc: "messagepack_string k = Inr a" "messagepack_value v = Inr b" "messagepack_members ms = Inr c"
      "bs = a @ b @ c"
    by (auto simp: bind_r_Inr_iff)
  obtain f where f: "fuel = Suc f"
    using 10(4) depth_members_pos [of ms] by (cases fuel) auto
  show ?case
    using decode_messagepack_string [OF abc(1), of f "b @ c @ rest"] 10(1) [OF abc(2), of fuel "c @ rest"]
      10(2) [OF abc(3), of fuel rest] 10(4) abc f
    by (simp del: decode_value.simps)
qed

text \<open>C31. The MessagePack projection is lossless: whenever the encoder produces bytes for a value, reading
  them back yields that value and nothing is left over; no two values share an encoding.\<close>

theorem messagepack_round_trip:
  assumes enc: "messagepack_value v = Inr bs"
  shows "(\<exists>fuel. decode_value fuel bs = Some (v, []))
     \<and> (\<forall>v' rest. messagepack_value v' = Inr (bs @ rest) \<longrightarrow> v' = v \<and> rest = [])"
proof (intro conjI allI impI)
  show "\<exists>fuel. decode_value fuel bs = Some (v, [])"
    using messagepack_reads_back(1) [OF enc order_refl, of "[]"] by auto
next
  fix v' rest
  assume "messagepack_value v' = Inr (bs @ rest)"
  then have "decode_value (max (depth v) (depth v')) (bs @ rest) = Some (v', [])"
    using messagepack_reads_back(1) [of v' "bs @ rest" "max (depth v) (depth v')" "[]"] by simp
  then show "v' = v" "rest = []"
    using messagepack_reads_back(1) [OF enc, of "max (depth v) (depth v')" rest] by simp_all
qed

theorem messagepack_round_trip_witness:
  "\<exists>bs fuel. messagepack_value (JObject [(''a'', JArray [JNumber ''300'', JNull])]) = Inr bs
     \<and> decode_value fuel bs = Some (JObject [(''a'', JArray [JNumber ''300'', JNull])], [])"
proof -
  have "show_nat 300 = ''300''"
    by code_simp
  then have "number_as_u64 ''300'' = Some 300"
    using parse_u64_show_nat [of 300] by (simp add: number_as_u64_def u64_max_def)
  then obtain bs where "messagepack_value (JObject [(''a'', JArray [JNumber ''300'', JNull])]) = Inr bs"
    by (simp add: messagepack_map_len_def messagepack_array_len_def messagepack_string_def messagepack_number_def Let_def)
  with messagepack_round_trip [OF this] show ?thesis by blast
qed

end
