(* ===== verification/GraphOut.thy ===== *)
theory GraphOut
  imports GraphTypes
begin

section \<open>Bounded output and limits of the graph representations\<close>

text \<open>
  The limits and the canonical form of a graph document belong to the contract crate; they are the
  fields of \<open>graph_ext\<close>, with the names of the formats, the header check of the \<open>http\<close> crate and the serialisers of \<open>serde\_json\<close> the renderers use. A writer takes
  the output so far and returns it extended, or the error that stops the rendering; no writer lets
  the output grow past the encoded limit (\<^verbatim>\<open>src/routes/graph.rs\<close>, \<^verbatim>\<open>graph_exports/mod.rs\<close>).
\<close>

record graph_ext = ext +
  MAX_NODES :: nat
  MAX_EDGES :: nat
  MAX_ENCODED :: nat
  GRAPH_SCHEMA_V1 :: string
  finalize :: "graph_document \<Rightarrow> string + graph_document"
  verify_digest :: "graph_document \<Rightarrow> string + unit"
  canonical_document_bytes :: "graph_document \<Rightarrow> string + string"
  json_parse :: "string \<Rightarrow> string + json"
  json_string :: "string \<Rightarrow> string"
  json_strings :: "string list \<Rightarrow> string + string"
  identity_string :: "package_version_identity \<Rightarrow> string"
  graph_media_type :: "graph_format \<Rightarrow> string"
  graph_extension :: "graph_format \<Rightarrow> string"
  graph_authoritative :: "graph_format \<Rightarrow> bool"
  export_parse_name :: "string \<Rightarrow> export_format option"
  export_media_type :: "export_format \<Rightarrow> string"
  export_extension :: "export_format \<Rightarrow> string"
  export_authoritative :: "export_format \<Rightarrow> bool"
  DIGEST_HEADER :: string
  AUTHORITATIVE_HEADER :: string
  header_valid :: "string \<Rightarrow> bool"
  manifest_from_json :: "json \<Rightarrow> string + graph_manifest"
  validate_version :: "string \<Rightarrow> string \<Rightarrow> string + unit"

subsection \<open>Limits\<close>

definition graph_limit_exceeded :: api_err where
  "graph_limit_exceeded = api_err 422 ''graph_limit_exceeded'' ''dependency graph exceeds the server node or edge limit''"

definition representation_too_large :: api_err where
  "representation_too_large = api_err 413 ''graph_representation_too_large''
     ''dependency graph representation exceeds the server limit''"

definition ensure_graph_counts :: "('x graph_ext_scheme) \<Rightarrow> nat \<Rightarrow> nat \<Rightarrow> unit api_result" where
  "ensure_graph_counts x nodes edges =
     guard_r (\<not> (MAX_NODES x < nodes \<or> MAX_EDGES x < edges)) graph_limit_exceeded"

fun graph_counts :: "graph_data \<Rightarrow> (nat \<times> nat) api_result" where
  "graph_counts (Declared _ dependencies) =
     map_sum id (\<lambda>n. (n, length dependencies)) (ok_or graph_limit_exceeded (checked_add (length dependencies) 1))"
| "graph_counts (Resolved _ _ nodes edges _ _ _) = Inr (length nodes, length edges)"

definition ensure_graph_bounds :: "('x graph_ext_scheme) \<Rightarrow> graph_document \<Rightarrow> unit api_result" where
  "ensure_graph_bounds x document =
     bind_r (graph_counts (gd_graph document)) (\<lambda>(nodes, edges). ensure_graph_counts x nodes edges)"

definition ensure_encoded_size :: "('x graph_ext_scheme) \<Rightarrow> nat \<Rightarrow> unit api_result" where
  "ensure_encoded_size x n = guard_r (\<not> MAX_ENCODED x < n) representation_too_large"

subsection \<open>Writers\<close>

type_synonym writer = "string \<Rightarrow> string api_result"

definition push_bounded :: "('x graph_ext_scheme) \<Rightarrow> string \<Rightarrow> writer" where
  "push_bounded x v out =
     bind_r (ok_or representation_too_large (checked_add (length out) (length v))) (\<lambda>n.
     bind_r (ensure_encoded_size x n) (\<lambda>_. Inr (out @ v)))"

fun all_w :: "writer list \<Rightarrow> writer" where
  "all_w [] out = Inr out"
| "all_w (w # ws) out = bind_r (w out) (all_w ws)"

definition each_w :: "('a \<Rightarrow> writer) \<Rightarrow> 'a list \<Rightarrow> writer" where
  "each_w f xs = all_w (map f xs)"

definition opt_w :: "('a \<Rightarrow> writer) \<Rightarrow> 'a option \<Rightarrow> writer" where
  "opt_w f v = (case v of None \<Rightarrow> Inr | Some a \<Rightarrow> f a)"

text \<open>A step whose value may fail before anything is written.\<close>

definition with_w :: "'a api_result \<Rightarrow> ('a \<Rightarrow> writer) \<Rightarrow> writer" where
  "with_w r f out = bind_r r (\<lambda>a. f a out)"

subsection \<open>Characters\<close>

text \<open>\<open>str::chars\<close> on UTF-8 bytes: an ASCII byte, or a leading byte with its continuation bytes.\<close>

definition is_continuation :: "char \<Rightarrow> bool" where
  "is_continuation c \<longleftrightarrow> 128 \<le> byte_of c \<and> byte_of c < 192"

function chars :: "string \<Rightarrow> string list" where
  "chars [] = []"
| "chars (c # s) =
     (if byte_of c < 128 then [c] # chars s
      else (c # takeWhile is_continuation s) # chars (dropWhile is_continuation s))"
  by pat_completeness auto
termination
  by (relation "measure length") (auto simp: le_imp_less_Suc length_dropWhile_le)

text \<open>The Unicode scalar value of an encoded character.\<close>

fun scalar :: "string \<Rightarrow> nat" where
  "scalar [a, b] = (byte_of a - 192) * 64 + (byte_of b - 128)"
| "scalar [a, b, c] = (byte_of a - 224) * 4096 + (byte_of b - 128) * 64 + (byte_of c - 128)"
| "scalar [a, b, c, d] =
     (byte_of a - 240) * 262144 + (byte_of b - 128) * 4096 + (byte_of c - 128) * 64 + (byte_of d - 128)"
| "scalar (a # _) = byte_of a"
| "scalar [] = 0"

lemma concat_chars [simp]: "concat (chars s) = s"
  by (induction s rule: chars.induct) auto

lemma chars_chunk:
  "ch \<in> set (chars s) \<Longrightarrow> ch \<noteq> [] \<and> ((\<exists>c. ch = [c]) \<or> (\<forall>c\<in>set ch. 128 \<le> byte_of c))"
proof (induction s rule: chars.induct)
  case (2 c s)
  show ?case
  proof (cases "byte_of c < 128")
    case True
    then show ?thesis using 2(1) 2(3) by auto
  next
    case False
    have "128 \<le> byte_of d" if "d \<in> set (takeWhile is_continuation s)" for d
      using set_takeWhileD [OF that] by (simp add: is_continuation_def)
    then show ?thesis using 2(2) 2(3) False by auto
  qed
qed simp

declare chars.simps [simp del]

subsection \<open>What writers do\<close>

text \<open>
  A writer appends: \<open>writes w v\<close> says that whenever \<open>w\<close> succeeds it appends exactly \<open>v\<close>, and that
  the output stays within the limit.
\<close>

definition writes :: "('x graph_ext_scheme) \<Rightarrow> writer \<Rightarrow> string \<Rightarrow> bool" where
  "writes x w v \<longleftrightarrow> (\<forall>out out'. w out = Inr out' \<longrightarrow>
     out' = out @ v \<and> (length out \<le> MAX_ENCODED x \<longrightarrow> length out' \<le> MAX_ENCODED x))"

named_theorems write_rules \<open>what a composed writer appends\<close>

lemma writesD: "writes x w v \<Longrightarrow> w out = Inr out' \<Longrightarrow> out' = out @ v"
  by (simp add: writes_def)

lemma writes_bound: "writes x w v \<Longrightarrow> w [] = Inr out \<Longrightarrow> length out \<le> MAX_ENCODED x"
  by (auto simp: writes_def)

lemma writes_push [write_rules]: "writes x (push_bounded x v) v"
  by (auto simp: writes_def push_bounded_def bind_r_Inr_iff ensure_encoded_size_def checked_add_def split: if_splits)

lemma writes_nil [write_rules]: "writes x (all_w []) []"
  by (simp add: writes_def)

lemma writes_cons [write_rules]: "writes x w v \<Longrightarrow> writes x (all_w ws) vs \<Longrightarrow> writes x (all_w (w # ws)) (v @ vs)"
  by (fastforce simp: writes_def bind_r_Inr_iff)

lemma writes_opt [write_rules]:
  "(\<And>a. writes x (f a) (g a)) \<Longrightarrow> writes x (opt_w f v) (case v of None \<Rightarrow> [] | Some a \<Rightarrow> g a)"
  by (auto simp: opt_w_def writes_def split: option.split)

lemma writes_each [write_rules]:
  assumes "\<And>a. writes x (f a) (g a)"
  shows "writes x (each_w f xs) (concat (map g xs))"
  unfolding each_w_def using assms by (induction xs) (auto intro: write_rules simp del: all_w.simps)

lemma writes_if [write_rules]: "writes x w v \<Longrightarrow> writes x w' v' \<Longrightarrow> writes x (if b then w else w') (if b then v else v')"
  by simp

subsection \<open>When writers succeed\<close>

text \<open>
  The other direction: what still fits within the limit is written. Together with \<open>writes\<close> this
  determines a writer on every output.
\<close>

definition fits :: "('x graph_ext_scheme) \<Rightarrow> writer \<Rightarrow> string \<Rightarrow> bool" where
  "fits x w v \<longleftrightarrow> (\<forall>out. MAX_ENCODED x \<le> u64_max \<longrightarrow> length out + length v \<le> MAX_ENCODED x \<longrightarrow> w out = Inr (out @ v))"

named_theorems fit_rules \<open>when a composed writer succeeds\<close>

lemma fits_push [fit_rules]: "fits x (push_bounded x v) v"
  by (simp add: fits_def push_bounded_def checked_add_def ensure_encoded_size_def bind_r_def ok_or_def guard_r_def)

lemma fits_nil [fit_rules]: "fits x (all_w []) []"
  by (simp add: fits_def)

lemma fits_cons [fit_rules]: "fits x w v \<Longrightarrow> fits x (all_w ws) vs \<Longrightarrow> fits x (all_w (w # ws)) (v @ vs)"
  by (simp add: fits_def bind_r_def)

lemma fits_opt [fit_rules]:
  "(\<And>a. v = Some a \<Longrightarrow> fits x (f a) (g a)) \<Longrightarrow> fits x (opt_w f v) (case v of None \<Rightarrow> [] | Some a \<Rightarrow> g a)"
  by (auto simp: opt_w_def fits_def split: option.split)

lemma fits_each [fit_rules]:
  assumes "\<And>a. a \<in> set xs \<Longrightarrow> fits x (f a) (g a)"
  shows "fits x (each_w f xs) (concat (map g xs))"
  unfolding each_w_def using assms by (induction xs) (auto intro: fit_rules simp del: all_w.simps)

lemma fits_with: "r = Inr a \<Longrightarrow> fits x (f a) v \<Longrightarrow> fits x (with_w r f) v"
  by (simp add: fits_def with_w_def bind_r_def)

lemma writes_with: "(\<And>a. r = Inr a \<Longrightarrow> writes x (f a) v) \<Longrightarrow> writes x (with_w r f) v"
  by (cases r) (auto simp: writes_def with_w_def)

lemma fits_if [fit_rules]: "fits x w v \<Longrightarrow> fits x w' v' \<Longrightarrow> fits x (if b then w else w') (if b then v else v')"
  by simp

lemma written_iff:
  assumes "writes x w v" "fits x w v" "MAX_ENCODED x \<le> u64_max"
  shows "w [] = Inr out \<longleftrightarrow> out = v \<and> length v \<le> MAX_ENCODED x"
  using assms writesD [OF assms(1), of "[]" out] writes_bound [OF assms(1), of out] by (auto simp: fits_def)

subsection \<open>An instance for the examples\<close>

definition quote_all :: "string \<Rightarrow> string" where
  "quote_all s = [CHR 0x22] @ s @ [CHR 0x22]"

definition toy_literal :: "string \<Rightarrow> string" where
  "toy_literal s = [CHR 0x22] @ concat (map (\<lambda>c. [char_of (97 + byte_of c div 16), char_of (97 + byte_of c mod 16)]) s) @ [CHR 0x22]"

definition toy_graph_ext :: graph_ext where
  "toy_graph_ext = ext.extend toy_ext
     \<lparr>MAX_NODES = 10, MAX_EDGES = 10, MAX_ENCODED = 10000, GRAPH_SCHEMA_V1 = ''v1'',
      finalize = (\<lambda>d. Inr (d\<lparr>gd_digest := Some ''d''\<rparr>)), verify_digest = (\<lambda>_. Inr ()),
      canonical_document_bytes = (\<lambda>_. Inr ''{}''), json_parse = (\<lambda>_. Inr JNull), json_string = toy_literal,
      json_strings = (\<lambda>fs. Inr (''['' @ concat (map quote_all fs) @ '']'')), identity_string = pi_name,
      graph_media_type = (\<lambda>f. case f of Json \<Rightarrow> ''a/json'' | Yaml \<Rightarrow> ''a/yaml'' | Toml \<Rightarrow> ''a/toml''
        | Dot \<Rightarrow> ''t/dot'' | Mermaid \<Rightarrow> ''t/mermaid''),
      graph_extension = (\<lambda>_. ''x''), graph_authoritative = (\<lambda>f. f \<in> {Json, Yaml, Toml}),
      export_parse_name = (\<lambda>s. if s = ''csv'' then Some CsvTable else None), export_media_type = (\<lambda>_. ''t/csv''),
      export_extension = (\<lambda>_. ''x''), export_authoritative = (\<lambda>f. f \<noteq> CsvTable),
      DIGEST_HEADER = ''d'', AUTHORITATIVE_HEADER = ''a'', header_valid = (\<lambda>v. header_to_str v \<noteq> None),
      manifest_from_json = (\<lambda>_. Inl []), validate_version = (\<lambda>_ _. Inr ())\<rparr>"

lemma toy_graph_simps [simp]:
  "MAX_NODES toy_graph_ext = 10" "MAX_EDGES toy_graph_ext = 10" "MAX_ENCODED toy_graph_ext = 10000"
  "json_string toy_graph_ext = toy_literal" "identity_string toy_graph_ext = pi_name"
  "json_strings toy_graph_ext fs = Inr (''['' @ concat (map quote_all fs) @ '']'')"
  by (simp_all add: toy_graph_ext_def ext.defs)

end
