(* ===== verification/Csv.thy ===== *)
theory Csv
  imports GraphOut
begin

section \<open>The CSV projection (\<^verbatim>\<open>src/routes/graph_exports/csv.rs\<close>)\<close>

text \<open>
  One header, then one record per node and edge. The writer quotes as RFC 4180 asks and puts an
  apostrophe before a cell a spreadsheet would take for a formula. The reader below is the grammar
  of RFC 4180; the theorem says it recovers the table, with the apostrophes.
\<close>

subsection \<open>Encoding\<close>

definition CSV_HEADER :: "string list" where
  "CSV_HEADER = [''record_type'', ''view'', ''graph_digest'', ''from_registry'', ''from_org'', ''from_name'', ''from_version'',
     ''to_registry'', ''to_org'', ''to_name'', ''to_version'', ''requirement'', ''kind'', ''optional'', ''default_features'',
     ''target'', ''features_json'', ''artifact_digest'', ''completeness'', ''schema'']"

definition empty_identity :: package_version_identity where
  "empty_identity = \<lparr>pi_registry = [], pi_org = [], pi_name = [], pi_version = []\<rparr>"

definition or_empty :: "string option \<Rightarrow> string" where
  "or_empty v = (case v of None \<Rightarrow> [] | Some s \<Rightarrow> s)"

definition csv_row ::
  "string \<Rightarrow> string \<Rightarrow> string \<Rightarrow> package_version_identity option \<Rightarrow> package_version_identity option \<Rightarrow> string \<Rightarrow> string
   \<Rightarrow> bool option \<Rightarrow> bool option \<Rightarrow> string \<Rightarrow> string \<Rightarrow> string \<Rightarrow> string \<Rightarrow> string \<Rightarrow> string list" where
  "csv_row record_type view_name digest source_id target_id requirement kind optional default_features target features_json
     artifact_digest complete schema =
     (let a = (case source_id of None \<Rightarrow> empty_identity | Some i \<Rightarrow> i);
          b = (case target_id of None \<Rightarrow> empty_identity | Some i \<Rightarrow> i)
      in [record_type, view_name, digest, pi_registry a, pi_org a, pi_name a, pi_version a,
          pi_registry b, pi_org b, pi_name b, pi_version b, requirement, kind,
          or_empty (map_option bool_name optional), or_empty (map_option bool_name default_features),
          target, features_json, artifact_digest, complete, schema])"

definition spreadsheet_unsafe :: "string \<Rightarrow> bool" where
  "spreadsheet_unsafe v \<longleftrightarrow>
     (v \<noteq> [] \<and> hd v \<in> {CHR 0x09, CHR 0x0D, CHR 0x0A})
     \<or> (trim_start v \<noteq> [] \<and> hd (trim_start v) \<in> {CHR ''='', CHR ''+'', CHR ''-'', CHR ''@''})"

definition needs_quotes :: "string \<Rightarrow> bool" where
  "needs_quotes v \<longleftrightarrow>
     spreadsheet_unsafe v \<or> list_ex (\<lambda>c. c \<in> {CHR '','', CHR 0x22, CHR 0x0D, CHR 0x0A}) v"

definition double_quotes :: "string \<Rightarrow> string" where
  "double_quotes v = concat (map (\<lambda>c. if c = CHR 0x22 then [CHR 0x22, CHR 0x22] else [c]) v)"

definition ensure_room :: "('x graph_ext_scheme) \<Rightarrow> nat \<Rightarrow> nat \<Rightarrow> unit api_result" where
  "ensure_room x current additional =
     bind_r (ok_or representation_too_large (checked_add current additional)) (ensure_encoded_size x)"

definition csv_field :: "('x graph_ext_scheme) \<Rightarrow> string \<Rightarrow> writer" where
  "csv_field x v out =
     bind_r (ok_or representation_too_large
       (Option.bind (Option.bind (checked_add (length v) (length (filter (\<lambda>c. c = CHR 0x22) v)))
          (\<lambda>n. checked_add n (if spreadsheet_unsafe v then 1 else 0)))
          (\<lambda>n. checked_add n (if needs_quotes v then 2 else 0)))) (\<lambda>encoded_len.
     bind_r (ensure_room x (length out) encoded_len) (\<lambda>_.
       if \<not> needs_quotes v then Inr (out @ v)
       else Inr (out @ [CHR 0x22] @ (if spreadsheet_unsafe v then [CHR 0x27] else []) @ double_quotes v @ [CHR 0x22])))"

fun csv_cells :: "('x graph_ext_scheme) \<Rightarrow> bool \<Rightarrow> string list \<Rightarrow> writer list" where
  "csv_cells x is_first [] = []"
| "csv_cells x is_first (f # fs) =
     (if is_first then [] else [push_bounded x '','']) @ csv_field x f # csv_cells x False fs"

definition csv_record :: "('x graph_ext_scheme) \<Rightarrow> string list \<Rightarrow> writer" where
  "csv_record x cells = all_w (csv_cells x True cells @ [push_bounded x [CHR 0x0D, CHR 0x0A]])"

definition features_json :: "('x graph_ext_scheme) \<Rightarrow> string list \<Rightarrow> string api_result" where
  "features_json x features = (case json_strings x features of Inl _ \<Rightarrow> Inl from_anyhow | Inr s \<Rightarrow> Inr s)"

definition package_row_csv :: "graph_document \<Rightarrow> package_version_identity \<Rightarrow> string list" where
  "package_row_csv d package =
     csv_row ''node'' ''declared'' (or_empty (gd_digest d)) (Some package) None [] [] None None [] ''[]'' [] [] (gd_schema d)"

definition dependency_row :: "graph_document \<Rightarrow> package_version_identity \<Rightarrow> declared_dependency \<Rightarrow> string \<Rightarrow> string list" where
  "dependency_row d package dep features =
     csv_row ''edge'' ''declared'' (or_empty (gd_digest d)) (Some package)
       (Some \<lparr>pi_registry = dd_registry dep, pi_org = dd_org dep, pi_name = dd_name dep, pi_version = []\<rparr>)
       (dd_requirement dep) (dependency_kind_name (dd_kind dep)) (Some (dd_optional dep)) (Some (dd_default_features dep))
       (or_empty (dd_target dep)) features [] [] (gd_schema d)"

definition root_row :: "graph_document \<Rightarrow> completeness \<Rightarrow> package_version_identity \<Rightarrow> string list" where
  "root_row d c root =
     csv_row ''root'' ''resolved'' (or_empty (gd_digest d)) (Some root) None [] [] None None [] ''[]'' []
       (completeness_name c) (gd_schema d)"

definition node_row :: "graph_document \<Rightarrow> completeness \<Rightarrow> resolved_node \<Rightarrow> string \<Rightarrow> string list" where
  "node_row d c node features =
     csv_row ''node'' ''resolved'' (or_empty (gd_digest d)) (Some (rn_id node)) None [] [] None None [] features
       (or_empty (rn_digest node)) (completeness_name c) (gd_schema d)"

definition edge_row :: "graph_document \<Rightarrow> completeness \<Rightarrow> resolved_edge \<Rightarrow> string \<Rightarrow> string list" where
  "edge_row d c edge features =
     csv_row ''edge'' ''resolved'' (or_empty (gd_digest d)) (Some (ed_from edge)) (Some (ed_to edge))
       (or_empty (ed_requirement edge)) (dependency_kind_name (ed_kind edge)) (Some (ed_optional edge)) None
       (or_empty (ed_target edge)) features [] (completeness_name c) (gd_schema d)"

definition encode_csv_to :: "('x graph_ext_scheme) \<Rightarrow> graph_document \<Rightarrow> writer" where
  "encode_csv_to x d =
     all_w [csv_record x CSV_HEADER,
       case gd_graph d of
         Declared package dependencies \<Rightarrow>
           all_w [csv_record x (package_row_csv d package),
             each_w (\<lambda>dep. with_w (features_json x (dd_features dep)) (\<lambda>fs. csv_record x (dependency_row d package dep fs))) dependencies]
       | Resolved c roots nodes edges _ _ _ \<Rightarrow>
           all_w [each_w (\<lambda>r. csv_record x (root_row d c r)) roots,
             each_w (\<lambda>n. with_w (features_json x (rn_features n)) (\<lambda>fs. csv_record x (node_row d c n fs))) nodes,
             each_w (\<lambda>e. with_w (features_json x (ed_features e)) (\<lambda>fs. csv_record x (edge_row d c e fs))) edges]]"

definition encode_csv :: "('x graph_ext_scheme) \<Rightarrow> graph_document \<Rightarrow> string api_result" where
  "encode_csv x d = encode_csv_to x d []"

subsection \<open>The grammar of RFC 4180\<close>

fun csv_quoted :: "string \<Rightarrow> (string \<times> string) option" where
  "csv_quoted [] = None"
| "csv_quoted (c # s) =
     (if c \<noteq> CHR 0x22 then map_option (\<lambda>(f, r). (c # f, r)) (csv_quoted s)
      else (case s of
              [] \<Rightarrow> Some ([], [])
            | d # s' \<Rightarrow> if d = CHR 0x22 then map_option (\<lambda>(f, r). (CHR 0x22 # f, r)) (csv_quoted s') else Some ([], s)))"

definition csv_plain_char :: "char \<Rightarrow> bool" where
  "csv_plain_char c \<longleftrightarrow> c \<notin> {CHR '','', CHR 0x22, CHR 0x0D, CHR 0x0A}"

definition csv_cell :: "string \<Rightarrow> (string \<times> string) option" where
  "csv_cell s =
     (case s of
        c # s' \<Rightarrow> if c = CHR 0x22 then csv_quoted s' else Some (takeWhile csv_plain_char s, dropWhile csv_plain_char s)
      | [] \<Rightarrow> Some ([], []))"

lemma csv_quoted_shorter: "csv_quoted s = Some (f, r) \<Longrightarrow> length r < length s"
proof (induction s arbitrary: f r rule: csv_quoted.induct)
  case (2 c s)
  show ?case
  proof (cases "c = CHR 0x22")
    case False
    then show ?thesis using 2 by fastforce
  next
    case True
    then show ?thesis
      using 2 by (cases s) (fastforce split: if_splits)+
  qed
qed simp

lemma csv_cell_le: "csv_cell s = Some (f, r) \<Longrightarrow> length r \<le> length s"
  by (auto simp: csv_cell_def length_dropWhile_le le_SucI dest: csv_quoted_shorter split: list.splits if_splits)

function csv_line :: "string \<Rightarrow> (string list \<times> string) option" where
  "csv_line s =
     (case csv_cell s of
        None \<Rightarrow> None
      | Some (f, r) \<Rightarrow>
          (case r of
             [] \<Rightarrow> None
           | c # r' \<Rightarrow>
               if c = CHR '','' then map_option (\<lambda>(fs, rest). (f # fs, rest)) (csv_line r')
               else if c = CHR 0x0D \<and> starts_with r' [CHR 0x0A] then Some ([f], tl r')
               else None))"
  by pat_completeness auto
termination
  by (relation "measure length") (auto dest: csv_cell_le)

declare csv_line.simps [simp del]

lemma csv_line_shorter: "csv_line s = Some (fs, r) \<Longrightarrow> length r < length s"
proof (induction s arbitrary: fs r rule: csv_line.induct)
  case (1 s)
  obtain f t where cell: "csv_cell s = Some (f, t)"
    using 1(2) by (subst (asm) csv_line.simps) (auto split: option.splits)
  obtain c t' where t: "t = c # t'"
    using 1(2) cell by (subst (asm) csv_line.simps) (auto split: list.splits)
  have le: "length t \<le> length s" by (rule csv_cell_le [OF cell])
  show ?case
  proof (cases "c = CHR '',''")
    case True
    then obtain gs where "csv_line t' = Some (gs, r)"
      using 1(2) cell t by (subst (asm) csv_line.simps) auto
    then show ?thesis using 1(1) [OF cell refl t True] le t by fastforce
  next
    case False
    then have "r = tl t'"
      using 1(2) cell t by (subst (asm) csv_line.simps) (auto split: if_splits)
    then show ?thesis using le t by simp
  qed
qed

function parse_csv :: "string \<Rightarrow> string list list option" where
  "parse_csv s =
     (if s = [] then Some []
      else case csv_line s of None \<Rightarrow> None | Some (fs, r) \<Rightarrow> map_option (Cons fs) (parse_csv r))"
  by pat_completeness auto
termination
  by (relation "measure length") (auto dest: csv_line_shorter)

declare parse_csv.simps [simp del]

subsection \<open>The reader recovers the table\<close>

text \<open>What a reader of the file sees in the cell of a value.\<close>

definition shown :: "string \<Rightarrow> string" where
  "shown v = (if spreadsheet_unsafe v then CHR 0x27 # v else v)"

definition cell_bytes :: "string \<Rightarrow> string" where
  "cell_bytes v = (if needs_quotes v then [CHR 0x22] @ double_quotes (shown v) @ [CHR 0x22] else v)"

fun cells_bytes :: "bool \<Rightarrow> string list \<Rightarrow> string" where
  "cells_bytes b [] = []"
| "cells_bytes b (f # fs) = (if b then [] else '','') @ cell_bytes f @ cells_bytes False fs"

definition row_bytes :: "string list \<Rightarrow> string" where
  "row_bytes fs = cells_bytes True fs @ [CHR 0x0D, CHR 0x0A]"

lemma double_quotes_Cons:
  "double_quotes (c # v) = (if c = CHR 0x22 then [CHR 0x22, CHR 0x22] else [c]) @ double_quotes v"
  by (simp add: double_quotes_def)

lemma length_double_quotes: "length (double_quotes v) = length v + length (filter (\<lambda>c. c = CHR 0x22) v)"
  by (induction v) (auto simp: double_quotes_Cons double_quotes_def)

lemma writes_csv_field [write_rules]: "writes x (csv_field x v) (cell_bytes v)"
  by (auto simp: writes_def csv_field_def cell_bytes_def shown_def ensure_room_def bind_r_Inr_iff checked_add_def
      ensure_encoded_size_def double_quotes_Cons length_double_quotes needs_quotes_def split: if_splits)

lemma plain_has_no_quote: "\<not> needs_quotes v \<Longrightarrow> filter (\<lambda>c. c = CHR 0x22) v = []"
  by (auto simp: needs_quotes_def filter_empty_conv list_ex_iff)

lemma fits_csv_field [fit_rules]: "fits x (csv_field x v) (cell_bytes v)"
proof (cases "needs_quotes v")
  case True
  then show ?thesis
    by (auto simp: fits_def csv_field_def cell_bytes_def shown_def ensure_room_def bind_r_def ok_or_def checked_add_def
        ensure_encoded_size_def guard_r_def double_quotes_Cons length_double_quotes)
next
  case False
  then have "\<not> spreadsheet_unsafe v" by (simp add: needs_quotes_def)
  then show ?thesis
    using False by (simp add: fits_def csv_field_def cell_bytes_def ensure_room_def bind_r_def ok_or_def checked_add_def
        ensure_encoded_size_def guard_r_def plain_has_no_quote)
qed

lemma fits_cells:
  "fits x (all_w ws) vs \<Longrightarrow> fits x (all_w (csv_cells x b fs @ ws)) (cells_bytes b fs @ vs)"
proof (induction fs arbitrary: b)
  case (Cons f fs)
  note rest = fits_cons [OF fits_csv_field Cons.IH [OF Cons.prems], of f False]
  show ?case
    using rest fits_cons [OF fits_push [where v = "'',''"] rest] by (simp del: all_w.simps)
qed (simp del: all_w.simps)

lemma fits_csv_record [fit_rules]: "fits x (csv_record x fs) (row_bytes fs)"
  unfolding csv_record_def row_bytes_def
  using fits_cells [OF fits_cons [OF fits_push [where v = "[CHR 0x0D, CHR 0x0A]"] fits_nil]]
  by simp

lemma writes_cells:
  "writes x (all_w ws) vs \<Longrightarrow> writes x (all_w (csv_cells x b fs @ ws)) (cells_bytes b fs @ vs)"
proof (induction fs arbitrary: b)
  case (Cons f fs)
  note rest = writes_cons [OF writes_csv_field Cons.IH [OF Cons.prems], of f False]
  show ?case
    using rest writes_cons [OF writes_push [where v = "'',''"] rest] by (simp del: all_w.simps)
qed (simp del: all_w.simps)

lemma writes_csv_record [write_rules]: "writes x (csv_record x fs) (row_bytes fs)"
  unfolding csv_record_def row_bytes_def
  using writes_cells [OF writes_cons [OF writes_push [where v = "[CHR 0x0D, CHR 0x0A]"] writes_nil]]
  by simp

lemma csv_quoted_double: "d \<noteq> CHR 0x22 \<Longrightarrow> csv_quoted (double_quotes v @ CHR 0x22 # d # r) = Some (v, d # r)"
  by (induction v) (simp_all add: double_quotes_Cons, simp add: double_quotes_def)

lemma csv_cell_bytes:
  assumes "d = CHR '','' \<or> d = CHR 0x0D"
  shows "csv_cell (cell_bytes v @ d # r) = Some (shown v, d # r)"
proof (cases "needs_quotes v")
  case True
  then show ?thesis using assms csv_quoted_double [of d "shown v" r] by (auto simp: cell_bytes_def csv_cell_def)
next
  case False
  have d: "\<not> csv_plain_char d" "d \<noteq> CHR 0x22" using assms by (auto simp: csv_plain_char_def)
  have v: "\<forall>c\<in>set v. csv_plain_char c" "shown v = v"
    using False by (auto simp: needs_quotes_def csv_plain_char_def shown_def list_ex_iff)
  have "takeWhile csv_plain_char (v @ d # r) = v" "dropWhile csv_plain_char (v @ d # r) = d # r"
    using d v by (simp_all add: takeWhile_append2 dropWhile_append2)
  moreover have "v = [] \<or> (\<exists>c w. v = c # w \<and> c \<noteq> CHR 0x22)"
    using v by (cases v) (auto simp: csv_plain_char_def)
  ultimately show ?thesis using d v False by (auto simp: cell_bytes_def csv_cell_def)
qed

lemma csv_line_bytes:
  "csv_line (cell_bytes f @ cells_bytes False fs @ CHR 0x0D # CHR 0x0A # r) = Some (map shown (f # fs), r)"
proof (induction fs arbitrary: f)
  case Nil
  show ?case by (subst csv_line.simps) (simp add: csv_cell_bytes starts_with_def)
next
  case (Cons g gs)
  show ?case by (subst csv_line.simps) (simp add: csv_cell_bytes Cons.IH)
qed

lemma parse_csv_rows:
  assumes "\<forall>row\<in>set rows. row \<noteq> []"
  shows "parse_csv (concat (map row_bytes rows)) = Some (map (map shown) rows)"
  using assms
proof (induction rows)
  case Nil
  then show ?case by (simp add: parse_csv.simps)
next
  case (Cons row rows)
  then obtain f fs where row: "row = f # fs" by (auto simp: neq_Nil_conv)
  have "parse_csv (concat (map row_bytes rows)) = Some (map (map shown) rows)" using Cons by simp
  then show ?case
    using csv_line_bytes [of f fs "concat (map row_bytes rows)"]
    by (subst parse_csv.simps) (auto simp: row row_bytes_def)
qed

text \<open>The table a document stands for, cell by cell.\<close>

definition feature_cell :: "('x graph_ext_scheme) \<Rightarrow> string list \<Rightarrow> string" where
  "feature_cell x features = (case json_strings x features of Inl _ \<Rightarrow> [] | Inr s \<Rightarrow> s)"

definition csv_table :: "('x graph_ext_scheme) \<Rightarrow> graph_document \<Rightarrow> string list list" where
  "csv_table x d = CSV_HEADER #
     (case gd_graph d of
        Declared package dependencies \<Rightarrow>
          package_row_csv d package # map (\<lambda>dep. dependency_row d package dep (feature_cell x (dd_features dep))) dependencies
      | Resolved c roots nodes edges _ _ _ \<Rightarrow>
          map (root_row d c) roots @ map (\<lambda>n. node_row d c n (feature_cell x (rn_features n))) nodes
          @ map (\<lambda>e. edge_row d c e (feature_cell x (ed_features e))) edges)"

lemma writes_features_row [write_rules]:
  "writes x (with_w (features_json x fs) (\<lambda>t. csv_record x (row t))) (row_bytes (row (feature_cell x fs)))"
  by (intro writes_with) (auto simp: features_json_def feature_cell_def writes_csv_record split: sum.splits)

lemma fits_features_row:
  "json_strings x fs = Inr t \<Longrightarrow>
     fits x (with_w (features_json x fs) (\<lambda>t. csv_record x (row t))) (row_bytes (row (feature_cell x fs)))"
  by (intro fits_with [of _ t]) (simp_all add: features_json_def feature_cell_def fits_csv_record)

lemma row_lengths [simp]:
  "length CSV_HEADER = 20" "length (package_row_csv d p) = 20" "length (dependency_row d p dep fs) = 20"
  "length (root_row d c r) = 20" "length (node_row d c n fs) = 20" "length (edge_row d c e fs) = 20"
  by (simp_all add: CSV_HEADER_def package_row_csv_def dependency_row_def root_row_def node_row_def edge_row_def
      csv_row_def Let_def)

lemma csv_table_width: "row \<in> set (csv_table x d) \<Longrightarrow> length row = 20"
  by (auto simp: csv_table_def split: graph_data.splits)

definition document_features :: "graph_document \<Rightarrow> string list set" where
  "document_features d =
     (case gd_graph d of
        Declared _ dependencies \<Rightarrow> dd_features ` set dependencies
      | Resolved _ _ nodes edges _ _ _ \<Rightarrow> rn_features ` set nodes \<union> ed_features ` set edges)"

lemma writes_encode_csv: "writes x (encode_csv_to x d) (concat (map row_bytes (csv_table x d)))"
proof (cases "gd_graph d")
  case (Declared p deps)
  let ?row = "\<lambda>dep. dependency_row d p dep (feature_cell x (dd_features dep))"
  have "writes x (all_w [csv_record x CSV_HEADER, all_w [csv_record x (package_row_csv d p),
      each_w (\<lambda>dep. with_w (features_json x (dd_features dep)) (\<lambda>fs. csv_record x (dependency_row d p dep fs))) deps]])
    (row_bytes CSV_HEADER @ (row_bytes (package_row_csv d p) @ concat (map (\<lambda>dep. row_bytes (?row dep)) deps) @ []) @ [])"
    by (intro write_rules)
  then show ?thesis using Declared unfolding encode_csv_to_def csv_table_def by (simp add: comp_def del: all_w.simps)
next
  case (Resolved c roots nodes edges pv t pj)
  have "writes x (all_w [csv_record x CSV_HEADER, all_w [each_w (\<lambda>r. csv_record x (root_row d c r)) roots,
      each_w (\<lambda>n. with_w (features_json x (rn_features n)) (\<lambda>fs. csv_record x (node_row d c n fs))) nodes,
      each_w (\<lambda>e. with_w (features_json x (ed_features e)) (\<lambda>fs. csv_record x (edge_row d c e fs))) edges]])
    (row_bytes CSV_HEADER @ (concat (map (\<lambda>r. row_bytes (root_row d c r)) roots)
      @ concat (map (\<lambda>n. row_bytes (node_row d c n (feature_cell x (rn_features n)))) nodes)
      @ concat (map (\<lambda>e. row_bytes (edge_row d c e (feature_cell x (ed_features e)))) edges) @ []) @ [])"
    by (intro write_rules)
  then show ?thesis using Resolved unfolding encode_csv_to_def csv_table_def by (simp add: comp_def del: all_w.simps)
qed

lemma fits_encode_csv:
  assumes "\<forall>fs\<in>document_features d. \<exists>t. json_strings x fs = Inr t"
  shows "fits x (encode_csv_to x d) (concat (map row_bytes (csv_table x d)))"
proof (cases "gd_graph d")
  case (Declared p deps)
  let ?row = "\<lambda>dep. dependency_row d p dep (feature_cell x (dd_features dep))"
  have "fits x (each_w (\<lambda>dep. with_w (features_json x (dd_features dep)) (\<lambda>fs. csv_record x (dependency_row d p dep fs))) deps)
      (concat (map (\<lambda>dep. row_bytes (?row dep)) deps))"
    using assms Declared by (intro fits_each) (auto simp: document_features_def intro: fits_features_row)
  then have "fits x (all_w [csv_record x CSV_HEADER, all_w [csv_record x (package_row_csv d p),
      each_w (\<lambda>dep. with_w (features_json x (dd_features dep)) (\<lambda>fs. csv_record x (dependency_row d p dep fs))) deps]])
    (row_bytes CSV_HEADER @ (row_bytes (package_row_csv d p) @ concat (map (\<lambda>dep. row_bytes (?row dep)) deps) @ []) @ [])"
    by (intro fits_cons fits_nil fits_csv_record)
  then show ?thesis using Declared unfolding encode_csv_to_def csv_table_def by (simp add: comp_def del: all_w.simps)
next
  case (Resolved c roots nodes edges pv t pj)
  have n: "fits x (each_w (\<lambda>n. with_w (features_json x (rn_features n)) (\<lambda>fs. csv_record x (node_row d c n fs))) nodes)
      (concat (map (\<lambda>n. row_bytes (node_row d c n (feature_cell x (rn_features n)))) nodes))"
    using assms Resolved by (intro fits_each) (auto simp: document_features_def intro: fits_features_row)
  have e: "fits x (each_w (\<lambda>e. with_w (features_json x (ed_features e)) (\<lambda>fs. csv_record x (edge_row d c e fs))) edges)
      (concat (map (\<lambda>e. row_bytes (edge_row d c e (feature_cell x (ed_features e)))) edges))"
    using assms Resolved by (intro fits_each) (auto simp: document_features_def intro: fits_features_row)
  have "fits x (all_w [csv_record x CSV_HEADER, all_w [each_w (\<lambda>r. csv_record x (root_row d c r)) roots,
      each_w (\<lambda>n. with_w (features_json x (rn_features n)) (\<lambda>fs. csv_record x (node_row d c n fs))) nodes,
      each_w (\<lambda>e. with_w (features_json x (ed_features e)) (\<lambda>fs. csv_record x (edge_row d c e fs))) edges]])
    (row_bytes CSV_HEADER @ (concat (map (\<lambda>r. row_bytes (root_row d c r)) roots)
      @ concat (map (\<lambda>n. row_bytes (node_row d c n (feature_cell x (rn_features n)))) nodes)
      @ concat (map (\<lambda>e. row_bytes (edge_row d c e (feature_cell x (ed_features e)))) edges) @ []) @ [])"
    by (intro fits_cons fits_nil fits_each fits_csv_record n e)
  then show ?thesis using Resolved unfolding encode_csv_to_def csv_table_def by (simp add: comp_def del: all_w.simps)
qed

lemma shown_is_safe: "\<not> spreadsheet_unsafe (shown v)"
proof (cases "spreadsheet_unsafe v")
  case True
  have "strip_any ws_encodings (CHR 0x27 # v) = None"
    by (simp add: ws_encodings_def starts_with_def char_of_def)
  then have "trim_start (CHR 0x27 # v) = CHR 0x27 # v" by (simp add: trim_start_def trim_with.simps)
  then have "\<not> spreadsheet_unsafe (CHR 0x27 # v)" by (simp add: spreadsheet_unsafe_def)
  then show ?thesis using True by (simp add: shown_def)
qed (simp add: shown_def)

text \<open>
  A cell a spreadsheet takes for a formula, written out: it starts with a tab or a line end, or one of
  the four formula signs follows any amount of Unicode white space.
\<close>

definition formula_cell :: "string \<Rightarrow> bool" where
  "formula_cell v \<longleftrightarrow> (\<exists>c rest. v = c # rest \<and> c \<in> {CHR 0x09, CHR 0x0D, CHR 0x0A})
     \<or> (\<exists>blanks c rest. v = concat blanks @ c # rest \<and> set blanks \<subseteq> set ws_encodings \<and> c \<in> set ''=+-@'')"

lemma strip_any_Some: "strip_any ws s = Some r \<Longrightarrow> \<exists>w\<in>set ws. s = w @ r"
  by (induction ws) (auto simp: starts_with_iff split: if_splits)

text \<open>No encoding of a blank starts another.\<close>

definition prefix_free :: "string list \<Rightarrow> bool" where
  "prefix_free ws \<longleftrightarrow> list_all (\<lambda>w. w \<noteq> [] \<and> list_all (\<lambda>v. v = w \<or> take (length v) w \<noteq> v \<and> take (length w) v \<noteq> w) ws) ws"

lemma ws_prefix_free: "prefix_free ws_encodings"
  by code_simp

lemma strip_prefix_free:
  "w \<in> set ws \<Longrightarrow> w \<noteq> [] \<Longrightarrow> \<forall>v\<in>set ws. v = w \<or> take (length v) w \<noteq> v \<and> take (length w) v \<noteq> w \<Longrightarrow>
     strip_any ws (w @ s) = Some s"
proof (induction ws)
  case (Cons v ws)
  show ?case
  proof (cases "v = w")
    case True
    then show ?thesis using Cons.prems(2) by (simp add: starts_with_def)
  next
    case False
    then have ne: "take (length v) w \<noteq> v" "take (length w) v \<noteq> w" using Cons.prems(3) by auto
    have "\<not> starts_with (w @ s) v"
    proof
      assume "starts_with (w @ s) v"
      then obtain r where "w @ s = v @ r" by (auto simp: starts_with_iff)
      then show False using ne by (auto simp: append_eq_append_conv2)
    qed
    then show ?thesis using Cons False by simp
  qed
qed simp

lemma strip_white_space: "w \<in> set ws_encodings \<Longrightarrow> strip_any ws_encodings (w @ s) = Some s"
  using ws_prefix_free unfolding prefix_free_def list_all_iff by (intro strip_prefix_free) blast+

lemma trim_blanks: "set blanks \<subseteq> set ws_encodings \<Longrightarrow> trim_start (concat blanks @ s) = trim_start s"
proof (induction blanks)
  case (Cons w blanks)
  then have "strip_any ws_encodings (w @ concat blanks @ s) = Some (concat blanks @ s)" using strip_white_space by simp
  then have "trim_start (w @ concat blanks @ s) = trim_start (concat blanks @ s)"
    unfolding trim_start_def by (subst trim_with.simps) simp
  then show ?case using Cons by simp
qed simp

lemma trim_start_blanks: "\<exists>blanks. s = concat blanks @ trim_start s \<and> set blanks \<subseteq> set ws_encodings"
proof (induction s rule: length_induct)
  case (1 s)
  show ?case
  proof (cases "strip_any ws_encodings s")
    case None
    then have "trim_start s = s" unfolding trim_start_def by (subst trim_with.simps) simp
    then show ?thesis by (intro exI [of _ "[]"]) simp
  next
    case (Some r)
    then obtain blanks where "r = concat blanks @ trim_start r" "set blanks \<subseteq> set ws_encodings"
      using 1 strip_any_shorter by blast
    moreover obtain w where "w \<in> set ws_encodings" "s = w @ r" using strip_any_Some [OF Some] by blast
    moreover have "trim_start s = trim_start r" unfolding trim_start_def using Some by (subst trim_with.simps) simp
    ultimately show ?thesis by (intro exI [of _ "w # blanks"]) simp
  qed
qed

lemma sign_not_blank: "c \<in> set ''=+-@'' \<Longrightarrow> trim_start (c # rest) = c # rest"
proof -
  assume "c \<in> set ''=+-@''"
  then have "is_graphic c" by (auto simp: is_graphic_def byte_of_def)
  then show ?thesis using ws_not_graphic by (simp add: trim_start_def trim_with_graphic)
qed

lemma spreadsheet_unsafe_iff: "spreadsheet_unsafe v \<longleftrightarrow> formula_cell v"
proof
  assume "spreadsheet_unsafe v"
  then show "formula_cell v"
    using trim_start_blanks [of v] unfolding spreadsheet_unsafe_def formula_cell_def
    by (cases v; cases "trim_start v") auto
next
  assume "formula_cell v"
  then show "spreadsheet_unsafe v"
    unfolding formula_cell_def spreadsheet_unsafe_def
    by (elim disjE exE conjE) (use sign_not_blank in \<open>auto simp: trim_blanks\<close>)
qed

text \<open>C33. The CSV projection is exact: a document renders to one file only, and to that file exactly when it
  is within the encoded limit. A reader of RFC 4180 recovers from it the rows the document stands
  for, of twenty cells each, one for the header and one per node and edge, whatever bytes the cells
  hold. A cell read back is its value, with one apostrophe in front exactly where a spreadsheet would take
  the value for a formula, and no cell read back is one a spreadsheet would take for a formula.\<close>

theorem csv_is_read_back_without_formulas:
  assumes "MAX_ENCODED x \<le> u64_max" and "\<forall>fs\<in>document_features d. \<exists>t. json_strings x fs = Inr t"
  shows "\<exists>bytes rows. (\<forall>out. encode_csv x d = Inr out \<longleftrightarrow> out = bytes \<and> length bytes \<le> MAX_ENCODED x)
    \<and> parse_csv bytes = Some rows
    \<and> rows = map (map (\<lambda>v. if formula_cell v then CHR 0x27 # v else v)) (csv_table x d)
    \<and> (\<forall>row\<in>set rows. length row = 20 \<and> (\<forall>cell\<in>set row. \<not> formula_cell cell))"
proof -
  let ?bytes = "concat (map row_bytes (csv_table x d))" and ?rows = "map (map shown) (csv_table x d)"
  have "\<forall>row\<in>set (csv_table x d). row \<noteq> []" using csv_table_width by fastforce
  then have "parse_csv ?bytes = Some ?rows" by (rule parse_csv_rows)
  moreover have "\<forall>out. encode_csv x d = Inr out \<longleftrightarrow> out = ?bytes \<and> length ?bytes \<le> MAX_ENCODED x"
    unfolding encode_csv_def by (intro allI written_iff [OF writes_encode_csv fits_encode_csv [OF assms(2)] assms(1)])
  moreover have "shown = (\<lambda>v. if formula_cell v then CHR 0x27 # v else v)"
    by (simp add: fun_eq_iff shown_def spreadsheet_unsafe_iff)
  moreover have "\<forall>row\<in>set ?rows. length row = 20 \<and> (\<forall>cell\<in>set row. \<not> formula_cell cell)"
    using csv_table_width shown_is_safe by (auto simp: spreadsheet_unsafe_iff)
  ultimately show ?thesis by (intro exI [of _ ?bytes] exI [of _ ?rows]) simp
qed

definition csv_doc_1 :: graph_document where
  "csv_doc_1 = \<lparr>gd_schema = ''v1'', gd_graph = Declared \<lparr>pi_registry = ''r'', pi_org = ''o'', pi_name = ''=a,'', pi_version = ''1''\<rparr> [],
     gd_digest = None\<rparr>"

theorem csv_is_read_back_without_formulas_witness:
  "\<exists>bytes rows. parse_csv bytes = Some rows
     \<and> rows = map (map (\<lambda>v. if formula_cell v then CHR 0x27 # v else v)) (csv_table toy_graph_ext csv_doc_1)"
proof -
  have "MAX_ENCODED toy_graph_ext \<le> u64_max" by (simp add: u64_max_def)
  moreover have "\<forall>fs\<in>document_features csv_doc_1. \<exists>t. json_strings toy_graph_ext fs = Inr t" by simp
  ultimately show ?thesis using csv_is_read_back_without_formulas [of toy_graph_ext csv_doc_1] by blast
qed

end
