(* ===== verification/Xml.thy ===== *)
theory Xml
  imports GraphOut
begin

section \<open>The XML projection (\<^verbatim>\<open>src/routes/graph_exports/xml.rs\<close>)\<close>

text \<open>
  The document is written element by element through a bounded output that accepts the characters of
  XML 1.0 only. \<open>write!\<close> sends its pieces through the same bound with the same error, so it is one
  \<open>push\_bounded\<close> of the whole piece.
\<close>

subsection \<open>Text\<close>

abbreviation dq :: string where "dq \<equiv> [CHR 0x22]"
abbreviation nl :: string where "nl \<equiv> [CHR 0x0A]"

definition is_xml_10_character :: "string \<Rightarrow> bool" where
  "is_xml_10_character character \<longleftrightarrow>
     (let n = scalar character
      in n \<in> {9, 10, 13} \<or> (0x20 \<le> n \<and> n \<le> 0xd7ff) \<or> (0xe000 \<le> n \<and> n \<le> 0xfffd) \<or> (0x10000 \<le> n \<and> n \<le> 0x10ffff))"

definition graph_not_representable :: api_err where
  "graph_not_representable = api_err 422 ''graph_not_representable''
     ''dependency graph contains a character XML 1.0 cannot represent''"

definition xml_escape :: "bool \<Rightarrow> string \<Rightarrow> string" where
  "xml_escape attribute character =
     (if character = ''&'' then ''&amp;''
      else if character = ''<'' then ''&lt;''
      else if character = ''>'' then ''&gt;''
      else if character = [CHR 0x22] \<and> attribute then ''&quot;''
      else if character = [CHR 0x27] \<and> attribute then ''&apos;''
      else if character = [CHR 0x09] \<and> attribute then ''&#9;''
      else if character = [CHR 0x0A] \<and> attribute then ''&#10;''
      else if character = [CHR 0x0D] then ''&#13;''
      else character)"

definition xml_escaped :: "('x graph_ext_scheme) \<Rightarrow> bool \<Rightarrow> string \<Rightarrow> writer" where
  "xml_escaped x attribute v =
     each_w (\<lambda>character out. if \<not> is_xml_10_character character then Inl graph_not_representable
                             else push_bounded x (xml_escape attribute character) out) (chars v)"

definition xml_text :: "('x graph_ext_scheme) \<Rightarrow> string \<Rightarrow> writer" where
  "xml_text x v = xml_escaped x False v"

definition xml_attribute :: "('x graph_ext_scheme) \<Rightarrow> string \<Rightarrow> string \<Rightarrow> writer" where
  "xml_attribute x name v = all_w [push_bounded x ('' '' @ name @ ''='' @ dq), xml_escaped x True v, push_bounded x dq]"

subsection \<open>Elements\<close>

definition xml_identity_attributes :: "('x graph_ext_scheme) \<Rightarrow> package_version_identity \<Rightarrow> writer" where
  "xml_identity_attributes x i = all_w [xml_attribute x ''registry-id'' (pi_registry i), xml_attribute x ''org'' (pi_org i),
     xml_attribute x ''name'' (pi_name i), xml_attribute x ''version'' (pi_version i)]"

definition xml_identity :: "('x graph_ext_scheme) \<Rightarrow> string \<Rightarrow> package_version_identity \<Rightarrow> writer" where
  "xml_identity x tag i = all_w [push_bounded x (''<'' @ tag), xml_identity_attributes x i, push_bounded x ('' />'' @ nl)]"

definition xml_features :: "('x graph_ext_scheme) \<Rightarrow> string list \<Rightarrow> nat \<Rightarrow> writer" where
  "xml_features x features spaces =
     (let indent = replicate spaces CHR '' ''
      in all_w [push_bounded x (indent @ ''<features>'' @ nl),
           each_w (\<lambda>feature. all_w [push_bounded x (indent @ ''  <feature>''), xml_text x feature,
             push_bounded x (''</feature>'' @ nl)]) features,
           push_bounded x (indent @ ''</features>'' @ nl)])"

definition xml_provenance :: "('x graph_ext_scheme) \<Rightarrow> resolution_provenance \<Rightarrow> writer" where
  "xml_provenance x p = all_w
     [push_bounded x ''<provenance'',
      xml_attribute x ''resolver-version'' (rp_resolver p),
      xml_attribute x ''target'' (rp_target p),
      xml_attribute x ''lock-digest'' (rp_lock p),
      push_bounded x (''>'' @ nl),
      if rp_features p \<noteq> [] then xml_features x (rp_features p) 4 else all_w [],
      push_bounded x (''    <registry-snapshots>'' @ nl),
      each_w (\<lambda>s. all_w [push_bounded x ''      <registry-snapshot'', xml_attribute x ''registry-id'' (rs_registry s),
        xml_attribute x ''checkpoint-digest'' (rs_checkpoint s), push_bounded x ('' />'' @ nl)]) (rp_snapshots p),
      push_bounded x (''    </registry-snapshots>'' @ nl @ ''  </provenance>'' @ nl)]"

definition xml_projection :: "('x graph_ext_scheme) \<Rightarrow> graph_projection \<Rightarrow> writer" where
  "xml_projection x p = all_w
     [push_bounded x ''<projection'',
      opt_w (xml_attribute x ''target'') (gp_target p),
      opt_w (\<lambda>max_depth. xml_attribute x ''max-depth'' (show_nat max_depth)) (gp_max_depth p),
      if gp_features p = [] \<and> gp_kinds p = [] then push_bounded x ('' />'' @ nl)
      else all_w
        [push_bounded x (''>'' @ nl),
         if gp_features p \<noteq> [] then xml_features x (gp_features p) 4 else all_w [],
         if gp_kinds p \<noteq> []
         then all_w [push_bounded x (''    <kinds>'' @ nl),
           each_w (\<lambda>kind. push_bounded x (''      <kind>'' @ dependency_kind_name kind @ ''</kind>'' @ nl)) (gp_kinds p),
           push_bounded x (''    </kinds>'' @ nl)]
         else all_w [],
         push_bounded x (''  </projection>'' @ nl)]]"

definition xml_dependency :: "('x graph_ext_scheme) \<Rightarrow> declared_dependency \<Rightarrow> writer" where
  "xml_dependency x dep = all_w
     [push_bounded x ''    <dependency'',
      xml_attribute x ''registry-id'' (dd_registry dep), xml_attribute x ''org'' (dd_org dep),
      xml_attribute x ''name'' (dd_name dep), xml_attribute x ''requirement'' (dd_requirement dep),
      xml_attribute x ''kind'' (dependency_kind_name (dd_kind dep)),
      xml_attribute x ''optional'' (bool_name (dd_optional dep)),
      xml_attribute x ''default-features'' (bool_name (dd_default_features dep)),
      opt_w (xml_attribute x ''target'') (dd_target dep),
      if dd_features dep = [] then push_bounded x ('' />'' @ nl)
      else all_w [push_bounded x (''>'' @ nl), xml_features x (dd_features dep) 6,
             push_bounded x (''    </dependency>'' @ nl)]]"

definition xml_node :: "('x graph_ext_scheme) \<Rightarrow> resolved_node \<Rightarrow> writer" where
  "xml_node x node = all_w
     [push_bounded x ''    <node'', xml_identity_attributes x (rn_id node),
      opt_w (xml_attribute x ''artifact-digest'') (rn_digest node),
      if rn_features node = [] then push_bounded x ('' />'' @ nl)
      else all_w [push_bounded x (''>'' @ nl), xml_features x (rn_features node) 6, push_bounded x (''    </node>'' @ nl)]]"

definition xml_edge :: "('x graph_ext_scheme) \<Rightarrow> resolved_edge \<Rightarrow> writer" where
  "xml_edge x edge = all_w
     [push_bounded x ''    <edge'',
      xml_attribute x ''kind'' (dependency_kind_name (ed_kind edge)),
      xml_attribute x ''optional'' (bool_name (ed_optional edge)),
      opt_w (xml_attribute x ''requirement'') (ed_requirement edge),
      opt_w (xml_attribute x ''target'') (ed_target edge),
      push_bounded x (''>'' @ nl @ ''      ''), xml_identity x ''from'' (ed_from edge),
      push_bounded x ''      '', xml_identity x ''to'' (ed_to edge),
      if ed_features edge \<noteq> [] then xml_features x (ed_features edge) 6 else all_w [],
      push_bounded x (''    </edge>'' @ nl)]"

definition encode_xml_to :: "('x graph_ext_scheme) \<Rightarrow> graph_document \<Rightarrow> writer" where
  "encode_xml_to x d = all_w
     [push_bounded x (''<?xml version='' @ dq @ ''1.0'' @ dq @ '' encoding='' @ dq @ ''UTF-8'' @ dq @ ''?>'' @ nl),
      push_bounded x ''<dependency-graph'',
      xml_attribute x ''schema'' (gd_schema d),
      opt_w (xml_attribute x ''graph-digest'') (gd_digest d),
      case gd_graph d of
        Declared package dependencies \<Rightarrow> all_w
          [xml_attribute x ''view'' ''declared'',
           push_bounded x (''>'' @ nl @ ''  ''),
           xml_identity x ''package'' package,
           push_bounded x (''  <dependencies count='' @ dq @ show_nat (length dependencies) @ dq @ ''>'' @ nl),
           each_w (xml_dependency x) dependencies,
           push_bounded x (''  </dependencies>'' @ nl @ ''</dependency-graph>'' @ nl)]
      | Resolved c roots nodes edges provenance parent projection \<Rightarrow> all_w
          [xml_attribute x ''view'' ''resolved'',
           xml_attribute x ''completeness'' (completeness_name c),
           push_bounded x (''>'' @ nl @ ''  <roots>'' @ nl),
           each_w (\<lambda>root. all_w [push_bounded x ''    '', xml_identity x ''root'' root]) roots,
           push_bounded x (''  </roots>'' @ nl @ ''  <nodes>'' @ nl),
           each_w (xml_node x) nodes,
           push_bounded x (''  </nodes>'' @ nl @ ''  <edges>'' @ nl),
           each_w (xml_edge x) edges,
           push_bounded x (''  </edges>'' @ nl @ ''  ''),
           xml_provenance x provenance,
           opt_w (\<lambda>digest. all_w [push_bounded x ''  <parent-graph'', xml_attribute x ''digest'' digest,
             push_bounded x ('' />'' @ nl)]) parent,
           opt_w (\<lambda>p. all_w [push_bounded x ''  '', xml_projection x p]) projection,
           push_bounded x (''</dependency-graph>'' @ nl)]]"

definition encode_xml :: "('x graph_ext_scheme) \<Rightarrow> graph_document \<Rightarrow> string api_result" where
  "encode_xml x d = encode_xml_to x d []"

end
