(* ===== verification/XmlLaws.thy ===== *)
theory XmlLaws
  imports Xml
begin

section \<open>The XML projection is lossless\<close>

text \<open>
  What each XML writer appends, as a string, and the injectivity of those strings: two pieces that
  agree at the start of a text are the same piece and leave the same rest. The document follows
  piece by piece.
\<close>

subsection \<open>The bytes of the pieces\<close>

definition esc_bytes :: "bool \<Rightarrow> string \<Rightarrow> string" where
  "esc_bytes attribute v = concat (map (\<lambda>c. xml_escape attribute [c]) v)"

definition attr_bytes :: "string \<Rightarrow> string \<Rightarrow> string" where
  "attr_bytes name v = '' '' @ name @ ''='' @ dq @ esc_bytes True v @ dq"

definition opt_bytes :: "('a \<Rightarrow> string) \<Rightarrow> 'a option \<Rightarrow> string" where
  "opt_bytes f v = (case v of None \<Rightarrow> [] | Some a \<Rightarrow> f a)"

definition id_attrs_bytes :: "package_version_identity \<Rightarrow> string" where
  "id_attrs_bytes i = attr_bytes ''registry-id'' (pi_registry i) @ attr_bytes ''org'' (pi_org i)
     @ attr_bytes ''name'' (pi_name i) @ attr_bytes ''version'' (pi_version i)"

definition id_bytes :: "string \<Rightarrow> package_version_identity \<Rightarrow> string" where
  "id_bytes tag i = ''<'' @ tag @ id_attrs_bytes i @ '' />'' @ nl"

definition feature_bytes :: "nat \<Rightarrow> string \<Rightarrow> string" where
  "feature_bytes spaces f = replicate spaces CHR '' '' @ ''  <feature>'' @ esc_bytes False f @ ''</feature>'' @ nl"

definition features_bytes :: "string list \<Rightarrow> nat \<Rightarrow> string" where
  "features_bytes fs spaces = replicate spaces CHR '' '' @ ''<features>'' @ nl @ concat (map (feature_bytes spaces) fs)
     @ replicate spaces CHR '' '' @ ''</features>'' @ nl"

definition some_features :: "string list \<Rightarrow> nat \<Rightarrow> string" where
  "some_features fs n = (if fs \<noteq> [] then features_bytes fs n else [])"

definition snapshot_bytes :: "registry_snapshot \<Rightarrow> string" where
  "snapshot_bytes s = ''      <registry-snapshot'' @ attr_bytes ''registry-id'' (rs_registry s)
     @ attr_bytes ''checkpoint-digest'' (rs_checkpoint s) @ '' />'' @ nl"

definition provenance_bytes :: "resolution_provenance \<Rightarrow> string" where
  "provenance_bytes p = ''<provenance'' @ attr_bytes ''resolver-version'' (rp_resolver p) @ attr_bytes ''target'' (rp_target p)
     @ attr_bytes ''lock-digest'' (rp_lock p) @ ''>'' @ nl
     @ some_features (rp_features p) 4
     @ ''    <registry-snapshots>'' @ nl @ concat (map snapshot_bytes (rp_snapshots p))
     @ ''    </registry-snapshots>'' @ nl @ ''  </provenance>'' @ nl"

definition kind_bytes :: "dependency_kind \<Rightarrow> string" where
  "kind_bytes k = ''      <kind>'' @ dependency_kind_name k @ ''</kind>'' @ nl"

definition some_kinds :: "dependency_kind list \<Rightarrow> string" where
  "some_kinds ks = (if ks \<noteq> [] then ''    <kinds>'' @ nl @ concat (map kind_bytes ks) @ ''    </kinds>'' @ nl else [])"

definition projection_body :: "string list \<Rightarrow> dependency_kind list \<Rightarrow> string" where
  "projection_body fs ks =
     (if fs = [] \<and> ks = [] then '' />'' @ nl
      else ''>'' @ nl @ some_features fs 4 @ some_kinds ks @ ''  </projection>'' @ nl)"

definition projection_bytes :: "graph_projection \<Rightarrow> string" where
  "projection_bytes p = ''<projection'' @ opt_bytes (attr_bytes ''target'') (gp_target p)
     @ opt_bytes (\<lambda>n. attr_bytes ''max-depth'' (show_nat n)) (gp_max_depth p)
     @ projection_body (gp_features p) (gp_kinds p)"

definition content_bytes :: "string list \<Rightarrow> string \<Rightarrow> string" where
  "content_bytes fs tag = (if fs = [] then '' />'' @ nl else ''>'' @ nl @ features_bytes fs 6 @ ''    </'' @ tag @ ''>'' @ nl)"

definition dependency_bytes :: "declared_dependency \<Rightarrow> string" where
  "dependency_bytes dep = ''    <dependency'' @ attr_bytes ''registry-id'' (dd_registry dep) @ attr_bytes ''org'' (dd_org dep)
     @ attr_bytes ''name'' (dd_name dep) @ attr_bytes ''requirement'' (dd_requirement dep)
     @ attr_bytes ''kind'' (dependency_kind_name (dd_kind dep)) @ attr_bytes ''optional'' (bool_name (dd_optional dep))
     @ attr_bytes ''default-features'' (bool_name (dd_default_features dep))
     @ opt_bytes (attr_bytes ''target'') (dd_target dep)
     @ content_bytes (dd_features dep) ''dependency''"

definition node_bytes :: "resolved_node \<Rightarrow> string" where
  "node_bytes node = ''    <node'' @ id_attrs_bytes (rn_id node) @ opt_bytes (attr_bytes ''artifact-digest'') (rn_digest node)
     @ content_bytes (rn_features node) ''node''"

definition edge_bytes :: "resolved_edge \<Rightarrow> string" where
  "edge_bytes e = ''    <edge'' @ attr_bytes ''kind'' (dependency_kind_name (ed_kind e))
     @ attr_bytes ''optional'' (bool_name (ed_optional e)) @ opt_bytes (attr_bytes ''requirement'') (ed_requirement e)
     @ opt_bytes (attr_bytes ''target'') (ed_target e) @ ''>'' @ nl @ ''      '' @ id_bytes ''from'' (ed_from e)
     @ ''      '' @ id_bytes ''to'' (ed_to e)
     @ some_features (ed_features e) 6 @ ''    </edge>'' @ nl"

definition parent_bytes :: "string \<Rightarrow> string" where
  "parent_bytes digest = ''  <parent-graph'' @ attr_bytes ''digest'' digest @ '' />'' @ nl"

fun graph_bytes :: "graph_data \<Rightarrow> string" where
  "graph_bytes (Declared package dependencies) =
     attr_bytes ''view'' ''declared'' @ ''>'' @ nl @ ''  '' @ id_bytes ''package'' package
     @ ''  <dependencies count='' @ dq @ show_nat (length dependencies) @ dq @ ''>'' @ nl
     @ concat (map dependency_bytes dependencies) @ ''  </dependencies>'' @ nl @ ''</dependency-graph>'' @ nl"
| "graph_bytes (Resolved c roots nodes edges provenance parent projection) =
     attr_bytes ''view'' ''resolved'' @ attr_bytes ''completeness'' (completeness_name c) @ ''>'' @ nl @ ''  <roots>'' @ nl
     @ concat (map (\<lambda>r. ''    '' @ id_bytes ''root'' r) roots) @ ''  </roots>'' @ nl @ ''  <nodes>'' @ nl
     @ concat (map node_bytes nodes) @ ''  </nodes>'' @ nl @ ''  <edges>'' @ nl
     @ concat (map edge_bytes edges) @ ''  </edges>'' @ nl @ ''  '' @ provenance_bytes provenance
     @ opt_bytes parent_bytes parent @ opt_bytes (\<lambda>p. ''  '' @ projection_bytes p) projection @ ''</dependency-graph>'' @ nl"

definition xml_bytes :: "graph_document \<Rightarrow> string" where
  "xml_bytes d = ''<?xml version='' @ dq @ ''1.0'' @ dq @ '' encoding='' @ dq @ ''UTF-8'' @ dq @ ''?>'' @ nl
     @ ''<dependency-graph'' @ attr_bytes ''schema'' (gd_schema d) @ opt_bytes (attr_bytes ''graph-digest'') (gd_digest d)
     @ graph_bytes (gd_graph d)"

subsection \<open>The writers append these bytes\<close>

definition xml_specials :: "string" where
  "xml_specials = [CHR ''&'', CHR ''<'', CHR ''>'', CHR 0x22, CHR 0x27, CHR 0x09, CHR 0x0A, CHR 0x0D]"

lemma xml_escape_other: "ch \<notin> (\<lambda>c. [c]) ` set xml_specials \<Longrightarrow> xml_escape a ch = ch"
  by (simp add: xml_escape_def xml_specials_def)

lemma specials_low: "c \<in> set xml_specials \<Longrightarrow> byte_of c < 128"
proof -
  have "list_all (\<lambda>c. byte_of c < 128) xml_specials" by (simp add: xml_specials_def byte_of_def)
  then show "c \<in> set xml_specials \<Longrightarrow> byte_of c < 128" by (simp add: list_all_iff)
qed

lemma xml_escape_high: "\<forall>c\<in>set ch. 128 \<le> byte_of c \<Longrightarrow> xml_escape a ch = ch"
  by (rule xml_escape_other) (fastforce dest: specials_low)

lemma xml_escape_chunk: "ch \<in> set (chars s) \<Longrightarrow> xml_escape a ch = esc_bytes a ch"
proof -
  assume "ch \<in> set (chars s)"
  from chars_chunk [OF this] consider c where "ch = [c]" | "\<forall>c\<in>set ch. 128 \<le> byte_of c" by blast
  then show ?thesis
  proof cases
    case 1
    then show ?thesis by (simp add: esc_bytes_def)
  next
    case 2
    have "map (\<lambda>c. xml_escape a [c]) ch = map (\<lambda>c. [c]) ch"
      using 2 by (intro map_cong refl) (simp add: xml_escape_high)
    then show ?thesis using 2 by (simp only: esc_bytes_def xml_escape_high) simp
  qed
qed

lemma esc_bytes_concat: "esc_bytes a (concat css) = concat (map (esc_bytes a) css)"
  by (induction css) (simp_all add: esc_bytes_def)

lemma escapes_of_chars: "concat (map (xml_escape a) (chars v)) = esc_bytes a v"
proof -
  have "map (xml_escape a) (chars v) = map (esc_bytes a) (chars v)"
    by (intro map_cong refl) (rule xml_escape_chunk)
  then show ?thesis by (simp only: esc_bytes_concat [symmetric] concat_chars)
qed

lemma writes_escaped [write_rules]: "writes x (xml_escaped x a v) (esc_bytes a v)"
proof -
  have "writes x (\<lambda>out. if \<not> is_xml_10_character c then Inl graph_not_representable else push_bounded x (xml_escape a c) out)
      (xml_escape a c)" for c
    using writes_push [of x "xml_escape a c"] by (auto simp: writes_def)
  then show ?thesis
    unfolding xml_escaped_def escapes_of_chars [symmetric] by (rule writes_each)
qed

lemma writes_attribute [write_rules]: "writes x (xml_attribute x name v) (attr_bytes name v)"
proof -
  have "writes x (xml_attribute x name v) (('' '' @ name @ ''='' @ dq) @ esc_bytes True v @ dq @ [])"
    unfolding xml_attribute_def by (intro write_rules)
  then show ?thesis by (simp add: attr_bytes_def)
qed


lemma opt_bytes_simps [simp]: "opt_bytes f None = []" "opt_bytes f (Some a) = f a"
  by (simp_all add: opt_bytes_def)

lemma writes_opt_bytes [write_rules]:
  "(\<And>a. writes x (f a) (g a)) \<Longrightarrow> writes x (opt_w f v) (opt_bytes g v)"
  unfolding opt_bytes_def by (rule writes_opt)

named_theorems piece_writes \<open>what the writer of a piece appends\<close>

lemma writes_eq: "writes x w u \<Longrightarrow> u = v \<Longrightarrow> writes x w v"
  by simp

lemma writes_id_attrs [piece_writes]: "writes x (xml_identity_attributes x i) (id_attrs_bytes i)"
  unfolding xml_identity_attributes_def id_attrs_bytes_def
  by (rule writes_eq, (rule write_rules piece_writes)+, simp)

lemma writes_id [piece_writes]: "writes x (xml_identity x tag i) (id_bytes tag i)"
  unfolding xml_identity_def id_bytes_def
  by (rule writes_eq, (rule write_rules piece_writes)+, simp)

lemma writes_features [piece_writes]: "writes x (xml_features x fs n) (features_bytes fs n)"
  unfolding xml_features_def features_bytes_def Let_def xml_text_def feature_bytes_def
  by (rule writes_eq, (rule write_rules piece_writes)+, simp)

lemma writes_provenance [piece_writes]: "writes x (xml_provenance x p) (provenance_bytes p)"
  unfolding xml_provenance_def provenance_bytes_def snapshot_bytes_def
  by (rule writes_eq, (rule write_rules piece_writes)+, simp add: some_features_def)

lemma writes_projection [piece_writes]: "writes x (xml_projection x p) (projection_bytes p)"
  unfolding xml_projection_def projection_bytes_def projection_body_def some_kinds_def kind_bytes_def
  by (rule writes_eq, (rule write_rules piece_writes)+, simp add: some_features_def)

lemma writes_dependency [piece_writes]: "writes x (xml_dependency x dep) (dependency_bytes dep)"
  unfolding xml_dependency_def dependency_bytes_def content_bytes_def
  by (rule writes_eq, (rule write_rules piece_writes)+, simp)

lemma writes_node [piece_writes]: "writes x (xml_node x node) (node_bytes node)"
  unfolding xml_node_def node_bytes_def content_bytes_def
  by (rule writes_eq, (rule write_rules piece_writes)+, simp)

lemma writes_edge [piece_writes]: "writes x (xml_edge x edge) (edge_bytes edge)"
  unfolding xml_edge_def edge_bytes_def
  by (rule writes_eq, (rule write_rules piece_writes)+, simp add: some_features_def)

lemma writes_encode_xml: "writes x (encode_xml_to x d) (xml_bytes d)"
proof (cases "gd_graph d")
  case (Declared package dependencies)
  show ?thesis
    unfolding encode_xml_to_def xml_bytes_def Declared graph_data.case graph_bytes.simps
    by (rule writes_eq, (rule write_rules piece_writes)+, simp)
next
  case (Resolved c roots nodes edges provenance parent projection)
  show ?thesis
    unfolding encode_xml_to_def xml_bytes_def Resolved graph_data.case graph_bytes.simps parent_bytes_def
    by (rule writes_eq, (rule write_rules piece_writes)+, simp)
qed

subsection \<open>Pieces are told apart by what they start with\<close>

lemma prefix_list:
  assumes "\<And>a b r s. f a @ r = f b @ s \<longleftrightarrow> a = b \<and> r = s" and "\<And>a r s. f a @ r \<noteq> t @ s"
  shows "concat (map f xs) @ t @ r = concat (map f ys) @ t @ s \<longleftrightarrow> xs = ys \<and> r = s"
proof (induction xs arbitrary: ys)
  case Nil
  then show ?case using assms(2) by (cases ys) (auto dest: sym)
next
  case (Cons x xs)
  then show ?case using assms by (cases ys) auto
qed

lemma escape_prefix_free: "xml_escape a [c] @ r = xml_escape a [d] @ s \<longleftrightarrow> c = d \<and> r = s"
  by (simp add: xml_escape_def split: if_split)

lemma escape_not_quote: "xml_escape True [c] @ r \<noteq> [CHR 0x22] @ s"
  by (simp add: xml_escape_def)

lemma escape_not_lt: "xml_escape False [c] @ r \<noteq> [CHR ''<''] @ s"
  by (simp add: xml_escape_def)

lemma esc_attr_split [simp]:
  "esc_bytes True v @ CHR 0x22 # r = esc_bytes True u @ CHR 0x22 # s \<longleftrightarrow> v = u \<and> r = s"
  using prefix_list [of "\<lambda>c. xml_escape True [c]" "[CHR 0x22]", OF escape_prefix_free escape_not_quote]
  by (simp add: esc_bytes_def)

lemma esc_text_split [simp]:
  "esc_bytes False v @ CHR ''<'' # r = esc_bytes False u @ CHR ''<'' # s \<longleftrightarrow> v = u \<and> r = s"
  using prefix_list [of "\<lambda>c. xml_escape False [c]" "[CHR ''<'']", OF escape_prefix_free escape_not_lt]
  by (simp add: esc_bytes_def)

lemma dependency_kind_name_inj [simp]: "dependency_kind_name k = dependency_kind_name l \<longleftrightarrow> k = l"
  by (cases k; cases l) simp_all

lemma completeness_name_inj [simp]: "completeness_name k = completeness_name l \<longleftrightarrow> k = l"
  by (cases k; cases l) simp_all

lemma bool_name_inj [simp]: "bool_name a = bool_name b \<longleftrightarrow> a = b"
  by (simp add: bool_name_def)

lemma show_nat_eq_iff [simp]: "show_nat n = show_nat m \<longleftrightarrow> n = m"
  using digits_val_show_nat by metis

lemma show_nat_split [simp]: "show_nat n @ CHR 0x22 # r = show_nat m @ CHR 0x22 # s \<longleftrightarrow> n = m \<and> r = s"
proof
  assume eq: "show_nat n @ CHR 0x22 # r = show_nat m @ CHR 0x22 # s"
  have "\<forall>c\<in>set (show_nat k). c \<noteq> CHR 0x22" for k
    using show_nat_digits [of k] by (auto simp: list_all_iff is_ascii_digit_def byte_of_def)
  then have "takeWhile (\<lambda>c. c \<noteq> CHR 0x22) (show_nat k @ CHR 0x22 # u) = show_nat k" for k u
    by (simp add: takeWhile_append2)
  then show "n = m \<and> r = s" using eq by (metis append_same_eq list.inject same_append_eq show_nat_eq_iff)
qed simp

lemma id_attrs_split [simp]: "id_attrs_bytes i @ r = id_attrs_bytes j @ s \<longleftrightarrow> i = j \<and> r = s"
  by (cases i; cases j) (auto simp: id_attrs_bytes_def attr_bytes_def)

lemma id_split [simp]: "id_bytes tag i @ r = id_bytes tag j @ s \<longleftrightarrow> i = j \<and> r = s"
  by (simp add: id_bytes_def)

lemma features_split [simp]: "features_bytes fs n @ r = features_bytes gs n @ s \<longleftrightarrow> fs = gs \<and> r = s"
proof -
  have "feature_bytes n a @ u = feature_bytes n b @ v \<longleftrightarrow> a = b \<and> u = v" for a b u v
    by (simp add: feature_bytes_def)
  moreover have "feature_bytes n a @ u \<noteq> (replicate n CHR '' '' @ ''</features>'' @ nl) @ v" for a u v
    by (simp add: feature_bytes_def)
  ultimately have "concat (map (feature_bytes n) fs) @ (replicate n CHR '' '' @ ''</features>'' @ nl) @ r
      = concat (map (feature_bytes n) gs) @ (replicate n CHR '' '' @ ''</features>'' @ nl) @ s \<longleftrightarrow> fs = gs \<and> r = s"
    by (rule prefix_list)
  then show ?thesis by (simp add: features_bytes_def)
qed

lemma features_head: "\<exists>u. features_bytes fs n = replicate n CHR '' '' @ ''<fea'' @ u"
  by (simp add: features_bytes_def)

lemma some_features_split:
  assumes "\<And>u. r \<noteq> replicate n CHR '' '' @ ''<fea'' @ u" "\<And>u. s \<noteq> replicate n CHR '' '' @ ''<fea'' @ u"
  shows "some_features fs n @ r = some_features gs n @ s \<longleftrightarrow> fs = gs \<and> r = s"
proof -
  have "features_bytes hs n @ v \<noteq> r \<and> features_bytes hs n @ v \<noteq> s" for hs v
  proof -
    obtain u where "features_bytes hs n = replicate n CHR '' '' @ ''<fea'' @ u" using features_head by blast
    then have "features_bytes hs n @ v = replicate n CHR '' '' @ ''<fea'' @ u @ v" by simp
    then show ?thesis using assms by metis
  qed
  then show ?thesis by (auto simp: some_features_def dest: sym)
qed

lemma snapshot_split: "snapshot_bytes a @ r = snapshot_bytes b @ s \<longleftrightarrow> a = b \<and> r = s"
  by (cases a; cases b) (auto simp: snapshot_bytes_def attr_bytes_def)

lemma snapshots_split [simp]:
  "concat (map snapshot_bytes xs) @ (''    </registry-snapshots>'' @ nl @ ''  </provenance>'' @ nl) @ r
     = concat (map snapshot_bytes ys) @ (''    </registry-snapshots>'' @ nl @ ''  </provenance>'' @ nl) @ s
   \<longleftrightarrow> xs = ys \<and> r = s"
  by (rule prefix_list) (simp_all add: snapshot_split, simp add: snapshot_bytes_def)

lemma indents: "replicate 4 CHR '' '' = ''    ''" "replicate 6 CHR '' '' = ''      ''"
  by (simp_all add: numeral_eq_Suc)

lemma provenance_features_split:
  "some_features fs 4 @ (''    <r'' @ r) = some_features gs 4 @ (''    <r'' @ s) \<longleftrightarrow> fs = gs \<and> ''    <r'' @ r = ''    <r'' @ s"
  by (rule some_features_split) (simp_all add: indents)

lemma provenance_split [simp]: "provenance_bytes p @ r = provenance_bytes q @ s \<longleftrightarrow> p = q \<and> r = s"
  using provenance_features_split [of "rp_features p" _ "rp_features q"] snapshots_split [of "rp_snapshots p" r "rp_snapshots q" s]
  by (cases p; cases q) (simp add: provenance_bytes_def attr_bytes_def, blast)

lemma kinds_split:
  "concat (map kind_bytes xs) @ (''    </kinds>'' @ nl) @ r = concat (map kind_bytes ys) @ (''    </kinds>'' @ nl) @ s
   \<longleftrightarrow> xs = ys \<and> r = s"
proof (rule prefix_list)
  show "kind_bytes a @ r = kind_bytes b @ s \<longleftrightarrow> a = b \<and> r = s" for a b r s
    by (cases a; cases b) (simp_all add: kind_bytes_def)
qed (simp add: kind_bytes_def)

lemma attr_opt_split:
  assumes "\<And>u. r \<noteq> '' '' @ name @ ''='' @ dq @ u" "\<And>u. s \<noteq> '' '' @ name @ ''='' @ dq @ u"
    and inj: "\<And>a b. g a = g b \<longleftrightarrow> a = b"
  shows "opt_bytes (\<lambda>a. attr_bytes name (g a)) v @ r = opt_bytes (\<lambda>a. attr_bytes name (g a)) u @ s \<longleftrightarrow> v = u \<and> r = s"
proof -
  have "attr_bytes name w @ z \<noteq> r \<and> attr_bytes name w @ z \<noteq> s" for w z
    using assms(1) [of "esc_bytes True w @ dq @ z"] assms(2) [of "esc_bytes True w @ dq @ z"] by (auto simp: attr_bytes_def)
  then show ?thesis
    by (cases v; cases u) (auto simp: attr_bytes_def inj dest: sym)
qed

lemma projection_features_split:
  "some_features fs 4 @ some_kinds ks @ ''  </'' @ r = some_features gs 4 @ some_kinds ls @ ''  </'' @ s
   \<longleftrightarrow> fs = gs \<and> some_kinds ks @ ''  </'' @ r = some_kinds ls @ ''  </'' @ s"
  by (rule some_features_split) (simp_all add: indents some_kinds_def)

lemma some_kinds_split: "some_kinds ks @ ''  </p'' @ r = some_kinds ls @ ''  </p'' @ s \<longleftrightarrow> ks = ls \<and> r = s"
  using kinds_split [of ks "''  </p'' @ r" ls "''  </p'' @ s"] by (simp add: some_kinds_def)

lemma projection_body_split [simp]: "projection_body fs ks @ r = projection_body gs ls @ s \<longleftrightarrow> fs = gs \<and> ks = ls \<and> r = s"
proof -
  have "some_features fs 4 @ some_kinds ks @ ''  </projection>'' @ nl @ r = some_features gs 4 @ some_kinds ls @ ''  </projection>'' @ nl @ s
     \<longleftrightarrow> fs = gs \<and> ks = ls \<and> r = s"
    using projection_features_split [of fs ks "''projection>'' @ nl @ r" gs ls "''projection>'' @ nl @ s"]
      some_kinds_split [of ks "''rojection>'' @ nl @ r" ls "''rojection>'' @ nl @ s"] by simp
  then show ?thesis by (auto simp: projection_body_def)
qed

lemma projection_body_head: "projection_body fs ks @ r \<noteq> '' t'' @ u" "projection_body fs ks @ r \<noteq> '' m'' @ u"
  by (simp_all add: projection_body_def)

lemma projection_split [simp]: "projection_bytes p @ r = projection_bytes q @ s \<longleftrightarrow> p = q \<and> r = s"
proof -
  let ?depth = "\<lambda>p z. opt_bytes (\<lambda>n. attr_bytes ''max-depth'' (show_nat n)) (gp_max_depth p) @ projection_body (gp_features p) (gp_kinds p) @ z"
  have depth: "?depth p r = ?depth q s \<longleftrightarrow> gp_max_depth p = gp_max_depth q
      \<and> projection_body (gp_features p) (gp_kinds p) @ r = projection_body (gp_features q) (gp_kinds q) @ s"
    by (rule attr_opt_split) (simp_all add: projection_body_def)
  have "?depth x z \<noteq> '' t'' @ u" for x z u
    using projection_body_head by (cases "gp_max_depth x") (simp_all add: attr_bytes_def)
  then have "?depth x z \<noteq> '' '' @ ''target'' @ ''='' @ dq @ u" for x z u
    by (metis append_Cons append_Nil)
  then have "opt_bytes (\<lambda>a. attr_bytes ''target'' (id a)) (gp_target p) @ ?depth p r
      = opt_bytes (\<lambda>a. attr_bytes ''target'' (id a)) (gp_target q) @ ?depth q s
     \<longleftrightarrow> gp_target p = gp_target q \<and> ?depth p r = ?depth q s"
    by (intro attr_opt_split) simp_all
  then show ?thesis
    using depth by (cases p; cases q) (simp add: projection_bytes_def, blast)
qed

lemma content_split [simp]: "content_bytes fs tag @ r = content_bytes gs tag @ s \<longleftrightarrow> fs = gs \<and> r = s"
  by (auto simp: content_bytes_def)

lemma content_head: "content_bytes fs tag @ r \<noteq> '' t'' @ u" "content_bytes fs tag @ r \<noteq> '' a'' @ u"
  by (simp_all add: content_bytes_def)

lemma dependency_split: "dependency_bytes a @ r = dependency_bytes b @ s \<longleftrightarrow> a = b \<and> r = s"
proof -
  have "opt_bytes (\<lambda>v. attr_bytes ''target'' (id v)) (dd_target a) @ content_bytes (dd_features a) ''dependency'' @ r
      = opt_bytes (\<lambda>v. attr_bytes ''target'' (id v)) (dd_target b) @ content_bytes (dd_features b) ''dependency'' @ s
    \<longleftrightarrow> dd_target a = dd_target b \<and> content_bytes (dd_features a) ''dependency'' @ r = content_bytes (dd_features b) ''dependency'' @ s"
    by (rule attr_opt_split) (simp_all add: content_bytes_def)
  then show ?thesis
    by (cases a; cases b) (simp add: dependency_bytes_def attr_bytes_def [of "''kind''"] attr_bytes_def [of "''org''"]
      attr_bytes_def [of "''name''"] attr_bytes_def [of "''registry-id''"] attr_bytes_def [of "''requirement''"]
      attr_bytes_def [of "''optional''"] attr_bytes_def [of "''default-features''"], blast)
qed

lemma node_split: "node_bytes a @ r = node_bytes b @ s \<longleftrightarrow> a = b \<and> r = s"
proof -
  have "opt_bytes (\<lambda>v. attr_bytes ''artifact-digest'' (id v)) (rn_digest a) @ content_bytes (rn_features a) ''node'' @ r
      = opt_bytes (\<lambda>v. attr_bytes ''artifact-digest'' (id v)) (rn_digest b) @ content_bytes (rn_features b) ''node'' @ s
    \<longleftrightarrow> rn_digest a = rn_digest b \<and> content_bytes (rn_features a) ''node'' @ r = content_bytes (rn_features b) ''node'' @ s"
    by (rule attr_opt_split) (simp_all add: content_bytes_def)
  then show ?thesis
    by (cases a; cases b) (auto simp: node_bytes_def)
qed

lemma edge_features_split:
  "some_features fs 6 @ ''    </edge>'' @ r = some_features gs 6 @ ''    </edge>'' @ s \<longleftrightarrow> fs = gs \<and> r = s"
  using some_features_split [of "''    </edge>'' @ r" 6 "''    </edge>'' @ s"] by (simp add: indents)

lemma edge_options_split:
  "opt_bytes (attr_bytes ''requirement'') v @ opt_bytes (attr_bytes ''target'') t @ CHR ''>'' # r
     = opt_bytes (attr_bytes ''requirement'') v' @ opt_bytes (attr_bytes ''target'') t' @ CHR ''>'' # s
   \<longleftrightarrow> v = v' \<and> t = t' \<and> r = s"
  by (cases v; cases v'; cases t; cases t') (simp_all add: attr_bytes_def)

lemma edge_split: "edge_bytes a @ r = edge_bytes b @ s \<longleftrightarrow> a = b \<and> r = s"
  using edge_features_split [of "ed_features a" "nl @ r" "ed_features b" "nl @ s"]
  by (cases a; cases b) (auto simp: edge_bytes_def attr_bytes_def [of "''kind''"] attr_bytes_def [of "''optional''"]
    edge_options_split)

lemma root_split: "(''    '' @ id_bytes ''root'' a) @ r = (''    '' @ id_bytes ''root'' b) @ s \<longleftrightarrow> a = b \<and> r = s"
  by simp

lemma roots_split:
  "concat (map (\<lambda>r. ''    '' @ id_bytes ''root'' r) xs) @ ''  </roots>'' @ r
     = concat (map (\<lambda>r. ''    '' @ id_bytes ''root'' r) ys) @ ''  </roots>'' @ s \<longleftrightarrow> xs = ys \<and> r = s"
  by (rule prefix_list [OF root_split]) simp

lemma nodes_split:
  "concat (map node_bytes xs) @ ''  </nodes>'' @ r = concat (map node_bytes ys) @ ''  </nodes>'' @ s \<longleftrightarrow> xs = ys \<and> r = s"
  by (rule prefix_list [OF node_split]) (simp add: node_bytes_def)

lemma edges_split:
  "concat (map edge_bytes xs) @ ''  </edges>'' @ r = concat (map edge_bytes ys) @ ''  </edges>'' @ s \<longleftrightarrow> xs = ys \<and> r = s"
  by (rule prefix_list [OF edge_split]) (simp add: edge_bytes_def)

lemma dependencies_split:
  "concat (map dependency_bytes xs) @ ''  </dependencies>'' @ r = concat (map dependency_bytes ys) @ ''  </dependencies>'' @ s
   \<longleftrightarrow> xs = ys \<and> r = s"
  by (rule prefix_list [OF dependency_split]) (simp add: dependency_bytes_def)

lemma tail_split:
  "opt_bytes parent_bytes p @ opt_bytes (\<lambda>p. ''  '' @ projection_bytes p) j @ ''</dependency-graph>'' @ r
     = opt_bytes parent_bytes p' @ opt_bytes (\<lambda>p. ''  '' @ projection_bytes p) j' @ ''</dependency-graph>'' @ s
   \<longleftrightarrow> p = p' \<and> j = j' \<and> r = s"
proof -
  have head: "\<exists>u. projection_bytes k = ''<pr'' @ u" for k by (simp add: projection_bytes_def)
  obtain f where f: "projection_bytes k = ''<pr'' @ f k" for k using head by metis
  have inj: "''<pr'' @ f k @ z = ''<pr'' @ f l @ w \<longleftrightarrow> k = l \<and> z = w" for k l z w
    using projection_split [of k z l w] by (simp add: f)
  then show ?thesis
    by (cases p; cases p'; cases j; cases j') (simp_all add: parent_bytes_def attr_bytes_def f)
qed

lemma graph_split: "graph_bytes g = graph_bytes h \<longleftrightarrow> g = h"
proof (cases g)
  case g: (Declared package deps)
  show ?thesis
  proof (cases h)
    case (Declared package' deps')
    then show ?thesis
      using g dependencies_split [of deps "nl @ ''</dependency-graph>'' @ nl" deps' "nl @ ''</dependency-graph>'' @ nl"]
      by (auto simp: attr_bytes_def)
  qed (simp add: g attr_bytes_def)
next
  case g: (Resolved c roots nodes edges pv parent projection)
  show ?thesis
  proof (cases h)
    case h: (Resolved c' roots' nodes' edges' pv' parent' projection')
    let ?tail = "\<lambda>p j. opt_bytes parent_bytes p @ opt_bytes (\<lambda>p. ''  '' @ projection_bytes p) j @ ''</dependency-graph>'' @ nl"
    let ?edges = "\<lambda>es v p j. concat (map edge_bytes es) @ ''  </edges>'' @ nl @ ''  '' @ provenance_bytes v @ ?tail p j"
    let ?nodes = "\<lambda>ns es v p j. concat (map node_bytes ns) @ ''  </nodes>'' @ nl @ ''  <edges>'' @ nl @ ?edges es v p j"
    have "?nodes nodes edges pv parent projection = ?nodes nodes' edges' pv' parent' projection'
       \<longleftrightarrow> nodes = nodes' \<and> ?edges edges pv parent projection = ?edges edges' pv' parent' projection'"
      by (simp only: nodes_split append_assoc) simp
    moreover have "?edges edges pv parent projection = ?edges edges' pv' parent' projection'
       \<longleftrightarrow> edges = edges' \<and> pv = pv' \<and> parent = parent' \<and> projection = projection'"
      by (simp only: edges_split append_assoc same_append_eq provenance_split tail_split) simp
    ultimately show ?thesis
      using g h roots_split [of roots _ roots'] by (simp add: attr_bytes_def)
  qed (simp add: g attr_bytes_def)
qed

lemma xml_bytes_inj: "xml_bytes d = xml_bytes d' \<Longrightarrow> d = d'"
proof -
  have head: "\<exists>u. graph_bytes g = '' v'' @ u" for g by (cases g) (simp_all add: attr_bytes_def)
  obtain f where f: "graph_bytes g = '' v'' @ f g" for g using head by metis
  have inj: "f g = f h \<longleftrightarrow> g = h" for g h using graph_split [of g h] by (simp add: f)
  assume "xml_bytes d = xml_bytes d'"
  then have "gd_schema d = gd_schema d' \<and> gd_digest d = gd_digest d' \<and> gd_graph d = gd_graph d'"
    by (cases "gd_digest d"; cases "gd_digest d'") (simp_all add: xml_bytes_def attr_bytes_def f inj)
  then show "d = d'" by (cases d; cases d') simp
qed

subsection \<open>Every representable document is written\<close>

text \<open>The production \<open>Char\<close> of XML 1.0, and the strings made of such characters.\<close>

definition xml_char :: "nat \<Rightarrow> bool" where
  "xml_char n \<longleftrightarrow> n \<in> {0x9, 0xA, 0xD} \<union> {0x20..0xD7FF} \<union> {0xE000..0xFFFD} \<union> {0x10000..0x10FFFF}"

definition xml_clean :: "string \<Rightarrow> bool" where
  "xml_clean v \<longleftrightarrow> (\<forall>character\<in>set (chars v). xml_char (scalar character))"

lemma is_xml_10_character_iff: "is_xml_10_character character \<longleftrightarrow> xml_char (scalar character)"
  by (auto simp: is_xml_10_character_def xml_char_def Let_def)

definition identity_strings :: "package_version_identity \<Rightarrow> string list" where
  "identity_strings i = [pi_registry i, pi_org i, pi_name i, pi_version i]"

definition option_strings :: "string option \<Rightarrow> string list" where
  "option_strings v = (case v of None \<Rightarrow> [] | Some s \<Rightarrow> [s])"

definition dependency_strings :: "declared_dependency \<Rightarrow> string list" where
  "dependency_strings dep = [dd_registry dep, dd_org dep, dd_name dep, dd_requirement dep] @ option_strings (dd_target dep)
     @ dd_features dep"

definition node_strings :: "resolved_node \<Rightarrow> string list" where
  "node_strings node = identity_strings (rn_id node) @ option_strings (rn_digest node) @ rn_features node"

definition edge_strings :: "resolved_edge \<Rightarrow> string list" where
  "edge_strings e = option_strings (ed_requirement e) @ option_strings (ed_target e) @ identity_strings (ed_from e)
     @ identity_strings (ed_to e) @ ed_features e"

definition provenance_strings :: "resolution_provenance \<Rightarrow> string list" where
  "provenance_strings p = [rp_resolver p, rp_target p, rp_lock p] @ rp_features p
     @ concat (map (\<lambda>s. [rs_registry s, rs_checkpoint s]) (rp_snapshots p))"

definition projection_strings :: "graph_projection \<Rightarrow> string list" where
  "projection_strings p = option_strings (gp_target p) @ gp_features p"

definition document_strings :: "graph_document \<Rightarrow> string list" where
  "document_strings d = gd_schema d # option_strings (gd_digest d) @
     (case gd_graph d of
        Declared package dependencies \<Rightarrow> identity_strings package @ concat (map dependency_strings dependencies)
      | Resolved _ roots nodes edges provenance parent projection \<Rightarrow>
          concat (map identity_strings roots) @ concat (map node_strings nodes) @ concat (map edge_strings edges)
          @ provenance_strings provenance @ option_strings parent
          @ (case projection of None \<Rightarrow> [] | Some p \<Rightarrow> projection_strings p))"

definition xml_representable :: "graph_document \<Rightarrow> bool" where
  "xml_representable d \<longleftrightarrow> (\<forall>v\<in>set (document_strings d). xml_clean v)"

lemmas strings_defs = identity_strings_def option_strings_def dependency_strings_def node_strings_def edge_strings_def
  provenance_strings_def projection_strings_def

lemma printable_clean: "list_all (\<lambda>c. 32 \<le> byte_of c \<and> byte_of c < 127) v \<Longrightarrow> xml_clean v"
proof (induction v)
  case Nil
  then show ?case by (simp add: xml_clean_def chars.simps)
next
  case (Cons c v)
  then show ?case by (simp add: xml_clean_def chars.simps(2) [of c v] xml_char_def)
qed

lemma names_clean [simp]: "xml_clean (dependency_kind_name k)" "xml_clean (completeness_name c)" "xml_clean (bool_name b)"
  "xml_clean ''declared''" "xml_clean ''resolved''" "xml_clean (show_nat n)"
proof -
  show "xml_clean (dependency_kind_name k)" by (cases k) (simp_all add: printable_clean byte_of_def)
  show "xml_clean (completeness_name c)" by (cases c) (simp_all add: printable_clean byte_of_def)
  show "xml_clean (bool_name b)" by (simp add: bool_name_def printable_clean byte_of_def)
  show "xml_clean ''declared''" "xml_clean ''resolved''" by (simp_all add: printable_clean byte_of_def)
  show "xml_clean (show_nat n)"
    using show_nat_digits [of n] by (intro printable_clean) (auto simp: list_all_iff is_ascii_digit_def)
qed

lemma fits_eq: "fits x w u \<Longrightarrow> u = v \<Longrightarrow> fits x w v"
  by simp

lemma fits_escaped: "xml_clean v \<Longrightarrow> fits x (xml_escaped x a v) (esc_bytes a v)"
proof -
  assume "xml_clean v"
  then have "fits x (\<lambda>out. if \<not> is_xml_10_character c then Inl graph_not_representable else push_bounded x (xml_escape a c) out)
      (xml_escape a c)" if "c \<in> set (chars v)" for c
    using that fits_push [of x "xml_escape a c"] by (auto simp: fits_def xml_clean_def is_xml_10_character_iff)
  then show ?thesis
    unfolding xml_escaped_def escapes_of_chars [symmetric] by (rule fits_each)
qed

named_theorems piece_fits \<open>when the writer of a piece succeeds\<close>

lemma fits_attribute [piece_fits]: "xml_clean v \<Longrightarrow> fits x (xml_attribute x name v) (attr_bytes name v)"
  unfolding xml_attribute_def attr_bytes_def
  by (rule fits_eq, (rule fit_rules fits_escaped | assumption)+, simp)

lemma fits_opt_bytes [piece_fits]: "(\<And>a. v = Some a \<Longrightarrow> fits x (f a) (g a)) \<Longrightarrow> fits x (opt_w f v) (opt_bytes g v)"
  unfolding opt_bytes_def by (rule fits_opt)

lemmas fits_intros = fits_cons fits_nil fits_push fits_if fits_each

lemma fits_id_attrs [piece_fits]:
  "\<forall>v\<in>set (identity_strings i). xml_clean v \<Longrightarrow> fits x (xml_identity_attributes x i) (id_attrs_bytes i)"
  unfolding xml_identity_attributes_def id_attrs_bytes_def
  by (rule fits_eq, (rule fits_intros piece_fits | (simp add: strings_defs; fail))+)

lemma fits_id [piece_fits]: "\<forall>v\<in>set (identity_strings i). xml_clean v \<Longrightarrow> fits x (xml_identity x tag i) (id_bytes tag i)"
  unfolding xml_identity_def id_bytes_def
  by (rule fits_eq, (rule fits_intros piece_fits | (simp; fail))+)

lemma fits_features [piece_fits]: "\<forall>v\<in>set fs. xml_clean v \<Longrightarrow> fits x (xml_features x fs n) (features_bytes fs n)"
  unfolding xml_features_def features_bytes_def Let_def xml_text_def feature_bytes_def
  by (rule fits_eq, (rule fits_intros piece_fits fits_escaped | (simp; fail))+)

lemma fits_provenance [piece_fits]:
  "\<forall>v\<in>set (provenance_strings p). xml_clean v \<Longrightarrow> fits x (xml_provenance x p) (provenance_bytes p)"
  unfolding xml_provenance_def provenance_bytes_def snapshot_bytes_def
  by (rule fits_eq, (rule fits_intros piece_fits | (auto simp: provenance_strings_def; fail) | (simp add: some_features_def; fail))+)

lemma fits_projection [piece_fits]:
  "\<forall>v\<in>set (projection_strings p). xml_clean v \<Longrightarrow> fits x (xml_projection x p) (projection_bytes p)"
  unfolding xml_projection_def projection_bytes_def projection_body_def some_kinds_def kind_bytes_def
  by (rule fits_eq, (rule fits_intros piece_fits | (simp add: strings_defs; fail) | (simp add: some_features_def; fail))+)

lemma fits_dependency:
  "\<forall>v\<in>set (dependency_strings dep). xml_clean v \<Longrightarrow> fits x (xml_dependency x dep) (dependency_bytes dep)"
  unfolding xml_dependency_def dependency_bytes_def content_bytes_def
  by (rule fits_eq, (rule fits_intros piece_fits | (simp add: strings_defs; fail))+)

lemma fits_node: "\<forall>v\<in>set (node_strings node). xml_clean v \<Longrightarrow> fits x (xml_node x node) (node_bytes node)"
  unfolding xml_node_def node_bytes_def content_bytes_def
  by (rule fits_eq, (rule fits_intros piece_fits | (simp add: node_strings_def option_strings_def; fail))+)

lemma fits_edge: "\<forall>v\<in>set (edge_strings e). xml_clean v \<Longrightarrow> fits x (xml_edge x e) (edge_bytes e)"
  unfolding xml_edge_def edge_bytes_def
  by (rule fits_eq, (rule fits_intros piece_fits | (simp add: edge_strings_def option_strings_def; fail)
    | (simp add: some_features_def; fail))+)

lemma fits_encode_xml:
  assumes "xml_representable d"
  shows "fits x (encode_xml_to x d) (xml_bytes d)"
proof (cases "gd_graph d")
  case (Declared package dependencies)
  have head: "xml_clean (gd_schema d)" "\<And>a. gd_digest d = Some a \<Longrightarrow> xml_clean a"
    "\<forall>v\<in>set (identity_strings package). xml_clean v"
    "\<And>dep. dep \<in> set dependencies \<Longrightarrow> \<forall>v\<in>set (dependency_strings dep). xml_clean v"
    using assms Declared by (auto simp: xml_representable_def document_strings_def option_strings_def)
  show ?thesis
    unfolding encode_xml_to_def xml_bytes_def Declared graph_data.case graph_bytes.simps
    by (rule fits_eq, (rule fits_intros piece_fits fits_dependency names_clean | (rule head; assumption) | (simp; fail))+)
next
  case (Resolved c roots nodes edges provenance parent projection)
  have head: "xml_clean (gd_schema d)" "\<And>a. gd_digest d = Some a \<Longrightarrow> xml_clean a"
    "\<And>r. r \<in> set roots \<Longrightarrow> \<forall>v\<in>set (identity_strings r). xml_clean v"
    "\<And>n. n \<in> set nodes \<Longrightarrow> \<forall>v\<in>set (node_strings n). xml_clean v"
    "\<And>e. e \<in> set edges \<Longrightarrow> \<forall>v\<in>set (edge_strings e). xml_clean v"
    "\<forall>v\<in>set (provenance_strings provenance). xml_clean v"
    "\<And>a. parent = Some a \<Longrightarrow> xml_clean a"
    "\<And>p. projection = Some p \<Longrightarrow> \<forall>v\<in>set (projection_strings p). xml_clean v"
    using assms Resolved by (auto simp: xml_representable_def document_strings_def option_strings_def)
  show ?thesis
    unfolding encode_xml_to_def xml_bytes_def Resolved graph_data.case graph_bytes.simps parent_bytes_def
    by (rule fits_eq, (rule fits_intros piece_fits fits_node fits_edge names_clean | (rule head; assumption) | (simp; fail))+)
qed

subsection \<open>Only representable documents are written\<close>

text \<open>A writer checks strings: when it succeeds, they are clean.\<close>

definition checks :: "writer \<Rightarrow> string list \<Rightarrow> bool" where
  "checks w vs \<longleftrightarrow> (\<forall>out out'. w out = Inr out' \<longrightarrow> (\<forall>v\<in>set vs. xml_clean v))"

named_theorems check_rules \<open>the strings a writer checks\<close>

lemma checks_mono: "checks w us \<Longrightarrow> set vs \<subseteq> set us \<Longrightarrow> checks w vs"
  by (auto simp: checks_def)

lemma checks_push [check_rules]: "checks (push_bounded x v) []"
  by (simp add: checks_def)

lemma checks_nil [check_rules]: "checks (all_w []) []"
  by (simp add: checks_def)

lemma checks_cons [check_rules]: "checks w us \<Longrightarrow> checks (all_w ws) vs \<Longrightarrow> checks (all_w (w # ws)) (us @ vs)"
  by (fastforce simp: checks_def bind_r_Inr_iff)

lemma checks_if [check_rules]: "checks w us \<Longrightarrow> checks w' vs \<Longrightarrow> checks (if b then w else w') (if b then us else vs)"
  by simp

lemma checks_opt [check_rules]:
  "(\<And>a. checks (f a) (g a)) \<Longrightarrow> checks (opt_w f v) (case v of None \<Rightarrow> [] | Some a \<Rightarrow> g a)"
  by (auto simp: opt_w_def checks_def split: option.split)

lemma checks_each [check_rules]:
  assumes "\<And>a. checks (f a) (g a)"
  shows "checks (each_w f xs) (concat (map g xs))"
  unfolding each_w_def using assms by (induction xs) (auto intro: check_rules simp del: all_w.simps)

lemma checks_escaped [check_rules]: "checks (xml_escaped x a v) [v]"
proof -
  have "each_w (\<lambda>character out. if \<not> is_xml_10_character character then Inl graph_not_representable
      else push_bounded x (xml_escape a character) out) cs out = Inr out' \<Longrightarrow> \<forall>c\<in>set cs. is_xml_10_character c" for cs out out'
    by (induction cs arbitrary: out) (auto simp: each_w_def bind_r_Inr_iff split: if_splits)
  then show ?thesis by (auto simp: checks_def xml_escaped_def xml_clean_def is_xml_10_character_iff)
qed

lemma checks_attribute [check_rules]: "checks (xml_attribute x name v) [v]"
  unfolding xml_attribute_def by (rule checks_mono, (rule check_rules)+, simp)

lemma checks_identity [check_rules]:
  "checks (xml_identity_attributes x i) (identity_strings i)" "checks (xml_identity x tag i) (identity_strings i)"
proof -
  show i: "checks (xml_identity_attributes x i) (identity_strings i)"
    unfolding xml_identity_attributes_def by (rule checks_mono, (rule check_rules)+, simp add: identity_strings_def)
  show "checks (xml_identity x tag i) (identity_strings i)"
    unfolding xml_identity_def by (rule checks_mono, (rule check_rules i)+, simp)
qed

lemma checks_features [check_rules]: "checks (xml_features x fs n) fs"
  unfolding xml_features_def Let_def xml_text_def by (rule checks_mono, (rule check_rules)+, auto)

lemma checks_provenance [check_rules]: "checks (xml_provenance x p) (provenance_strings p)"
  unfolding xml_provenance_def by (rule checks_mono, (rule check_rules)+, auto simp: provenance_strings_def)

lemma checks_projection [check_rules]: "checks (xml_projection x p) (projection_strings p)"
  unfolding xml_projection_def
  by (rule checks_mono, (rule check_rules)+, auto simp: projection_strings_def option_strings_def split: option.split)

lemma checks_dependency [check_rules]: "checks (xml_dependency x dep) (dependency_strings dep)"
  unfolding xml_dependency_def
  by (rule checks_mono, (rule check_rules)+, auto simp: dependency_strings_def option_strings_def split: option.split)

lemma checks_node [check_rules]: "checks (xml_node x node) (node_strings node)"
  unfolding xml_node_def
  by (rule checks_mono, (rule check_rules)+, auto simp: node_strings_def option_strings_def split: option.split)

lemma checks_edge [check_rules]: "checks (xml_edge x e) (edge_strings e)"
  unfolding xml_edge_def
  by (rule checks_mono, (rule check_rules)+, auto simp: edge_strings_def option_strings_def split: option.split)

lemma checks_encode_xml: "checks (encode_xml_to x d) (document_strings d)"
proof (cases "gd_graph d")
  case (Declared package dependencies)
  show ?thesis
    unfolding encode_xml_to_def Declared graph_data.case
    by (rule checks_mono, (rule check_rules)+, auto simp: document_strings_def option_strings_def Declared split: option.split)
next
  case (Resolved c roots nodes edges provenance parent projection)
  show ?thesis
    unfolding encode_xml_to_def Resolved graph_data.case
    by (rule checks_mono, (rule check_rules)+, auto simp: document_strings_def option_strings_def Resolved split: option.split)
qed

text \<open>C32. The XML projection is exact and lossless. A document is rendered exactly when all its strings
  consist of XML 1.0 characters and its text is within the encoded limit, and then to that one text; two
  documents that render to the same bytes are the same document, whatever characters their fields hold,
  so no field can imitate markup.\<close>

theorem xml_projection_is_lossless:
  assumes "MAX_ENCODED x \<le> u64_max"
  shows "(encode_xml x d = Inr out \<longleftrightarrow> xml_representable d \<and> out = xml_bytes d \<and> length (xml_bytes d) \<le> MAX_ENCODED x)
    \<and> (encode_xml x d = Inr out \<and> encode_xml x d' = Inr out \<longrightarrow> d = d')"
proof (intro conjI)
  show "encode_xml x d = Inr out \<longleftrightarrow> xml_representable d \<and> out = xml_bytes d \<and> length (xml_bytes d) \<le> MAX_ENCODED x"
  proof (cases "xml_representable d")
    case True
    then show ?thesis
      unfolding encode_xml_def using written_iff [OF writes_encode_xml fits_encode_xml assms] by simp
  next
    case False
    then show ?thesis using checks_encode_xml [of x d] by (auto simp: checks_def encode_xml_def xml_representable_def)
  qed
  show "encode_xml x d = Inr out \<and> encode_xml x d' = Inr out \<longrightarrow> d = d'"
  proof (intro impI, elim conjE)
    assume "encode_xml x d = Inr out" "encode_xml x d' = Inr out"
    then have "out = xml_bytes d" "out = xml_bytes d'"
      using writesD [OF writes_encode_xml, of x d "[]"] writesD [OF writes_encode_xml, of x d' "[]"] by (simp_all add: encode_xml_def)
    then show "d = d'" using xml_bytes_inj by simp
  qed
qed

theorem xml_projection_is_lossless_witness:
  "\<exists>out. encode_xml toy_graph_ext \<lparr>gd_schema = ''v1'', gd_graph = Declared \<lparr>pi_registry = ''r'', pi_org = ''o'',
      pi_name = ''<a&'', pi_version = ''1''\<rparr> [], gd_digest = None\<rparr> = Inr out"
proof -
  let ?d = "\<lparr>gd_schema = ''v1'', gd_graph = Declared \<lparr>pi_registry = ''r'', pi_org = ''o'', pi_name = ''<a&'', pi_version = ''1''\<rparr> [],
    gd_digest = None\<rparr> :: graph_document"
  have "list_all (list_all (\<lambda>c. 32 \<le> byte_of c \<and> byte_of c < 127)) (document_strings ?d)"
    by (simp add: document_strings_def identity_strings_def option_strings_def byte_of_def)
  then have "xml_representable ?d" by (auto simp: xml_representable_def list_all_iff intro: printable_clean)
  moreover have "length (xml_bytes ?d) \<le> MAX_ENCODED toy_graph_ext"
    by (simp add: xml_bytes_def id_bytes_def id_attrs_bytes_def attr_bytes_def opt_bytes_def esc_bytes_def xml_escape_def show_nat_def show_nat_rev.simps)
  moreover have "MAX_ENCODED toy_graph_ext \<le> u64_max" by (simp add: u64_max_def)
  ultimately show ?thesis using xml_projection_is_lossless [of toy_graph_ext ?d "xml_bytes ?d" ?d] by blast
qed

end
