(* ===== verification/Negotiation.thy ===== *)
theory Negotiation
  imports GraphOut
begin

section \<open>Choosing a representation (\<^verbatim>\<open>src/routes/graph.rs\<close>, \<^verbatim>\<open>graph_exports/mod.rs\<close>)\<close>

text \<open>
  The canonical route picks one of five formats from \<open>Accept\<close> and \<open>format=\<close>; the export routes name
  the format in the path and check it against \<open>Accept\<close>. Both match media ranges by specificity, then
  quality. The two files spell the matcher and the quality parser out separately.
\<close>

text \<open>\<open>HeaderMap::get\_all\<close> and \<open>str::trim\_matches\<close>.\<close>

definition get_all :: "headers \<Rightarrow> string \<Rightarrow> string list" where
  "get_all headers name = map snd (filter (\<lambda>(k, v). k = name) headers)"

definition trim_matches :: "char \<Rightarrow> string \<Rightarrow> string" where
  "trim_matches d s = trim_end_matches d (trim_start_matches d s)"

definition parse_u16 :: "string \<Rightarrow> nat option" where
  "parse_u16 s = (case parse_u64 s of None \<Rightarrow> None | Some n \<Rightarrow> if n \<le> 65535 then Some n else None)"

text \<open>\<open>format!("\{fraction:0<3\}")\<close>.\<close>

definition pad_zeros :: "nat \<Rightarrow> string \<Rightarrow> string" where
  "pad_zeros n s = s @ replicate (n - length s) (CHR ''0'')"

subsection \<open>Qualities\<close>

definition parse_accept_quality :: "string \<Rightarrow> nat option" where
  "parse_accept_quality v =
     (let (whole, fraction) = (case split_once (CHR ''.'') v of None \<Rightarrow> (v, []) | Some p \<Rightarrow> p)
      in if 3 < length fraction \<or> \<not> list_all is_ascii_digit fraction then None
         else Option.bind (parse_u16 (pad_zeros 3 fraction)) (\<lambda>fraction.
           if whole = ''0'' then Some fraction
           else if whole = ''1'' \<and> fraction = 0 then Some 1000
           else None))"

definition parse_quality :: "string \<Rightarrow> nat option" where
  "parse_quality v =
     (let (whole, fraction) = (case split_once (CHR ''.'') v of None \<Rightarrow> (v, []) | Some p \<Rightarrow> p)
      in if 3 < length fraction \<or> \<not> list_all is_ascii_digit fraction then None
         else Option.bind (parse_u16 (pad_zeros 3 fraction)) (\<lambda>fraction.
           if whole = ''0'' then Some fraction
           else if whole = ''1'' \<and> fraction = 0 then Some 1000
           else None))"

subsection \<open>One media range\<close>

definition or_zero :: "nat option \<Rightarrow> nat" where
  "or_zero q = (case q of None \<Rightarrow> 0 | Some n \<Rightarrow> n)"

definition same_parameter :: "string \<Rightarrow> string \<Rightarrow> string \<times> string \<Rightarrow> bool" where
  "same_parameter name v p \<longleftrightarrow>
     eq_ignore_ascii_case (trim name) (trim (fst p))
     \<and> eq_ignore_ascii_case (trim_matches CHR 0x22 (trim v)) (trim_matches CHR 0x22 (trim (snd p)))"

text \<open>The loop over the parameters of a range: specificity of the parameters, and the quality.\<close>

fun accept_parameters ::
  "(string \<Rightarrow> nat option) \<Rightarrow> (string \<times> string) list \<Rightarrow> string list \<Rightarrow> nat \<Rightarrow> (nat \<times> nat) option" where
  "accept_parameters quality registered [] n = Some (n, 1000)"
| "accept_parameters quality registered (parameter # parts) n =
     (case split_once (CHR ''='') (trim parameter) of
        None \<Rightarrow> accept_parameters quality registered parts n
      | Some (name, v) \<Rightarrow>
          if eq_ignore_ascii_case (trim name) ''q'' then Some (n, or_zero (quality (trim v)))
          else if \<not> list_ex (same_parameter name v) registered then None
          else accept_parameters quality registered parts (min (n + 1) 65535))"

definition registered_parameters :: "string \<Rightarrow> (string \<times> string) list" where
  "registered_parameters registered =
     List.map_filter (\<lambda>p. split_once (CHR ''='') (trim p)) (tl (split_on (CHR '';'') registered))"

definition media_specificity :: "string \<Rightarrow> string \<Rightarrow> nat option" where
  "media_specificity media registered =
     (case (split_once (CHR ''/'') media, split_once (CHR ''/'') (trim (hd (split_on (CHR '';'') registered)))) of
        (Some (requested_type, requested_subtype), Some (registered_type, registered_subtype)) \<Rightarrow>
          if requested_type = ''*'' \<and> requested_subtype = ''*'' then Some 0
          else if requested_subtype = ''*'' \<and> requested_type = registered_type then Some 1
          else if requested_type = registered_type \<and> requested_subtype = registered_subtype then Some 2
          else None
      | _ \<Rightarrow> None)"

definition canonical_accept_match :: "string \<Rightarrow> string \<Rightarrow> (nat \<times> nat) option" where
  "canonical_accept_match entry registered =
     (let parts = split_on (CHR '';'') entry
      in Option.bind (media_specificity (to_ascii_lowercase (trim (hd parts))) registered) (\<lambda>media.
         map_option (\<lambda>(n, quality). (media * 256 + min n 255, quality))
           (accept_parameters parse_accept_quality (registered_parameters registered) (tl parts) 0)))"

definition accept_match :: "string \<Rightarrow> string \<Rightarrow> (nat \<times> nat) option" where
  "accept_match entry registered =
     (let parts = split_on (CHR '';'') entry
      in Option.bind (media_specificity (to_ascii_lowercase (trim (hd parts))) registered) (\<lambda>media.
         map_option (\<lambda>(n, quality). (media * 256 + min n 255, quality))
           (accept_parameters parse_quality (registered_parameters registered) (tl parts) 0)))"

subsection \<open>All media ranges\<close>

definition no_acceptable :: api_err where
  "no_acceptable = api_err 406 ''unsupported_format'' ''no acceptable dependency graph representation''"

text \<open>The better of the match so far and a new one.\<close>

definition better_match :: "(nat \<times> nat) option \<Rightarrow> (nat \<times> nat) option \<Rightarrow> (nat \<times> nat) option" where
  "better_match current candidate =
     (case candidate of
        None \<Rightarrow> current
      | Some (specificity, quality) \<Rightarrow>
          (case current of
             None \<Rightarrow> candidate
           | Some (s, q) \<Rightarrow> if s < specificity \<or> specificity = s \<and> q < quality then candidate else current))"

definition formats :: "graph_format list" where
  "formats = [Json, Yaml, Toml, Dot, Mermaid]"

text \<open>One field line: its non-blank entries, each matched against every format.\<close>

definition accept_entries :: "string \<Rightarrow> string list" where
  "accept_entries v = filter (\<lambda>e. trim e \<noteq> []) (split_on (CHR '','') v)"

definition match_entry ::
  "('x graph_ext_scheme) \<Rightarrow> (nat \<times> nat) option list \<Rightarrow> string \<Rightarrow> (nat \<times> nat) option list" where
  "match_entry x selected entry =
     map (\<lambda>(f, s). better_match s (canonical_accept_match entry (graph_media_type x f))) (zip formats selected)"

fun accept_lines ::
  "('x graph_ext_scheme) \<Rightarrow> string list \<Rightarrow> bool \<Rightarrow> (nat \<times> nat) option list
   \<Rightarrow> (bool \<times> (nat \<times> nat) option list) api_result" where
  "accept_lines x [] saw selected = Inr (saw, selected)"
| "accept_lines x (v # vs) saw selected =
     (case header_to_str v of
        None \<Rightarrow> Inl no_acceptable
      | Some s \<Rightarrow> accept_lines x vs (saw \<or> accept_entries s \<noteq> []) (foldl (match_entry x) selected (accept_entries s)))"

definition parse_accept :: "('x graph_ext_scheme) \<Rightarrow> headers \<Rightarrow> ((graph_format \<times> nat) list option) api_result" where
  "parse_accept x headers =
     bind_r (accept_lines x (get_all headers ''accept'') False (replicate 5 None)) (\<lambda>(saw, selected).
       Inr (if \<not> saw then None
            else Some (List.map_filter (\<lambda>(f, s).
              case s of Some (_, quality) \<Rightarrow> if 0 < quality then Some (f, quality) else None | None \<Rightarrow> None)
              (zip formats selected))))"

definition parse_format_name :: "string \<Rightarrow> graph_format option" where
  "parse_format_name v =
     (let n = to_ascii_lowercase v
      in if n = ''json'' then Some Json
         else if n = ''yaml'' \<or> n = ''yml'' then Some Yaml
         else if n = ''toml'' then Some Toml
         else if n = ''dot'' \<or> n = ''graphviz'' then Some Dot
         else if n = ''mermaid'' \<or> n = ''mmd'' then Some Mermaid
         else None)"

text \<open>The fold over the accepted formats keeps the first of the best.\<close>

definition prefer_candidate :: "(graph_format \<times> nat) option \<Rightarrow> graph_format \<times> nat \<Rightarrow> (graph_format \<times> nat) option" where
  "prefer_candidate selected candidate =
     (case selected of
        Some current \<Rightarrow> if snd candidate \<le> snd current then Some current else Some candidate
      | None \<Rightarrow> Some candidate)"

definition unsupported_format :: "string \<Rightarrow> api_err" where
  "unsupported_format v =
     api_err 406 ''unsupported_format'' (''unsupported dependency graph format `'' @ v @ ''`'')"

definition format_conflict :: api_err where
  "format_conflict = api_err 406 ''format_conflict'' ''requested graph representations conflict''"

definition resolve_format :: "('x graph_ext_scheme) \<Rightarrow> headers \<Rightarrow> string option \<Rightarrow> graph_format api_result" where
  "resolve_format x headers format_query =
     bind_r (case format_query of
               None \<Rightarrow> Inr None
             | Some v \<Rightarrow> map_sum id Some (ok_or (unsupported_format v) (parse_format_name v))) (\<lambda>from_query.
     bind_r (parse_accept x headers) (\<lambda>accepted.
       case (from_query, accepted) of
         (Some format, None) \<Rightarrow> Inr format
       | (Some format, Some fs) \<Rightarrow> if list_ex (\<lambda>e. fst e = format) fs then Inr format else Inl format_conflict
       | (None, None) \<Rightarrow> Inr Json
       | (None, Some fs) \<Rightarrow> ok_or no_acceptable (map_option fst (foldl prefer_candidate None fs))))"

subsection \<open>The export routes\<close>

definition not_acceptable_export :: api_err where
  "not_acceptable_export = api_err 406 ''unsupported_format'' ''requested export format is not acceptable''"

fun export_lines :: "string \<Rightarrow> string list \<Rightarrow> bool \<Rightarrow> (nat \<times> nat) option \<Rightarrow> (bool \<times> (nat \<times> nat) option) api_result" where
  "export_lines registered [] saw selected = Inr (saw, selected)"
| "export_lines registered (v # vs) saw selected =
     (case header_to_str v of
        None \<Rightarrow> Inl not_acceptable_export
      | Some s \<Rightarrow>
          if trim s = [] then export_lines registered vs saw selected
          else export_lines registered vs True
                 (foldl (\<lambda>sel entry. better_match sel (accept_match entry registered)) selected (split_on (CHR '','') s)))"

definition ensure_acceptable :: "('x graph_ext_scheme) \<Rightarrow> headers \<Rightarrow> export_format \<Rightarrow> unit api_result" where
  "ensure_acceptable x headers format =
     bind_r (export_lines (export_media_type x format) (get_all headers ''accept'') False None) (\<lambda>(saw, selected).
       if \<not> saw \<or> (case selected of None \<Rightarrow> False | Some (_, quality) \<Rightarrow> 0 < quality) then Inr ()
       else Inl not_acceptable_export)"

end
