(* ===== verification/NegotiationLaws.thy ===== *)
theory NegotiationLaws
  imports Negotiation
begin

section \<open>Negotiation picks the best acceptable representation\<close>

text \<open>
  The folds of the two negotiation procedures against what RFC 9110 asks for: the quality of a
  representation is the one of the most specific range that matches it.
\<close>

subsection \<open>The best match\<close>

definition match_le :: "nat \<times> nat \<Rightarrow> nat \<times> nat \<Rightarrow> bool" where
  "match_le a b \<longleftrightarrow> fst a < fst b \<or> fst a = fst b \<and> snd a \<le> snd b"

lemma match_le_refl: "match_le a a"
  by (simp add: match_le_def)

lemma match_le_trans: "match_le a b \<Longrightarrow> match_le b c \<Longrightarrow> match_le a c"
  by (auto simp: match_le_def)

lemma better_match_cases:
  "better_match c None = c"
  "better_match None (Some p) = Some p"
  "better_match (Some a) (Some p) = Some (if match_le p a then a else p)"
  by (cases p; cases a; auto simp: better_match_def match_le_def)+

lemma best_match_fold:
  "case foldl (\<lambda>s e. better_match s (m e)) c es of
     None \<Rightarrow> c = None \<and> (\<forall>e\<in>set es. m e = None)
   | Some p \<Rightarrow> (c = Some p \<or> (\<exists>e\<in>set es. m e = Some p))
        \<and> (\<forall>a. c = Some a \<longrightarrow> match_le a p) \<and> (\<forall>e\<in>set es. \<forall>a. m e = Some a \<longrightarrow> match_le a p)"
proof (induction es arbitrary: c)
  case Nil
  then show ?case by (cases c) (simp_all add: match_le_refl)
next
  case (Cons e es)
  let ?c = "better_match c (m e)"
  have step: "(?c = None \<longrightarrow> c = None \<and> m e = None)
      \<and> (\<forall>b. ?c = Some b \<longrightarrow> (c = Some b \<or> m e = Some b) \<and> (\<forall>a. c = Some a \<or> m e = Some a \<longrightarrow> match_le a b))"
    by (cases c; cases "m e") (auto simp: better_match_cases match_le_def split: if_splits)
  show ?case
  proof (cases "foldl (\<lambda>s e. better_match s (m e)) ?c es")
    case None
    then show ?thesis using Cons [of ?c] step by simp
  next
    case (Some p)
    have best: "?c = Some p \<or> (\<exists>e\<in>set es. m e = Some p)" "\<And>a. ?c = Some a \<Longrightarrow> match_le a p"
      "\<forall>e\<in>set es. \<forall>a. m e = Some a \<longrightarrow> match_le a p"
      using Cons [of ?c] Some by auto
    have "match_le a p" if ca: "c = Some a \<or> m e = Some a" for a
    proof -
      have "?c \<noteq> None" using ca step by auto
      then obtain b where "?c = Some b" by blast
      then show ?thesis using ca step best(2) match_le_trans by blast
    qed
    moreover have "c = Some p \<or> m e = Some p \<or> (\<exists>e\<in>set es. m e = Some p)" using best(1) step by blast
    ultimately show ?thesis using best(3) by (simp add: Some)
  qed
qed

text \<open>The quality the ranges give a registered media type: none, or that of the most specific ones.\<close>

definition ranges :: "headers \<Rightarrow> string list" where
  "ranges headers = concat (map (split_on (CHR '','')) (get_all headers ''accept''))"

definition range_matches :: "headers \<Rightarrow> string \<Rightarrow> (nat \<times> nat) set" where
  "range_matches headers registered = {p. \<exists>e\<in>set (ranges headers). canonical_accept_match e registered = Some p}"

definition effective_quality :: "headers \<Rightarrow> string \<Rightarrow> nat" where
  "effective_quality headers registered =
     (let ms = range_matches headers registered
      in if ms = {} then 0 else Max {q. (Max (fst ` ms), q) \<in> ms})"

lemma range_matches_image:
  "range_matches headers registered = Option.these ((\<lambda>e. canonical_accept_match e registered) ` set (ranges headers))"
  by (force simp: range_matches_def Option.these_def)

lemma finite_range_matches: "finite (range_matches headers registered)"
proof -
  have "range_matches headers registered \<subseteq> (\<lambda>e. the (canonical_accept_match e registered)) ` set (ranges headers)"
    by (force simp: range_matches_def)
  then show ?thesis by (rule finite_subset) simp
qed

lemma best_is_effective:
  assumes "p \<in> range_matches headers registered" "\<forall>a\<in>range_matches headers registered. match_le a p"
  shows "effective_quality headers registered = snd p"
proof -
  let ?ms = "range_matches headers registered"
  have top: "Max (fst ` ?ms) = fst p"
    using assms finite_range_matches by (intro Max_eqI) (auto simp: match_le_def)
  have "finite {q. (fst p, q) \<in> ?ms}"
    by (rule finite_subset [of _ "snd ` ?ms"]) (force simp: finite_range_matches)+
  then have "Max {q. (fst p, q) \<in> ?ms} = snd p"
    using assms by (intro Max_eqI) (auto simp: match_le_def)
  then show ?thesis using assms(1) top by (auto simp: effective_quality_def Let_def)
qed

lemma best_of_ranges:
  "(case foldl (\<lambda>s e. better_match s (canonical_accept_match e registered)) None (ranges headers) of
      None \<Rightarrow> 0 | Some p \<Rightarrow> snd p) = effective_quality headers registered"
proof (cases "foldl (\<lambda>s e. better_match s (canonical_accept_match e registered)) None (ranges headers)")
  case None
  then have "range_matches headers registered = {}"
    using best_match_fold [where m = "\<lambda>e. canonical_accept_match e registered" and c = None and es = "ranges headers"]
    by (auto simp: range_matches_def)
  then show ?thesis using None by (simp add: effective_quality_def)
next
  case (Some p)
  then have "p \<in> range_matches headers registered" "\<forall>a\<in>range_matches headers registered. match_le a p"
    using best_match_fold [where m = "\<lambda>e. canonical_accept_match e registered" and c = None and es = "ranges headers"]
    by (auto simp: range_matches_def)
  then show ?thesis using Some best_is_effective by simp
qed

subsection \<open>All formats at once\<close>

text \<open>Blank entries match nothing, so dropping them changes no match.\<close>

lemma trim_with_removes: "\<exists>w. s = w @ trim_with ws s \<and> set w \<subseteq> \<Union> (set ` set ws)"
proof (induction ws s rule: trim_with.induct)
  case (1 ws s)
  show ?case
  proof (cases "strip_any ws s")
    case None
    then show ?thesis by (subst trim_with.simps) simp
  next
    case (Some r)
    have "\<exists>v\<in>set us. s = v @ r" if "strip_any us s = Some r" for us
      using that by (induction us) (auto simp: starts_with_iff split: if_splits)
    then obtain v where v: "v \<in> set ws" "s = v @ r" using Some by blast
    obtain w where w: "r = w @ trim_with ws r" "set w \<subseteq> \<Union> (set ` set ws)" using 1 [OF Some] by blast
    have "trim_with ws s = trim_with ws r" using Some by (simp add: trim_with.simps [of ws s])
    then have "s = (v @ w) @ trim_with ws s" "set (v @ w) \<subseteq> \<Union> (set ` set ws)" using v w by auto
    then show ?thesis by blast
  qed
qed

lemma slash_not_ws: "CHR ''/'' \<notin> \<Union> (set ` set ws_encodings)" "CHR ''/'' \<notin> \<Union> (set ` set (map rev ws_encodings))"
proof -
  have "list_all (list_all (\<lambda>c. c \<noteq> CHR ''/'')) ws_encodings" by code_simp
  then show "CHR ''/'' \<notin> \<Union> (set ` set ws_encodings)" "CHR ''/'' \<notin> \<Union> (set ` set (map rev ws_encodings))"
    by (auto simp: list_all_iff)
qed

lemma blank_has_no_slash: "trim e = [] \<Longrightarrow> CHR ''/'' \<notin> set e"
proof -
  assume blank: "trim e = []"
  obtain w where w: "e = w @ trim_start e" "set w \<subseteq> \<Union> (set ` set ws_encodings)"
    using trim_with_removes unfolding trim_start_def by blast
  obtain v where v: "rev (trim_start e) = v @ trim_with (map rev ws_encodings) (rev (trim_start e))"
      "set v \<subseteq> \<Union> (set ` set (map rev ws_encodings))"
    using trim_with_removes by blast
  have "trim_with (map rev ws_encodings) (rev (trim_start e)) = []" using blank by (simp add: trim_def trim_end_def)
  then have "set (trim_start e) = set v" using v(1) by (metis append_Nil2 set_rev)
  then have "set e = set w \<union> set v" using w(1) by (metis set_append)
  then show ?thesis using w(2) v(2) slash_not_ws by blast
qed

lemma no_slash_matches_nothing: "CHR ''/'' \<notin> set e \<Longrightarrow> canonical_accept_match e registered = None"
proof -
  assume "CHR ''/'' \<notin> set e"
  then have no: "CHR ''/'' \<notin> set (trim (hd (split_on (CHR '';'') e)))"
    using set_trim_subset split_on_subset [of "hd (split_on (CHR '';'') e)" "CHR '';''" e] hd_in_set [OF split_on_not_Nil]
    by blast
  have "c = CHR ''/''" if slash: "to_lower_char c = CHR ''/''" for c
  proof (cases "is_ascii_uppercase c")
    case True
    then have "65 \<le> byte_of c" "byte_of c + 32 < 256" by (simp_all add: is_ascii_uppercase_def)
    then have "97 \<le> byte_of (to_lower_char c)" using True by (simp add: to_lower_char_def byte_of_def)
    then show ?thesis by (simp add: slash byte_of_def)
  next
    case False
    then show ?thesis using slash by (simp add: to_lower_char_def)
  qed
  then have "CHR ''/'' \<notin> set (to_ascii_lowercase (trim (hd (split_on (CHR '';'') e))))"
    using no unfolding to_ascii_lowercase_def set_map by (metis imageE)
  then have "split_once (CHR ''/'') (to_ascii_lowercase (trim (hd (split_on (CHR '';'') e)))) = None"
    by (rule iffD2 [OF split_once_None_iff])
  then show ?thesis by (simp only: canonical_accept_match_def media_specificity_def Let_def prod.case option.case Option.bind.simps)
qed

lemma blank_matches_nothing: "trim e = [] \<Longrightarrow> canonical_accept_match e registered = None"
  by (intro no_slash_matches_nothing blank_has_no_slash)

lemma fold_matches_filter:
  "foldl (\<lambda>s e. better_match s (canonical_accept_match e r)) c (filter (\<lambda>e. trim e \<noteq> []) es)
   = foldl (\<lambda>s e. better_match s (canonical_accept_match e r)) c es"
  by (induction es arbitrary: c) (simp_all add: blank_matches_nothing better_match_cases)

lemma match_entries:
  "foldl (match_entry x) (map g formats) es
   = map (\<lambda>f. foldl (\<lambda>s e. better_match s (canonical_accept_match e (graph_media_type x f))) (g f) es) formats"
  by (induction es arbitrary: g) (simp_all add: match_entry_def formats_def)

definition readable :: "headers \<Rightarrow> bool" where
  "readable headers \<longleftrightarrow> (\<forall>v\<in>set (get_all headers ''accept''). header_to_str v = Some v)"

lemma header_to_str_same: "header_to_str v = Some s \<Longrightarrow> s = v"
  by (auto simp: header_to_str_def split: if_splits)

lemma accept_lines_readable:
  assumes "\<forall>v\<in>set vs. header_to_str v = Some v"
  shows "accept_lines x vs saw (map g formats) = Inr (saw \<or> (\<exists>v\<in>set vs. accept_entries v \<noteq> []),
    map (\<lambda>f. foldl (\<lambda>s e. better_match s (canonical_accept_match e (graph_media_type x f))) (g f)
      (concat (map (split_on (CHR '','')) vs))) formats)"
  using assms
  by (induction vs arbitrary: saw g) (simp_all add: match_entries accept_entries_def fold_matches_filter)

lemma accept_lines_unreadable:
  "\<exists>v\<in>set vs. header_to_str v = None \<Longrightarrow> accept_lines x vs saw selected = Inl no_acceptable"
  by (induction vs arbitrary: saw selected) (auto split: option.split)

definition some_range :: "headers \<Rightarrow> bool" where
  "some_range headers \<longleftrightarrow> (\<exists>e\<in>set (ranges headers). trim e \<noteq> [])"

lemma some_range_iff: "some_range headers \<longleftrightarrow> (\<exists>v\<in>set (get_all headers ''accept''). accept_entries v \<noteq> [])"
  by (auto simp: some_range_def ranges_def accept_entries_def filter_empty_conv)

lemma parse_accept_readable:
  assumes "readable headers"
  shows "parse_accept x headers = Inr (if \<not> some_range headers then None
     else Some (map (\<lambda>f. (f, effective_quality headers (graph_media_type x f)))
       (filter (\<lambda>f. 0 < effective_quality headers (graph_media_type x f)) formats)))"
proof -
  let ?best = "\<lambda>f. foldl (\<lambda>s e. better_match s (canonical_accept_match e (graph_media_type x f))) None (ranges headers)"
  have eff: "(case ?best f of None \<Rightarrow> 0 | Some p \<Rightarrow> snd p) = effective_quality headers (graph_media_type x f)" for f
    by (rule best_of_ranges)
  have "List.map_filter (\<lambda>(f, s). case s of Some (_, quality) \<Rightarrow> if 0 < quality then Some (f, quality) else None | None \<Rightarrow> None)
      (map (\<lambda>f. (f, ?best f)) fs)
    = map (\<lambda>f. (f, effective_quality headers (graph_media_type x f)))
       (filter (\<lambda>f. 0 < effective_quality headers (graph_media_type x f)) fs)" for fs
  proof (induction fs)
    case (Cons f fs)
    then show ?case using eff [of f] by (cases "?best f") (auto simp: List.map_filter_simps)
  qed (simp add: List.map_filter_simps)
  moreover have "zip formats (map ?best formats) = map (\<lambda>f. (f, ?best f)) formats"
    by (simp add: zip_map2 zip_same_conv_map)
  moreover have "replicate 5 None = map (\<lambda>f. None :: (nat \<times> nat) option) formats"
    by (simp add: formats_def numeral_eq_Suc)
  ultimately show ?thesis
    using assms accept_lines_readable [of "get_all headers ''accept''" x False "\<lambda>f. None"]
    by (simp add: parse_accept_def bind_r_def readable_def some_range_iff ranges_def)
qed

subsection \<open>The first of the best\<close>

lemma prefer_some: "cs \<noteq> [] \<or> c \<noteq> None \<Longrightarrow> foldl prefer_candidate c cs \<noteq> None"
proof (induction cs arbitrary: c)
  case (Cons a cs)
  have "prefer_candidate c a \<noteq> None" by (auto simp: prefer_candidate_def split: option.split)
  then show ?case using Cons by simp
qed simp

lemma pick_best:
  assumes "distinct fs"
  shows "foldl prefer_candidate None (map (\<lambda>f. (f, e f)) (filter (\<lambda>f. 0 < e f) fs)) = Some (f, q) \<longleftrightarrow>
    f \<in> set fs \<and> q = e f \<and> 0 < e f \<and> (\<forall>g\<in>set fs. e g \<le> e f) \<and> (\<forall>g\<in>set (takeWhile (\<lambda>g. g \<noteq> f) fs). e g < e f)"
  using assms
proof (induction fs arbitrary: f q rule: rev_induct)
  case (snoc g fs)
  let ?r = "foldl prefer_candidate None (map (\<lambda>f. (f, e f)) (filter (\<lambda>f. 0 < e f) fs))"
  have IH: "?r = Some (h, z) \<longleftrightarrow> h \<in> set fs \<and> z = e h \<and> 0 < e h \<and> (\<forall>g\<in>set fs. e g \<le> e h)
      \<and> (\<forall>g\<in>set (takeWhile (\<lambda>g. g \<noteq> h) fs). e g < e h)" for h z
    using snoc by simp
  have none: "\<forall>h\<in>set fs. e h = 0" if "?r = None"
  proof (rule ccontr)
    assume "\<not> (\<forall>h\<in>set fs. e h = 0)"
    then have "filter (\<lambda>f. 0 < e f) fs \<noteq> []" by (auto simp: filter_empty_conv)
    then show False using that prefer_some by blast
  qed
  have step: "foldl prefer_candidate None (map (\<lambda>f. (f, e f)) (filter (\<lambda>f. 0 < e f) (fs @ [g])))
      = (if 0 < e g then prefer_candidate ?r (g, e g) else ?r)" by simp
  have tw: "takeWhile (\<lambda>h. h \<noteq> f) (fs @ [g]) = (if f \<in> set fs then takeWhile (\<lambda>h. h \<noteq> f) fs else fs @ (if g = f then [] else [g]))"
    by (auto simp: takeWhile_append)
  have "g \<notin> set fs" using snoc by simp
  show ?case
  proof (cases ?r)
    case None
    then show ?thesis using none [OF None] \<open>g \<notin> set fs\<close> unfolding step tw
      by (auto simp: prefer_candidate_def)
  next
    case (Some r)
    obtain h z where r: "r = (h, z)" by (cases r)
    have h: "h \<in> set fs" "z = e h" "0 < e h" "\<forall>g\<in>set fs. e g \<le> e h" "\<forall>g\<in>set (takeWhile (\<lambda>g. g \<noteq> h) fs). e g < e h"
      using IH [of h z] Some r by auto
    have uniq: "f = h" if "f \<in> set fs" "\<forall>g\<in>set fs. e g \<le> e f" "\<forall>g\<in>set (takeWhile (\<lambda>g. g \<noteq> f) fs). e g < e f"
      using IH [of f "e f"] that h Some r by (metis le_antisym prod.inject option.inject)
    show ?thesis
      unfolding step tw Some r using h uniq \<open>g \<notin> set fs\<close>
      by (auto simp: prefer_candidate_def)
  qed
qed simp

subsection \<open>The export routes\<close>

lemma accept_match_same: "accept_match entry registered = canonical_accept_match entry registered"
proof -
  have "parse_quality = parse_accept_quality"
    by (intro ext) (simp add: parse_quality_def parse_accept_quality_def)
  then show ?thesis by (simp add: accept_match_def canonical_accept_match_def)
qed

lemma blank_line_matches_nothing:
  "trim v = [] \<Longrightarrow> foldl (\<lambda>s e. better_match s (canonical_accept_match e r)) c (split_on (CHR '','') v) = c"
proof -
  assume "trim v = []"
  then have "CHR ''/'' \<notin> set v" by (rule blank_has_no_slash)
  then have "canonical_accept_match e r = None" if "e \<in> set (split_on (CHR '','') v)" for e
    using that split_on_subset no_slash_matches_nothing by blast
  then have "foldl (\<lambda>s e. better_match s (canonical_accept_match e r)) c es = c" if "set es \<subseteq> set (split_on (CHR '','') v)" for es
    using that by (induction es) (simp_all add: better_match_cases)
  then show ?thesis by blast
qed

lemma export_lines_readable:
  assumes "\<forall>v\<in>set vs. header_to_str v = Some v"
  shows "export_lines registered vs saw c = Inr (saw \<or> (\<exists>v\<in>set vs. trim v \<noteq> []),
    foldl (\<lambda>s e. better_match s (canonical_accept_match e registered)) c (concat (map (split_on (CHR '','')) vs)))"
  using assms
  by (induction vs arbitrary: saw c) (simp_all add: accept_match_same blank_line_matches_nothing)

lemma export_lines_unreadable:
  "\<exists>v\<in>set vs. header_to_str v = None \<Longrightarrow> export_lines registered vs saw c = Inl not_acceptable_export"
  by (induction vs arbitrary: saw c) (auto split: option.split)

definition some_line :: "headers \<Rightarrow> bool" where
  "some_line headers \<longleftrightarrow> (\<exists>v\<in>set (get_all headers ''accept''). trim v \<noteq> [])"

lemma ensure_acceptable_readable:
  assumes "readable headers"
  shows "ensure_acceptable x headers format = Inr () \<longleftrightarrow>
    \<not> some_line headers \<or> 0 < effective_quality headers (export_media_type x format)"
proof -
  let ?best = "foldl (\<lambda>s e. better_match s (canonical_accept_match e (export_media_type x format))) None (ranges headers)"
  have "export_lines (export_media_type x format) (get_all headers ''accept'') False None = Inr (some_line headers, ?best)"
    using assms export_lines_readable by (simp add: readable_def some_line_def ranges_def)
  then show ?thesis
    using best_of_ranges [of "export_media_type x format" headers]
    by (cases ?best) (auto simp: ensure_acceptable_def bind_r_def)
qed

text \<open>C35. Content negotiation chooses by quality: over readable \<open>Accept\<close> lines, the canonical graph route
  serves the format the query names exactly when the most specific range that matches it gives it a
  positive quality (or there is no range), and otherwise, without a query, the first of the formats
  of the highest positive quality; an export is served exactly when its format has a positive
  quality or every line is blank. A line that is not visible ASCII is refused.\<close>

theorem negotiation_is_by_best_quality:
  fixes x :: "('x graph_ext_scheme)" and headers :: headers
  defines "quality \<equiv> \<lambda>f. effective_quality headers (graph_media_type x f)"
  shows "(readable headers \<longrightarrow>
      (\<forall>v f. resolve_format x headers (Some v) = Inr f \<longleftrightarrow>
         parse_format_name v = Some f \<and> (some_range headers \<longrightarrow> 0 < quality f))
      \<and> (\<forall>f. resolve_format x headers None = Inr f \<longleftrightarrow>
           (if some_range headers
            then 0 < quality f \<and> (\<forall>g. quality g \<le> quality f) \<and> (\<forall>g\<in>set (takeWhile (\<lambda>g. g \<noteq> f) formats). quality g < quality f)
            else f = Json))
      \<and> (\<forall>format. ensure_acceptable x headers format = Inr () \<longleftrightarrow>
           (some_line headers \<longrightarrow> 0 < effective_quality headers (export_media_type x format))))
    \<and> ((\<exists>v\<in>set (get_all headers ''accept''). header_to_str v = None) \<longrightarrow>
      (\<forall>query f. resolve_format x headers query \<noteq> Inr f) \<and> (\<forall>format. ensure_acceptable x headers format \<noteq> Inr ()))"
proof (intro conjI impI allI)
  fix v f
  assume "readable headers"
  note p = parse_accept_readable [OF this, of x]
  have "f \<in> set formats" by (cases f) (simp_all add: formats_def)
  then show "resolve_format x headers (Some v) = Inr f \<longleftrightarrow>
      parse_format_name v = Some f \<and> (some_range headers \<longrightarrow> 0 < quality f)"
    by (auto simp: resolve_format_def p bind_r_def ok_or_def list_ex_iff quality_def split: option.splits if_splits)
next
  fix f
  assume "readable headers"
  note p = parse_accept_readable [OF this, of x]
  have all: "g \<in> set formats" for g by (cases g) (simp_all add: formats_def)
  have "distinct formats" by (simp add: formats_def)
  note pick = pick_best [OF this, of quality]
  show "resolve_format x headers None = Inr f \<longleftrightarrow>
           (if some_range headers
            then 0 < quality f \<and> (\<forall>g. quality g \<le> quality f) \<and> (\<forall>g\<in>set (takeWhile (\<lambda>g. g \<noteq> f) formats). quality g < quality f)
            else f = Json)"
  proof (cases "some_range headers")
    case True
    let ?r = "foldl prefer_candidate None (map (\<lambda>f. (f, quality f)) (filter (\<lambda>f. 0 < quality f) formats))"
    have "resolve_format x headers None = ok_or no_acceptable (map_option fst ?r)"
      using True by (simp add: resolve_format_def p bind_r_def quality_def)
    also have "\<dots> = Inr f \<longleftrightarrow> (\<exists>q. ?r = Some (f, q))" by (cases ?r) (auto simp: ok_or_def)
    finally have "resolve_format x headers None = Inr f \<longleftrightarrow> (\<exists>q. ?r = Some (f, q))" .
    moreover have "(\<forall>g\<in>set formats. quality g \<le> quality f) \<longleftrightarrow> (\<forall>g. quality g \<le> quality f)" using all by blast
    ultimately show ?thesis using True pick all by simp
  next
    case False
    then show ?thesis by (auto simp: resolve_format_def p bind_r_def)
  qed
next
  fix format
  assume "readable headers"
  then show "ensure_acceptable x headers format = Inr () \<longleftrightarrow>
      (some_line headers \<longrightarrow> 0 < effective_quality headers (export_media_type x format))"
    using ensure_acceptable_readable by blast
next
  fix query f
  assume "\<exists>v\<in>set (get_all headers ''accept''). header_to_str v = None"
  then show "resolve_format x headers query \<noteq> Inr f"
    by (simp add: resolve_format_def parse_accept_def accept_lines_unreadable bind_r_def split: sum.split)
next
  fix format
  assume "\<exists>v\<in>set (get_all headers ''accept''). header_to_str v = None"
  then show "ensure_acceptable x headers format \<noteq> Inr ()"
    by (simp add: ensure_acceptable_def export_lines_unreadable bind_r_def)
qed

theorem negotiation_is_by_best_quality_witness:
  "\<forall>f. resolve_format toy_graph_ext [(''accept'', ''a/yaml'')] (Some ''toml'') = Inr f \<longleftrightarrow>
     f = Toml \<and> (some_range [(''accept'', ''a/yaml'')] \<longrightarrow> 0 < effective_quality [(''accept'', ''a/yaml'')] (graph_media_type toy_graph_ext f))"
proof -
  have "readable [(''accept'', ''a/yaml'')]" by (simp add: readable_def get_all_def header_to_str_def byte_of_def)
  moreover have "parse_format_name ''toml'' = Some Toml"
    by (simp add: parse_format_name_def to_ascii_lowercase_def to_lower_char_def is_ascii_uppercase_def byte_of_def)
  ultimately show ?thesis
    using negotiation_is_by_best_quality [of "[(''accept'', ''a/yaml'')]" toy_graph_ext] by auto
qed

end
