(* ===== verification/GraphText.thy ===== *)
theory GraphText
  imports GraphOut
begin

section \<open>Text renderings of a graph (\<^verbatim>\<open>src/routes/graph.rs\<close>)\<close>

text \<open>
  YAML and TOML are written from the canonical JSON value, DOT and Mermaid from the document. The
  functions that append to a buffer without a bound are modelled by what they append.
\<close>

subsection \<open>YAML\<close>

definition json_string_line :: "string \<Rightarrow> string" where
  "json_string_line s = s @ [CHR 0x0A]"

definition yaml_pad :: "nat \<Rightarrow> string" where
  "yaml_pad indent = concat (replicate indent ''  '')"

fun nonempty_container :: "json \<Rightarrow> bool" where
  "nonempty_container (JObject ms) = (ms \<noteq> [])"
| "nonempty_container (JArray vs) = (vs \<noteq> [])"
| "nonempty_container _ = False"

fun nonempty_object :: "json \<Rightarrow> bool" where
  "nonempty_object (JObject ms) = (ms \<noteq> [])"
| "nonempty_object _ = False"

definition yaml_scalar_key :: "('x graph_ext_scheme) \<Rightarrow> string \<Rightarrow> string" where
  "yaml_scalar_key x key = json_string x key"

fun write_yaml :: "('x graph_ext_scheme) \<Rightarrow> json \<Rightarrow> nat \<Rightarrow> string"
  and yaml_members :: "('x graph_ext_scheme) \<Rightarrow> (string \<times> json) list \<Rightarrow> nat \<Rightarrow> bool \<Rightarrow> string"
  and yaml_items :: "('x graph_ext_scheme) \<Rightarrow> json list \<Rightarrow> nat \<Rightarrow> string" where
  "write_yaml x (JObject ms) indent = (if ms = [] then json_string_line ''{}'' else yaml_members x ms indent True)"
| "write_yaml x (JArray vs) indent = (if vs = [] then json_string_line ''[]'' else yaml_items x vs indent)"
| "write_yaml x (JString s) indent = json_string_line (json_string x s)"
| "write_yaml x (JNumber s) indent = json_string_line s"
| "write_yaml x (JBool b) indent = json_string_line (if b then ''true'' else ''false'')"
| "write_yaml x JNull indent = json_string_line [CHR 0x22, CHR 0x22]"
| "yaml_members x [] indent is_first = []"
| "yaml_members x ((key, child) # ms) indent is_first =
     (if \<not> is_first \<or> 0 < indent then yaml_pad indent else []) @ yaml_scalar_key x key @ '':''
     @ (if nonempty_container child then [CHR 0x0A] else '' '')
     @ write_yaml x child (indent + 1) @ yaml_members x ms indent False"
| "yaml_items x [] indent = []"
| "yaml_items x (v # vs) indent =
     yaml_pad indent @ ''- ''
     @ (if nonempty_object v then dropWhile (\<lambda>c. c = CHR '' '') (write_yaml x v (indent + 1)) else write_yaml x v (indent + 1))
     @ yaml_items x vs indent"

subsection \<open>TOML\<close>

definition is_toml_table :: "json \<Rightarrow> bool" where
  "is_toml_table v = nonempty_object v"

fun is_object :: "json \<Rightarrow> bool" where
  "is_object (JObject _) = True"
| "is_object _ = False"

fun is_toml_array_of_tables :: "json \<Rightarrow> bool" where
  "is_toml_array_of_tables (JArray vs) = (vs \<noteq> [] \<and> list_all is_object vs)"
| "is_toml_array_of_tables _ = False"

fun toml_inline :: "('x graph_ext_scheme) \<Rightarrow> json \<Rightarrow> string"
  and toml_items :: "('x graph_ext_scheme) \<Rightarrow> json list \<Rightarrow> string list"
  and toml_members :: "('x graph_ext_scheme) \<Rightarrow> (string \<times> json) list \<Rightarrow> string list" where
  "toml_inline x (JString s) = json_string x s"
| "toml_inline x (JNumber s) = s"
| "toml_inline x (JBool b) = (if b then ''true'' else ''false'')"
| "toml_inline x JNull = [CHR 0x22, CHR 0x22]"
| "toml_inline x (JArray vs) = ''['' @ join_with '', '' (toml_items x vs) @ '']''"
| "toml_inline x (JObject ms) = ''{ '' @ join_with '', '' (toml_members x ms) @ '' }''"
| "toml_items x [] = []"
| "toml_items x (v # vs) = toml_inline x v # toml_items x vs"
| "toml_members x [] = []"
| "toml_members x ((key, child) # ms) = (json_string x key @ '' = '' @ toml_inline x child) # toml_members x ms"

definition toml_line :: "('x graph_ext_scheme) \<Rightarrow> string \<times> json \<Rightarrow> string" where
  "toml_line x m = json_string x (fst m) @ '' = '' @ toml_inline x (snd m) @ [CHR 0x0A]"

fun toml_lines :: "('x graph_ext_scheme) \<Rightarrow> json \<Rightarrow> string" where
  "toml_lines x (JObject ms) = concat (map (toml_line x) ms)"
| "toml_lines x _ = []"

fun toml_tables :: "('x graph_ext_scheme) \<Rightarrow> string \<Rightarrow> json \<Rightarrow> string" where
  "toml_tables x key (JArray vs) =
     concat (map (\<lambda>v. [CHR 0x0A] @ ''[['' @ json_string x key @ '']]'' @ [CHR 0x0A] @ toml_lines x v) vs)"
| "toml_tables x key _ = []"

fun write_toml :: "('x graph_ext_scheme) \<Rightarrow> json \<Rightarrow> string api_result" where
  "write_toml x (JObject root) = Inr
     (concat (map (toml_line x) (filter (\<lambda>m. \<not> (is_toml_table (snd m) \<or> is_toml_array_of_tables (snd m))) root))
      @ concat (map (\<lambda>m. [CHR 0x0A] @ ''['' @ json_string x (fst m) @ '']'' @ [CHR 0x0A] @ toml_lines x (snd m))
          (filter (\<lambda>m. is_toml_table (snd m)) root))
      @ concat (map (\<lambda>m. toml_tables x (fst m) (snd m)) (filter (\<lambda>m. is_toml_array_of_tables (snd m)) root)))"
| "write_toml x _ = Inl from_anyhow"

subsection \<open>DOT and Mermaid\<close>

definition push_graph_text :: "('x graph_ext_scheme) \<Rightarrow> string \<Rightarrow> writer" where
  "push_graph_text x v = push_bounded x v"

text \<open>\<open>hex::encode\<close> of the first eight bytes of the digest.\<close>

definition graph_node_id :: "('x graph_ext_scheme) \<Rightarrow> string \<Rightarrow> string" where
  "graph_node_id x v = ''n'' @ take 16 (sha256_hex x v)"

definition dependency_target :: "declared_dependency \<Rightarrow> string" where
  "dependency_target dep = dd_registry dep @ ''::'' @ dd_org dep @ ''/'' @ dd_name dep @ '' '' @ dd_requirement dep"

definition dot_header :: string where
  "dot_header = ''// Non-authoritative rendering of a zpkg/dependency-graph/v1 document.'' @ [CHR 0x0A]
     @ ''// Use the JSON, YAML, or TOML representation for interchange.'' @ [CHR 0x0A]
     @ ''digraph zpkg {'' @ [CHR 0x0A] @ ''  rankdir=LR;'' @ [CHR 0x0A]"

definition render_dot :: "('x graph_ext_scheme) \<Rightarrow> graph_document \<Rightarrow> string api_result" where
  "render_dot x d =
     all_w
       [case gd_graph d of
          Declared package dependencies \<Rightarrow>
            (let root = identity_string x package; root_id = graph_node_id x root
             in all_w
               [push_graph_text x (''  '' @ root_id @ '' [label='' @ json_string x root @ '', shape=box];'' @ [CHR 0x0A]),
                each_w (\<lambda>dep. let target = dependency_target dep; target_id = graph_node_id x target
                  in all_w
                    [push_graph_text x (''  '' @ target_id @ '' [label='' @ json_string x target @ ''];'' @ [CHR 0x0A]),
                     push_graph_text x (''  '' @ root_id @ '' -> '' @ target_id @ '';'' @ [CHR 0x0A])]) dependencies])
        | Resolved _ _ nodes edges _ _ _ \<Rightarrow> all_w
            [each_w (\<lambda>node. let identity = identity_string x (rn_id node)
               in push_graph_text x (''  '' @ graph_node_id x identity @ '' [label='' @ json_string x identity
                    @ '', shape=box];'' @ [CHR 0x0A])) nodes,
             each_w (\<lambda>edge. push_graph_text x (''  '' @ graph_node_id x (identity_string x (ed_from edge)) @ '' -> ''
               @ graph_node_id x (identity_string x (ed_to edge)) @ '';'' @ [CHR 0x0A])) edges],
        push_graph_text x (''}'' @ [CHR 0x0A])]
       dot_header"

text \<open>\<open>\{:X\}\<close> of a scalar value.\<close>

fun show_hex_upper :: "nat \<Rightarrow> string" where
  "show_hex_upper n =
     (if n < 16 then [''0123456789ABCDEF'' ! n] else show_hex_upper (n div 16) @ [''0123456789ABCDEF'' ! (n mod 16)])"

declare show_hex_upper.simps [simp del]

definition mermaid_readable :: "char \<Rightarrow> bool" where
  "mermaid_readable c \<longleftrightarrow> is_ascii_alphanumeric c
     \<or> c \<in> {CHR '' '', CHR ''.'', CHR ''_'', CHR '':'', CHR ''/'', CHR ''@'', CHR ''+'', CHR ''-'', CHR ''^'', CHR ''='', CHR '',''}"

definition mermaid_character :: "string \<Rightarrow> string" where
  "mermaid_character character =
     (case character of
        [c] \<Rightarrow> if mermaid_readable c then [c] else ''_u'' @ show_hex_upper (scalar character) @ ''_''
      | _ \<Rightarrow> ''_u'' @ show_hex_upper (scalar character) @ ''_'')"

definition mermaid_safe_label :: "string \<Rightarrow> string" where
  "mermaid_safe_label v = concat (map mermaid_character (chars v))"

definition mermaid_header :: string where
  "mermaid_header = ''%% Non-authoritative rendering of a zpkg/dependency-graph/v1 document.'' @ [CHR 0x0A]
     @ ''%% Use the JSON, YAML, or TOML representation for interchange.'' @ [CHR 0x0A] @ ''graph LR'' @ [CHR 0x0A]"

definition mermaid_node :: "('x graph_ext_scheme) \<Rightarrow> string \<Rightarrow> string" where
  "mermaid_node x v = ''  '' @ graph_node_id x v @ ''['' @ [CHR 0x22] @ mermaid_safe_label v @ [CHR 0x22] @ '']'' @ [CHR 0x0A]"

definition mermaid_edge :: "('x graph_ext_scheme) \<Rightarrow> string \<Rightarrow> string \<Rightarrow> string" where
  "mermaid_edge x a b = ''  '' @ graph_node_id x a @ '' --> '' @ graph_node_id x b @ [CHR 0x0A]"

definition render_mermaid :: "('x graph_ext_scheme) \<Rightarrow> graph_document \<Rightarrow> string api_result" where
  "render_mermaid x d =
     (case gd_graph d of
        Declared package dependencies \<Rightarrow>
          (let root = identity_string x package
           in all_w
             [push_graph_text x (mermaid_node x root),
              each_w (\<lambda>dep. let target = dependency_target dep
                in all_w [push_graph_text x (mermaid_node x target), push_graph_text x (mermaid_edge x root target)]) dependencies])
      | Resolved _ _ nodes edges _ _ _ \<Rightarrow> all_w
          [each_w (\<lambda>node. push_graph_text x (mermaid_node x (identity_string x (rn_id node)))) nodes,
           each_w (\<lambda>edge. push_graph_text x
             (mermaid_edge x (identity_string x (ed_from edge)) (identity_string x (ed_to edge)))) edges])
     mermaid_header"

end
