(* ===== verification/TextLaws.thy ===== *)
theory TextLaws
  imports GraphText
begin

section \<open>The authoritative text projections are lossless\<close>

text \<open>
  YAML and TOML are written from the canonical JSON value with \<open>serde\_json\<close>'s string literals, of
  which the proofs use that they are quoted, self-delimiting and on one line. The null value does not
  occur in a canonical document, and \<open>"\<dots>"\<close> would spell it like the empty string.
\<close>

subsection \<open>JSON tokens\<close>

definition json_literals :: "('x graph_ext_scheme) \<Rightarrow> bool" where
  "json_literals x \<longleftrightarrow>
     (\<forall>s t r u. json_string x s @ r = json_string x t @ u \<longrightarrow> s = t \<and> r = u)
     \<and> (\<forall>s. \<exists>q. json_string x s = CHR 0x22 # q \<and> CHR 0x0A \<notin> set q)"

lemma json_split: "json_literals x \<Longrightarrow> json_string x s @ r = json_string x t @ u \<longleftrightarrow> s = t \<and> r = u"
  unfolding json_literals_def by blast

lemma json_quote: "json_literals x \<Longrightarrow> \<exists>q. json_string x s = CHR 0x22 # q \<and> CHR 0x0A \<notin> set q"
  unfolding json_literals_def by blast

definition number_char :: "char \<Rightarrow> bool" where
  "number_char c \<longleftrightarrow> is_ascii_digit c \<or> c \<in> {CHR ''-'', CHR ''+'', CHR ''.'', CHR ''e'', CHR ''E''}"

definition number_text :: "string \<Rightarrow> bool" where
  "number_text s \<longleftrightarrow> s \<noteq> [] \<and> list_all number_char s \<and> (is_ascii_digit (hd s) \<or> hd s = CHR ''-'')"

text \<open>Values without null, whose numbers are number tokens.\<close>

fun canonical_json :: "json \<Rightarrow> bool"
  and canonical_items :: "json list \<Rightarrow> bool"
  and canonical_members :: "(string \<times> json) list \<Rightarrow> bool" where
  "canonical_json JNull = False"
| "canonical_json (JBool b) = True"
| "canonical_json (JNumber s) = number_text s"
| "canonical_json (JString s) = True"
| "canonical_json (JArray vs) = canonical_items vs"
| "canonical_json (JObject ms) = canonical_members ms"
| "canonical_items [] = True"
| "canonical_items (v # vs) \<longleftrightarrow> canonical_json v \<and> canonical_items vs"
| "canonical_members [] = True"
| "canonical_members ((k, v) # ms) \<longleftrightarrow> canonical_json v \<and> canonical_members ms"

lemma canonical_items_iff: "canonical_items vs \<longleftrightarrow> (\<forall>v\<in>set vs. canonical_json v)"
  by (induction vs) auto

lemma canonical_members_iff: "canonical_members ms \<longleftrightarrow> (\<forall>m\<in>set ms. canonical_json (snd m))"
  by (induction ms) auto

lemma number_split:
  assumes "number_text s" "number_text t" "\<forall>c r'. r = c # r' \<longrightarrow> \<not> number_char c" "\<forall>c u'. u = c # u' \<longrightarrow> \<not> number_char c"
    and eq: "s @ r = t @ u"
  shows "s = t \<and> r = u"
proof -
  have "takeWhile number_char (v @ z) = v" if "number_text v" "\<forall>c z'. z = c # z' \<longrightarrow> \<not> number_char c" for v z
    using that by (cases z) (simp_all add: number_text_def list_all_iff takeWhile_append2 takeWhile_eq_all_conv)
  then have "s = t" using assms by metis
  then show ?thesis using eq by simp
qed

lemma number_start: "number_text s \<Longrightarrow> \<exists>c s'. s = c # s' \<and> (is_ascii_digit c \<or> c = CHR ''-'') \<and> list_all number_char s'"
  by (cases s) (auto simp: number_text_def)

lemma not_number_chars: "\<not> number_char (CHR 0x0A)" "\<not> number_char (CHR '','')" "\<not> number_char (CHR '' '')" "\<not> number_char (CHR '']'')"
  "\<not> number_char (CHR 0x22)" "\<not> number_char (CHR ''['')" "\<not> number_char (CHR ''{'')" "\<not> number_char (CHR ''t'')" "\<not> number_char (CHR ''f'')"
  by (simp_all add: number_char_def is_ascii_digit_def byte_of_def)

lemma digit_is_number_char: "is_ascii_digit c \<or> c = CHR ''-'' \<Longrightarrow> number_char c"
  by (auto simp: number_char_def)

subsection \<open>YAML\<close>

lemma yaml_pad_simps: "yaml_pad 0 = []" "yaml_pad (Suc n) = CHR '' '' # CHR '' '' # yaml_pad n"
  by (simp_all add: yaml_pad_def)

definition yaml_entry :: "('x graph_ext_scheme) \<Rightarrow> nat \<Rightarrow> string \<times> json \<Rightarrow> string" where
  "yaml_entry x n m = json_string x (fst m) @ '':'' @ (if nonempty_container (snd m) then [CHR 0x0A] else '' '')
     @ write_yaml x (snd m) (n + 1)"

definition yaml_item :: "('x graph_ext_scheme) \<Rightarrow> nat \<Rightarrow> json \<Rightarrow> string" where
  "yaml_item x n v = (if nonempty_object v then dropWhile (\<lambda>c. c = CHR '' '') (write_yaml x v (n + 1)) else write_yaml x v (n + 1))"

lemma yaml_members_eq: "yaml_members x ms n b = concat (map (\<lambda>m. yaml_pad n @ yaml_entry x n m) ms)"
  by (induction ms arbitrary: b) (auto simp: yaml_entry_def yaml_scalar_key_def yaml_pad_simps)

lemma yaml_items_eq: "yaml_items x vs n = concat (map (\<lambda>v. yaml_pad n @ ''- '' @ yaml_item x n v) vs)"
  by (induction vs) (simp_all add: yaml_item_def)

text \<open>What may follow a block of indentation \<open>n\<close>: nothing, or a line of smaller indentation.\<close>

definition lead :: "string \<Rightarrow> nat" where
  "lead r = length (takeWhile (\<lambda>c. c = CHR '' '') r)"

definition dedented :: "nat \<Rightarrow> string \<Rightarrow> bool" where
  "dedented n r \<longleftrightarrow> r = [] \<or> lead r < 2 * n"

lemma lead_pad: "c \<noteq> CHR '' '' \<Longrightarrow> lead (yaml_pad n @ c # r) = 2 * n"
  by (induction n) (simp_all add: yaml_pad_simps lead_def)

lemma dedented_Suc: "dedented n r \<Longrightarrow> dedented (Suc n) r"
  by (auto simp: dedented_def)

lemma dedented_next: "c \<noteq> CHR '' '' \<Longrightarrow> dedented (Suc n) (yaml_pad n @ c # r)"
  by (simp add: dedented_def lead_pad)

lemma not_dedented: "c \<noteq> CHR '' '' \<Longrightarrow> \<not> dedented n (yaml_pad n @ c # r)"
  by (simp add: dedented_def lead_pad)

text \<open>A block of lines of one indentation is read back line by line.\<close>

lemma block_split:
  assumes starts: "\<And>a. \<exists>c t. c \<noteq> CHR '' '' \<and> f a = c # t"
    and split: "\<And>a b r s. a \<in> set xs \<Longrightarrow> b \<in> set ys \<Longrightarrow> dedented (Suc n) r \<Longrightarrow> dedented (Suc n) s \<Longrightarrow>
      f a @ r = f b @ s \<Longrightarrow> a = b \<and> r = s"
    and "dedented n r" "dedented n s"
    and "concat (map (\<lambda>a. yaml_pad n @ f a) xs) @ r = concat (map (\<lambda>a. yaml_pad n @ f a) ys) @ s"
  shows "xs = ys \<and> r = s"
  using assms(2-)
proof (induction xs arbitrary: ys)
  case Nil
  show ?case
  proof (cases ys)
    case (Cons y ys')
    obtain c t where ct: "c \<noteq> CHR '' ''" "f y = c # t" using starts [of y] by auto
    have "r = yaml_pad n @ c # (t @ concat (map (\<lambda>a. yaml_pad n @ f a) ys') @ s)"
      using Nil.prems(4) by (simp add: Cons ct)
    then show ?thesis using Nil.prems(2) not_dedented [OF ct(1)] by simp
  qed (use Nil in simp)
next
  case (Cons x xs)
  have after: "dedented (Suc n) (concat (map (\<lambda>a. yaml_pad n @ f a) zs) @ z)" if "dedented n z" for zs z
  proof (cases zs)
    case (Cons b bs)
    obtain c t where "c \<noteq> CHR '' ''" "f b = c # t" using starts [of b] by auto
    then show ?thesis using dedented_next by (simp add: Cons)
  qed (simp add: that dedented_Suc)
  show ?case
  proof (cases ys)
    case Nil
    obtain c t where ct: "c \<noteq> CHR '' ''" "f x = c # t" using starts [of x] by auto
    have "s = yaml_pad n @ c # (t @ concat (map (\<lambda>a. yaml_pad n @ f a) xs) @ r)"
      using Cons.prems(4) by (simp add: Nil ct)
    then show ?thesis using Cons.prems(3) not_dedented [OF ct(1)] by simp
  next
    case ys: (Cons y ys')
    have "f x @ concat (map (\<lambda>a. yaml_pad n @ f a) xs) @ r = f y @ concat (map (\<lambda>a. yaml_pad n @ f a) ys') @ s"
      using Cons.prems(4) ys by simp
    then have xy: "x = y \<and> concat (map (\<lambda>a. yaml_pad n @ f a) xs) @ r = concat (map (\<lambda>a. yaml_pad n @ f a) ys') @ s"
      by (rule Cons.prems(1) [OF _ _ after [OF Cons.prems(2)] after [OF Cons.prems(3)], rotated 2]) (simp_all add: ys)
    have "xs = ys' \<and> r = s"
    proof (rule Cons.IH)
      show "a = b \<and> u = v" if "a \<in> set xs" "b \<in> set ys'" "dedented (Suc n) u" "dedented (Suc n) v" "f a @ u = f b @ v" for a b u v
        by (rule Cons.prems(1)) (use that ys in simp_all)
    qed (use Cons.prems(2,3) xy in simp_all)
    then show ?thesis using xy ys by simp
  qed
qed

text \<open>What the first token of a block tells about the value.\<close>

fun kind :: "json \<Rightarrow> nat" where
  "kind (JObject ms) = (if ms = [] then 1 else 4)"
| "kind (JArray vs) = (if vs = [] then 3 else 2)"
| "kind (JString s) = 4"
| "kind (JNumber s) = 5"
| "kind (JBool b) = (if b then 6 else 7)"
| "kind JNull = 4"

definition sig :: "string \<Rightarrow> nat" where
  "sig y = (case dropWhile (\<lambda>c. c = CHR '' '') y of
     c # z \<Rightarrow>
       if c = CHR 0x22 then 4 else if c = CHR ''{'' then 1 else if c = CHR ''['' then 3
       else if c = CHR ''t'' then 6 else if c = CHR ''f'' then 7
       else if c = CHR ''-'' \<and> starts_with z '' '' then 2 else 5
   | [] \<Rightarrow> 0)"

lemma dropWhile_pad: "c \<noteq> CHR '' '' \<Longrightarrow> dropWhile (\<lambda>c. c = CHR '' '') (yaml_pad n @ c # r) = c # r"
  by (induction n) (simp_all add: yaml_pad_simps)

lemma sig_pad: "c \<noteq> CHR '' '' \<Longrightarrow> sig (yaml_pad n @ c # r) = sig (c # r)"
  by (simp add: sig_def dropWhile_pad)

lemma sig_number:
  assumes "number_text s"
  shows "sig (s @ CHR 0x0A # r) = 5"
proof -
  obtain c s' where s: "s = c # s'" "is_ascii_digit c \<or> c = CHR ''-''" "list_all number_char s'"
    using number_start [OF assms] by blast
  then have "number_char c" using digit_is_number_char by blast
  then have "c \<noteq> CHR '' ''" "c \<noteq> CHR 0x22" "c \<noteq> CHR ''{''" "c \<noteq> CHR ''[''" "c \<noteq> CHR ''t''" "c \<noteq> CHR ''f''"
    using not_number_chars by blast+
  moreover have "\<not> starts_with (s' @ CHR 0x0A # r) '' ''"
    using s(3) not_number_chars by (cases s') (auto simp: starts_with_def)
  ultimately show ?thesis by (simp add: sig_def s(1))
qed

lemma object_head:
  assumes "json_literals x"
  shows "\<exists>q t. write_yaml x (JObject (m # ms)) n @ r = yaml_pad n @ json_string x (fst m) @ CHR '':'' # t
    \<and> json_string x (fst m) = CHR 0x22 # q"
  using json_quote [OF assms, of "fst m"] by (auto simp: yaml_members_eq yaml_entry_def)

lemma sig_yaml:
  assumes lit: "json_literals x" and v: "canonical_json v"
  shows "sig (write_yaml x v n @ r) = kind v"
proof (cases v)
  case (JObject ms)
  show ?thesis
  proof (cases ms)
    case Nil
    then show ?thesis by (simp add: JObject json_string_line_def sig_def)
  next
    case (Cons m ms')
    obtain q t where "write_yaml x v n @ r = yaml_pad n @ json_string x (fst m) @ CHR '':'' # t"
        "json_string x (fst m) = CHR 0x22 # q"
      using object_head [OF lit] JObject Cons by blast
    then show ?thesis by (simp add: JObject Cons sig_def dropWhile_pad)
  qed
next
  case (JArray vs)
  show ?thesis
  proof (cases vs)
    case Nil
    then show ?thesis by (simp add: JArray json_string_line_def sig_def)
  next
    case (Cons a vs')
    then show ?thesis by (simp add: JArray yaml_items_eq sig_def dropWhile_pad starts_with_def)
  qed
next
  case (JString s)
  obtain q where "json_string x s = CHR 0x22 # q" using json_quote [OF lit] by blast
  then show ?thesis by (simp add: JString json_string_line_def sig_def)
next
  case (JNumber s)
  then show ?thesis using v sig_number by (simp add: json_string_line_def)
next
  case (JBool b)
  then show ?thesis by (simp add: json_string_line_def sig_def)
qed (use v in simp)

lemma entry_split:
  assumes lit: "json_literals x" and a: "canonical_json (snd a)" and b: "canonical_json (snd b)"
    and IH: "\<And>w r s. canonical_json w \<Longrightarrow> dedented (Suc n) r \<Longrightarrow> dedented (Suc n) s \<Longrightarrow>
      write_yaml x (snd a) (Suc n) @ r = write_yaml x w (Suc n) @ s \<Longrightarrow> snd a = w \<and> r = s"
    and r: "dedented (Suc n) r" and s: "dedented (Suc n) s" and eq: "yaml_entry x n a @ r = yaml_entry x n b @ s"
  shows "a = b \<and> r = s"
proof -
  have "fst a = fst b" and rest: "(if nonempty_container (snd a) then [CHR 0x0A] else '' '') @ write_yaml x (snd a) (Suc n) @ r
      = (if nonempty_container (snd b) then [CHR 0x0A] else '' '') @ write_yaml x (snd b) (Suc n) @ s"
    using eq json_split [OF lit] by (simp_all add: yaml_entry_def)
  moreover have "write_yaml x (snd a) (Suc n) @ r = write_yaml x (snd b) (Suc n) @ s"
    using rest by (simp split: if_splits)
  then have "snd a = snd b \<and> r = s" by (rule IH [OF b r s])
  ultimately show ?thesis by (simp add: prod_eq_iff)
qed

lemma object_block:
  "ms \<noteq> [] \<Longrightarrow> write_yaml x (JObject ms) n = concat (map (\<lambda>m. yaml_pad n @ yaml_entry x n m) ms)"
  by (simp add: yaml_members_eq)

lemma item_of_object:
  assumes "json_literals x" "nonempty_object v"
  shows "write_yaml x v n = yaml_pad n @ dropWhile (\<lambda>c. c = CHR '' '') (write_yaml x v n)"
proof -
  obtain m ms where v: "v = JObject (m # ms)" using assms(2) by (cases v) (auto simp: neq_Nil_conv)
  obtain q t where "write_yaml x v n @ [] = yaml_pad n @ json_string x (fst m) @ CHR '':'' # t" "json_string x (fst m) = CHR 0x22 # q"
    using object_head [OF assms(1)] unfolding v by blast
  then show ?thesis by (simp add: dropWhile_pad)
qed

text \<open>The string of an object starts with a key, so with a colon after its first literal.\<close>

lemma object_is_no_string:
  assumes "json_literals x" "ms \<noteq> []"
  shows "write_yaml x (JObject ms) n @ r \<noteq> json_string x t @ CHR 0x0A # s"
    and "dropWhile (\<lambda>c. c = CHR '' '') (write_yaml x (JObject ms) n) @ r \<noteq> json_string x t @ CHR 0x0A # s"
proof -
  obtain m ms' where ms: "ms = m # ms'" using assms(2) by (auto simp: neq_Nil_conv)
  have key: "json_string x k @ CHR '':'' # z \<noteq> json_string x t @ CHR 0x0A # s" for k z
    using json_split [OF assms(1), of k "CHR '':'' # z" t "CHR 0x0A # s"] by simp
  obtain q u where h: "write_yaml x (JObject ms) n @ r = yaml_pad n @ json_string x (fst m) @ CHR '':'' # u"
      "json_string x (fst m) = CHR 0x22 # q"
    using object_head [OF assms(1)] unfolding ms by blast
  obtain p where p: "json_string x t = CHR 0x22 # p" using json_quote [OF assms(1)] by blast
  show "write_yaml x (JObject ms) n @ r \<noteq> json_string x t @ CHR 0x0A # s"
    unfolding h(1) using key [of "fst m" u] p by (cases n) (simp_all add: yaml_pad_simps)
  obtain q' u' where h': "write_yaml x (JObject ms) n @ [] = yaml_pad n @ json_string x (fst m) @ CHR '':'' # u'"
      "json_string x (fst m) = CHR 0x22 # q'"
    using object_head [OF assms(1)] unfolding ms by blast
  then have "dropWhile (\<lambda>c. c = CHR '' '') (write_yaml x (JObject ms) n) = json_string x (fst m) @ CHR '':'' # u'"
    by (simp add: dropWhile_pad)
  then show "dropWhile (\<lambda>c. c = CHR '' '') (write_yaml x (JObject ms) n) @ r \<noteq> json_string x t @ CHR 0x0A # s"
    using key [of "fst m" "u' @ r"] by simp
qed

lemma sig_item:
  assumes "json_literals x" "canonical_json v"
  shows "sig (yaml_item x n v @ r) = kind v"
proof (cases "nonempty_object v")
  case True
  then obtain m ms where v: "v = JObject (m # ms)" by (cases v) (auto simp: neq_Nil_conv)
  obtain q t where "write_yaml x v (n + 1) @ [] = yaml_pad (n + 1) @ json_string x (fst m) @ CHR '':'' # t"
      "json_string x (fst m) = CHR 0x22 # q"
    using object_head [OF assms(1)] unfolding v by blast
  then have "dropWhile (\<lambda>c. c = CHR '' '') (write_yaml x v (n + 1)) = CHR 0x22 # q @ CHR '':'' # t"
    by (simp add: dropWhile_pad)
  then have "yaml_item x n v @ r = CHR 0x22 # q @ CHR '':'' # t @ r"
    using True by (simp add: yaml_item_def)
  then show ?thesis by (simp add: sig_def v)
next
  case False
  then show ?thesis using sig_yaml [OF assms] by (simp add: yaml_item_def)
qed

lemma kind_4: "canonical_json v \<Longrightarrow> kind v = 4 \<Longrightarrow> nonempty_object v \<or> (\<exists>s. v = JString s)"
  by (cases v) (auto split: if_splits)

lemma string_item: "yaml_item x n (JString t) @ s = json_string x t @ CHR 0x0A # s"
  by (simp add: yaml_item_def json_string_line_def)

lemma mixed_items:
  assumes "json_literals x" "canonical_json v" "canonical_json w" "yaml_item x n v @ r = yaml_item x n w @ s" "nonempty_object v"
  shows "nonempty_object w"
proof (rule ccontr)
  assume w: "\<not> nonempty_object w"
  have "kind w = kind v" using sig_item assms by metis
  also have "kind v = 4" using assms(5) by (cases v) auto
  finally obtain t where t: "w = JString t" using kind_4 assms(3) w by blast
  obtain ms where v: "v = JObject ms" "ms \<noteq> []" using assms(5) by (cases v) auto
  have "dropWhile (\<lambda>c. c = CHR '' '') (write_yaml x v (n + 1)) @ r = json_string x t @ CHR 0x0A # s"
    using assms(4) unfolding t string_item unfolding yaml_item_def if_P [OF assms(5)] .
  then show False using object_is_no_string(2) [OF assms(1) v(2)] unfolding v(1) by blast
qed

lemma item_split:
  assumes lit: "json_literals x" and v: "canonical_json v" and w: "canonical_json w"
    and IH: "\<And>w r s. canonical_json w \<Longrightarrow> dedented (Suc n) r \<Longrightarrow> dedented (Suc n) s \<Longrightarrow>
      write_yaml x v (Suc n) @ r = write_yaml x w (Suc n) @ s \<Longrightarrow> v = w \<and> r = s"
    and r: "dedented (Suc n) r" and s: "dedented (Suc n) s" and eq: "yaml_item x n v @ r = yaml_item x n w @ s"
  shows "v = w \<and> r = s"
proof (cases "nonempty_object v")
  case True
  then have "nonempty_object w" by (rule mixed_items [OF lit v w eq])
  then have "write_yaml x v (Suc n) @ r = write_yaml x w (Suc n) @ s"
    using True eq item_of_object [OF lit] by (metis Suc_eq_plus1 append_assoc yaml_item_def)
  then show ?thesis by (rule IH [OF w r s])
next
  case False
  then have "\<not> nonempty_object w" using mixed_items [OF lit w v] eq by metis
  then have "write_yaml x v (Suc n) @ r = write_yaml x w (Suc n) @ s"
    using False eq by (simp add: yaml_item_def)
  then show ?thesis by (rule IH [OF w r s])
qed

lemma yaml_split:
  assumes lit: "json_literals x" and "canonical_json v" "canonical_json w" "dedented n r" "dedented n s"
    and "write_yaml x v n @ r = write_yaml x w n @ s"
  shows "v = w \<and> r = s"
  using assms(2-)
proof (induction v arbitrary: w n r s)
  case JNull
  then show ?case by simp
next
  case (JBool b)
  have "kind w = kind (JBool b)" using sig_yaml [OF lit] JBool by metis
  then have "w = JBool b" using JBool(2) by (cases w) (auto split: if_splits)
  then show ?case using JBool by simp
next
  case (JNumber t)
  have "kind w = 5" using sig_yaml [OF lit] JNumber by (metis kind.simps(4))
  then obtain u where w: "w = JNumber u" using JNumber(2) by (cases w) (auto split: if_splits)
  then have "t @ CHR 0x0A # r = u @ CHR 0x0A # s" using JNumber(5) by (simp add: json_string_line_def)
  then have "t = u \<and> CHR 0x0A # r = CHR 0x0A # s"
    using JNumber(1,2) w not_number_chars(1) by (intro number_split) auto
  then show ?case using w by simp
next
  case (JString t)
  have "kind w = 4" using sig_yaml [OF lit] JString by (metis kind.simps(3))
  moreover have "\<not> nonempty_object w"
  proof
    assume "nonempty_object w"
    then obtain ms where "w = JObject ms" "ms \<noteq> []" by (cases w) auto
    then show False
      using JString(5) object_is_no_string(1) [OF lit] by (simp add: json_string_line_def del: write_yaml.simps(1)) metis
  qed
  ultimately obtain u where w: "w = JString u" using kind_4 JString(2) by blast
  then have "json_string x t @ CHR 0x0A # r = json_string x u @ CHR 0x0A # s"
    using JString(5) by (simp add: json_string_line_def)
  then show ?case using w json_split [OF lit] by simp
next
  case (JArray vs)
  have kind: "kind w = kind (JArray vs)" using sig_yaml [OF lit] JArray.prems by metis
  then obtain ws where w: "w = JArray ws" by (cases w) (auto split: if_splits)
  show ?case
  proof (cases "vs = []")
    case True
    then show ?thesis using kind w JArray.prems(5) by (simp split: if_splits)
  next
    case False
    then have "ws \<noteq> []" using kind w by (auto split: if_splits)
    then have eq: "concat (map (\<lambda>v. yaml_pad n @ (''- '' @ yaml_item x n v)) vs) @ r
        = concat (map (\<lambda>v. yaml_pad n @ (''- '' @ yaml_item x n v)) ws) @ s"
      using JArray.prems(5) False w by (simp add: yaml_items_eq)
    have "vs = ws \<and> r = s"
    proof (rule block_split [OF _ _ JArray.prems(3,4) eq])
      fix a b r s
      assume "a \<in> set vs" "b \<in> set ws" "dedented (Suc n) r" "dedented (Suc n) s"
        "(''- '' @ yaml_item x n a) @ r = (''- '' @ yaml_item x n b) @ s"
      then show "a = b \<and> r = s"
        using JArray.prems(1,2) w JArray.IH by (intro item_split [OF lit, of a b n r s]) (simp_all add: canonical_items_iff)
    qed simp
    then show ?thesis using w by simp
  qed
next
  case (JObject ms)
  have kind: "kind w = kind (JObject ms)" using sig_yaml [OF lit] JObject.prems by metis
  have "nonempty_object w \<longleftrightarrow> ms \<noteq> []"
  proof
    assume "nonempty_object w"
    then show "ms \<noteq> []" using kind by (cases w) (auto split: if_splits)
  next
    assume ms: "ms \<noteq> []"
    show "nonempty_object w"
    proof (rule ccontr)
      assume "\<not> nonempty_object w"
      moreover have "kind w = 4" using kind ms by simp
      ultimately obtain u where "w = JString u" using kind_4 JObject.prems(2) by blast
      then show False
        using JObject.prems(5) object_is_no_string(1) [OF lit ms] by (simp add: json_string_line_def del: write_yaml.simps(1))
    qed
  qed
  then obtain ns where w: "w = JObject ns" and ns: "ns \<noteq> [] \<longleftrightarrow> ms \<noteq> []"
    using kind by (cases w) (auto split: if_splits)
  show ?case
  proof (cases "ms = []")
    case True
    then show ?thesis using w ns JObject.prems(5) by simp
  next
    case False
    have eq: "concat (map (\<lambda>m. yaml_pad n @ yaml_entry x n m) ms) @ r = concat (map (\<lambda>m. yaml_pad n @ yaml_entry x n m) ns) @ s"
    proof -
      have "ns \<noteq> []" using ns False by simp
      note blocks = object_block [OF False, of x n] object_block [OF this, of x n]
      show ?thesis using JObject.prems(5) unfolding w blocks .
    qed
    have "ms = ns \<and> r = s"
    proof (rule block_split [OF _ _ JObject.prems(3,4) eq])
      show "\<exists>c t. c \<noteq> CHR '' '' \<and> yaml_entry x n m = c # t" for m
      proof -
        obtain q where "json_string x (fst m) = CHR 0x22 # q" using json_quote [OF lit] by blast
        then show ?thesis by (simp add: yaml_entry_def)
      qed
      fix a b r s
      assume ab: "a \<in> set ms" "b \<in> set ns" and d: "dedented (Suc n) r" "dedented (Suc n) s"
        and e: "yaml_entry x n a @ r = yaml_entry x n b @ s"
      have can: "canonical_json (snd a)" "canonical_json (snd b)"
        using JObject.prems(1,2) ab unfolding w by (simp_all add: canonical_members_iff)
      have "snd a \<in> Basic_BNFs.snds a" by (simp add: snds.simps)
      note IH = JObject.IH [OF ab(1) this can(1)]
      show "a = b \<and> r = s"
        by (rule entry_split [OF lit can IH d e])
    qed
    then show ?thesis using w by simp
  qed
qed

subsection \<open>TOML\<close>

definition number_free :: "string \<Rightarrow> bool" where
  "number_free r \<longleftrightarrow> (\<forall>c r'. r = c # r' \<longrightarrow> \<not> number_char c)"

lemma number_free_Cons: "number_free (c # r) \<longleftrightarrow> \<not> number_char c"
  by (simp add: number_free_def)

definition toml_member :: "('x graph_ext_scheme) \<Rightarrow> string \<times> json \<Rightarrow> string" where
  "toml_member x m = json_string x (fst m) @ '' = '' @ toml_inline x (snd m)"

lemma toml_items_eq: "toml_items x vs = map (toml_inline x) vs"
  by (induction vs) simp_all

lemma toml_members_eq: "toml_members x ms = map (toml_member x) ms"
  by (induction ms) (auto simp: toml_member_def)

lemma join_split:
  assumes starts: "\<And>a r s. a \<in> set xs \<union> set ys \<Longrightarrow> f a @ r \<noteq> t @ s"
    and split: "\<And>a b r s. a \<in> set xs \<Longrightarrow> b \<in> set ys \<Longrightarrow> number_free r \<Longrightarrow> number_free s \<Longrightarrow> f a @ r = f b @ s \<Longrightarrow> a = b \<and> r = s"
    and sep: "\<And>r s. t @ r \<noteq> CHR '','' # s" and free: "\<And>r. number_free (t @ r)"
    and eq: "join_with '', '' (map f xs) @ t @ r = join_with '', '' (map f ys) @ t @ s"
  shows "xs = ys \<and> r = s"
  using starts split eq
proof (induction xs arbitrary: ys)
  case Nil
  show ?case
  proof (cases ys)
    case (Cons y ys')
    then obtain z where "join_with '', '' (map f ys) = f y @ z" by (cases ys') auto
    then show ?thesis using Nil(3) Nil(1) [of y "z @ t @ s" r] Cons by simp
  qed (use Nil in simp)
next
  case (Cons x xs)
  define rest where "rest zs z = (case zs of [] \<Rightarrow> t @ z | _ \<Rightarrow> '', '' @ join_with '', '' (map f zs) @ t @ z)" for zs z
  have join: "join_with '', '' (map f (a # zs)) @ t @ z = f a @ rest zs z" for a zs z
    by (cases zs) (simp_all add: rest_def)
  have rfree: "number_free (rest zs z)" for zs z
    using free not_number_chars(2) by (cases zs) (simp_all add: rest_def number_free_Cons)
  show ?case
  proof (cases ys)
    case Nil
    have "f x @ rest xs r = t @ s" using Cons.prems(3) unfolding Nil join by simp
    then show ?thesis using Cons.prems(1) [of x "rest xs r" s] by simp
  next
    case ys: (Cons y ys')
    have "f x @ rest xs r = f y @ rest ys' s" using Cons.prems(3) unfolding ys join .
    then have xy: "x = y" and tails: "rest xs r = rest ys' s"
      using Cons.prems(2) [of x y "rest xs r" "rest ys' s"] rfree ys by simp_all
    have "xs = ys' \<and> r = s"
    proof (cases "xs = [] \<or> ys' = []")
      case True
      then show ?thesis
        using tails sep [of r] sep [of s] by (cases xs; cases ys') (auto simp: rest_def dest: sym)
    next
      case False
      then have eq': "join_with '', '' (map f xs) @ t @ r = join_with '', '' (map f ys') @ t @ s"
        using tails by (cases xs; cases ys') (simp_all add: rest_def)
      show ?thesis
      proof (rule Cons.IH [OF _ _ eq'])
        show "f a @ u \<noteq> t @ v" if "a \<in> set xs \<union> set ys'" for a u v
          by (rule Cons.prems(1)) (use that ys in auto)
        show "a = b \<and> u = v" if "a \<in> set xs" "b \<in> set ys'" "number_free u" "number_free v" "f a @ u = f b @ v" for a b u v
          by (rule Cons.prems(2)) (use that ys in simp_all)
      qed
    qed
    then show ?thesis using xy ys by simp
  qed
qed

fun toml_kind :: "json \<Rightarrow> nat" where
  "toml_kind (JObject ms) = 1"
| "toml_kind (JArray vs) = 2"
| "toml_kind (JString s) = 3"
| "toml_kind (JNumber s) = 4"
| "toml_kind (JBool b) = (if b then 5 else 6)"
| "toml_kind JNull = 3"

definition toml_sig :: "string \<Rightarrow> nat" where
  "toml_sig y = (case y of
     c # z \<Rightarrow> if c = CHR ''{'' then 1 else if c = CHR ''['' then 2 else if c = CHR 0x22 then 3
              else if c = CHR ''t'' then 5 else if c = CHR ''f'' then 6 else 4
   | [] \<Rightarrow> 0)"

lemma toml_sig_inline:
  assumes lit: "json_literals x" and v: "canonical_json v"
  shows "toml_sig (toml_inline x v @ r) = toml_kind v"
proof (cases v)
  case (JString s)
  obtain q where "json_string x s = CHR 0x22 # q" using json_quote [OF lit] by blast
  then show ?thesis by (simp add: JString toml_sig_def)
next
  case (JNumber s)
  then obtain c s' where s: "s = c # s'" "is_ascii_digit c \<or> c = CHR ''-''" using v number_start by fastforce
  then have "number_char c" using digit_is_number_char by blast
  then have "c \<noteq> CHR 0x22" "c \<noteq> CHR ''{''" "c \<noteq> CHR ''[''" "c \<noteq> CHR ''t''" "c \<noteq> CHR ''f''"
    using not_number_chars by blast+
  then show ?thesis by (simp add: JNumber s(1) toml_sig_def)
qed (use v in \<open>simp_all add: toml_sig_def\<close>)

lemma toml_kind_cases: "canonical_json v \<Longrightarrow> canonical_json w \<Longrightarrow> toml_kind v = toml_kind w \<Longrightarrow>
    (\<exists>ms ns. v = JObject ms \<and> w = JObject ns) \<or> (\<exists>vs ws. v = JArray vs \<and> w = JArray ws)
    \<or> (\<exists>s t. v = JString s \<and> w = JString t) \<or> (\<exists>s t. v = JNumber s \<and> w = JNumber t) \<or> (\<exists>b. v = JBool b \<and> w = JBool b)"
  by (cases v; cases w) (auto split: if_splits)

lemma toml_start:
  assumes "json_literals x" "canonical_json v"
  shows "toml_inline x v @ r \<noteq> '']'' @ s"
proof (cases v)
  case (JString t)
  obtain q where "json_string x t = CHR 0x22 # q" using json_quote [OF assms(1)] by blast
  then show ?thesis by (simp add: JString)
next
  case (JNumber t)
  then obtain c t' where t: "t = c # t'" "is_ascii_digit c \<or> c = CHR ''-''" using assms(2) number_start by fastforce
  then have "c \<noteq> CHR '']''" using digit_is_number_char not_number_chars(4) by blast
  then show ?thesis by (simp add: JNumber t(1))
qed (use assms in simp_all)

lemma toml_split:
  assumes lit: "json_literals x" and "canonical_json v" "canonical_json w" "number_free r" "number_free s"
    and "toml_inline x v @ r = toml_inline x w @ s"
  shows "v = w \<and> r = s"
  using assms(2-)
proof (induction v arbitrary: w r s)
  case JNull
  then show ?case by simp
next
  case (JBool b)
  have "toml_kind w = toml_kind (JBool b)" using toml_sig_inline [OF lit] JBool by metis
  then have "w = JBool b" using JBool(2) by (cases w) (auto split: if_splits)
  then show ?case using JBool by simp
next
  case (JNumber t)
  have "toml_kind w = 4" using toml_sig_inline [OF lit] JNumber by (metis toml_kind.simps(4))
  then obtain u where w: "w = JNumber u" using JNumber(2) by (cases w) (auto split: if_splits)
  have "t = u \<and> r = s"
    using JNumber w by (intro number_split) (simp_all add: number_free_def)
  then show ?case using w by simp
next
  case (JString t)
  have "toml_kind w = 3" using toml_sig_inline [OF lit] JString by (metis toml_kind.simps(3))
  then obtain u where w: "w = JString u" using JString(2) by (cases w) (auto split: if_splits)
  then show ?case using JString json_split [OF lit] by simp
next
  case (JArray vs)
  have "toml_kind w = 2" using toml_sig_inline [OF lit] JArray.prems by (metis toml_kind.simps(2))
  then obtain ws where w: "w = JArray ws" using JArray(3) by (cases w) (auto split: if_splits)
  have can: "\<forall>v\<in>set vs. canonical_json v" "\<forall>v\<in>set ws. canonical_json v"
    using JArray.prems(1,2) w by (simp_all add: canonical_items_iff)
  have eq: "join_with '', '' (map (toml_inline x) vs) @ '']'' @ r = join_with '', '' (map (toml_inline x) ws) @ '']'' @ s"
    using JArray.prems(5) w by (simp add: toml_items_eq)
  have "vs = ws \<and> r = s"
  proof (rule join_split [OF _ _ _ _ eq])
    show "toml_inline x a @ u \<noteq> '']'' @ z" if "a \<in> set vs \<union> set ws" for a u z
      by (rule toml_start [OF lit]) (use that can in blast)
    show "a = b \<and> u = z" if "a \<in> set vs" "b \<in> set ws" "number_free u" "number_free z" "toml_inline x a @ u = toml_inline x b @ z"
      for a b u z
      by (rule JArray.IH [OF that(1)]) (use that can in blast)+
  qed (simp_all add: number_free_Cons not_number_chars)
  then show ?case using w by simp
next
  case (JObject ms)
  have "toml_kind w = 1" using toml_sig_inline [OF lit] JObject.prems by (metis toml_kind.simps(1))
  then obtain ns where w: "w = JObject ns" using JObject(3) by (cases w) (auto split: if_splits)
  have can: "\<forall>m\<in>set ms. canonical_json (snd m)" "\<forall>m\<in>set ns. canonical_json (snd m)"
    using JObject.prems(1,2) w by (simp_all add: canonical_members_iff)
  have eq: "join_with '', '' (map (toml_member x) ms) @ '' }'' @ r = join_with '', '' (map (toml_member x) ns) @ '' }'' @ s"
    using JObject.prems(5) w by (simp add: toml_members_eq)
  have "ms = ns \<and> r = s"
  proof (rule join_split [OF _ _ _ _ eq])
    show "toml_member x a @ u \<noteq> '' }'' @ z" for a u z
    proof -
      obtain q where "json_string x (fst a) = CHR 0x22 # q" using json_quote [OF lit] by blast
      then show ?thesis by (simp add: toml_member_def)
    qed
    fix a b u z
    assume ab: "a \<in> set ms" "b \<in> set ns" and free: "number_free u" "number_free z"
      and e: "toml_member x a @ u = toml_member x b @ z"
    have keys: "fst a = fst b" and e': "toml_inline x (snd a) @ u = toml_inline x (snd b) @ z"
      using e json_split [OF lit] by (simp_all add: toml_member_def)
    have "snd a \<in> Basic_BNFs.snds a" by (simp add: snds.simps)
    then have "snd a = snd b \<and> u = z"
      using JObject.IH [OF ab(1)] can ab free e' by blast
    then show "a = b \<and> u = z" using keys by (simp add: prod_eq_iff)
  qed (simp_all add: number_free_Cons not_number_chars)
  then show ?case using w by simp
qed

lemma toml_line_split:
  assumes "json_literals x" "canonical_json (snd a)" "canonical_json (snd b)"
  shows "toml_line x a @ r = toml_line x b @ s \<Longrightarrow> a = b \<and> r = s"
proof -
  assume eq: "toml_line x a @ r = toml_line x b @ s"
  have "fst a = fst b" "toml_inline x (snd a) @ CHR 0x0A # r = toml_inline x (snd b) @ CHR 0x0A # s"
    using eq json_split [OF assms(1)] by (simp_all add: toml_line_def)
  moreover from this have "snd a = snd b \<and> CHR 0x0A # r = CHR 0x0A # s"
    using assms not_number_chars(1) by (intro toml_split) (simp_all add: number_free_Cons)
  ultimately show ?thesis by (simp add: prod_eq_iff)
qed

text \<open>A sequence of pieces that start alike, followed by something that starts otherwise.\<close>

lemma pieces_split:
  assumes split: "\<And>a b r s. a \<in> set xs \<Longrightarrow> b \<in> set ys \<Longrightarrow> Q r \<Longrightarrow> Q s \<Longrightarrow> f a @ r = f b @ s \<Longrightarrow> a = b \<and> r = s"
    and starts: "\<And>a r. P (f a @ r)" and ends: "\<not> P r" "\<not> P s"
    and follow: "\<And>z. P z \<Longrightarrow> Q z" "Q r" "Q s"
    and eq: "concat (map f xs) @ r = concat (map f ys) @ s"
  shows "xs = ys \<and> r = s"
  using split eq
proof (induction xs arbitrary: ys)
  case Nil
  show ?case
  proof (cases ys)
    case (Cons y ys')
    then show ?thesis using Nil(2) starts [of y "concat (map f ys') @ s"] ends(1) by simp
  qed (use Nil in simp)
next
  case (Cons x xs)
  have q: "Q (concat (map f zs) @ z)" if "Q z" for zs z
    using that starts follow(1) by (cases zs) auto
  show ?case
  proof (cases ys)
    case Nil
    then show ?thesis using Cons.prems(2) starts [of x "concat (map f xs) @ r"] ends(2) by simp
  next
    case ys: (Cons y ys')
    have xy: "x = y \<and> concat (map f xs) @ r = concat (map f ys') @ s"
      by (rule Cons.prems(1)) (use Cons.prems(2) ys q follow in simp_all)
    have "xs = ys' \<and> r = s"
    proof (rule Cons.IH)
      show "a = b \<and> u = v" if "a \<in> set xs" "b \<in> set ys'" "Q u" "Q v" "f a @ u = f b @ v" for a b u v
        by (rule Cons.prems(1)) (use that ys in simp_all)
    qed (use xy in simp)
    then show ?thesis using xy ys by simp
  qed
qed

definition quoted_start :: "string \<Rightarrow> bool" where
  "quoted_start r \<longleftrightarrow> (\<exists>t. r = CHR 0x22 # t)"

lemma toml_line_start: "json_literals x \<Longrightarrow> quoted_start (toml_line x m @ r)"
  using json_quote [of x "fst m"] by (auto simp: quoted_start_def toml_line_def)

lemma toml_lines_split:
  assumes lit: "json_literals x" and "canonical_json v" "canonical_json w" "is_object v" "is_object w"
    and ends: "\<not> quoted_start r" "\<not> quoted_start s" and eq: "toml_lines x v @ r = toml_lines x w @ s"
  shows "v = w \<and> r = s"
proof -
  obtain ms ns where v: "v = JObject ms" "w = JObject ns" using assms(4,5) by (cases v; cases w) auto
  have can: "\<forall>m\<in>set ms. canonical_json (snd m)" "\<forall>m\<in>set ns. canonical_json (snd m)"
    using assms(2,3) v by (simp_all add: canonical_members_iff)
  have "ms = ns \<and> r = s"
  proof (rule pieces_split [where P = quoted_start and Q = "\<lambda>_. True"])
    show "a = b \<and> u = z" if "a \<in> set ms" "b \<in> set ns" "toml_line x a @ u = toml_line x b @ z" for a b u z
      using toml_line_split [OF lit _ _ that(3)] that can by blast
    show "concat (map (toml_line x) ms) @ r = concat (map (toml_line x) ns) @ s" using eq v by simp
  qed (use ends toml_line_start [OF lit] in simp_all)
  then show ?thesis using v by simp
qed

definition table_piece :: "('x graph_ext_scheme) \<Rightarrow> string \<times> json \<Rightarrow> string" where
  "table_piece x m = [CHR 0x0A] @ ''['' @ json_string x (fst m) @ '']'' @ [CHR 0x0A] @ toml_lines x (snd m)"

definition array_piece :: "('x graph_ext_scheme) \<Rightarrow> string \<times> json \<Rightarrow> string" where
  "array_piece x m = [CHR 0x0A] @ ''[['' @ json_string x (fst m) @ '']]'' @ [CHR 0x0A] @ toml_lines x (snd m)"

fun array_entries :: "string \<times> json \<Rightarrow> (string \<times> json) list" where
  "array_entries (k, JArray vs) = map (Pair k) vs"
| "array_entries (k, _) = []"

lemma toml_tables_eq: "toml_tables x (fst m) (snd m) = concat (map (array_piece x) (array_entries m))"
  by (cases m rule: array_entries.cases) (simp_all add: array_piece_def comp_def)

lemma piece_split:
  assumes lit: "json_literals x" and "canonical_json (snd a)" "canonical_json (snd b)" "is_object (snd a)" "is_object (snd b)"
    and "\<not> quoted_start r" "\<not> quoted_start s"
  shows "table_piece x a @ r = table_piece x b @ s \<Longrightarrow> a = b \<and> r = s"
    and "array_piece x a @ r = array_piece x b @ s \<Longrightarrow> a = b \<and> r = s"
proof -
  have lines: "snd a = snd b \<and> r = s" if "toml_lines x (snd a) @ r = toml_lines x (snd b) @ s"
    by (rule toml_lines_split [OF lit assms(2-7) that])
  show "table_piece x a @ r = table_piece x b @ s \<Longrightarrow> a = b \<and> r = s"
    using json_split [OF lit] lines by (simp add: table_piece_def prod_eq_iff)
  show "array_piece x a @ r = array_piece x b @ s \<Longrightarrow> a = b \<and> r = s"
    using json_split [OF lit] lines by (simp add: array_piece_def prod_eq_iff)
qed

lemma entries_determine:
  assumes "distinct (map fst C)" "distinct (map fst D)" "\<forall>m\<in>set C. is_toml_array_of_tables (snd m)"
    "\<forall>m\<in>set D. is_toml_array_of_tables (snd m)" "concat (map array_entries C) = concat (map array_entries D)"
  shows "C = D"
  using assms
proof (induction C arbitrary: D)
  case Nil
  show ?case
  proof (cases D)
    case (Cons d D')
    then obtain k v vs where "d = (k, JArray (v # vs))"
      using Nil(4) by (cases d rule: array_entries.cases) (auto simp: neq_Nil_conv)
    then show ?thesis using Nil Cons by simp
  qed simp
next
  case (Cons c C)
  obtain k v vs where c: "c = (k, JArray (v # vs))"
    using Cons.prems(3) by (cases c rule: array_entries.cases) (auto simp: neq_Nil_conv)
  have keys: "fst ` set (concat (map array_entries E)) \<subseteq> fst ` set E" for E
  proof
    fix q
    assume "q \<in> fst ` set (concat (map array_entries E))"
    then obtain m e where "m \<in> set E" "e \<in> set (array_entries m)" "q = fst e" by auto
    moreover from this have "fst e = fst m" by (cases m rule: array_entries.cases) auto
    ultimately show "q \<in> fst ` set E" by auto
  qed
  show ?case
  proof (cases D)
    case Nil
    then show ?thesis using Cons.prems(5) c by simp
  next
    case D: (Cons d D')
    then obtain l u us where d: "d = (l, JArray (u # us))"
      using Cons.prems(4) by (cases d rule: array_entries.cases) (auto simp: neq_Nil_conv)
    let ?p = "\<lambda>e. fst e = k"
    have kl: "k = l" "v = u" using Cons.prems(5) c d D by simp_all
    have eq: "map (Pair k) vs @ concat (map array_entries C) = map (Pair k) us @ concat (map array_entries D')"
      using Cons.prems(5) c d D kl by simp
    have none: "\<forall>e\<in>set (concat (map array_entries C)). fst e \<noteq> k" "\<forall>e\<in>set (concat (map array_entries D')). fst e \<noteq> k"
    proof -
      have "k \<notin> fst ` set C" "k \<notin> fst ` set D'" using Cons.prems(1,2) c d D kl by auto
      then show "\<forall>e\<in>set (concat (map array_entries C)). fst e \<noteq> k" "\<forall>e\<in>set (concat (map array_entries D')). fst e \<noteq> k"
        using keys by (metis imageI subsetD)+
    qed
    have tw: "takeWhile ?p (map (Pair k) ws @ z) = map (Pair k) ws" if "\<forall>e\<in>set z. fst e \<noteq> k" for ws z
      using that by (induction ws) (cases z, simp_all)
    have "map (Pair k) vs = map (Pair k) us" using tw [OF none(1), of vs] tw [OF none(2), of us] eq by simp
    then have "vs = us" by (simp add: inj_map_eq_map inj_on_def)
    then show ?thesis using Cons.IH [of D'] Cons.prems eq c d D kl by simp
  qed
qed

definition toml_scalars :: "(string \<times> json) list \<Rightarrow> (string \<times> json) list" where
  "toml_scalars ms = filter (\<lambda>m. \<not> (is_toml_table (snd m) \<or> is_toml_array_of_tables (snd m))) ms"

lemma table_is_object: "is_toml_table v \<Longrightarrow> is_object v"
  by (cases v) (auto simp: is_toml_table_def)

lemma entries_are_objects:
  "is_toml_array_of_tables (snd m) \<Longrightarrow> canonical_json (snd m) \<Longrightarrow> e \<in> set (array_entries m) \<Longrightarrow> is_object (snd e) \<and> canonical_json (snd e)"
  by (cases m rule: array_entries.cases) (auto simp: list_all_iff canonical_items_iff)

lemma write_toml_split:
  assumes lit: "json_literals x" and can: "canonical_members ms" "canonical_members ns"
    and dist: "distinct (map fst ms)" "distinct (map fst ns)"
    and eq: "write_toml x (JObject ms) = write_toml x (JObject ns)"
  shows "set ms = set ns"
proof -
  define T where "T zs = filter (\<lambda>m. is_toml_table (snd m)) zs" for zs :: "(string \<times> json) list"
  define C where "C zs = filter (\<lambda>m. is_toml_array_of_tables (snd m)) zs" for zs :: "(string \<times> json) list"
  let ?c = "\<lambda>zs. concat (map (array_piece x) (concat (map array_entries (C zs))))"
  let ?t = "\<lambda>zs. concat (map (table_piece x) (T zs)) @ ?c zs"
  have toml: "write_toml x (JObject zs) = Inr (concat (map (toml_line x) (toml_scalars zs)) @ ?t zs)" for zs
  proof -
    have "concat (map (\<lambda>m. concat (map (array_piece x) (array_entries m))) us) = concat (map (array_piece x) (concat (map array_entries us)))" for us
      by (induction us) simp_all
    moreover have "table_piece x = (\<lambda>m. [CHR 0x0A] @ ''['' @ json_string x (fst m) @ '']'' @ [CHR 0x0A] @ toml_lines x (snd m))"
      by (rule ext) (simp add: table_piece_def)
    ultimately show ?thesis by (simp add: toml_scalars_def T_def C_def toml_tables_eq)
  qed
  have canon: "\<forall>m\<in>set ms. canonical_json (snd m)" "\<forall>m\<in>set ns. canonical_json (snd m)"
    using can by (simp_all add: canonical_members_iff)
  have arr: "\<exists>z. array_piece x m @ r = CHR 0x0A # CHR ''['' # CHR ''['' # z" for m r by (simp add: array_piece_def)
  have tab: "\<exists>z. table_piece x m @ r = CHR 0x0A # CHR ''['' # CHR 0x22 # z" for m r
    using json_quote [OF lit, of "fst m"] by (auto simp: table_piece_def)
  have c_start: "?c zs = [] \<or> (\<exists>z. ?c zs = CHR 0x0A # CHR ''['' # CHR ''['' # z)" for zs
    using arr by (cases "concat (map array_entries (C zs))") auto
  have t_start: "?t zs = [] \<or> (\<exists>z. ?t zs = CHR 0x0A # z)" for zs
    using c_start [of zs] tab by (cases "T zs") auto
  have nq: "\<not> quoted_start (?c zs)" "\<not> quoted_start (?t zs)" for zs
  proof -
    have nqI: "y = [] \<or> (\<exists>z. y = CHR 0x0A # z) \<Longrightarrow> \<not> quoted_start y" for y by (auto simp: quoted_start_def)
    show "\<not> quoted_start (?c zs)" by (rule nqI) (use c_start [of zs] in blast)
    show "\<not> quoted_start (?t zs)" by (rule nqI [OF t_start])
  qed
  have lines: "toml_scalars ms = toml_scalars ns \<and> ?t ms = ?t ns"
  proof (rule pieces_split [where f = "toml_line x" and P = quoted_start and Q = "\<lambda>_. True"])
    show "a = b \<and> u = z" if "a \<in> set (toml_scalars ms)" "b \<in> set (toml_scalars ns)" "toml_line x a @ u = toml_line x b @ z" for a b u z
      using toml_line_split [OF lit _ _ that(3)] that canon by (simp add: toml_scalars_def)
  qed (use eq toml nq toml_line_start [OF lit] in simp_all)
  have nt: "\<not> (\<exists>z. ?c zs = CHR 0x0A # CHR ''['' # CHR 0x22 # z)" for zs
  proof -
    have "y = [] \<or> (\<exists>z. y = CHR 0x0A # CHR ''['' # CHR ''['' # z) \<Longrightarrow> \<not> (\<exists>z. y = CHR 0x0A # CHR ''['' # CHR 0x22 # z)" for y
      by auto
    then show ?thesis using c_start [of zs] by blast
  qed
  have tables: "T ms = T ns \<and> ?c ms = ?c ns"
  proof (rule pieces_split [where f = "table_piece x" and P = "\<lambda>r. \<exists>z. r = CHR 0x0A # CHR ''['' # CHR 0x22 # z"
        and Q = "\<lambda>r. \<not> quoted_start r"])
    show "a = b \<and> u = z" if "a \<in> set (T ms)" "b \<in> set (T ns)" "\<not> quoted_start u" "\<not> quoted_start z"
        "table_piece x a @ u = table_piece x b @ z" for a b u z
      using piece_split(1) [OF lit _ _ _ _ that(3,4,5)] that(1,2) canon table_is_object by (simp add: T_def)
  qed (use lines nq tab nt in \<open>auto simp: quoted_start_def\<close>)
  have "concat (map array_entries (C ms)) = concat (map array_entries (C ns)) \<and> ([] :: string) = []"
  proof (rule pieces_split [where f = "array_piece x" and P = "\<lambda>r. \<exists>z. r = CHR 0x0A # z" and Q = "\<lambda>r. \<not> quoted_start r"])
    show "a = b \<and> u = z" if ab: "a \<in> set (concat (map array_entries (C ms)))" "b \<in> set (concat (map array_entries (C ns)))"
        and nq: "\<not> quoted_start u" "\<not> quoted_start z" "array_piece x a @ u = array_piece x b @ z" for a b u z
    proof -
      obtain m n where "m \<in> set (C ms)" "a \<in> set (array_entries m)" "n \<in> set (C ns)" "b \<in> set (array_entries n)"
        using ab by auto
      moreover have "is_object (snd e) \<and> canonical_json (snd e)" if mz: "m \<in> set (C zs)" "e \<in> set (array_entries m)"
          and cz: "\<forall>m\<in>set zs. canonical_json (snd m)" for m e zs
      proof (rule entries_are_objects [OF _ _ mz(2)])
        show "is_toml_array_of_tables (snd m)" using mz(1) unfolding C_def by simp
        show "canonical_json (snd m)" using mz(1) cz unfolding C_def by simp
      qed
      ultimately have "is_object (snd a) \<and> canonical_json (snd a)" "is_object (snd b) \<and> canonical_json (snd b)"
        using canon by blast+
      then show ?thesis using piece_split(2) [OF lit _ _ _ _ nq] by blast
    qed
  qed (use tables in \<open>auto simp: quoted_start_def array_piece_def\<close>)
  then have entries: "concat (map array_entries (C ms)) = concat (map array_entries (C ns))" ..
  have arrays: "distinct (map fst zs) \<Longrightarrow> distinct (map fst (C zs))" "\<forall>m\<in>set (C zs). is_toml_array_of_tables (snd m)" for zs
    unfolding C_def by (simp_all add: distinct_map_filter)
  have "C ms = C ns"
    by (rule entries_determine [OF arrays(1) [OF dist(1)] arrays(1) [OF dist(2)] arrays(2) arrays(2) entries])
  moreover have "set zs = set (toml_scalars zs) \<union> set (T zs) \<union> set (C zs)" for zs
    unfolding toml_scalars_def T_def C_def set_filter by blast
  ultimately show ?thesis using lines tables by metis
qed

text \<open>C34. The authoritative text projections are lossless: two canonical values (no null, proper numbers) with
  the same YAML are the same value, and two canonical objects with the same TOML have the same
  members; TOML only moves tables behind scalars. Of the JSON string literals both are built from,
  the only facts needed are that a literal is quoted, self-delimiting and on one line.\<close>

theorem authoritative_projections_are_lossless:
  assumes "json_literals x"
  shows "(\<forall>v w. canonical_json v \<longrightarrow> canonical_json w \<longrightarrow> write_yaml x v 0 = write_yaml x w 0 \<longrightarrow> v = w)
    \<and> (\<forall>ms ns. canonical_members ms \<longrightarrow> canonical_members ns \<longrightarrow> distinct (map fst ms) \<longrightarrow> distinct (map fst ns) \<longrightarrow>
         write_toml x (JObject ms) = write_toml x (JObject ns) \<longrightarrow> set ms = set ns)"
proof (intro conjI allI impI)
  fix v w
  assume "canonical_json v" "canonical_json w" "write_yaml x v 0 = write_yaml x w 0"
  then show "v = w"
    using yaml_split [OF assms, of v w 0 "[]" "[]"] by (simp add: dedented_def)
next
  fix ms ns
  assume "canonical_members ms" "canonical_members ns" "distinct (map fst ms)" "distinct (map fst ns)"
    "write_toml x (JObject ms) = write_toml x (JObject ns)"
  then show "set ms = set ns" by (rule write_toml_split [OF assms])
qed

lemma toy_literals: "json_literals toy_graph_ext"
proof -
  let ?hex = "\<lambda>c. [char_of (97 + byte_of c div 16), char_of (97 + byte_of c mod 16)] :: string"
  have digits: "byte_of (char_of (97 + k) :: char) = 97 + k" if "k < 16" for k using that by (simp add: byte_of_def)
  have parts: "byte_of c div 16 < 16" "byte_of c mod 16 < 16" for c
  proof -
    have "byte_of c < 256" using of_char_mod_256 [of c, where 'a = nat] by (simp add: byte_of_def mod_eq_self_iff_div_eq_0 div_eq_0_iff)
    then show "byte_of c div 16 < 16" "byte_of c mod 16 < 16" by (simp_all add: less_mult_imp_div_less)
  qed
  have nibbles: "byte_of (char_of (97 + byte_of c div 16) :: char) = 97 + byte_of c div 16"
    "byte_of (char_of (97 + byte_of c mod 16) :: char) = 97 + byte_of c mod 16" for c
    using digits parts by blast+
  have inj: "?hex c @ r = ?hex d @ s \<longleftrightarrow> c = d \<and> r = s" for c d r s
  proof
    assume "?hex c @ r = ?hex d @ s"
    then have "byte_of c div 16 = byte_of d div 16" "byte_of c mod 16 = byte_of d mod 16" "r = s"
      using nibbles [of c] nibbles [of d] by (metis add_left_cancel append_Cons append_Nil list.inject)+
    then have "byte_of c = byte_of d" by (metis div_mult_mod_eq)
    then show "c = d \<and> r = s" using \<open>r = s\<close> by (simp add: byte_of_def)
  qed simp
  have low: "97 \<le> byte_of z" if "z \<in> set (?hex c)" for z c using that nibbles [of c] by auto
  have split: "s = t \<and> r = u" if eq: "toy_literal s @ r = toy_literal t @ u" for s t r u
  proof -
    have "s = t \<and> CHR 0x22 # r = CHR 0x22 # u"
    proof (rule pieces_split [where f = ?hex and P = "\<lambda>y. \<exists>z y'. y = z # y' \<and> 97 \<le> byte_of z" and Q = "\<lambda>_. True"])
      show "a = b \<and> y = z" if "?hex a @ y = ?hex b @ z" for a b y z using that inj by blast
      show "\<exists>z y'. ?hex a @ y = z # y' \<and> 97 \<le> byte_of z" for a y using low [of _ a] by auto
    qed (use eq in \<open>simp_all add: toy_literal_def byte_of_def\<close>)
    then show ?thesis by simp
  qed
  have line: "\<exists>q. toy_literal s = CHR 0x22 # q \<and> CHR 0x0A \<notin> set q" for s
  proof -
    have "byte_of z \<ge> 97" if "z \<in> set (concat (map ?hex s))" for z using that low by auto
    moreover have "\<not> 97 \<le> byte_of (CHR 0x0A)" by (simp add: byte_of_def)
    ultimately have "CHR 0x0A \<notin> set (concat (map ?hex s))" by blast
    then show ?thesis by (simp add: toy_literal_def)
  qed
  show ?thesis unfolding json_literals_def toy_graph_simps using split line by blast
qed

theorem authoritative_projections_are_lossless_witness:
  "write_yaml toy_graph_ext (JObject [(''a'', JArray [JBool True])]) 0 \<noteq> write_yaml toy_graph_ext (JObject [(''a'', JArray [JString ''true''])]) 0"
proof
  assume eq: "write_yaml toy_graph_ext (JObject [(''a'', JArray [JBool True])]) 0
    = write_yaml toy_graph_ext (JObject [(''a'', JArray [JString ''true''])]) 0"
  have "canonical_json (JObject [(''a'', JArray [JBool True])])" "canonical_json (JObject [(''a'', JArray [JString ''true''])])"
    by simp_all
  then have "JObject [(''a'', JArray [JBool True])] = JObject [(''a'', JArray [JString ''true''])]"
    using conjunct1 [OF authoritative_projections_are_lossless [OF toy_literals], rule_format] eq by blast
  then show False by simp
qed

end
