(* ===== verification/Graph.thy ===== *)
theory Graph
  imports Signing Plane GraphText Negotiation
begin

section \<open>Dependency graphs (\<^verbatim>\<open>src/routes/graph.rs\<close>)\<close>

text \<open>
  The declared graph of a package version is read from the canonical row, after the reader is
  authorised against the visibility of that row; every refusal is the one 404. The document is built
  from the stored manifest, encoded within the limits, and answered with a validator over the bytes.
\<close>

record graph_state =
  gs_registry_read :: "registry_read option"
  gs_auth_client :: "auth_client option"
  gs_audience :: string
  gs_application :: string
  gs_registry_id :: string

definition GRAPH_IMMUTABLE :: string where
  "GRAPH_IMMUTABLE = ''public, max-age=31536000, immutable''"

definition PRIVATE_NO_STORE :: string where
  "PRIVATE_NO_STORE = ''private, no-store''"

datatype declared_graph_access = Public | Private

fun cache_control :: "declared_graph_access \<Rightarrow> string" where
  "cache_control Public = GRAPH_IMMUTABLE"
| "cache_control Private = PRIVATE_NO_STORE"

fun vary :: "declared_graph_access \<Rightarrow> string" where
  "vary Public = ''Accept''"
| "vary Private = ''Accept, Authorization''"

definition graph_not_found :: api_err where
  "graph_not_found = api_err 404 ''not_found'' ''dependency graph not found''"

subsection \<open>Authorisation\<close>

definition requires_graph_authorization :: "string \<Rightarrow> bool api_result" where
  "requires_graph_authorization visibility =
     (if visibility = ''public'' then Inr False
      else if visibility = ''internal'' \<or> visibility = ''private'' then Inr True
      else Inl graph_not_found)"

text \<open>The second half of the handler: a browser account that is a member.\<close>

definition authorize_graph_account ::
  "('x ext_scheme) \<Rightarrow> graph_state \<Rightarrow> registry_read \<Rightarrow> headers \<Rightarrow> canonical_package \<Rightarrow> uuid \<Rightarrow> declared_graph_access handler" where
  "authorize_graph_account x st read headers package canonical_org =
     bind_a (lift (map_error (\<lambda>_. graph_not_found)
       (require_account x (gs_auth_client st) (gs_audience st) (gs_application st) headers))) (\<lambda>account.
     bind_a (map_err (\<lambda>_. graph_not_found) (plane_read (\<lambda>t.
       user_by_subject read t (si_realm (session account)) (si_subject (session account))))) (\<lambda>found.
     bind_a (lift (ok_or graph_not_found found)) (\<lambda>user.
     bind_a (map_err (\<lambda>_. graph_not_found) (plane_read (\<lambda>t. org_role_for_user read t canonical_org user))) (\<lambda>org_role.
       if org_role \<noteq> None then ret Private
       else case cp_project_id package of
              None \<Rightarrow> throw graph_not_found
            | Some project \<Rightarrow>
                bind_a (map_err (\<lambda>_. graph_not_found) (plane_read (\<lambda>t. project_role_for_user read t project user))) (\<lambda>project_role.
                  if project_role \<noteq> None then ret Private else throw graph_not_found)))))"

definition authorize_declared_graph ::
  "('x ext_scheme) \<Rightarrow> graph_state \<Rightarrow> headers \<Rightarrow> string \<Rightarrow> canonical_package \<Rightarrow> uuid \<Rightarrow> declared_graph_access handler" where
  "authorize_declared_graph x st headers org_slug package canonical_org =
     bind_a (lift (ok_or registry_read_unavailable (gs_registry_read st))) (\<lambda>read.
     bind_a (lift (requires_graph_authorization (cp_visibility package))) (\<lambda>protected.
       if \<not> protected then ret Public
       else if bearer_token headers = None then throw graph_not_found
       else
         bind_a (attempt (require_token x headers)) (\<lambda>authenticated.
           case authenticated of
             Inr token \<Rightarrow>
               bind_a (map_err (\<lambda>_. graph_not_found) (find_org org_slug)) (\<lambda>legacy_org.
                 if t_org_id token = Some (o_id legacy_org) then ret Private else throw graph_not_found)
           | Inl _ \<Rightarrow> authorize_graph_account x st read headers package canonical_org)))"

subsection \<open>The declared document\<close>

definition checked_declared_dependency_count :: "('x graph_ext_scheme) \<Rightarrow> nat \<Rightarrow> nat \<Rightarrow> nat api_result" where
  "checked_declared_dependency_count x runtime build =
     bind_r (ok_or graph_limit_exceeded (checked_add runtime build)) (\<lambda>n.
     bind_r (ok_or graph_limit_exceeded (checked_add n 1)) (\<lambda>nodes.
     bind_r (ensure_graph_counts x nodes n) (\<lambda>_. Inr n)))"

definition declared_edge :: "string \<Rightarrow> (string \<times> string) \<times> dependency_kind \<Rightarrow> declared_dependency api_result" where
  "declared_edge registry d =
     bind_r (ok_or from_anyhow (split_once (CHR ''/'') (fst (fst d)))) (\<lambda>(dep_org, dep_name).
       Inr \<lparr>dd_registry = registry, dd_org = dep_org, dd_name = dep_name, dd_requirement = snd (fst d), dd_kind = snd d,
            dd_optional = False, dd_default_features = True, dd_features = [], dd_target = None\<rparr>)"

fun declared_edges :: "string \<Rightarrow> ((string \<times> string) \<times> dependency_kind) list \<Rightarrow> declared_dependency list api_result" where
  "declared_edges registry [] = Inr []"
| "declared_edges registry (d # ds) =
     bind_r (declared_edge registry d) (\<lambda>e. bind_r (declared_edges registry ds) (\<lambda>es. Inr (e # es)))"

definition declared_document :: "('x graph_ext_scheme) \<Rightarrow> string \<Rightarrow> string \<Rightarrow> graph_manifest \<Rightarrow> graph_document api_result" where
  "declared_document x registry version manifest =
     bind_r (guard_r (gm_version manifest = version) from_anyhow) (\<lambda>_.
     bind_r (map_error (\<lambda>_. from_anyhow) (validate_version x (gm_scheme manifest) version)) (\<lambda>_.
     bind_r (checked_declared_dependency_count x (length (gm_dependencies manifest)) (length (gm_build_dependencies manifest))) (\<lambda>_.
     bind_r (declared_edges registry (map (\<lambda>kv. (kv, Runtime)) (gm_dependencies manifest)
               @ map (\<lambda>kv. (kv, Build)) (gm_build_dependencies manifest))) (\<lambda>dependencies.
       map_error (\<lambda>_. from_anyhow) (finalize x
         \<lparr>gd_schema = GRAPH_SCHEMA_V1 x,
          gd_graph = Declared \<lparr>pi_registry = registry, pi_org = gm_org manifest, pi_name = gm_name manifest, pi_version = version\<rparr>
            dependencies,
          gd_digest = None\<rparr>)))))"

definition load_authorized_declared_document ::
  "('x graph_ext_scheme) \<Rightarrow> graph_state \<Rightarrow> headers \<Rightarrow> string \<Rightarrow> string \<Rightarrow> string
   \<Rightarrow> (graph_document \<times> declared_graph_access) handler" where
  "load_authorized_declared_document x st headers org_slug name ver =
     bind_a (lift (ok_or registry_read_unavailable (gs_registry_read st))) (\<lambda>read.
     bind_a (map_err (\<lambda>_. from_anyhow) (plane_read (\<lambda>t. package_by_org_and_name read t org_slug name))) (\<lambda>found.
     bind_a (lift (ok_or graph_not_found found)) (\<lambda>(package, canonical_org).
     bind_a (authorize_declared_graph x st headers org_slug package canonical_org) (\<lambda>access.
     bind_a (map_err (\<lambda>_. from_anyhow) (plane_read (\<lambda>t. package_version_by read t (cp_id package) ver))) (\<lambda>row.
     bind_a (lift (ok_or graph_not_found row)) (\<lambda>stored.
     bind_a (lift (map_error (\<lambda>_. from_anyhow) (manifest_from_json x stored))) (\<lambda>manifest.
     bind_a (lift (guard_r (\<not> (gm_org manifest \<noteq> org_slug \<or> gm_name manifest \<noteq> name \<or> gm_version manifest \<noteq> ver)) from_anyhow)) (\<lambda>_.
     bind_a (lift (declared_document x (gs_registry_id st) ver manifest)) (\<lambda>document.
       ret (document, access))))))))))"

subsection \<open>Responses\<close>

definition encode_graph :: "('x graph_ext_scheme) \<Rightarrow> graph_document \<Rightarrow> graph_format \<Rightarrow> string api_result" where
  "encode_graph x document format =
     bind_r (ensure_graph_bounds x document) (\<lambda>_.
     bind_r (map_error (\<lambda>_. from_anyhow) (canonical_document_bytes x document)) (\<lambda>canonical.
     bind_r (ensure_encoded_size x (length canonical)) (\<lambda>_.
     bind_r (case format of
               Json \<Rightarrow> Inr canonical
             | Yaml \<Rightarrow> bind_r (map_error (\<lambda>_. from_anyhow) (json_parse x canonical)) (\<lambda>v. Inr (write_yaml x v 0))
             | Toml \<Rightarrow> bind_r (map_error (\<lambda>_. from_anyhow) (json_parse x canonical)) (write_toml x)
             | Dot \<Rightarrow> render_dot x document
             | Mermaid \<Rightarrow> render_mermaid x document) (\<lambda>encoded.
     bind_r (ensure_encoded_size x (length encoded)) (\<lambda>_. Inr encoded)))))"

definition if_none_match_matches :: "headers \<Rightarrow> string \<Rightarrow> bool" where
  "if_none_match_matches headers etag \<longleftrightarrow>
     list_ex (\<lambda>candidate. candidate = ''*''
         \<or> (case strip_prefix candidate ''W/'' of None \<Rightarrow> candidate | Some tag \<Rightarrow> tag) = etag)
       (map trim (concat (map (split_on (CHR '','')) (List.map_filter header_to_str (get_all headers ''if-none-match'')))))"

definition not_modified_response :: "(string \<times> string) list \<Rightarrow> reply" where
  "not_modified_response headers = \<lparr>re_status = 304, re_headers = headers, re_body = []\<rparr>"

definition filename_char :: "char \<Rightarrow> bool" where
  "filename_char c \<longleftrightarrow> is_ascii_alphanumeric c \<or> c \<in> {CHR ''.'', CHR ''-'', CHR ''+''}"

definition filename_part :: "string \<Rightarrow> string" where
  "filename_part part = concat (map (\<lambda>character.
     case character of [c] \<Rightarrow> if filename_char c then [c] else ''_'' | _ \<Rightarrow> ''_'') (chars part))"

definition filename_stem :: "string \<Rightarrow> string \<Rightarrow> string \<Rightarrow> string" where
  "filename_stem org name version = filename_part org @ ''_'' @ filename_part name @ ''_'' @ filename_part version"

definition header_value :: "('x graph_ext_scheme) \<Rightarrow> string \<Rightarrow> string api_result" where
  "header_value x v = (if header_valid x v then Inr v else Inl from_anyhow)"

fun header_values :: "('x graph_ext_scheme) \<Rightarrow> (string \<times> string) list \<Rightarrow> (string \<times> string) list api_result" where
  "header_values x [] = Inr []"
| "header_values x ((name, v) # hs) =
     bind_r (header_value x v) (\<lambda>v'. bind_r (header_values x hs) (\<lambda>hs'. Inr ((name, v') # hs')))"

definition etag_of :: "('x graph_ext_scheme) \<Rightarrow> string \<Rightarrow> string" where
  "etag_of x body = [CHR 0x22] @ sha256_hex x body @ [CHR 0x22]"

definition attachment :: "string \<Rightarrow> string \<Rightarrow> string" where
  "attachment stem extension = ''attachment; filename='' @ [CHR 0x22] @ stem @ ''.dependency-graph.'' @ extension @ [CHR 0x22]"

definition respond ::
  "('x graph_ext_scheme) \<Rightarrow> headers \<Rightarrow> graph_format \<Rightarrow> graph_document \<Rightarrow> string \<Rightarrow> declared_graph_access \<Rightarrow> reply api_result" where
  "respond x headers format document stem access =
     bind_r (encode_graph x document format) (\<lambda>body.
     bind_r (ensure_encoded_size x (length body)) (\<lambda>_.
     let etag = etag_of x body in
     bind_r (ok_or from_anyhow (gd_digest document)) (\<lambda>graph_digest.
     bind_r (header_values x
       [(''etag'', etag), (''cache-control'', cache_control access), (''vary'', vary access),
        (''content-disposition'', attachment stem (graph_extension x format)),
        (''content-length'', show_nat (length body)), (DIGEST_HEADER x, graph_digest)]) (\<lambda>checked.
     let response_headers = checked @ [(AUTHORITATIVE_HEADER x, if graph_authoritative x format then ''true'' else ''false'')] in
     if if_none_match_matches headers etag then Inr (not_modified_response response_headers)
     else bind_r (header_value x (graph_media_type x format)) (\<lambda>media.
       Inr \<lparr>re_status = 200, re_headers = response_headers @ [(''content-type'', media)], re_body = body\<rparr>)))))"

subsection \<open>Handlers\<close>

definition get_declared_graph ::
  "('x graph_ext_scheme) \<Rightarrow> graph_state \<Rightarrow> string \<Rightarrow> string \<Rightarrow> string \<Rightarrow> string option \<Rightarrow> string option \<Rightarrow> headers \<Rightarrow> reply handler" where
  "get_declared_graph x st org_slug name ver view_query format_query headers =
     (if view_query \<noteq> Some ''declared''
      then throw (bad_request ''unsupported_view'' (''package-version dependency graphs are declared-view only; ''
             @ ''exact resolved graphs are addressed by resolution digest''))
      else
        bind_a (lift (resolve_format x headers format_query)) (\<lambda>format.
        bind_a (load_authorized_declared_document x st headers org_slug name ver) (\<lambda>(document, access).
          lift (respond x headers format document (filename_stem org_slug name ver) access))))"

definition get_resolution_graph :: "('x graph_ext_scheme) \<Rightarrow> string option \<Rightarrow> headers \<Rightarrow> reply handler" where
  "get_resolution_graph x format_query headers =
     bind_a (lift (resolve_format x headers format_query)) (\<lambda>_. throw graph_not_found)"

end
