(* ===== verification/GraphExports.thy ===== *)
theory GraphExports
  imports Graph Csv Xml MessagePack Protobuf
begin

section \<open>The export routes (\<^verbatim>\<open>src/routes/graph_exports/mod.rs\<close>)\<close>

text \<open>
  One finalised document in five further representations: JSON5 as comments before the canonical
  JSON, and the XML, CSV, MessagePack and Protocol Buffers projections. The file repeats the response
  helpers of the canonical route.
\<close>

definition json5_prefix :: "string \<Rightarrow> string" where
  "json5_prefix digest =
     ''// zpkg/dependency-graph/v1 '' @ [CHR 0xE2, CHR 0x80, CHR 0x94] @ '' lossless JSON5 projection'' @ [CHR 0x0A]
     @ ''// graph_digest: '' @ digest @ [CHR 0x0A]
     @ ''// Comments may be removed; the remaining value is canonical JSON.'' @ [CHR 0x0A]"

definition encode_json5 :: "('x graph_ext_scheme) \<Rightarrow> graph_document \<Rightarrow> string \<Rightarrow> string api_result" where
  "encode_json5 x document canonical =
     (let digest = (case gd_digest document of None \<Rightarrow> ''missing'' | Some d \<Rightarrow> d); prefix = json5_prefix digest
      in bind_r (ok_or representation_too_large
           (Option.bind (checked_add (length prefix) (length canonical)) (\<lambda>n. checked_add n 1))) (\<lambda>encoded_len.
         bind_r (ensure_encoded_size x encoded_len) (\<lambda>_.
           Inr (prefix @ canonical @ [CHR 0x0A]))))"

definition encode_export :: "('x graph_ext_scheme) \<Rightarrow> graph_document \<Rightarrow> export_format \<Rightarrow> string api_result" where
  "encode_export x document format =
     bind_r (ensure_graph_bounds x document) (\<lambda>_.
     bind_r (map_error (\<lambda>_. from_anyhow) (verify_digest x document)) (\<lambda>_.
     bind_r (map_error (\<lambda>_. from_anyhow) (canonical_document_bytes x document)) (\<lambda>canonical.
     bind_r (ensure_encoded_size x (length canonical)) (\<lambda>_.
     bind_r (case format of
               Json5 \<Rightarrow> encode_json5 x document canonical
             | XmlDoc \<Rightarrow> encode_xml x document
             | CsvTable \<Rightarrow> encode_csv x document
             | MsgPack \<Rightarrow> encode_messagepack (json_parse x) canonical
             | ProtobufMessage \<Rightarrow> Inr (encode_protobuf document)) (\<lambda>encoded.
     bind_r (ensure_encoded_size x (length encoded)) (\<lambda>_. Inr encoded))))))"

definition export_if_none_match :: "headers \<Rightarrow> string \<Rightarrow> bool" where
  "export_if_none_match headers etag \<longleftrightarrow>
     list_ex (\<lambda>candidate. candidate = ''*''
         \<or> (case strip_prefix candidate ''W/'' of None \<Rightarrow> candidate | Some tag \<Rightarrow> tag) = etag)
       (map trim (concat (map (split_on (CHR '','')) (List.map_filter header_to_str (get_all headers ''if-none-match'')))))"

definition export_filename_stem :: "string \<Rightarrow> string \<Rightarrow> string \<Rightarrow> string" where
  "export_filename_stem org name version = filename_part org @ ''_'' @ filename_part name @ ''_'' @ filename_part version"

definition respond_export ::
  "('x graph_ext_scheme) \<Rightarrow> headers \<Rightarrow> export_format \<Rightarrow> graph_document \<Rightarrow> string \<Rightarrow> declared_graph_access \<Rightarrow> reply api_result" where
  "respond_export x headers format document stem access =
     bind_r (encode_export x document format) (\<lambda>body.
     bind_r (ensure_encoded_size x (length body)) (\<lambda>_.
     let etag = etag_of x body in
     bind_r (ok_or from_anyhow (gd_digest document)) (\<lambda>graph_digest.
     bind_r (header_values x
       [(''etag'', etag), (''cache-control'', cache_control access), (''vary'', vary access),
        (''content-disposition'', attachment stem (export_extension x format)),
        (''content-length'', show_nat (length body)), (DIGEST_HEADER x, graph_digest)]) (\<lambda>checked.
     let response_headers = checked @ [(AUTHORITATIVE_HEADER x, if export_authoritative x format then ''true'' else ''false'')] in
     if export_if_none_match headers etag then Inr (not_modified_response response_headers)
     else bind_r (header_value x (export_media_type x format)) (\<lambda>media.
       Inr \<lparr>re_status = 200, re_headers = response_headers @ [(''content-type'', media)], re_body = body\<rparr>)))))"

definition unsupported_export :: "string \<Rightarrow> api_err" where
  "unsupported_export name =
     api_err 406 ''unsupported_format'' (''unsupported dependency graph export format `'' @ name @ ''`'')"

definition get_declared_graph_export ::
  "('x graph_ext_scheme) \<Rightarrow> graph_state \<Rightarrow> string \<Rightarrow> string \<Rightarrow> string \<Rightarrow> string \<Rightarrow> headers \<Rightarrow> reply handler" where
  "get_declared_graph_export x st org_slug name ver format_name headers =
     bind_a (lift (ok_or (unsupported_export format_name) (export_parse_name x format_name))) (\<lambda>format.
     bind_a (lift (ensure_acceptable x headers format)) (\<lambda>_.
     bind_a (load_authorized_declared_document x st headers org_slug name ver) (\<lambda>(document, access).
       lift (respond_export x headers format document (export_filename_stem org_slug name ver) access))))"

end
