(* ===== verification/GraphLaws.thy ===== *)
theory GraphLaws
  imports GraphExports
begin

section \<open>What the graph routes promise\<close>

text \<open>
  Properties of the graph handlers of \<open>src/routes/graph.rs\<close>, modelled in the theories imported here: who
  is served a protected graph, what a refused caller can learn, the shape and the caching of a reply, and
  the relation between the served graph and the manifest of the version.
\<close>

subsection \<open>Who reads a protected graph\<close>

text \<open>
  The credential a protected graph needs, on the very run of the request from a world: when the token
  of the request authenticates, it is scoped to the organisation that has the slug of the URL in the
  organisation table as read then; when no token authenticates, the request carries a delegated
  account, whose user the next plane read finds and one of the following two plane reads gives a role in
  the canonical organisation or in the owning project.
\<close>

definition graph_account_credential ::
  "('x ext_scheme) \<Rightarrow> graph_state \<Rightarrow> registry_read \<Rightarrow> headers \<Rightarrow> canonical_package \<Rightarrow> uuid \<Rightarrow> nat \<Rightarrow> bool" where
  "graph_account_credential x st read headers package canonical_org t \<longleftrightarrow>
     (\<exists>account user. require_account x (gs_auth_client st) (gs_audience st) (gs_application st) headers = Inr account
        \<and> user_by_subject read t (si_realm (session account)) (si_subject (session account)) = Inr (Some user)
        \<and> ((\<exists>role. org_role_for_user read (t + 1) canonical_org user = Inr (Some role))
           \<or> (\<exists>project role. cp_project_id package = Some project
                \<and> project_role_for_user read (t + 2) project user = Inr (Some role))))"

definition graph_credential ::
  "('x ext_scheme) \<Rightarrow> graph_state \<Rightarrow> registry_read \<Rightarrow> headers \<Rightarrow> string \<Rightarrow> canonical_package \<Rightarrow> uuid \<Rightarrow> env \<Rightarrow> world \<Rightarrow> bool" where
  "graph_credential x st read headers org_slug package canonical_org e w \<longleftrightarrow>
     (case require_token x headers e w of
        (Inr token, _) \<Rightarrow> (\<exists>legacy :: org_row. legacy \<in> set (orgs (read_after (require_token x headers) e w))
          \<and> o_slug legacy = org_slug \<and> t_org_id token = Some (o_id legacy))
      | (Inl _, w1) \<Rightarrow> graph_account_credential x st read headers package canonical_org (tick w1))"

lemma authorize_graph_account_Inr:
  assumes "authorize_graph_account x st read headers package canonical_org e w = (Inr access, w')"
  shows "access = Private \<and> graph_account_credential x st read headers package canonical_org (tick w)"
  using assms
  unfolding authorize_graph_account_def graph_account_credential_def bind_a_Inr_iff map_err_Inr_iff plane_read_iff lift_def ret_def throw_def
  by (clarsimp simp: bind_a_Inr_iff plane_read_iff split: if_split_asm option.splits)
     (auto simp: bind_a_Inr_iff plane_read_iff split: if_split_asm)

lemma authorize_graph_account_Inl:
  assumes "authorize_graph_account x st read headers package canonical_org e w = (Inl err, w')"
  shows "err = graph_not_found"
  using assms
  by (auto simp: authorize_graph_account_def bind_a_def map_err_def plane_read_def lift_def ret_def throw_def ok_or_def
      map_error_def split: if_splits option.splits sum.splits prod.splits)

lemma authorize_declared_graph_Inr:
  assumes "authorize_declared_graph x st headers org_slug package canonical_org e w = (Inr access, w')"
    and "gs_registry_read st = Some read" and "cp_visibility package \<noteq> ''public''"
  shows "access = Private \<and> graph_credential x st read headers org_slug package canonical_org e w"
proof -
  obtain r w1 where tok: "require_token x headers e w = (r, w1)" by fastforce
  show ?thesis
  proof (cases r)
    case (Inr token)
    then obtain legacy w2 where "find_org org_slug e w1 = (Inr legacy, w2)" "t_org_id token = Some (o_id legacy)" "access = Private"
      using assms tok
      by (auto simp: authorize_declared_graph_def requires_graph_authorization_def bind_a_Inr_iff attempt_iff lift_def
          ret_def throw_def split: if_splits)
    then show ?thesis using located(1) [of x headers e w token w1] tok Inr by (auto simp: graph_credential_def)
  next
    case (Inl err)
    then have "authorize_graph_account x st read headers package canonical_org e w1 = (Inr access, w')"
      using assms tok
      by (auto simp: authorize_declared_graph_def requires_graph_authorization_def bind_a_Inr_iff attempt_iff lift_def
          throw_def split: if_splits)
    from authorize_graph_account_Inr [OF this] show ?thesis using tok Inl by (simp add: graph_credential_def)
  qed
qed

lemma authorize_declared_graph_Inl:
  assumes "authorize_declared_graph x st headers org_slug package canonical_org e w = (Inl err, w')"
    and "gs_registry_read st = Some read"
  shows "err = graph_not_found"
proof -
  obtain r w1 where tok: "require_token x headers e w = (r, w1)" by fastforce
  obtain q w2 where org: "find_org org_slug e w1 = (q, w2)" by fastforce
  show ?thesis
    using assms tok org
    by (cases r; cases q)
       (auto simp: authorize_declared_graph_def requires_graph_authorization_def bind_a_def attempt_def map_err_def lift_def
        ret_def throw_def dest: authorize_graph_account_Inl split: if_splits)
qed

subsection \<open>What a reply carries\<close>

lemma header_values_Inr:
  "header_values x hs = Inr hs' \<longleftrightarrow> hs' = hs \<and> (\<forall>h\<in>set hs. header_valid x (snd h))"
  by (induction x hs arbitrary: hs' rule: header_values.induct) (auto simp: header_value_def bind_r_Inr_iff)

text \<open>The headers of a reply, in the order they are inserted; the checked ones come first.\<close>

definition checked_headers ::
  "('x graph_ext_scheme) \<Rightarrow> declared_graph_access \<Rightarrow> string \<Rightarrow> string \<Rightarrow> string \<Rightarrow> string \<Rightarrow> (string \<times> string) list" where
  "checked_headers x access stem extension digest body =
     [(''etag'', etag_of x body), (''cache-control'', cache_control access), (''vary'', vary access),
      (''content-disposition'', attachment stem extension), (''content-length'', show_nat (length body)),
      (DIGEST_HEADER x, digest)]"

definition graph_headers ::
  "('x graph_ext_scheme) \<Rightarrow> declared_graph_access \<Rightarrow> string \<Rightarrow> string \<Rightarrow> string \<Rightarrow> bool \<Rightarrow> string \<Rightarrow> (string \<times> string) list" where
  "graph_headers x access stem extension digest authoritative body =
     checked_headers x access stem extension digest body
       @ [(AUTHORITATIVE_HEADER x, if authoritative then ''true'' else ''false'')]"

definition graph_reply :: "(string \<times> string) list \<Rightarrow> string \<Rightarrow> string \<Rightarrow> bool \<Rightarrow> reply" where
  "graph_reply hs media body matched =
     (if matched then not_modified_response hs
      else \<lparr>re_status = 200, re_headers = hs @ [(''content-type'', media)], re_body = body\<rparr>)"

text \<open>Both routes finish the reply the same way once the body is encoded.\<close>

definition finish_reply ::
  "('x graph_ext_scheme) \<Rightarrow> declared_graph_access \<Rightarrow> string \<Rightarrow> string \<Rightarrow> bool \<Rightarrow> string \<Rightarrow> (string \<Rightarrow> bool)
   \<Rightarrow> graph_document \<Rightarrow> string \<Rightarrow> reply api_result" where
  "finish_reply x access stem extension authoritative media matches document body =
     bind_r (ensure_encoded_size x (length body)) (\<lambda>_.
     bind_r (ok_or from_anyhow (gd_digest document)) (\<lambda>digest.
     bind_r (header_values x (checked_headers x access stem extension digest body)) (\<lambda>checked.
     let hs = checked @ [(AUTHORITATIVE_HEADER x, if authoritative then ''true'' else ''false'')] in
     if matches (etag_of x body) then Inr (not_modified_response hs)
     else bind_r (header_value x media) (\<lambda>m.
       Inr \<lparr>re_status = 200, re_headers = hs @ [(''content-type'', m)], re_body = body\<rparr>))))"

lemma respond_finish:
  "respond x headers format document stem access = bind_r (encode_graph x document format)
     (finish_reply x access stem (graph_extension x format) (graph_authoritative x format) (graph_media_type x format)
       (if_none_match_matches headers) document)"
  by (simp only: respond_def finish_reply_def [abs_def] checked_headers_def Let_def)

lemma respond_export_finish:
  "respond_export x headers format document stem access = bind_r (encode_export x document format)
     (finish_reply x access stem (export_extension x format) (export_authoritative x format) (export_media_type x format)
       (export_if_none_match headers) document)"
  by (simp only: respond_export_def finish_reply_def [abs_def] checked_headers_def Let_def)

lemma finish_reply_Inr:
  "finish_reply x access stem extension authoritative media matches document body = Inr reply \<longleftrightarrow>
     length body \<le> MAX_ENCODED x \<and> (\<exists>digest. gd_digest document = Some digest
       \<and> (\<forall>h\<in>set (checked_headers x access stem extension digest body). header_valid x (snd h))
       \<and> (matches (etag_of x body) \<or> header_valid x media)
       \<and> reply = graph_reply (graph_headers x access stem extension digest authoritative body) media body (matches (etag_of x body)))"
proof (cases "matches (etag_of x body)")
  case True
  then show ?thesis
    by (auto simp: finish_reply_def Let_def bind_r_Inr_iff header_values_Inr graph_headers_def graph_reply_def
        ensure_encoded_size_def not_less)
next
  case False
  then show ?thesis
    by (simp add: finish_reply_def Let_def bind_r_Inr_iff header_values_Inr graph_headers_def graph_reply_def
        ensure_encoded_size_def header_value_def not_less) blast
qed

subsection \<open>The two routes\<close>

text \<open>A graph request: the canonical route with its query, or an export with the format of its path.\<close>

datatype graph_route =
    CanonicalRoute string string string "string option" "string option"
  | ExportRoute string string string string

fun route_graph :: "('x graph_ext_scheme) \<Rightarrow> graph_state \<Rightarrow> graph_route \<Rightarrow> headers \<Rightarrow> reply handler" where
  "route_graph x st (CanonicalRoute org name ver v f) headers = get_declared_graph x st org name ver v f headers"
| "route_graph x st (ExportRoute org name ver f) headers = get_declared_graph_export x st org name ver f headers"

fun route_org :: "graph_route \<Rightarrow> string" where
  "route_org (CanonicalRoute org name ver v f) = org"
| "route_org (ExportRoute org name ver f) = org"

fun route_name :: "graph_route \<Rightarrow> string" where
  "route_name (CanonicalRoute org name ver v f) = name"
| "route_name (ExportRoute org name ver f) = name"

fun route_version :: "graph_route \<Rightarrow> string" where
  "route_version (CanonicalRoute org name ver v f) = ver"
| "route_version (ExportRoute org name ver f) = ver"

text \<open>A reply is a finished body of the document the loader authorised.\<close>

lemma route_graph_Inr:
  assumes "route_graph x st route headers e w = (Inr reply, w')"
  obtains document access stem extension authoritative media matches body where
    "load_authorized_declared_document x st headers (route_org route) (route_name route) (route_version route) e w
       = (Inr (document, access), w')"
    "finish_reply x access stem extension authoritative media matches document body = Inr reply"
  using assms
  by (cases route)
     (auto simp: get_declared_graph_def get_declared_graph_export_def bind_a_Inr_iff lift_def throw_def respond_finish
       respond_export_finish bind_r_Inr_iff split: if_split_asm)

lemma load_authorized_Inr:
  assumes "load_authorized_declared_document x st headers org_slug name ver e w = (Inr (document, access), w')"
    and "gs_registry_read st = Some read"
    and "package_by_org_and_name read (tick w) org_slug name = Inr (Some (package, canonical_org))"
  obtains w1 where "authorize_declared_graph x st headers org_slug package canonical_org e (w\<lparr>tick := Suc (tick w)\<rparr>) = (Inr access, w1)"
  using assms
  by (auto simp: load_authorized_declared_document_def bind_a_Inr_iff lift_def plane_read_iff ret_def)

text \<open>C21. A protected package's graph is for its members. When the canonical package a graph request
  names is not public, a reply on either route means that the token of this very request authenticated
  and is scoped to the organisation with the slug of the URL in the table as read, or that no token
  authenticated and the account of the request is, by the plane reads of this request, a member of the
  package's organisation or of its project; and the reply tells every cache not to store it and to
  vary on the credential.
\<close>

theorem private_graphs_are_for_members:
  assumes "gs_registry_read st = Some read"
    and "package_by_org_and_name read (tick w) (route_org route) (route_name route) = Inr (Some (package, canonical_org))"
    and "cp_visibility package \<noteq> ''public''"
    and "route_graph x st route headers e w = (Inr reply, w')"
  shows "graph_credential x st read headers (route_org route) package canonical_org e (w\<lparr>tick := Suc (tick w)\<rparr>)
    \<and> map_of (re_headers reply) ''cache-control'' = Some PRIVATE_NO_STORE
    \<and> map_of (re_headers reply) ''vary'' = Some ''Accept, Authorization''"
proof -
  obtain document access stem extension authoritative media matches body where
    run: "load_authorized_declared_document x st headers (route_org route) (route_name route) (route_version route) e w
       = (Inr (document, access), w')"
    "finish_reply x access stem extension authoritative media matches document body = Inr reply"
    using route_graph_Inr [OF assms(4)] .
  obtain w1 where auth: "authorize_declared_graph x st headers (route_org route) package canonical_org e (w\<lparr>tick := Suc (tick w)\<rparr>) = (Inr access, w1)"
    using load_authorized_Inr [OF run(1) assms(1,2)] .
  note access = authorize_declared_graph_Inr [OF auth assms(1,3)]
  show ?thesis
    using run(2) access
    by (auto simp: finish_reply_Inr graph_reply_def graph_headers_def checked_headers_def not_modified_response_def)
qed

text \<open>C22. A refusal says nothing about the package. With the canonical plane configured, every refusal
  of the authorisation step, for whatever reason (no credential, an unknown or revoked token, another
  organisation's token, an account that is no member, a failing lookup, an unknown visibility), is the
  error an unknown package gets.
\<close>

theorem graph_refusals_are_indistinguishable:
  assumes "gs_registry_read st = Some read"
  shows "(package_by_org_and_name read (tick w) org_slug name = Inr None \<longrightarrow>
      fst (load_authorized_declared_document x st headers org_slug name ver e w) = Inl graph_not_found)
    \<and> (\<forall>package canonical_org.
        package_by_org_and_name read (tick w) org_slug name = Inr (Some (package, canonical_org))
        \<and> (\<exists>err w'. authorize_declared_graph x st headers org_slug package canonical_org e (w\<lparr>tick := Suc (tick w)\<rparr>) = (Inl err, w'))
        \<longrightarrow> fst (load_authorized_declared_document x st headers org_slug name ver e w) = Inl graph_not_found)"
proof (intro conjI allI impI)
  show "fst (load_authorized_declared_document x st headers org_slug name ver e w) = Inl graph_not_found"
    if "package_by_org_and_name read (tick w) org_slug name = Inr None"
    using assms that
    by (simp add: load_authorized_declared_document_def bind_a_def lift_def map_err_def plane_read_def)
  fix package canonical_org
  assume h: "package_by_org_and_name read (tick w) org_slug name = Inr (Some (package, canonical_org))
      \<and> (\<exists>err w'. authorize_declared_graph x st headers org_slug package canonical_org e (w\<lparr>tick := Suc (tick w)\<rparr>) = (Inl err, w'))"
  then obtain err w' where "authorize_declared_graph x st headers org_slug package canonical_org e (w\<lparr>tick := Suc (tick w)\<rparr>) = (Inl err, w')"
    by blast
  moreover from this have "err = graph_not_found" by (rule authorize_declared_graph_Inl [OF _ assms])
  ultimately show "fst (load_authorized_declared_document x st headers org_slug name ver e w) = Inl graph_not_found"
    using assms h
    by (simp add: load_authorized_declared_document_def bind_a_def lift_def map_err_def plane_read_def)
qed

text \<open>C26. A graph reply is well formed on either route: it is a 200 or a bodiless 304, its body fits
  the encoded limit, the validator and the length of a 200 are those of its bytes, and every header
  value but the fixed flag passed the header check.
\<close>

theorem graph_replies_are_well_formed:
  assumes "route_graph x st route headers e w = (Inr reply, w')"
  shows "(re_status reply = 304 \<and> re_body reply = []
      \<or> re_status reply = 200
        \<and> map_of (re_headers reply) ''etag'' = Some (etag_of x (re_body reply))
        \<and> map_of (re_headers reply) ''content-length'' = Some (show_nat (length (re_body reply))))
    \<and> length (re_body reply) \<le> MAX_ENCODED x
    \<and> (\<forall>(k, v)\<in>set (re_headers reply). header_valid x v \<or> k = AUTHORITATIVE_HEADER x \<and> v \<in> {''true'', ''false''})"
proof -
  obtain document access stem extension authoritative media matches body where
    "finish_reply x access stem extension authoritative media matches document body = Inr reply"
    using route_graph_Inr [OF assms] .
  then show ?thesis
    by (cases "matches (etag_of x body)"; cases authoritative)
       (auto simp: finish_reply_Inr graph_reply_def graph_headers_def not_modified_response_def checked_headers_def)
qed

subsection \<open>Revalidation\<close>

text \<open>Only the validator comparison reads \<open>If-None-Match\<close>.\<close>

lemma get_all_other: "k \<noteq> name \<Longrightarrow> get_all ((k, v) # headers) name = get_all headers name"
  by (simp add: get_all_def)

lemma bearer_token_other: "k \<noteq> ''authorization'' \<Longrightarrow> bearer_token ((k, v) # headers) = bearer_token headers"
  by (simp add: bearer_token_def)

lemma load_authorized_other:
  assumes "k \<noteq> ''authorization''"
  shows "load_authorized_declared_document x st ((k, v) # headers) org_slug name ver =
     load_authorized_declared_document x st headers org_slug name ver"
proof -
  have token: "require_token x ((k, v) # headers) = require_token x headers"
    by (intro ext) (simp add: require_token_def bearer_token_other [OF assms])
  have account: "require_account x c a p ((k, v) # headers) = require_account x c a p headers" for c a p
    by (simp add: require_account_def introspect_def bearer_token_other [OF assms])
  have "authorize_declared_graph x st ((k, v) # headers) = authorize_declared_graph x st headers"
    unfolding authorize_declared_graph_def [abs_def] authorize_graph_account_def bearer_token_other [OF assms] token account
    by (rule refl)
  then show ?thesis by (simp add: load_authorized_declared_document_def)
qed

lemma negotiation_other:
  "k \<noteq> ''accept'' \<Longrightarrow> resolve_format x ((k, v) # headers) q = resolve_format x headers q"
  "k \<noteq> ''accept'' \<Longrightarrow> ensure_acceptable x ((k, v) # headers) f = ensure_acceptable x headers f"
  by (simp_all add: resolve_format_def parse_accept_def ensure_acceptable_def get_all_other)

text \<open>The validator of a body, given back, matches it; a weak spelling of it does too.\<close>

lemma etag_matches:
  assumes "\<forall>c\<in>set (sha256_hex x body). is_lower_hex c" and "tag \<in> {etag_of x body, ''W/'' @ etag_of x body}"
  shows "if_none_match_matches ((''if-none-match'', tag) # headers) (etag_of x body)"
    and "export_if_none_match ((''if-none-match'', tag) # headers) (etag_of x body)"
proof -
  have hex: "32 \<le> byte_of c \<and> byte_of c < 127 \<and> c \<noteq> CHR '',''" if "c \<in> set (sha256_hex x body)" for c
    using assms(1) that by (auto simp: is_lower_hex_def is_ascii_digit_def byte_of_def dest: bspec)
  have str: "header_to_str tag = Some tag"
    using assms(2) hex by (auto simp: header_to_str_def etag_of_def list_all_iff byte_of_def)
  have comma: "CHR '','' \<notin> set tag"
    using assms(2) hex [of "CHR '',''"] by (auto simp: etag_of_def)
  have trimmed: "trim tag = tag"
    using assms(2) by (intro trim_graphic) (auto simp: etag_of_def is_graphic_def byte_of_def)
  have weak: "(case strip_prefix tag ''W/'' of None \<Rightarrow> tag | Some t \<Rightarrow> t) = etag_of x body"
    using assms(2) by (auto simp: strip_prefix_def starts_with_def etag_of_def)
  show "if_none_match_matches ((''if-none-match'', tag) # headers) (etag_of x body)"
    and "export_if_none_match ((''if-none-match'', tag) # headers) (etag_of x body)"
    by (simp_all add: if_none_match_matches_def export_if_none_match_def get_all_def str List.map_filter_simps
        split_on_id [OF comma] trimmed weak)
qed

text \<open>C24. A cached graph revalidates. If a graph request is answered with a validator, the same request
  that carries this validator (strong or weak) in \<^verbatim>\<open>If-None-Match\<close> is answered 304 without a
  body, with the same headers but the content type, and authorised the same way.
\<close>

theorem cached_graphs_revalidate:
  assumes "\<forall>s. \<forall>c\<in>set (sha256_hex x s). is_lower_hex c"
    and "route_graph x st route headers e w = (Inr reply, w')"
    and "map_of (re_headers reply) ''etag'' = Some etag" and "tag \<in> {etag, ''W/'' @ etag}"
  shows "\<exists>reply'. route_graph x st route ((''if-none-match'', tag) # headers) e w = (Inr reply', w')
    \<and> re_status reply' = 304 \<and> re_body reply' = []
    \<and> (re_headers reply = re_headers reply' \<or> (\<exists>media. re_headers reply = re_headers reply' @ [(''content-type'', media)]))"
proof -
  have finish: "\<exists>reply'. finish_reply x access stem extension authoritative media matches' document body = Inr reply'
      \<and> re_status reply' = 304 \<and> re_body reply' = []
      \<and> (re_headers reply = re_headers reply' \<or> (\<exists>media. re_headers reply = re_headers reply' @ [(''content-type'', media)]))"
    if "finish_reply x access stem extension authoritative media matches document body = Inr reply" "matches' (etag_of x body)"
    for access stem extension authoritative media matches matches' document body
    using that by (auto simp: finish_reply_Inr graph_reply_def not_modified_response_def)
  have tagged: "tag \<in> {etag_of x body, ''W/'' @ etag_of x body}"
    if "finish_reply x access stem extension authoritative media matches document body = Inr reply"
    for access stem extension authoritative media matches document body
    using that assms(3,4)
    by (auto simp: finish_reply_Inr graph_reply_def graph_headers_def checked_headers_def not_modified_response_def
        split: if_split_asm)
  note others = load_authorized_other [of "''if-none-match''"] negotiation_other [of "''if-none-match''"]
  show ?thesis
  proof (cases route)
    case (CanonicalRoute org name ver v f)
    then obtain format document access w1 body where run: "v = Some ''declared''" "resolve_format x headers f = Inr format"
        "load_authorized_declared_document x st headers org name ver e w = (Inr (document, access), w')"
        "encode_graph x document format = Inr body"
        "finish_reply x access (filename_stem org name ver) (graph_extension x format) (graph_authoritative x format)
           (graph_media_type x format) (if_none_match_matches headers) document body = Inr reply"
      using assms(2)
      by (auto simp: get_declared_graph_def bind_a_Inr_iff lift_def throw_def respond_finish bind_r_Inr_iff
          split: if_split_asm)
    then show ?thesis
      using finish [OF run(5), of "if_none_match_matches ((''if-none-match'', tag) # headers)"]
        etag_matches(1) [OF _ tagged [OF run(5)]] assms(1) CanonicalRoute
      by (auto simp: get_declared_graph_def others bind_a_def lift_def respond_finish)
  next
    case (ExportRoute org name ver f)
    then obtain format document access body where run: "export_parse_name x f = Some format" "ensure_acceptable x headers format = Inr ()"
        "load_authorized_declared_document x st headers org name ver e w = (Inr (document, access), w')"
        "encode_export x document format = Inr body"
        "finish_reply x access (export_filename_stem org name ver) (export_extension x format) (export_authoritative x format)
           (export_media_type x format) (export_if_none_match headers) document body = Inr reply"
      using assms(2)
      by (auto simp: get_declared_graph_export_def bind_a_Inr_iff lift_def respond_export_finish bind_r_Inr_iff)
    then show ?thesis
      using finish [OF run(5), of "export_if_none_match ((''if-none-match'', tag) # headers)"]
        etag_matches(2) [OF _ tagged [OF run(5)]] assms(1) ExportRoute
      by (auto simp: get_declared_graph_export_def others bind_a_def lift_def respond_export_finish)
  qed
qed

subsection \<open>The document served\<close>

text \<open>An edge of the declared graph spells one entry of the manifest's tables.\<close>

definition faithful_dependency :: "string \<Rightarrow> (string \<times> string) \<times> dependency_kind \<Rightarrow> declared_dependency \<Rightarrow> bool" where
  "faithful_dependency registry d e \<longleftrightarrow>
     fst (fst d) = dd_org e @ CHR ''/'' # dd_name e \<and> CHR ''/'' \<notin> set (dd_org e)
     \<and> e = \<lparr>dd_registry = registry, dd_org = dd_org e, dd_name = dd_name e, dd_requirement = snd (fst d), dd_kind = snd d,
            dd_optional = False, dd_default_features = True, dd_features = [], dd_target = None\<rparr>"

definition manifest_edges :: "graph_manifest \<Rightarrow> ((string \<times> string) \<times> dependency_kind) list" where
  "manifest_edges manifest =
     map (\<lambda>kv. (kv, Runtime)) (gm_dependencies manifest) @ map (\<lambda>kv. (kv, Build)) (gm_build_dependencies manifest)"

lemma declared_edge_Inr: "declared_edge registry d = Inr e \<longleftrightarrow> faithful_dependency registry d e"
proof
  assume "faithful_dependency registry d e"
  then show "declared_edge registry d = Inr e"
    unfolding declared_edge_def bind_r_Inr_iff ok_or_Inr_iff split_once_Some_iff faithful_dependency_def
    by (intro exI [of _ "(dd_org e, dd_name e)"]) (auto simp: split_once_Some_iff)
qed (auto simp: declared_edge_def faithful_dependency_def bind_r_Inr_iff split_once_Some_iff)

lemma declared_edges_Inr: "declared_edges registry ds = Inr es \<longleftrightarrow> list_all2 (faithful_dependency registry) ds es"
  by (induction registry ds arbitrary: es rule: declared_edges.induct)
     (auto simp: bind_r_Inr_iff declared_edge_Inr list_all2_Cons1)

lemma declared_document_Inr:
  assumes "declared_document x registry ver manifest = Inr document"
  shows "gm_version manifest = ver \<and> validate_version x (gm_scheme manifest) ver = Inr ()
    \<and> (\<exists>es. list_all2 (faithful_dependency registry) (manifest_edges manifest) es
         \<and> length es < MAX_NODES x \<and> length es \<le> MAX_EDGES x
         \<and> finalize x \<lparr>gd_schema = GRAPH_SCHEMA_V1 x, gd_graph = Declared \<lparr>pi_registry = registry, pi_org = gm_org manifest,
              pi_name = gm_name manifest, pi_version = ver\<rparr> es, gd_digest = None\<rparr> = Inr document)"
proof -
  obtain es where run: "gm_version manifest = ver" "validate_version x (gm_scheme manifest) ver = Inr ()"
      "list_all2 (faithful_dependency registry) (manifest_edges manifest) es"
      "length (manifest_edges manifest) < MAX_NODES x" "length (manifest_edges manifest) \<le> MAX_EDGES x"
      "finalize x \<lparr>gd_schema = GRAPH_SCHEMA_V1 x, gd_graph = Declared \<lparr>pi_registry = registry, pi_org = gm_org manifest,
              pi_name = gm_name manifest, pi_version = ver\<rparr> es, gd_digest = None\<rparr> = Inr document"
    using assms
    by (auto simp: declared_document_def bind_r_Inr_iff declared_edges_Inr checked_declared_dependency_count_def
      ensure_graph_counts_def checked_add_Some_iff not_less manifest_edges_def)
  then show ?thesis using list_all2_lengthD [OF run(3)] by auto
qed

text \<open>C25. The graph served is the graph of the version asked for. The document behind every graph reply
  is the finalised declared graph of a stored manifest of the canonical package with these
  coordinates: its root is the requested organisation, name and version in this registry, and its
  edges are the runtime entries and then the build entries of the manifest, in their order, one edge
  per entry with the entry's organisation, name and requirement, within the node and edge limits.
\<close>

theorem served_graph_is_the_manifest:
  assumes "gs_registry_read st = Some read"
    and "load_authorized_declared_document x st headers org_slug name ver e w = (Inr (document, access), w')"
  shows "\<exists>t package canonical_org stored manifest es.
    package_by_org_and_name read (tick w) org_slug name = Inr (Some (package, canonical_org))
    \<and> package_version_by read t (cp_id package) ver = Inr (Some stored) \<and> manifest_from_json x stored = Inr manifest
    \<and> list_all2 (faithful_dependency (gs_registry_id st)) (manifest_edges manifest) es
    \<and> length es < MAX_NODES x \<and> length es \<le> MAX_EDGES x
    \<and> finalize x \<lparr>gd_schema = GRAPH_SCHEMA_V1 x, gd_graph = Declared \<lparr>pi_registry = gs_registry_id st, pi_org = org_slug,
         pi_name = name, pi_version = ver\<rparr> es, gd_digest = None\<rparr> = Inr document"
proof -
  have "\<exists>package canonical_org t stored manifest.
    package_by_org_and_name read (tick w) org_slug name = Inr (Some (package, canonical_org))
    \<and> package_version_by read t (cp_id package) ver = Inr (Some stored) \<and> manifest_from_json x stored = Inr manifest
    \<and> gm_org manifest = org_slug \<and> gm_name manifest = name
    \<and> declared_document x (gs_registry_id st) ver manifest = Inr document"
    using assms
    by (auto simp: load_authorized_declared_document_def bind_a_Inr_iff lift_def plane_read_iff ret_def)
  then show ?thesis using declared_document_Inr [of x "gs_registry_id st" ver _ document] by blast
qed

subsection \<open>A package served from a concrete plane\<close>

definition hdr_g :: headers where
  "hdr_g = [(''authorization'', ''Bearer zpkg_1'')]"

definition private_pkg :: canonical_package where
  "private_pkg = \<lparr>cp_id = 3, cp_org_id = 7, cp_project_id = None, cp_visibility = ''private''\<rparr>"

definition read_g :: registry_read where
  "read_g = \<lparr>package_by_org_and_name = (\<lambda>_ _ n. Inr (if n = ''kit'' then Some (private_pkg, 7) else None)),
     package_version_by = (\<lambda>_ _ _. Inr (Some JNull)), packages_for_artifact = (\<lambda>_ _. Inr []),
     user_by_subject = (\<lambda>_ _ _. Inr None), org_role_for_user = (\<lambda>_ _ _. Inr None),
     project_role_for_user = (\<lambda>_ _ _. Inr None)\<rparr>"

definition gstate_1 :: graph_state where
  "gstate_1 = \<lparr>gs_registry_read = Some read_g, gs_auth_client = None, gs_audience = [], gs_application = [], gs_registry_id = ''reg''\<rparr>"

definition gm_1 :: graph_manifest where
  "gm_1 = \<lparr>gm_org = ''acme'', gm_name = ''kit'', gm_version = ''1'', gm_scheme = ''semver'',
     gm_dependencies = [(''acme/lib'', ''^1'')], gm_build_dependencies = []\<rparr>"

definition toy_graph :: graph_ext where
  "toy_graph = toy_graph_ext\<lparr>manifest_from_json := \<lambda>_. Inr gm_1, header_valid := \<lambda>_. True\<rparr>"

definition edge_1 :: declared_dependency where
  "edge_1 = \<lparr>dd_registry = ''reg'', dd_org = ''acme'', dd_name = ''lib'', dd_requirement = ''^1'', dd_kind = Runtime,
     dd_optional = False, dd_default_features = True, dd_features = [], dd_target = None\<rparr>"

definition document_1 :: graph_document where
  "document_1 = \<lparr>gd_schema = ''v1'', gd_graph = Declared \<lparr>pi_registry = ''reg'', pi_org = ''acme'', pi_name = ''kit'',
     pi_version = ''1''\<rparr> [edge_1], gd_digest = Some ''d''\<rparr>"

lemma toy_graph_sel [simp]:
  "MAX_NODES toy_graph = 10" "MAX_EDGES toy_graph = 10" "MAX_ENCODED toy_graph = 10000" "GRAPH_SCHEMA_V1 toy_graph = ''v1''"
  "finalize toy_graph d = Inr (d\<lparr>gd_digest := Some ''d''\<rparr>)" "canonical_document_bytes toy_graph d = Inr ''{}''"
  "header_valid toy_graph v" "manifest_from_json toy_graph j = Inr gm_1" "validate_version toy_graph a b = Inr ()"
  "sha256_hex toy_graph s = replicate 64 (CHR ''a'')" "verify_digest toy_graph d = Inr ()"
  "graph_media_type toy_graph Json = ''a/json''"
  by (simp_all add: toy_graph_def toy_graph_ext_def toy_ext_def ext.defs)

lemma gstate_1_sel [simp]:
  "gs_registry_read gstate_1 = Some read_g" "gs_registry_id gstate_1 = ''reg''"
  "package_by_org_and_name read_g t o' ''kit'' = Inr (Some (private_pkg, 7))"
  "package_version_by read_g t p v = Inr (Some JNull)"
  "cp_visibility private_pkg = ''private''"
  by (simp_all add: gstate_1_def read_g_def private_pkg_def)

lemma gm_1_sel [simp]: "gm_org gm_1 = ''acme''" "gm_name gm_1 = ''kit''" "gm_version gm_1 = ''1''"
  by (simp_all add: gm_1_def)

lemma declared_document_1: "declared_document toy_graph ''reg'' ''1'' gm_1 = Inr document_1"
proof -
  have "split_once CHR ''/'' ''acme/lib'' = Some (''acme'', ''lib'')" by (simp add: split_once_Some_iff)
  then show ?thesis
    by (simp add: declared_document_def gm_1_def checked_declared_dependency_count_def checked_add_def u64_max_def
        ensure_graph_counts_def declared_edge_def document_1_def edge_1_def)
qed

lemma authorize_run:
  "\<exists>w'. authorize_declared_graph toy_graph gstate_1 hdr_g ''acme'' private_pkg 7 calm ((start db_1)\<lparr>tick := Suc 0\<rparr>) = (Inr Private, w')"
proof -
  have tok: "require_token toy_graph hdr_g calm ((start db_1)\<lparr>tick := Suc 0\<rparr>) = (Inr token_1, (start db_1)\<lparr>tick := 3\<rparr>)"
    by (simp add: require_token_def hdr_g_def bearer_example run_simps find_token_by_hash_def hash_token_def
      db_1_def token_1_def start_def)
  have org: "\<exists>row. find_org ''acme'' calm ((start db_1)\<lparr>tick := 3\<rparr>) = (Inr row, (start db_1)\<lparr>tick := 4\<rparr>) \<and> o_id row = 7"
    by (simp add: find_org_def run_simps org_by_slug_def db_1_def start_def)
  have "t_org_id token_1 = Some 7" by (simp add: token_1_def)
  moreover have "\<exists>tok. bearer_token hdr_g = Some tok" by (simp add: hdr_g_def bearer_example)
  ultimately show ?thesis
    using org
    by (auto simp: authorize_declared_graph_def requires_graph_authorization_def bind_a_def lift_def attempt_def tok
        map_err_def ret_def)
qed

lemma load_run:
  "\<exists>w'. load_authorized_declared_document toy_graph gstate_1 hdr_g ''acme'' ''kit'' ''1'' calm (start db_1)
     = (Inr (document_1, Private), w')"
  using authorize_run
  by (auto simp: load_authorized_declared_document_def bind_a_def lift_def map_err_def plane_read_def declared_document_1
      ret_def)

definition route_1 :: graph_route where
  "route_1 = CanonicalRoute ''acme'' ''kit'' ''1'' (Some ''declared'') None"

lemma route_1_sel [simp]: "route_org route_1 = ''acme''" "route_name route_1 = ''kit''"
  by (simp_all add: route_1_def)

lemma route_run:
  "\<exists>reply w'. route_graph toy_graph gstate_1 route_1 hdr_g calm (start db_1) = (Inr reply, w')
     \<and> re_status reply = 200 \<and> map_of (re_headers reply) ''etag'' = Some (etag_of toy_graph ''{}'')"
proof -
  obtain w' where load: "load_authorized_declared_document toy_graph gstate_1 hdr_g ''acme'' ''kit'' ''1'' calm (start db_1)
     = (Inr (document_1, Private), w')"
    using load_run by blast
  have format: "resolve_format toy_graph hdr_g None = Inr Json"
    by (simp add: resolve_format_def parse_accept_def get_all_def hdr_g_def)
  have body: "encode_graph toy_graph document_1 Json = Inr ''{}''"
    by (simp add: encode_graph_def ensure_graph_bounds_def document_1_def checked_add_def u64_max_def
        ensure_graph_counts_def ensure_encoded_size_def)
  have digest: "gd_digest document_1 = Some ''d''" by (simp add: document_1_def)
  have no_match: "\<not> if_none_match_matches hdr_g tag" for tag
    by (simp add: if_none_match_matches_def get_all_def hdr_g_def)
  have "\<exists>reply. finish_reply toy_graph Private stem extension authoritative ''a/json'' (if_none_match_matches hdr_g) document_1 ''{}'' = Inr reply
      \<and> re_status reply = 200 \<and> map_of (re_headers reply) ''etag'' = Some (etag_of toy_graph ''{}'')"
    for stem extension authoritative
    unfolding finish_reply_Inr digest by (simp add: graph_reply_def no_match graph_headers_def checked_headers_def)
  then show ?thesis
    by (simp add: route_1_def get_declared_graph_def bind_a_def lift_def format load respond_finish body)
qed

theorem private_graphs_are_for_members_witness:
  "\<exists>reply w'. route_graph toy_graph gstate_1 route_1 hdr_g calm (start db_1) = (Inr reply, w')
     \<and> graph_credential toy_graph gstate_1 read_g hdr_g ''acme'' private_pkg 7 calm ((start db_1)\<lparr>tick := 1\<rparr>)
     \<and> map_of (re_headers reply) ''cache-control'' = Some PRIVATE_NO_STORE"
proof -
  obtain reply w' where run: "route_graph toy_graph gstate_1 route_1 hdr_g calm (start db_1) = (Inr reply, w')"
    using route_run by blast
  then show ?thesis
    using private_graphs_are_for_members [OF gstate_1_sel(1) _ _ run] by simp
qed

theorem graph_refusals_are_indistinguishable_witness:
  "fst (load_authorized_declared_document toy_graph gstate_1 [] ''acme'' ''kit'' ''1'' calm (start db_1)) = Inl graph_not_found
   \<and> fst (load_authorized_declared_document toy_graph gstate_1 [] ''acme'' ''none'' ''1'' calm (start db_1)) = Inl graph_not_found"
proof -
  have "\<exists>err w'. authorize_declared_graph toy_graph gstate_1 [] ''acme'' private_pkg 7 calm ((start db_1)\<lparr>tick := Suc 0\<rparr>) = (Inl err, w')"
    by (simp add: authorize_declared_graph_def requires_graph_authorization_def bind_a_def lift_def bearer_token_def throw_def)
  moreover have "package_by_org_and_name read_g t ''acme'' ''none'' = Inr None" for t
    by (simp add: read_g_def)
  ultimately show ?thesis
    using graph_refusals_are_indistinguishable [OF gstate_1_sel(1), of "start db_1" "''acme''" "''kit''" toy_graph "[]" "''1''" calm]
      graph_refusals_are_indistinguishable [OF gstate_1_sel(1), of "start db_1" "''acme''" "''none''" toy_graph "[]" "''1''" calm]
    by auto
qed

theorem graph_replies_are_well_formed_witness:
  "\<exists>reply w'. route_graph toy_graph gstate_1 route_1 hdr_g calm (start db_1) = (Inr reply, w')
     \<and> re_status reply = 200 \<and> map_of (re_headers reply) ''content-length'' = Some (show_nat (length (re_body reply)))"
proof -
  obtain reply w' where run: "route_graph toy_graph gstate_1 route_1 hdr_g calm (start db_1) = (Inr reply, w')" "re_status reply = 200"
    using route_run by blast
  then show ?thesis using graph_replies_are_well_formed [OF run(1)] by auto
qed

theorem cached_graphs_revalidate_witness:
  "\<exists>reply w'. route_graph toy_graph gstate_1 route_1 ((''if-none-match'', ''W/'' @ etag_of toy_graph ''{}'') # hdr_g) calm (start db_1)
     = (Inr reply, w') \<and> re_status reply = 304 \<and> re_body reply = []"
proof -
  obtain reply w' where run: "route_graph toy_graph gstate_1 route_1 hdr_g calm (start db_1) = (Inr reply, w')"
      "map_of (re_headers reply) ''etag'' = Some (etag_of toy_graph ''{}'')"
    using route_run by blast
  have hex: "\<forall>s. \<forall>c\<in>set (sha256_hex toy_graph s). is_lower_hex c"
    by (simp add: is_lower_hex_def byte_of_def)
  show ?thesis
    using cached_graphs_revalidate [OF hex run, of "''W/'' @ etag_of toy_graph ''{}''"] by blast
qed

theorem served_graph_is_the_manifest_witness:
  "(\<exists>w'. load_authorized_declared_document toy_graph gstate_1 hdr_g ''acme'' ''kit'' ''1'' calm (start db_1)
     = (Inr (document_1, Private), w'))
   \<and> (\<exists>manifest es. manifest_from_json toy_graph JNull = Inr manifest
        \<and> list_all2 (faithful_dependency ''reg'') (manifest_edges manifest) es \<and> length es < 10)"
proof -
  obtain w' where load: "load_authorized_declared_document toy_graph gstate_1 hdr_g ''acme'' ''kit'' ''1'' calm (start db_1)
     = (Inr (document_1, Private), w')"
    using load_run by blast
  show ?thesis
    using served_graph_is_the_manifest [OF gstate_1_sel(1) load] load by auto
qed

end
