(* ===== verification/DirectoryWalk.thy ===== *)
theory DirectoryWalk
  imports BinaryLaws
begin

section \<open>The loops over an untrusted ZIP directory end\<close>

text \<open>
  The server walks the raw central directory of an uploaded archive, and the extra field of each
  header, in \<open>while\<close> loops whose steps are lengths the uploader chose
  (\<^verbatim>\<open>src/binary_artifact.rs\<close>). Here the same loops are run with a bound on the number of their
  iterations; running out of it is \<open>None\<close>.
\<close>

fun walk_within ::
  "nat \<Rightarrow> ('x publish_ext_scheme) \<Rightarrow> string \<Rightarrow> nat \<Rightarrow> string list \<Rightarrow> string option
   \<Rightarrow> (string + string list \<times> string option) option" where
  "walk_within n x bytes offset names violation =
     (if slice_get bytes offset (saturating_add offset 4) \<noteq> Some central_magic then Some (Inr (names, violation))
      else (case n of
              0 \<Rightarrow> None
            | Suc m \<Rightarrow>
                (case central_header x bytes offset violation of
                   Inl err \<Rightarrow> Some (Inl err)
                 | Inr (raw, violation', next) \<Rightarrow> walk_within m x bytes next (names @ [raw]) violation')))"

fun zip64_within :: "nat \<Rightarrow> string \<Rightarrow> nat \<Rightarrow> bool option option" where
  "zip64_within n extra offset =
     (if offset < length extra then
        (case n of
           0 \<Rightarrow> None
         | Suc m \<Rightarrow>
             (case slice_get extra offset (offset + 4) of
                None \<Rightarrow> Some None
              | Some header \<Rightarrow>
                  (let data_end = offset + 4 + u16_le header 2
                   in if length extra < data_end then Some None
                      else if u16_le header 0 = 1 then Some (Some True)
                      else zip64_within m extra data_end)))
      else Some (Some False))"

declare walk_within.simps [simp del] zip64_within.simps [simp del]

lemma central_header_advances:
  "central_header x bytes offset violation = Inr (raw, violation', next) \<Longrightarrow> offset + 46 \<le> next \<and> next \<le> length bytes"
  by (auto simp: central_header_def bind_r_Inr_iff checked_add_Some_iff)

lemma walk_within_enough:
  "length bytes - offset < 46 * n + 4 \<Longrightarrow>
     walk_within n x bytes offset names violation = Some (walk_directory x bytes offset names violation)"
proof (induction n arbitrary: offset names violation)
  case 0
  then have "slice_get bytes offset (saturating_add offset 4) \<noteq> Some central_magic"
    by (auto simp: slice_get_def central_magic_def split: if_splits dest: arg_cong [of _ _ length])
  then show ?case by (subst walk_within.simps, subst walk_directory.simps) simp
next
  case (Suc n)
  show ?case
  proof (cases "central_header x bytes offset violation")
    case (Inl err)
    then show ?thesis by (subst walk_within.simps, subst walk_directory.simps) simp
  next
    case (Inr r)
    obtain raw v q where r: "r = (raw, v, q)" by (cases r) auto
    have "offset + 46 \<le> q" "q \<le> length bytes"
      using central_header_advances [of x bytes offset violation raw v q] Inr r by simp_all
    then obtain j k where "length bytes = q + k" "q = offset + 46 + j"
      by (metis le_Suc_ex)
    with Suc.prems have "length bytes - q < 46 * n + 4" by simp
    then show ?thesis
      using Inr r Suc.IH [of q "names @ [raw]" v]
      by (subst walk_within.simps, subst walk_directory.simps) simp
  qed
qed


lemma walk_within_Some:
  "walk_within ((length bytes - offset) div 46 + 1) x bytes offset names violation = Some (walk_directory x bytes offset names violation)"
  by (rule walk_within_enough) (simp add: dividend_less_times_div)

lemma zip64_within_enough:
  "length extra - offset \<le> 4 * n \<Longrightarrow> zip64_within n extra offset = Some (zip64_from extra offset)"
proof (induction n arbitrary: offset)
  case 0
  then show ?case by (subst zip64_within.simps, subst zip64_from.simps) simp
next
  case (Suc n)
  have "zip64_within n extra (offset + 4 + m) = Some (zip64_from extra (offset + 4 + m))" for m
    by (rule Suc.IH) (use Suc.prems in simp)
  then show ?case
    by (subst zip64_within.simps, subst zip64_from.simps) (simp add: Let_def split: option.split)
qed

text \<open>C23. The loops over an untrusted ZIP directory end. Whatever bytes were uploaded, the walk over the
  raw central directory is done after at most one iteration per 46 bytes that follow its start, plus
  one, and the walk over an extra field after at most one iteration per 4 bytes, plus one; the bounded
  runs give the results of the unbounded ones, so the counter of entries cannot overflow.
\<close>

theorem directory_loops_terminate:
  "walk_within ((length bytes - offset) div 46 + 1) x bytes offset names violation
     = Some (walk_directory x bytes offset names violation)
   \<and> zip64_within (length extra div 4 + 1) extra 0 = Some (contains_zip64_extra extra)"
  using walk_within_Some zip64_within_enough [of extra 0 "length extra div 4 + 1"]
  by (simp add: contains_zip64_extra_def dividend_less_times_div)

end
