(* ===== verification/EdgeFallback.thy ===== *)
theory EdgeFallback
  imports Verify GraphOut
begin

section \<open>Capabilities for the edge fallback (\<^verbatim>\<open>src/edge_fallback.rs\<close>)\<close>

text \<open>
  When the registry is unreachable an edge may read a private package from its source repository, on
  the strength of a short-lived capability. The capability format, its limits and its validation
  belong to the contract crate and are the fields of \<open>edge_ext\<close>.
\<close>

datatype edge_grant = GithubGrant string string string string

record edge_capability =
  ec_version :: nat
  ec_iss :: string
  ec_aud :: string
  ec_sub :: string
  ec_sid :: string
  ec_parent_jti :: string
  ec_iat :: nat
  ec_nbf :: nat
  ec_exp :: nat
  ec_jti :: string
  ec_grants :: "edge_grant list"

record edge_ext = ext +
  CAPABILITY_VERSION :: nat
  EDGE_AUDIENCE :: string
  MAX_TTL_SECONDS :: nat
  READ_OPERATION :: string
  validate_capability :: "edge_capability \<Rightarrow> string + unit"

datatype edge_issue_error =
    PublicPackage
  | UnsupportedVisibility
  | ReadDenied
  | UnsupportedRepository
  | InvalidCapability string
  | InvalidLifetime

fun edge_error_message :: "edge_issue_error \<Rightarrow> string" where
  "edge_error_message PublicPackage = ''public packages use anonymous fallback and do not need a capability''"
| "edge_error_message UnsupportedVisibility = ''unsupported package visibility''"
| "edge_error_message ReadDenied = ''caller is not authorized to read the package''"
| "edge_error_message UnsupportedRepository = ''package repository is not an approved GitHub source''"
| "edge_error_message (InvalidCapability m) = ''edge fallback capability is invalid: '' @ m"
| "edge_error_message InvalidLifetime = ''capability lifetime is invalid''"

record edge_principal =
  ep_subject :: string
  ep_session_id :: string
  ep_parent_jti :: string

definition principal_of :: "('x ext_scheme) \<Rightarrow> identity \<Rightarrow> edge_principal" where
  "principal_of x i =
     \<lparr>ep_subject = uuid_str x (si_subject (session i)), ep_session_id = session_id i, ep_parent_jti = parent_jti i\<rparr>"

text \<open>\<open>char::is\_control\<close>: the category Cc of Unicode.\<close>

definition is_control :: "string \<Rightarrow> bool" where
  "is_control ch \<longleftrightarrow> scalar ch < 32 \<or> 127 \<le> scalar ch \<and> scalar ch \<le> 159"

definition has_membership :: "string option \<Rightarrow> bool" where
  "has_membership role =
     (case role of None \<Rightarrow> False
      | Some r \<Rightarrow> (let v = trim r in v \<noteq> [] \<and> length v \<le> 64 \<and> \<not> list_ex is_control (chars v)))"

definition authorize_private_package_read ::
  "string \<Rightarrow> string option \<Rightarrow> string option \<Rightarrow> edge_issue_error + unit" where
  "authorize_private_package_read visibility org_role project_role =
     (if visibility = ''public'' then Inl PublicPackage
      else if visibility \<noteq> ''private'' then Inl UnsupportedVisibility
      else if has_membership org_role \<or> has_membership project_role then Inr ()
      else Inl ReadDenied)"

definition canonical_github_resource :: "string \<Rightarrow> string option" where
  "canonical_github_resource repo_url =
     (let trimmed = trim repo_url
      in if \<not> (starts_with trimmed ''https://github.com/'' \<or> starts_with trimmed ''git@github.com:'') then None
         else map_option (\<lambda>(owner, repo). owner @ ''/'' @ repo) (parse_github trimmed))"

definition github_grant_for_package :: "('x edge_ext_scheme) \<Rightarrow> string \<Rightarrow> string \<Rightarrow> edge_issue_error + edge_grant" where
  "github_grant_for_package x package repo_url =
     bind_r (ok_or UnsupportedRepository (canonical_github_resource repo_url)) (\<lambda>resource.
       Inr (GithubGrant (READ_OPERATION x) package (''github-app:repo:'' @ resource) resource))"

definition build_github_capability_v2 ::
  "('x edge_ext_scheme) \<Rightarrow> string \<Rightarrow> edge_principal \<Rightarrow> string \<Rightarrow> string \<Rightarrow> nat \<Rightarrow> nat \<Rightarrow> string \<Rightarrow> edge_issue_error + edge_capability" where
  "build_github_capability_v2 x issuer reader package repo_url issued_at ttl_seconds capability_id =
     bind_r (guard_r (\<not> (ttl_seconds = 0 \<or> MAX_TTL_SECONDS x < ttl_seconds)) InvalidLifetime) (\<lambda>_.
     bind_r (ok_or InvalidLifetime (checked_add issued_at ttl_seconds)) (\<lambda>expires_at.
     bind_r (github_grant_for_package x package repo_url) (\<lambda>grant.
     let capability = \<lparr>ec_version = CAPABILITY_VERSION x, ec_iss = issuer, ec_aud = EDGE_AUDIENCE x,
           ec_sub = ep_subject reader, ec_sid = ep_session_id reader, ec_parent_jti = ep_parent_jti reader,
           ec_iat = issued_at, ec_nbf = issued_at, ec_exp = expires_at, ec_jti = capability_id, ec_grants = [grant]\<rparr>
     in bind_r (case validate_capability x capability of Inl m \<Rightarrow> Inl (InvalidCapability m) | Inr _ \<Rightarrow> Inr ()) (\<lambda>_.
          Inr capability))))"

subsection \<open>What a capability grants\<close>

lemma has_membership_not_None: "has_membership role \<Longrightarrow> role \<noteq> None"
  by (auto simp: has_membership_def split: option.splits)

lemma canonical_github_resource_Some:
  assumes "canonical_github_resource repo_url = Some resource"
  obtains owner repo where "resource = owner @ ''/'' @ repo" "valid_repo_segment owner" "valid_repo_segment repo"
    "parse_github (trim repo_url) = Some (owner, repo)" "\<not> starts_with (trim repo_url) ''http://''"
proof -
  obtain owner repo where run: "parse_github (trim repo_url) = Some (owner, repo)" "resource = owner @ ''/'' @ repo"
      "starts_with (trim repo_url) ''https://github.com/'' \<or> starts_with (trim repo_url) ''git@github.com:''"
    using assms by (auto simp: canonical_github_resource_def Let_def split: if_splits)
  moreover have "\<not> starts_with (trim repo_url) ''http://''"
    using run(3) by (auto simp: starts_with_iff)
  ultimately show ?thesis using parse_github_Some [OF run(1)] that by blast
qed

lemma validated_iff:
  "(case r :: string + unit of Inl m \<Rightarrow> Inl (InvalidCapability m) | Inr _ \<Rightarrow> Inr ()) = Inr u \<longleftrightarrow> r = Inr ()"
  by (cases r) auto

text \<open>
  A capability grants one bounded read. A capability that is issued names the reader it was
  issued to, carries exactly one grant, a read of that package through the credential of one
  repository on \<^verbatim>\<open>github.com\<close> whose owner and name are single path segments and whose address is
  not plain \<^verbatim>\<open>http\<close>, is valid from now, expires after the lifetime asked for, which is positive and
  within the contract's limit, without wrapping, and passed the contract's validation.
\<close>

theorem edge_capability_is_one_bounded_read:
  assumes "build_github_capability_v2 x issuer reader package repo_url issued_at ttl capability_id = Inr capability"
  shows "ec_sub capability = ep_subject reader \<and> ec_sid capability = ep_session_id reader
    \<and> ec_parent_jti capability = ep_parent_jti reader \<and> ec_aud capability = EDGE_AUDIENCE x
    \<and> (\<exists>owner repo. ec_grants capability = [GithubGrant (READ_OPERATION x) package
           (''github-app:repo:'' @ owner @ ''/'' @ repo) (owner @ ''/'' @ repo)]
         \<and> valid_repo_segment owner \<and> valid_repo_segment repo
         \<and> parse_github (trim repo_url) = Some (owner, repo) \<and> \<not> starts_with (trim repo_url) ''http://'')
    \<and> ec_nbf capability = issued_at \<and> ec_exp capability = issued_at + ttl
    \<and> issued_at < ec_exp capability \<and> ec_exp capability \<le> issued_at + MAX_TTL_SECONDS x \<and> ec_exp capability \<le> u64_max
    \<and> validate_capability x capability = Inr ()"
proof -
  obtain resource where run: "0 < ttl" "ttl \<le> MAX_TTL_SECONDS x" "issued_at + ttl \<le> u64_max"
      "canonical_github_resource repo_url = Some resource"
      "capability = \<lparr>ec_version = CAPABILITY_VERSION x, ec_iss = issuer, ec_aud = EDGE_AUDIENCE x,
           ec_sub = ep_subject reader, ec_sid = ep_session_id reader, ec_parent_jti = ep_parent_jti reader,
           ec_iat = issued_at, ec_nbf = issued_at, ec_exp = issued_at + ttl, ec_jti = capability_id,
           ec_grants = [GithubGrant (READ_OPERATION x) package (''github-app:repo:'' @ resource) resource]\<rparr>"
      "validate_capability x capability = Inr ()"
    using assms
    by (auto simp: build_github_capability_v2_def github_grant_for_package_def bind_r_Inr_iff checked_add_Some_iff Let_def
        not_less validated_iff)
  obtain owner repo where "resource = owner @ ''/'' @ repo" "valid_repo_segment owner" "valid_repo_segment repo"
    "parse_github (trim repo_url) = Some (owner, repo)" "\<not> starts_with (trim repo_url) ''http://''"
    using canonical_github_resource_Some [OF run(4)] .
  then show ?thesis using run by simp
qed

definition toy_edge :: edge_ext where
  "toy_edge = ext.extend toy_ext \<lparr>CAPABILITY_VERSION = 2, EDGE_AUDIENCE = ''edge'', MAX_TTL_SECONDS = 300,
     READ_OPERATION = ''read'', validate_capability = (\<lambda>_. Inr ())\<rparr>"

lemma toy_edge_sel [simp]:
  "MAX_TTL_SECONDS toy_edge = 300" "validate_capability toy_edge c = Inr ()" "READ_OPERATION toy_edge = ''read''"
  by (simp_all add: toy_edge_def ext.defs)

lemma parse_github_example: "parse_github ''https://github.com/zed/kit.git/'' = Some (''zed'', ''kit'')"
  by (simp add: parse_github_def strip_prefix_def starts_with_def or_else_def trim_end_matches_def trim_end_str_def
      trim_with.simps split_once_def valid_repo_segment_def repo_char_def ascii_defs trim_start_matches_def)

theorem edge_capability_is_one_bounded_read_witness:
  "\<exists>capability. build_github_capability_v2 toy_edge ''zed'' \<lparr>ep_subject = ''u'', ep_session_id = ''s'', ep_parent_jti = ''j''\<rparr>
       ''acme/kit'' ''https://github.com/zed/kit.git/'' 1000 60 ''c'' = Inr capability
     \<and> ec_exp capability = 1060 \<and> ec_sub capability = ''u''"
proof -
  have "trim ''https://github.com/zed/kit.git/'' = ''https://github.com/zed/kit.git/''"
    by (intro trim_graphic) (simp_all add: is_graphic_def byte_of_def)
  then have "canonical_github_resource ''https://github.com/zed/kit.git/'' = Some ''zed/kit''"
    by (simp add: canonical_github_resource_def parse_github_example starts_with_def)
  then obtain capability where "build_github_capability_v2 toy_edge ''zed'' \<lparr>ep_subject = ''u'', ep_session_id = ''s'', ep_parent_jti = ''j''\<rparr>
       ''acme/kit'' ''https://github.com/zed/kit.git/'' 1000 60 ''c'' = Inr capability"
    by (simp add: build_github_capability_v2_def github_grant_for_package_def checked_add_def u64_max_def Let_def)
  then show ?thesis using edge_capability_is_one_bounded_read by fastforce
qed

text \<open>
  Only a named member of a private package's organisation or project is authorised; a public package
  and an unknown visibility are refused whoever asks.
\<close>

lemma authorize_private_package_read_iff:
  "authorize_private_package_read visibility org_role project_role = Inr () \<longleftrightarrow>
     visibility = ''private'' \<and> (has_membership org_role \<or> has_membership project_role)"
  by (auto simp: authorize_private_package_read_def)

end
