(* ===== verification/StorageRoutes.thy ===== *)
theory StorageRoutes
  imports ArtifactLaws
begin

section \<open>Storage routes (\<^verbatim>\<open>src/routes/storage.rs\<close>)\<close>

text \<open>
  Two read-only routes: what the live store is and how much the registry believes is in it, and one
  artifact's record reconciled with what the store reports. The texts the store's errors are rendered
  with, the measured time of a probe and the printed time stamp are the fields of \<open>storage_state\<close>;
  \<open>sum\_as\_i64\<close> is what the database driver yields when the sum of a column is read as an \<open>i64\<close>.
\<close>

record storage_state =
  ss_store :: artifact_store
  ss_backend :: storage_backend
  ss_limits :: storage_limits
  ss_modified :: "string \<Rightarrow> string option"
  ss_head_error :: "bool \<Rightarrow> string"
  ss_render :: "store_err + string \<Rightarrow> string"
  ss_probe_ms :: nat
  ss_probe_error :: string
  ss_stamp :: "datetime \<Rightarrow> string"
  ss_sum_as_i64 :: "int \<Rightarrow> int option"

definition observed_at :: "storage_state \<Rightarrow> string handler" where
  "observed_at st = bind_a utc_now (\<lambda>now. ret (ss_stamp st now))"

text \<open>\<open>SELECT DISTINCT sha256, size FROM version\<close>, and the three aggregates over it.\<close>

definition distinct_artifacts :: "db \<Rightarrow> (string \<times> int) list" where
  "distinct_artifacts d = remdups (map (\<lambda>v. (v_sha256 v, v_size v)) (versions d))"

definition or_zero_int :: "int option \<Rightarrow> int" where
  "or_zero_int v = (case v of None \<Rightarrow> 0 | Some i \<Rightarrow> i)"

definition usage_of_rows :: "(int \<Rightarrow> int option) \<Rightarrow> (string \<times> int) list \<Rightarrow> storage_usage" where
  "usage_of_rows sum_as_i64 rows =
     (let total = or_zero_int (sum_as_i64 (sum_list (map snd rows)));
          largest = (if rows = [] then 0 else Max (set (map snd rows)))
      in \<lparr>su_artifact_count = nat (max 0 (int (length rows))), su_total_bytes = nat (max 0 total),
          su_largest_bytes = nat (max 0 largest)\<rparr>)"

definition usage_from_registry :: "storage_state \<Rightarrow> (db_err, storage_usage) act" where
  "usage_from_registry st =
     bind_a (query distinct_artifacts) (\<lambda>rows. ret (usage_of_rows (ss_sum_as_i64 st) rows))"

definition storage_status :: "('x ext_scheme) \<Rightarrow> storage_state \<Rightarrow> headers \<Rightarrow> storage_status handler" where
  "storage_status x st headers =
     bind_a (require_token x headers) (\<lambda>_.
     bind_a (map_err (\<lambda>_. from_anyhow) (probe (ss_probe_ms st) (ss_probe_error st) (ss_store st))) (\<lambda>health.
     bind_a (attempt (usage_from_registry st)) (\<lambda>outcome.
     let usage = (case outcome of Inr u \<Rightarrow> u | Inl _ \<Rightarrow> no_usage)
     in bind_a (observed_at st) (\<lambda>now.
          ret (storage_status_new (ss_backend st) health usage (ss_limits st) now)))))"

definition invalid_digest :: api_err where
  "invalid_digest = bad_request ''invalid_digest'' ''artifact digest must be 64 lowercase hex characters''"

definition storage_artifact :: "('x ext_scheme) \<Rightarrow> storage_state \<Rightarrow> string \<Rightarrow> headers \<Rightarrow> storage_object_report handler" where
  "storage_artifact x st sha256 headers =
     bind_a (require_token x headers) (\<lambda>_.
     bind_a (lift (guard_r (is_digest sha256) invalid_digest)) (\<lambda>_.
     bind_a (sql (query (version_by_sha sha256))) (\<lambda>found.
     bind_a (lift (ok_or (not_found ''artifact'') found)) (\<lambda>row.
     bind_a (attempt (head (ss_modified st) (ss_head_error st) (ss_store st) (v_artifact_key row))) (\<lambda>outcome.
       case outcome of
         Inl error \<Rightarrow> throw (service_unavailable ''storage_unavailable'' (redact_backend_error (ss_render st error)))
       | Inr object \<Rightarrow>
           bind_a (observed_at st) (\<lambda>now.
             ret (object_report (v_artifact_key row) (v_sha256 row) (nat (max 0 (v_size row))) object now)))))))"

subsection \<open>What the report says of published artifacts\<close>

lemma head_of_stored:
  assumes "head modified head_error store key e w = (Inr h, w')" and "store_rely x e"
    and "stored x (object_name store key) b e w" and "\<not> is_not_found (head_error False)"
  shows "\<exists>o'. h = Some o' \<and> oh_size o' = Some (length (content b))
    \<and> (oh_sha256 o' = None \<or> oh_sha256 o' = sha256_metadata b)"
proof -
  have "look (objects (store_settle e w)) (object_name store key) = Some b"
    using kept.keep_store [OF assms(2,3)] by (simp add: stored_def)
  then show ?thesis
    using assms(1,4)
    by (cases store)
       (auto simp: head_def locked_def fs_metadata_def request_def Let_def bind_a_Inr_iff attempt_iff object_name_def
          no_head_def ret_def throw_def split: option.splits if_splits sum.splits prod.splits io_kind.splits)
qed

lemma case_throw_Inr:
  "(case r of Inl x \<Rightarrow> throw (f x) | Inr a \<Rightarrow> g a) e w = (Inr b, w') \<longleftrightarrow> (\<exists>a. r = Inr a \<and> g a e w = (Inr b, w'))"
  by (cases r) (auto simp: throw_def)

text \<open>C39. A published artifact is never reported missing. When every version row has its bytes (the
  invariant publishing maintains), no other session rewrites version rows meanwhile, and the SDK does
  not spell a refused request as an absent key, a report names the row recorded under the digest, gives
  the length of the stored object as the recorded one, and its verdict is consistent unless the store's
  own digest metadata disagrees with the registry.
\<close>

theorem published_artifact_is_never_missing:
  assumes "storage_artifact x st sha256 headers e w = (Inr report, w')" and "store_rely x e" and "leaves_versions e"
    and "txn w = None" and "\<forall>v\<in>set (versions (committed w)). row_backed x (ss_store st) v w"
    and "\<forall>k b. look (objects w) k = Some b \<longrightarrow> int (length (content b)) \<le> i64_max"
    and "\<not> is_not_found (ss_head_error st False)"
  shows "(\<exists>v\<in>set (versions (committed w)). v_sha256 v = sha256 \<and> so_key report = v_artifact_key v)
    \<and> so_sha256 report = sha256 \<and> so_stored_bytes report = Some (so_recorded_bytes report)
    \<and> (so_reconciliation report = Consistent
       \<or> so_reconciliation report = Divergent digest_divergence
         \<and> (\<exists>s. so_stored_sha256 report = Some s \<and> \<not> eq_ignore_ascii_case s sha256))"
proof -
  obtain u w1 row h w2 now where auth: "require_token x headers e w = (Inr u, w1)"
      and found: "version_by_sha sha256 (view (settle e w1)) = Some row"
      and hd: "head (ss_modified st) (ss_head_error st) (ss_store st) (v_artifact_key row) e (settle e w1) = (Inr h, w2)"
      and report: "report = object_report (v_artifact_key row) (v_sha256 row) (nat (max 0 (v_size row))) h now"
    using assms(1)
    by (auto simp: storage_artifact_def bind_a_Inr_iff query_Inr_iff attempt_iff lift_def case_throw_Inr ret_def)
  let ?P = "\<lambda>(e::env) v. versions (committed v) = versions (committed w)"
  have "keeps leaves_versions ?P (require_token x headers)"
    unfolding require_token_def by (intro keep_rules) (simp_all add: keeps_def query_def utc_now_def Let_def quiet_settle)
  from keepsD [OF this assms(3) _ auth] have same: "versions (committed w1) = versions (committed w)" by simp
  have "txn w1 = None" using require_token_txn [of x headers e w] auth assms(4) by simp
  then have "view (settle e w1) = committed (settle e w1)" by simp
  then have row: "row \<in> set (versions (committed w))" "v_sha256 row = sha256"
    using found same quiet_settle [OF assms(3), of w1] by (auto simp: version_by_sha_def dest: find_Some_iff')
  then obtain b where ns: "\<not> is_staging x (object_name (ss_store st) (v_artifact_key row))"
      and b: "look (objects w) (object_name (ss_store st) (v_artifact_key row)) = Some b"
        "as_i64 (length (content b)) = v_size row"
    using assms(5) by (auto simp: row_backed_def)
  let ?S = "stored x (object_name (ss_store st) (v_artifact_key row)) b"
  have "keeps (store_rely x) ?S (require_token x headers)"
    unfolding require_token_def by (intro keep_rules)
  from keepsD [OF this assms(2) _ auth] have "?S e w1" using ns b by (simp add: stored_def)
  then have "?S e (settle e w1)" by (simp add: stored_def)
  from head_of_stored [OF hd assms(2) this assms(7)] obtain o' where o': "h = Some o'" "oh_size o' = Some (length (content b))"
    by blast
  have "nat (max 0 (v_size row)) = length (content b)"
    using as_i64_small [of "length (content b)"] assms(6) b by force
  with row o' report show ?thesis
    by (auto simp: object_report_def Let_def reconcile_def reconcile_digest_def split: option.split)
qed

text \<open>Distinct digests are counted once, however many versions share an artifact.\<close>

lemma usage_counts_distinct:
  "su_artifact_count (usage_of_rows f (distinct_artifacts d)) = card (set (map (\<lambda>v. (v_sha256 v, v_size v)) (versions d)))"
  by (simp add: usage_of_rows_def Let_def distinct_artifacts_def length_remdups_card_conv)

text \<open>A driver that does not yield an \<open>i64\<close> for a sum makes the total zero, whatever is stored.\<close>

lemma usage_total_needs_the_driver:
  "ss_sum_as_i64 st = (\<lambda>_. None) \<Longrightarrow> usage_from_registry st e w = (Inr usage, w') \<Longrightarrow> su_total_bytes usage = 0"
  by (auto simp: usage_from_registry_def bind_a_Inr_iff ret_def usage_of_rows_def Let_def or_zero_int_def)

subsection \<open>A report from a concrete store\<close>

definition sstate_1 :: storage_state where
  "sstate_1 = \<lparr>ss_store = Memory 10, ss_backend = process_memory,
     ss_limits = \<lparr>sl_max_artifact_bytes = 10, sl_max_buffered_artifact_bytes = 10\<rparr>, ss_modified = (\<lambda>_. None),
     ss_head_error = (\<lambda>_. ''x''), ss_render = (\<lambda>_. ''x''), ss_probe_ms = 0, ss_probe_error = [], ss_stamp = (\<lambda>_. ''t''),
     ss_sum_as_i64 = Some\<rparr>"

lemma storage_artifact_run:
  "\<exists>report w'. storage_artifact toy_reads sstate_1 (replicate 64 (CHR ''a'')) hdr_1 calm world_d = (Inr report, w')
     \<and> so_key report = ''k''"
proof -
  have sha: "sha256_hex toy_reads s = replicate 64 (CHR ''a'')" for s
    by (simp add: toy_reads_def publish_ext.defs)
  have "require_token toy_reads hdr_1 calm world_d = (Inr token_1, world_d\<lparr>tick := 2\<rparr>)"
    by (simp add: require_token_def hdr_1_def bearer_example run_simps find_token_by_hash_def hash_token_def sha
        world_d_def start_def db_3_def db_1_def token_1_def)
  moreover have "is_digest (replicate 64 (CHR ''a''))"
    by (simp add: is_digest_def list_all_iff ascii_defs)
  moreover have "version_by_sha (replicate 64 (CHR ''a'')) (committed world_d) = Some ver_f" "txn world_d = None"
    by (simp_all add: version_by_sha_def world_d_def ver_f_sel start_def)
  ultimately show ?thesis
    by (simp add: storage_artifact_def bind_a_def lift_def sql_def map_err_def query_def calm_settle Let_def view_def pending_def
        attempt_def sstate_1_def head_def locked_def observed_at_def utc_now_def ret_def object_report_def ver_f_sel)
qed

theorem published_artifact_is_never_missing_witness:
  "\<exists>report w'. storage_artifact toy_reads sstate_1 (replicate 64 (CHR ''a'')) hdr_1 calm world_d = (Inr report, w')
     \<and> so_stored_bytes report = Some (so_recorded_bytes report)"
proof -
  obtain report w' where run: "storage_artifact toy_reads sstate_1 (replicate 64 (CHR ''a'')) hdr_1 calm world_d = (Inr report, w')"
    using storage_artifact_run by blast
  have "sha256_hex toy_reads s = replicate 64 (CHR ''a'')" for s
    by (simp add: toy_reads_def publish_ext.defs)
  moreover have "\<not> is_staging toy_reads ''k''"
    by (simp add: is_staging_def staging_path_def)
  ultimately have backed: "\<forall>v\<in>set (versions (committed world_d)). row_backed toy_reads (ss_store sstate_1) v world_d"
    by (simp add: world_d_def start_def row_backed_def ver_f_sel sstate_1_def object_name_def look_def plain_blob_def as_i64_def)
  have small: "\<forall>k b. look (objects world_d) k = Some b \<longrightarrow> int (length (content b)) \<le> i64_max"
    by (simp add: world_d_def start_def look_def plain_blob_def i64_max_def)
  have error: "\<not> is_not_found (ss_head_error sstate_1 False)"
    by (simp add: sstate_1_def is_not_found_def to_ascii_lowercase_def to_lower_char_def is_ascii_uppercase_def byte_of_def
        starts_with_def)
  from published_artifact_is_never_missing [OF run calm_store(1) _ _ backed small error] run show ?thesis
    by (simp add: leaves_versions_def world_d_def)
qed

end
