(* ===== verification/Semantic.thy ===== *)
theory Semantic
  imports ReadLaws
begin

section \<open>Embeddings and semantic search (\<^verbatim>\<open>src/embeddings.rs\<close>, \<^verbatim>\<open>src/routes/semantic.rs\<close>)\<close>

text \<open>
  The \<open>package\_embedding\<close> table is reached by two raw statements only; it is a list of rows that the
  handlers take and return. A vector component is an element of any type with the tests and the
  printer of \<open>vector\_ops\<close>, and the distance of two vectors is what the database computes from
  their literals. Rows at equal distance come in table order.
\<close>

record 'f vector_ops =
  is_finite :: "'f \<Rightarrow> bool"
  zero_of :: 'f
  show_of :: "'f \<Rightarrow> string"

definition VECTOR_DIM :: nat where
  "VECTOR_DIM = 2050"

definition pad_to_dim :: "'f vector_ops \<Rightarrow> 'f list \<Rightarrow> string + 'f list" where
  "pad_to_dim ops embedding =
     (if embedding = [] then Inl ''embedding must be non-empty''
      else if VECTOR_DIM < length embedding then
        Inl (''embedding has '' @ show_nat (length embedding) @ '' dims, which exceeds the '' @ show_nat VECTOR_DIM @ ''-dim column'')
      else (case List.find (\<lambda>v. \<not> is_finite ops v) embedding of
              Some bad \<Rightarrow> Inl (''embedding contains a non-finite value ('' @ show_of ops bad @ '')'')
            | None \<Rightarrow> Inr (embedding @ replicate (VECTOR_DIM - length embedding) (zero_of ops))))"

definition to_pgvector_literal :: "'f vector_ops \<Rightarrow> 'f list \<Rightarrow> string" where
  "to_pgvector_literal ops embedding = ''['' @ join_with '','' (map (show_of ops) embedding) @ '']''"

definition valid_model :: "string \<Rightarrow> bool" where
  "valid_model model \<longleftrightarrow>
     model \<noteq> [] \<and> length model \<le> 120 \<and> list_all (\<lambda>b. is_ascii_alphanumeric b \<or> b \<in> set ''._:/-'') model"

record embedding_row =
  er_package_id :: uuid
  er_model :: string
  er_native_dimensions :: int
  er_embedding :: string
  er_content :: string
  er_content_sha256 :: string

definition same_space :: "embedding_row \<Rightarrow> embedding_row \<Rightarrow> bool" where
  "same_space a b \<longleftrightarrow> er_package_id a = er_package_id b \<and> er_model a = er_model b"

text \<open>\<open>insert ... on conflict (package\_id, embedding\_model) do update\<close>.\<close>

definition upsert_statement :: "embedding_row \<Rightarrow> embedding_row list \<Rightarrow> embedding_row list" where
  "upsert_statement row table =
     (if list_ex (same_space row) table then map (\<lambda>r. if same_space row r then row else r) table else table @ [row])"

definition invalid_model :: "string \<Rightarrow> string" where
  "invalid_model model = ''invalid embedding model name `'' @ model @ ''`''"

definition embeddings_upsert ::
  "('x ext_scheme) \<Rightarrow> 'f vector_ops \<Rightarrow> string \<Rightarrow> uuid \<Rightarrow> string \<Rightarrow> 'f list \<Rightarrow> string \<Rightarrow> embedding_row list
   \<Rightarrow> (string, embedding_row list) act" where
  "embeddings_upsert x ops db_text package_id model embedding passage table =
     bind_a (lift (guard_r (valid_model model) (invalid_model model))) (\<lambda>_.
     bind_a (lift (pad_to_dim ops embedding)) (\<lambda>padded.
     let row = \<lparr>er_package_id = package_id, er_model = model, er_native_dimensions = int (length embedding),
           er_embedding = to_pgvector_literal ops padded, er_content = passage, er_content_sha256 = sha256_hex x passage\<rparr>
     in bind_a (map_err (\<lambda>_. db_text) (query (\<lambda>_. ()))) (\<lambda>_. ret (upsert_statement row table))))"

definition nearest ::
  "(string \<Rightarrow> string \<Rightarrow> 'd::linorder) \<Rightarrow> string \<Rightarrow> string \<Rightarrow> nat \<Rightarrow> embedding_row list \<Rightarrow> (uuid \<times> 'd) list" where
  "nearest distance model literal n table =
     take n (map (\<lambda>r. (er_package_id r, distance (er_embedding r) literal))
       (sort_key (\<lambda>r. distance (er_embedding r) literal) (filter (\<lambda>r. er_model r = model) table)))"

definition embeddings_search ::
  "'f vector_ops \<Rightarrow> (string \<Rightarrow> string \<Rightarrow> 'd::linorder) \<Rightarrow> string \<Rightarrow> string \<Rightarrow> 'f list \<Rightarrow> nat \<Rightarrow> embedding_row list
   \<Rightarrow> (string, (uuid \<times> 'd) list) act" where
  "embeddings_search ops distance db_text model query_vector limit table =
     bind_a (lift (guard_r (valid_model model) (invalid_model model))) (\<lambda>_.
     bind_a (lift (pad_to_dim ops query_vector)) (\<lambda>padded.
     bind_a (map_err (\<lambda>_. db_text) (query (\<lambda>_. ()))) (\<lambda>_.
       ret (nearest distance model (to_pgvector_literal ops padded) (clamp 1 100 limit) table))))"

subsection \<open>Handlers\<close>

definition require_pg :: "app_config \<Rightarrow> unit api_result" where
  "require_pg cfg =
     guard_r (postgres cfg) (bad_request ''vector_unsupported'' ''embedding search requires a Postgres (pgvector) backend'')"

record 'f embedding_request =
  eq_model :: string
  eq_embedding :: "'f list"
  eq_content :: string

definition invalid_embedding :: "string \<Rightarrow> api_err" where
  "invalid_embedding m = bad_request ''invalid_embedding'' m"

definition upsert_embedding ::
  "('x ext_scheme) \<Rightarrow> 'f vector_ops \<Rightarrow> string \<Rightarrow> app_config \<Rightarrow> string \<Rightarrow> string \<Rightarrow> headers \<Rightarrow> 'f embedding_request
   \<Rightarrow> embedding_row list \<Rightarrow> embedding_row list handler" where
  "upsert_embedding x ops db_text cfg org_slug name headers req table =
     bind_a (lift (require_pg cfg)) (\<lambda>_.
     bind_a (require_token x headers) (\<lambda>token.
     bind_a (find_org org_slug) (\<lambda>org_row.
     bind_a (lift (authorize_publish (t_org_id token) (parse (t_role token)) (o_id org_row))) (\<lambda>_.
     bind_a (find_package org_row name) (\<lambda>pkg.
       map_err invalid_embedding
         (embeddings_upsert x ops db_text (p_id pkg) (eq_model req) (eq_embedding req) (eq_content req) table))))))"

record 'f semantic_request =
  sq_model :: string
  sq_embedding :: "'f list"
  sq_limit :: nat
  sq_tags :: "string list"

record 'd semantic_hit =
  sh_org :: string
  sh_name :: string
  sh_description :: "string option"
  sh_distance :: 'd
  sh_tags :: "string list"

definition package_with_org :: "uuid \<Rightarrow> db \<Rightarrow> (package_row \<times> org_row option) option" where
  "package_with_org i d = map_option (with_org d) (List.find (\<lambda>p. p_id p = i) (packages d))"

fun collect_hits ::
  "string list \<Rightarrow> nat \<Rightarrow> (uuid \<times> 'd) list \<Rightarrow> 'd semantic_hit list \<Rightarrow> 'd semantic_hit list handler" where
  "collect_hits want raw_limit [] items = ret items"
| "collect_hits want raw_limit ((i, d) # neighbors) items =
     bind_a (sql (query (package_with_org i))) (\<lambda>found.
       case found of
         Some (pkg, Some org_row) \<Rightarrow>
           if \<not> has_all_tags (tags_of pkg) want then collect_hits want raw_limit neighbors items
           else
             (let items = items @ [\<lparr>sh_org = o_slug org_row, sh_name = p_name pkg, sh_description = p_description pkg,
                    sh_distance = d, sh_tags = tags_of pkg\<rparr>]
              in if raw_limit \<le> length items then ret items else collect_hits want raw_limit neighbors items)
       | _ \<Rightarrow> collect_hits want raw_limit neighbors items)"

definition fetch_count :: "nat \<Rightarrow> string list \<Rightarrow> nat" where
  "fetch_count raw_limit want = (if want = [] then raw_limit else min (raw_limit * 4) 100)"

definition semantic_search ::
  "'f vector_ops \<Rightarrow> (string \<Rightarrow> string \<Rightarrow> 'd::linorder) \<Rightarrow> string \<Rightarrow> app_config \<Rightarrow> 'f semantic_request \<Rightarrow> embedding_row list
   \<Rightarrow> 'd semantic_hit list handler" where
  "semantic_search ops distance db_text cfg req table =
     bind_a (lift (require_pg cfg)) (\<lambda>_.
     let want = parse_tag_filter (Some (join_with '','' (sq_tags req))); raw_limit = clamp 1 100 (sq_limit req)
     in bind_a (map_err invalid_embedding
          (embeddings_search ops distance db_text (sq_model req) (sq_embedding req) (fetch_count raw_limit want) table))
          (\<lambda>neighbors. collect_hits want raw_limit neighbors []))"

subsection \<open>Properties\<close>

lemma pad_to_dim_Inr:
  "pad_to_dim ops embedding = Inr padded \<longleftrightarrow>
     embedding \<noteq> [] \<and> length embedding \<le> VECTOR_DIM \<and> (\<forall>v\<in>set embedding. is_finite ops v)
     \<and> padded = embedding @ replicate (VECTOR_DIM - length embedding) (zero_of ops)"
proof -
  have "List.find (\<lambda>v. \<not> is_finite ops v) embedding = None \<longleftrightarrow> (\<forall>v\<in>set embedding. is_finite ops v)"
    by (auto simp: find_None_iff)
  then show ?thesis by (auto simp: pad_to_dim_def not_less split: option.splits)
qed

lemma pad_to_dim_length: "pad_to_dim ops embedding = Inr padded \<Longrightarrow> length padded = VECTOR_DIM"
  by (auto simp: pad_to_dim_Inr)

text \<open>The primary key of the table: one row per package and model.\<close>

definition one_per_space :: "embedding_row list \<Rightarrow> bool" where
  "one_per_space table \<longleftrightarrow> distinct (map (\<lambda>r. (er_package_id r, er_model r)) table)"

lemma upsert_statement_keyed: "one_per_space table \<Longrightarrow> one_per_space (upsert_statement row table)"
proof -
  have "map (\<lambda>r. (er_package_id r, er_model r)) (map (\<lambda>r. if same_space row r then row else r) table)
      = map (\<lambda>r. (er_package_id r, er_model r)) table"
    by (auto simp: same_space_def)
  then show "one_per_space table \<Longrightarrow> one_per_space (upsert_statement row table)"
    by (auto simp: one_per_space_def upsert_statement_def list_ex_iff same_space_def simp del: map_map)
qed

lemma upsert_statement_set:
  "set (upsert_statement row table) = insert row {r \<in> set table. \<not> same_space row r}"
  by (auto simp: upsert_statement_def list_ex_iff same_space_def split: if_splits)

text \<open>
  Embedding a package again replaces, for that model only. A successful upsert was asked for by a
  token that may publish for the package's organisation; afterwards the table has one row for the
  package and the model, padded to the width of the column and carrying the digest of its content,
  every other row is untouched, and no two rows share package and model.
\<close>

theorem upsert_embedding_replaces_in_place:
  assumes "upsert_embedding x ops db_text cfg org_slug name headers req table e w = (Inr table', w')"
    and "one_per_space table"
  shows "one_per_space table' \<and> postgres cfg
    \<and> (\<exists>token org_row pkg padded w1 w2 w3. require_token x headers e w = (Inr token, w1)
         \<and> find_org org_slug e w1 = (Inr org_row, w2) \<and> find_package org_row name e w2 = (Inr pkg, w3)
         \<and> authorize_publish (t_org_id token) (parse (t_role token)) (o_id org_row) = Inr ()
         \<and> length padded = VECTOR_DIM \<and> take (length (eq_embedding req)) padded = eq_embedding req
         \<and> (let row = \<lparr>er_package_id = p_id pkg, er_model = eq_model req,
                er_native_dimensions = int (length (eq_embedding req)), er_embedding = to_pgvector_literal ops padded,
                er_content = eq_content req, er_content_sha256 = sha256_hex x (eq_content req)\<rparr>
            in set table' = insert row {r \<in> set table. \<not> same_space row r}))"
proof -
  obtain token w1 org_row w2 pkg w3 padded where run: "postgres cfg" "require_token x headers e w = (Inr token, w1)"
      "find_org org_slug e w1 = (Inr org_row, w2)" "find_package org_row name e w2 = (Inr pkg, w3)"
      "authorize_publish (t_org_id token) (parse (t_role token)) (o_id org_row) = Inr ()"
      "pad_to_dim ops (eq_embedding req) = Inr padded"
      "table' = upsert_statement \<lparr>er_package_id = p_id pkg, er_model = eq_model req,
                er_native_dimensions = int (length (eq_embedding req)), er_embedding = to_pgvector_literal ops padded,
                er_content = eq_content req, er_content_sha256 = sha256_hex x (eq_content req)\<rparr> table"
    using assms(1)
    by (auto simp: upsert_embedding_def embeddings_upsert_def require_pg_def bind_a_Inr_iff lift_def ret_def Let_def
        query_Inr_iff)
  have "length padded = VECTOR_DIM" "take (length (eq_embedding req)) padded = eq_embedding req"
    using run(6) pad_to_dim_length [OF run(6)] by (auto simp: pad_to_dim_Inr)
  then show ?thesis
    using run(1-5) upsert_statement_keyed [OF assms(2)] unfolding run(7) Let_def upsert_statement_set by blast
qed

lemma sorted_nearest: "sorted (map snd (nearest distance model literal n table))"
proof -
  have "map snd (nearest distance model literal n table) = take n (map (\<lambda>r. distance (er_embedding r) literal)
      (sort_key (\<lambda>r. distance (er_embedding r) literal) (filter (\<lambda>r. er_model r = model) table)))"
    by (simp add: nearest_def take_map comp_def)
  then show ?thesis by (simp only: sorted_wrt_take sorted_sort_key)
qed

lemma collect_hits_Inr:
  assumes "collect_hits want n neighbors items e w = (Inr hits, w')" and "length items < n"
    and "sorted (map sh_distance items @ map snd neighbors)" and "\<forall>h\<in>set items. has_all_tags (sh_tags h) want"
  shows "length hits \<le> n \<and> sorted (map sh_distance hits) \<and> (\<forall>h\<in>set hits. has_all_tags (sh_tags h) want)
    \<and> set (map sh_distance hits) \<subseteq> set (map sh_distance items) \<union> snd ` set neighbors"
  using assms
proof (induction neighbors arbitrary: items w)
  case Nil
  then show ?case by (auto simp: ret_def)
next
  case (Cons nb neighbors)
  obtain i d where nb: "nb = (i, d)" by (cases nb)
  have rest: "sorted (map sh_distance items @ map snd neighbors)"
    using Cons.prems(3) by (auto simp: sorted_append)
  obtain found w1 where found: "sql (query (package_with_org i)) e w = (Inr found, w1)"
    using Cons.prems(1) nb by (auto simp: bind_a_Inr_iff)
  show ?case
  proof (cases "\<exists>pkg org_row. found = Some (pkg, Some org_row) \<and> has_all_tags (tags_of pkg) want")
    case True
    then obtain pkg org_row where f: "found = Some (pkg, Some org_row)" "has_all_tags (tags_of pkg) want" by blast
    let ?items = "items @ [\<lparr>sh_org = o_slug org_row, sh_name = p_name pkg, sh_description = p_description pkg,
                    sh_distance = d, sh_tags = tags_of pkg\<rparr>]"
    have ok: "sorted (map sh_distance ?items @ map snd neighbors)" "\<forall>h\<in>set ?items. has_all_tags (sh_tags h) want"
      using Cons.prems(3,4) f nb by (auto simp: sorted_append)
    show ?thesis
    proof (cases "n \<le> length ?items")
      case True
      then have "hits = ?items"
        using Cons.prems(1) f found nb by (auto simp: bind_a_Inr_iff Let_def ret_def)
      then show ?thesis using ok Cons.prems(2) nb by (auto simp: sorted_append)
    next
      case False
      then have "collect_hits want n neighbors ?items e w1 = (Inr hits, w')"
        using Cons.prems(1) f found nb by (auto simp: bind_a_Inr_iff Let_def)
      from Cons.IH [OF this _ ok] False nb show ?thesis by auto
    qed
  next
    case False
    then have "collect_hits want n neighbors items e w1 = (Inr hits, w')"
      using Cons.prems(1) found nb by (auto simp: bind_a_Inr_iff split: option.splits prod.splits if_splits)
    from Cons.IH [OF this Cons.prems(2) rest Cons.prems(4)] show ?thesis by auto
  qed
qed

text \<open>
  Semantic search is ranked and bounded. A reply has at most the clamped number of hits, each carries
  every tag asked for, and the distances ascend and are those of rows of the requested model.
\<close>

theorem semantic_search_is_ranked:
  assumes "semantic_search ops distance db_text cfg req table e w = (Inr hits, w')"
  shows "length hits \<le> clamp 1 100 (sq_limit req) \<and> sorted (map sh_distance hits)
    \<and> (\<forall>h\<in>set hits. has_all_tags (sh_tags h) (parse_tag_filter (Some (join_with '','' (sq_tags req)))))
    \<and> valid_model (sq_model req)
    \<and> (\<exists>literal. set (map sh_distance hits)
         \<subseteq> {distance (er_embedding r) literal | r. r \<in> set table \<and> er_model r = sq_model req})"
proof -
  let ?want = "parse_tag_filter (Some (join_with '','' (sq_tags req)))"
  let ?n = "clamp 1 100 (sq_limit req)"
  obtain m literal w1 where run: "valid_model (sq_model req)"
      "collect_hits ?want ?n (nearest distance (sq_model req) literal m table) [] e w1 = (Inr hits, w')"
    using assms
    by (auto simp: semantic_search_def embeddings_search_def bind_a_Inr_iff lift_def ret_def Let_def query_Inr_iff)
  have "0 < ?n" by (simp add: clamp_def)
  from collect_hits_Inr [OF run(2)] this sorted_nearest [of distance "sq_model req" literal m table]
  have hits: "length hits \<le> ?n" "sorted (map sh_distance hits)" "\<forall>h\<in>set hits. has_all_tags (sh_tags h) ?want"
      "set (map sh_distance hits) \<subseteq> snd ` set (nearest distance (sq_model req) literal m table)"
    by auto
  have "snd ` set (nearest distance (sq_model req) literal m table)
      \<subseteq> {distance (er_embedding r) literal | r. r \<in> set table \<and> er_model r = sq_model req}"
    by (auto simp: nearest_def dest!: in_set_takeD)
  with hits run(1) show ?thesis by blast
qed

end
