(* ===== verification/Account.thy ===== *)
theory Account
  imports Signing Plane
begin

section \<open>The account API (\<^verbatim>\<open>src/routes/account.rs\<close>)\<close>

text \<open>
  Browser endpoints over the canonical data plane. The crate behind it is not part of the
  repository: its reads are the fields of \<open>account\_read\<close> and its writes the fields of
  \<open>account\_write\<close>, each given the moment of the call, and each write the user it is made for. A
  handler's reply is its JSON value.
\<close>

record org_summary =
  og_id :: uuid
  og_slug :: string
  og_name :: string
  og_description :: "string option"
  og_role :: string

record org_entity =
  oe_id :: uuid
  oe_slug :: string
  oe_name :: string
  oe_description :: "string option"
  oe_settings :: json

record project_summary =
  pj_id :: uuid
  pj_org_id :: uuid
  pj_org_slug :: string
  pj_slug :: string
  pj_name :: string
  pj_description :: "string option"
  pj_role :: string

record project_entity =
  pe_id :: uuid
  pe_org_id :: uuid
  pe_slug :: string
  pe_name :: string
  pe_description :: "string option"
  pe_visibility :: string
  pe_settings :: json

record account_package_summary =
  ak_id :: uuid
  ak_org_id :: uuid
  ak_org_slug :: string
  ak_project_id :: "uuid option"
  ak_project_slug :: "string option"
  ak_name :: string
  ak_description :: "string option"
  ak_visibility :: string
  ak_repo_url :: string
  ak_config :: json
  ak_latest_version :: "string option"
  ak_download_count :: int
  ak_version_count :: int

record package_entity =
  ke_id :: uuid
  ke_org_id :: uuid
  ke_project_id :: "uuid option"
  ke_name :: string
  ke_description :: "string option"
  ke_vcs :: string
  ke_repo_url :: string
  ke_homepage_url :: "string option"
  ke_keywords :: json
  ke_visibility :: string
  ke_config :: json
  ke_download_count :: int
  ke_version_count :: int
  ke_latest_version :: "string option"
  ke_first_published_at :: "datetime option"
  ke_created_at :: datetime
  ke_updated_at :: datetime

record user_summary =
  us_id :: uuid
  us_subject :: uuid
  us_realm :: string
  us_email :: "string option"
  us_display_name :: "string option"
  us_avatar_url :: "string option"
  us_settings :: json

record search_hit =
  ht_entity_type :: string
  ht_entity_id :: uuid
  ht_label :: string
  ht_description :: "string option"
  ht_score :: string

record invitation_input =
  iv_email :: string
  iv_role :: string
  iv_token_hash :: string
  iv_token :: string
  iv_expires_at :: datetime

record invitation_receipt =
  ir_invitation_id :: uuid
  ir_token :: string
  ir_email :: string
  ir_role :: string

record create_project_input =
  ci_slug :: string
  ci_name :: string
  ci_description :: "string option"
  ci_visibility :: string
  ci_settings :: json

record create_package_input =
  cpi_project_id :: "uuid option"
  cpi_name :: string
  cpi_description :: "string option"
  cpi_vcs :: string
  cpi_repo_url :: string
  cpi_homepage_url :: "string option"
  cpi_keywords :: json
  cpi_config :: json

record package_patch =
  pp_description :: "string option"
  pp_project_id :: "uuid option"
  pp_repo_url :: string
  pp_homepage_url :: "string option"
  pp_keywords :: json
  pp_config :: json

record license_input =
  li_package_version_id :: "uuid option"
  li_kind :: string
  li_spdx_id :: "string option"
  li_name :: "string option"
  li_url :: "string option"
  li_text_body :: "string option"
  li_is_primary :: bool

record upload_input =
  up_package_version_id :: "uuid option"
  up_requested_version :: string
  up_status :: string
  up_storage_backend :: string
  up_storage_key :: "string option"
  up_format :: "string option"
  up_size_bytes :: "int option"
  up_sha256 :: "string option"
  up_api_token_id :: "uuid option"
  up_client_ip_hash :: "string option"
  up_user_agent :: "string option"
  up_error :: "string option"
  up_completed_at :: "datetime option"

record user_settings_input =
  ui_display_name :: "string option"
  ui_avatar_url :: "string option"
  ui_settings :: json

record account_read =
  orgs_for_user :: "nat \<Rightarrow> uuid \<Rightarrow> orm_error + org_summary list"
  projects_for_org :: "nat \<Rightarrow> uuid \<Rightarrow> string \<Rightarrow> orm_error + project_summary list"
  packages_for_org :: "nat \<Rightarrow> uuid \<Rightarrow> string \<Rightarrow> orm_error + account_package_summary list"
  search_packages :: "nat \<Rightarrow> string \<Rightarrow> uuid list \<Rightarrow> nat \<Rightarrow> orm_error + account_package_summary list"
  search_registry :: "nat \<Rightarrow> string \<Rightarrow> uuid list \<Rightarrow> nat \<Rightarrow> orm_error + search_hit list"
  org_by_slug_read :: "nat \<Rightarrow> string \<Rightarrow> orm_error + org_entity option"
  org_role :: "nat \<Rightarrow> uuid \<Rightarrow> uuid \<Rightarrow> orm_error + string option"
  project_role :: "nat \<Rightarrow> uuid \<Rightarrow> uuid \<Rightarrow> orm_error + string option"
  project_by_org_and_slug :: "nat \<Rightarrow> uuid \<Rightarrow> string \<Rightarrow> orm_error + project_entity option"
  package_with_org_read :: "nat \<Rightarrow> string \<Rightarrow> string \<Rightarrow> orm_error + (package_entity \<times> org_entity) option"
  versions_for_package :: "nat \<Rightarrow> uuid \<Rightarrow> orm_error + (uuid \<times> string) list"

record account_write =
  upsert_user_from_session :: "nat \<Rightarrow> session_identity \<Rightarrow> orm_error + user_summary"
  write_org :: "nat \<Rightarrow> uuid \<Rightarrow> string \<Rightarrow> string \<Rightarrow> string option \<Rightarrow> orm_error + org_entity"
  invite_org_member_for :: "nat \<Rightarrow> uuid \<Rightarrow> string \<Rightarrow> invitation_input \<Rightarrow> orm_error + invitation_receipt"
  create_project_for :: "nat \<Rightarrow> uuid \<Rightarrow> string \<Rightarrow> create_project_input \<Rightarrow> orm_error + project_entity"
  invite_project_member_for :: "nat \<Rightarrow> uuid \<Rightarrow> string \<Rightarrow> string \<Rightarrow> invitation_input \<Rightarrow> orm_error + invitation_receipt"
  create_package_for :: "nat \<Rightarrow> uuid \<Rightarrow> string \<Rightarrow> create_package_input \<Rightarrow> orm_error + package_entity"
  update_package_for :: "nat \<Rightarrow> uuid \<Rightarrow> string \<Rightarrow> string \<Rightarrow> package_patch \<Rightarrow> orm_error + package_entity"
  make_public_for :: "nat \<Rightarrow> uuid \<Rightarrow> string \<Rightarrow> string \<Rightarrow> orm_error + package_entity"
  add_license_for :: "nat \<Rightarrow> uuid \<Rightarrow> string \<Rightarrow> string \<Rightarrow> license_input \<Rightarrow> orm_error + uuid \<times> uuid \<times> license_input"
  register_upload_for :: "nat \<Rightarrow> uuid \<Rightarrow> string \<Rightarrow> string \<Rightarrow> upload_input \<Rightarrow> orm_error + uuid \<times> uuid \<times> upload_input"
  write_user_settings :: "nat \<Rightarrow> uuid \<Rightarrow> user_settings_input \<Rightarrow> orm_error + user_summary"

record auth_exchange =
  ax_access_token :: string
  ax_token_type :: string
  ax_expires_at :: json
  ax_shared_user_id :: json
  ax_project :: json
  ax_provider :: json
  ax_provider_tenant :: json

record account_state =
  ac_read :: "account_read option"
  ac_write :: "account_write option"
  ac_client :: "auth_client option"
  ac_audience :: string
  ac_application :: string
  ac_public_url :: "string option"
  ac_exchange :: "string \<Rightarrow> client_error + auth_exchange"

subsection \<open>Values\<close>

definition jopt :: "('a \<Rightarrow> json) \<Rightarrow> 'a option \<Rightarrow> json" where
  "jopt f v = (case v of None \<Rightarrow> JNull | Some a \<Rightarrow> f a)"

definition juuid :: "('x ext_scheme) \<Rightarrow> uuid \<Rightarrow> json" where
  "juuid x i = JString (uuid_str x i)"

definition show_int :: "int \<Rightarrow> string" where
  "show_int i = (if i < 0 then CHR ''-'' # show_nat (nat (- i)) else show_nat (nat i))"

definition jint :: "int \<Rightarrow> json" where
  "jint i = JNumber (show_int i)"

definition invitation_value :: "('x ext_scheme) \<Rightarrow> invitation_receipt \<Rightarrow> json" where
  "invitation_value x i = JObject [(''invitation_id'', juuid x (ir_invitation_id i)), (''token'', JString (ir_token i)),
     (''email'', JString (ir_email i)), (''role'', JString (ir_role i))]"

definition user_value :: "('x ext_scheme) \<Rightarrow> user_summary \<Rightarrow> json" where
  "user_value x u = JObject [(''id'', juuid x (us_id u)), (''subject'', juuid x (us_subject u)), (''realm'', JString (us_realm u)),
     (''email'', jopt JString (us_email u)), (''display_name'', jopt JString (us_display_name u)),
     (''avatar_url'', jopt JString (us_avatar_url u)), (''settings'', us_settings u)]"

definition org_summary_value :: "('x ext_scheme) \<Rightarrow> org_summary \<Rightarrow> json" where
  "org_summary_value x org = JObject [(''id'', juuid x (og_id org)), (''slug'', JString (og_slug org)),
     (''name'', JString (og_name org)), (''description'', jopt JString (og_description org)), (''role'', JString (og_role org))]"

definition project_summary_value :: "('x ext_scheme) \<Rightarrow> project_summary \<Rightarrow> json" where
  "project_summary_value x p = JObject [(''id'', juuid x (pj_id p)), (''org_id'', juuid x (pj_org_id p)),
     (''org_slug'', JString (pj_org_slug p)), (''slug'', JString (pj_slug p)), (''name'', JString (pj_name p)),
     (''description'', jopt JString (pj_description p)), (''role'', JString (pj_role p))]"

definition package_summary_value :: "('x ext_scheme) \<Rightarrow> account_package_summary \<Rightarrow> json" where
  "package_summary_value x p = JObject [(''id'', juuid x (ak_id p)), (''org_id'', juuid x (ak_org_id p)),
     (''org_slug'', JString (ak_org_slug p)), (''project_id'', jopt (juuid x) (ak_project_id p)),
     (''project_slug'', jopt JString (ak_project_slug p)), (''name'', JString (ak_name p)),
     (''description'', jopt JString (ak_description p)), (''visibility'', JString (ak_visibility p)),
     (''repo_url'', JString (ak_repo_url p)), (''config'', ak_config p),
     (''latest_version'', jopt JString (ak_latest_version p)), (''download_count'', jint (ak_download_count p)),
     (''version_count'', jint (ak_version_count p))]"

definition package_value :: "('x ext_scheme) \<Rightarrow> package_entity \<Rightarrow> json" where
  "package_value x p = JObject [(''id'', juuid x (ke_id p)), (''org_id'', juuid x (ke_org_id p)),
     (''project_id'', jopt (juuid x) (ke_project_id p)), (''name'', JString (ke_name p)),
     (''description'', jopt JString (ke_description p)), (''vcs'', JString (ke_vcs p)), (''repo_url'', JString (ke_repo_url p)),
     (''homepage_url'', jopt JString (ke_homepage_url p)), (''keywords'', ke_keywords p),
     (''visibility'', JString (ke_visibility p)), (''config'', ke_config p), (''download_count'', jint (ke_download_count p)),
     (''version_count'', jint (ke_version_count p)), (''latest_version'', jopt JString (ke_latest_version p)),
     (''first_published_at'', jopt (\<lambda>t. JString (rfc3339 x t)) (ke_first_published_at p)),
     (''created_at'', JString (rfc3339 x (ke_created_at p))), (''updated_at'', JString (rfc3339 x (ke_updated_at p)))]"

subsection \<open>Helpers\<close>

definition role_rank :: "string \<Rightarrow> nat" where
  "role_rank role =
     (if role = ''owner'' then 4 else if role = ''admin'' then 3 else if role = ''member'' then 2
      else if role = ''reader'' then 1 else 0)"

text \<open>\<open>max\_by\_key\<close> over the roles there are; the last of several maxima wins.\<close>

definition strongest_role :: "string option \<Rightarrow> string option \<Rightarrow> string option" where
  "strongest_role org project =
     (case (org, project) of
        (None, _) \<Rightarrow> project
      | (Some r, None) \<Rightarrow> Some r
      | (Some r, Some s) \<Rightarrow> Some (if role_rank r \<le> role_rank s then s else r))"

definition contains_ci :: "string \<Rightarrow> string \<Rightarrow> bool" where
  "contains_ci s q \<longleftrightarrow> contains_str (to_ascii_lowercase s) (to_ascii_lowercase q)"

definition normalize_archive_format :: "string \<Rightarrow> string api_result" where
  "normalize_archive_format v =
     (if v \<in> {''tar.gz'', ''tar_gz'', ''tgz''} then Inr ''tar.gz''
      else if v \<in> {''tar.zst'', ''tar_zst'', ''tzst''} then Inr ''tar.zst''
      else if v = ''zip'' then Inr ''zip''
      else Inl (bad_request ''invalid_archive_format'' ''archive format must be tar.gz, tar.zst, or zip''))"

definition normalize_upload_status :: "string \<Rightarrow> string" where
  "normalize_upload_status v = (if v \<in> {''complete'', ''completed'', ''published''} then ''verified'' else v)"

definition is_empty_object :: "json \<Rightarrow> bool" where
  "is_empty_object v \<longleftrightarrow> v = JObject []"

definition orm :: "(nat \<Rightarrow> orm_error + 'a) \<Rightarrow> 'a handler" where
  "orm f = map_err map_orm_error (plane_read f)"

definition account_registry_read :: "account_state \<Rightarrow> account_read api_result" where
  "account_registry_read st = ok_or registry_read_unavailable (ac_read st)"

definition account_registry_write :: "account_state \<Rightarrow> account_write api_result" where
  "account_registry_write st = ok_or (service_unavailable ''registry_data_plane_unavailable''
     ''canonical registry write context is not configured'') (ac_write st)"

definition authenticated :: "('x ext_scheme) \<Rightarrow> account_state \<Rightarrow> headers \<Rightarrow> identity api_result" where
  "authenticated x st headers = require_account x (ac_client st) (ac_audience st) (ac_application st) headers"

definition authenticated_and_projected :: "('x ext_scheme) \<Rightarrow> account_state \<Rightarrow> headers \<Rightarrow> (identity \<times> user_summary) handler" where
  "authenticated_and_projected x st headers =
     bind_a (lift (authenticated x st headers)) (\<lambda>account.
     bind_a (lift (account_registry_write st)) (\<lambda>write.
     bind_a (orm (\<lambda>t. upsert_user_from_session write t (session account))) (\<lambda>user.
       ret (account, user))))"

text \<open>A loop that performs an action for each element and collects the results.\<close>

fun each_a :: "('a \<Rightarrow> ('e, 'b) act) \<Rightarrow> 'a list \<Rightarrow> ('e, 'b list) act" where
  "each_a f [] = ret []"
| "each_a f (a # as) = bind_a (f a) (\<lambda>b. bind_a (each_a f as) (\<lambda>bs. ret (b # bs)))"

text \<open>A day in microseconds.\<close>

definition DAY :: int where
  "DAY = 86400000000"

definition invitation_input_of :: "('x ext_scheme) \<Rightarrow> string \<Rightarrow> string \<Rightarrow> invitation_input handler" where
  "invitation_input_of x email role =
     bind_a new_v4 (\<lambda>a. bind_a new_v4 (\<lambda>b.
     let token = ''zpkg_inv_'' @ uuid_simple x a @ uuid_simple x b
     in bind_a utc_now (\<lambda>now.
          ret \<lparr>iv_email = email, iv_role = role, iv_token_hash = hash_token x token, iv_token = token,
               iv_expires_at = now + 7 * DAY\<rparr>)))"

subsection \<open>Handlers that read\<close>

definition auth_unavailable :: api_err where
  "auth_unavailable = service_unavailable ''auth_unavailable'' ''shared authentication is not configured''"

definition auth_config :: "account_state \<Rightarrow> json api_result" where
  "auth_config st =
     bind_r (ok_or auth_unavailable (ac_public_url st)) (\<lambda>url.
       Inr (JObject [(''shared_auth_url'', JString url), (''application_id'', JString (ac_application st)),
         (''audience'', JString (ac_audience st)), (''supabase_exchange'', JString ''/api/v1/auth/exchange'')]))"

definition exchange_supabase :: "account_state \<Rightarrow> headers \<Rightarrow> json api_result" where
  "exchange_supabase st headers =
     bind_r (ok_or unauthorized (bearer_token headers)) (\<lambda>token.
     bind_r (ok_or auth_unavailable (ac_client st)) (\<lambda>_.
     bind_r (map_error map_shared_auth_error (ac_exchange st token)) (\<lambda>e.
       Inr (JObject [(''access_token'', JString (ax_access_token e)), (''token_type'', JString (ax_token_type e)),
         (''expires_at'', ax_expires_at e), (''shared_user_id'', ax_shared_user_id e), (''project'', ax_project e),
         (''provider'', ax_provider e), (''provider_tenant'', ax_provider_tenant e)]))))"

definition me :: "('x ext_scheme) \<Rightarrow> account_state \<Rightarrow> headers \<Rightarrow> json handler" where
  "me x st headers =
     bind_a (authenticated_and_projected x st headers) (\<lambda>(_, user). ret (user_value x user))"

text \<open>The projects of an organisation, each with the role of the user in it.\<close>

definition projects_with_roles :: "account_read \<Rightarrow> uuid \<Rightarrow> uuid \<Rightarrow> string \<Rightarrow> string \<Rightarrow> project_summary list handler" where
  "projects_with_roles read user org slug role =
     bind_a (orm (\<lambda>t. projects_for_org read t org slug)) (\<lambda>rows.
       each_a (\<lambda>p. bind_a (orm (\<lambda>t. project_role read t (pj_id p) user)) (\<lambda>direct.
         ret (p\<lparr>pj_role := (case strongest_role (Some role) direct of None \<Rightarrow> ''reader'' | Some r \<Rightarrow> r)\<rparr>))) rows)"

definition described :: "string \<Rightarrow> string \<Rightarrow> string \<Rightarrow> string option \<Rightarrow> bool" where
  "described q slug name description \<longleftrightarrow>
     contains_ci slug q \<or> contains_ci name q \<or> (case description of None \<Rightarrow> False | Some v \<Rightarrow> contains_ci v q)"

definition home :: "('x ext_scheme) \<Rightarrow> account_state \<Rightarrow> headers \<Rightarrow> string \<Rightarrow> json handler" where
  "home x st headers q =
     bind_a (authenticated_and_projected x st headers) (\<lambda>(_, user).
     bind_a (lift (account_registry_read st)) (\<lambda>read.
     bind_a (orm (\<lambda>t. orgs_for_user read t (us_id user))) (\<lambda>orgs.
     bind_a (each_a (\<lambda>org. projects_with_roles read (us_id user) (og_id org) (og_slug org) (og_role org)) orgs) (\<lambda>projects.
     bind_a (if trim q = [] then
               bind_a (each_a (\<lambda>org. orm (\<lambda>t. packages_for_org read t (og_id org) (og_slug org))) orgs) (\<lambda>ps. ret (concat ps))
             else orm (\<lambda>t. search_packages read t (trim q) (map og_id orgs) 100)) (\<lambda>packages.
     let orgs = (if trim q = [] then orgs else filter (\<lambda>org. described (trim q) (og_slug org) (og_name org) (og_description org)) orgs);
         projects = (if trim q = [] then concat projects
                     else filter (\<lambda>p. described (trim q) (pj_slug p) (pj_name p) (pj_description p)) (concat projects))
     in ret (JObject [(''user'', user_value x user), (''orgs'', JArray (map (org_summary_value x) orgs)),
          (''projects'', JArray (map (project_summary_value x) projects)),
          (''packages'', JArray (map (package_summary_value x) packages)), (''query'', JString q)]))))))"

definition account_search :: "('x ext_scheme) \<Rightarrow> account_state \<Rightarrow> headers \<Rightarrow> string \<Rightarrow> json handler" where
  "account_search x st headers q =
     bind_a (authenticated_and_projected x st headers) (\<lambda>(_, user).
     bind_a (lift (account_registry_read st)) (\<lambda>read.
     bind_a (orm (\<lambda>t. orgs_for_user read t (us_id user))) (\<lambda>orgs.
     bind_a (orm (\<lambda>t. search_registry read t q (map og_id orgs) 50)) (\<lambda>hits.
       ret (JObject [(''query'', JString q), (''hits'', JArray (map (\<lambda>h. JObject [(''entity_type'', JString (ht_entity_type h)),
         (''entity_id'', juuid x (ht_entity_id h)), (''label'', JString (ht_label h)),
         (''description'', jopt JString (ht_description h)), (''score'', JNumber (ht_score h))]) hits))])))))"

definition org_dashboard :: "('x ext_scheme) \<Rightarrow> account_state \<Rightarrow> headers \<Rightarrow> string \<Rightarrow> json handler" where
  "org_dashboard x st headers org_slug =
     bind_a (authenticated_and_projected x st headers) (\<lambda>(_, user).
     bind_a (lift (account_registry_read st)) (\<lambda>read.
     bind_a (orm (\<lambda>t. org_by_slug_read read t org_slug)) (\<lambda>found.
     bind_a (lift (ok_or (not_found ''organization'') found)) (\<lambda>org.
     bind_a (orm (\<lambda>t. org_role read t (oe_id org) (us_id user))) (\<lambda>found_role.
     bind_a (lift (ok_or (not_found ''organization'') found_role)) (\<lambda>role.
     bind_a (projects_with_roles read (us_id user) (oe_id org) (oe_slug org) role) (\<lambda>projects.
     bind_a (orm (\<lambda>t. packages_for_org read t (oe_id org) (oe_slug org))) (\<lambda>packages.
       ret (JObject [(''org'', org_summary_value x \<lparr>og_id = oe_id org, og_slug = oe_slug org, og_name = oe_name org,
              og_description = oe_description org, og_role = role\<rparr>),
         (''projects'', JArray (map (project_summary_value x) projects)),
         (''packages'', JArray (map (package_summary_value x) packages))])))))))))"

definition project_settings :: "('x ext_scheme) \<Rightarrow> account_state \<Rightarrow> headers \<Rightarrow> string \<Rightarrow> string \<Rightarrow> json handler" where
  "project_settings x st headers org_slug project_slug =
     bind_a (authenticated_and_projected x st headers) (\<lambda>(_, user).
     bind_a (lift (account_registry_read st)) (\<lambda>read.
     bind_a (orm (\<lambda>t. org_by_slug_read read t org_slug)) (\<lambda>found.
     bind_a (lift (ok_or (not_found ''project'') found)) (\<lambda>org.
     bind_a (orm (\<lambda>t. project_by_org_and_slug read t (oe_id org) project_slug)) (\<lambda>found_project.
     bind_a (lift (ok_or (not_found ''project'') found_project)) (\<lambda>project.
     bind_a (orm (\<lambda>t. org_role read t (oe_id org) (us_id user))) (\<lambda>in_org.
     bind_a (orm (\<lambda>t. project_role read t (pe_id project) (us_id user))) (\<lambda>in_project.
     bind_a (lift (ok_or (not_found ''project'') (strongest_role in_org in_project))) (\<lambda>role.
       ret (JObject [(''id'', juuid x (pe_id project)), (''org_id'', juuid x (pe_org_id project)),
         (''org_slug'', JString (oe_slug org)), (''slug'', JString (pe_slug project)), (''name'', JString (pe_name project)),
         (''description'', jopt JString (pe_description project)), (''visibility'', JString (pe_visibility project)),
         (''settings'', pe_settings project), (''role'', JString role)]))))))))))"

definition package_settings :: "('x ext_scheme) \<Rightarrow> account_state \<Rightarrow> headers \<Rightarrow> string \<Rightarrow> string \<Rightarrow> json handler" where
  "package_settings x st headers org_slug package_name =
     bind_a (authenticated_and_projected x st headers) (\<lambda>(_, user).
     bind_a (lift (account_registry_read st)) (\<lambda>read.
     bind_a (orm (\<lambda>t. package_with_org_read read t org_slug package_name)) (\<lambda>found.
     bind_a (lift (ok_or (not_found ''package'') found)) (\<lambda>(package, org).
     bind_a (orm (\<lambda>t. org_role read t (oe_id org) (us_id user))) (\<lambda>in_org.
     bind_a (case ke_project_id package of
               Some project \<Rightarrow> orm (\<lambda>t. project_role read t project (us_id user))
             | None \<Rightarrow> ret None) (\<lambda>in_project.
     bind_a (lift (ok_or (not_found ''package'') (strongest_role in_org in_project))) (\<lambda>_.
       ret (package_value x package))))))))"

subsection \<open>Handlers that write\<close>

record package_request =
  pq_project_id :: "uuid option"
  pq_name :: string
  pq_description :: "string option"
  pq_vcs :: string
  pq_repo_url :: string
  pq_homepage_url :: "string option"
  pq_keywords :: json
  pq_config :: json
  pq_default_archive_format :: string

record package_settings_request =
  sr_description :: "string option"
  sr_project_id :: "uuid option"
  sr_repo_url :: "string option"
  sr_homepage_url :: "string option"
  sr_keywords :: "json option"
  sr_config :: "json option"

record license_request =
  lr_spdx_expression :: "string option"
  lr_license_name :: "string option"
  lr_license_url :: "string option"
  lr_license_text :: "string option"
  lr_is_primary :: bool
  lr_package_version_id :: "uuid option"

record upload_request =
  ur_package_version_id :: "uuid option"
  ur_requested_version :: string
  ur_status :: string
  ur_storage_backend :: string
  ur_storage_key :: "string option"
  ur_format :: "string option"
  ur_size_bytes :: "int option"
  ur_sha256 :: "string option"
  ur_client_ip_hash :: "string option"
  ur_user_agent :: "string option"
  ur_error :: "string option"

text \<open>\<open>Map::insert\<close> on an object: the member is replaced, or added.\<close>

fun object_insert :: "string \<Rightarrow> json \<Rightarrow> (string \<times> json) list \<Rightarrow> (string \<times> json) list" where
  "object_insert k v [] = [(k, v)]"
| "object_insert k v ((k', v') # ms) = (if k' = k then (k, v) # ms else (k', v') # object_insert k v ms)"

definition create_org :: "('x ext_scheme) \<Rightarrow> account_state \<Rightarrow> headers \<Rightarrow> string \<Rightarrow> string \<Rightarrow> string option \<Rightarrow> json handler" where
  "create_org x st headers slug name description =
     bind_a (authenticated_and_projected x st headers) (\<lambda>(_, user).
     bind_a (lift (account_registry_write st)) (\<lambda>write.
     bind_a (orm (\<lambda>t. write_org write t (us_id user) slug name description)) (\<lambda>org.
       ret (JObject [(''id'', juuid x (oe_id org)), (''slug'', JString (oe_slug org)), (''name'', JString (oe_name org)),
         (''description'', jopt JString (oe_description org)), (''settings'', oe_settings org)]))))"

definition invite_org_member :: "('x ext_scheme) \<Rightarrow> account_state \<Rightarrow> headers \<Rightarrow> string \<Rightarrow> string \<Rightarrow> string \<Rightarrow> json handler" where
  "invite_org_member x st headers org_slug email role =
     bind_a (authenticated_and_projected x st headers) (\<lambda>(_, user).
     bind_a (lift (account_registry_write st)) (\<lambda>write.
     bind_a (invitation_input_of x email role) (\<lambda>input.
     bind_a (orm (\<lambda>t. invite_org_member_for write t (us_id user) org_slug input)) (\<lambda>invitation.
       ret (invitation_value x invitation)))))"

definition create_project ::
  "('x ext_scheme) \<Rightarrow> account_state \<Rightarrow> headers \<Rightarrow> string \<Rightarrow> create_project_input \<Rightarrow> json handler" where
  "create_project x st headers org_slug input =
     bind_a (authenticated_and_projected x st headers) (\<lambda>(_, user).
     bind_a (lift (account_registry_write st)) (\<lambda>write.
     bind_a (orm (\<lambda>t. create_project_for write t (us_id user) org_slug input)) (\<lambda>project.
       ret (JObject [(''id'', juuid x (pe_id project)), (''org_id'', juuid x (pe_org_id project)),
         (''slug'', JString (pe_slug project)), (''name'', JString (pe_name project)),
         (''description'', jopt JString (pe_description project)), (''visibility'', JString (pe_visibility project)),
         (''settings'', pe_settings project)]))))"

definition invite_project_member ::
  "('x ext_scheme) \<Rightarrow> account_state \<Rightarrow> headers \<Rightarrow> string \<Rightarrow> string \<Rightarrow> string \<Rightarrow> string \<Rightarrow> json handler" where
  "invite_project_member x st headers org_slug project_slug email role =
     bind_a (authenticated_and_projected x st headers) (\<lambda>(_, user).
     bind_a (lift (account_registry_write st)) (\<lambda>write.
     bind_a (invitation_input_of x email role) (\<lambda>input.
     bind_a (orm (\<lambda>t. invite_project_member_for write t (us_id user) org_slug project_slug input)) (\<lambda>invitation.
       ret (invitation_value x invitation)))))"

definition create_package :: "('x ext_scheme) \<Rightarrow> account_state \<Rightarrow> headers \<Rightarrow> string \<Rightarrow> package_request \<Rightarrow> json handler" where
  "create_package x st headers org_slug req =
     bind_a (authenticated_and_projected x st headers) (\<lambda>(_, user).
     bind_a (lift (case pq_config req of
               JObject ms \<Rightarrow> Inr ms
             | _ \<Rightarrow> Inl (bad_request ''invalid_request'' ''package config must be a JSON object''))) (\<lambda>members.
     bind_a (lift (normalize_archive_format (pq_default_archive_format req))) (\<lambda>format.
     bind_a (lift (account_registry_write st)) (\<lambda>write.
     bind_a (orm (\<lambda>t. create_package_for write t (us_id user) org_slug
         \<lparr>cpi_project_id = pq_project_id req, cpi_name = pq_name req, cpi_description = pq_description req, cpi_vcs = pq_vcs req,
          cpi_repo_url = pq_repo_url req, cpi_homepage_url = pq_homepage_url req, cpi_keywords = pq_keywords req,
          cpi_config = JObject (object_insert ''default_archive_format'' (JString format) members)\<rparr>)) (\<lambda>package.
       ret (package_value x package))))))"

definition or_current :: "'a option \<Rightarrow> 'a \<Rightarrow> 'a" where
  "or_current v current = (case v of None \<Rightarrow> current | Some a \<Rightarrow> a)"

definition settings_patch :: "package_settings_request \<Rightarrow> package_entity \<Rightarrow> package_patch" where
  "settings_patch req current =
     \<lparr>pp_description = sr_description req, pp_project_id = sr_project_id req,
      pp_repo_url = or_current (sr_repo_url req) (ke_repo_url current),
      pp_homepage_url = (case sr_homepage_url req of None \<Rightarrow> ke_homepage_url current | Some u \<Rightarrow> Some u),
      pp_keywords = or_current (sr_keywords req) (ke_keywords current),
      pp_config = (case sr_config req of
         Some v \<Rightarrow> if is_empty_object v then ke_config current else v
       | None \<Rightarrow> ke_config current)\<rparr>"

definition update_package_settings ::
  "('x ext_scheme) \<Rightarrow> account_state \<Rightarrow> headers \<Rightarrow> string \<Rightarrow> string \<Rightarrow> package_settings_request \<Rightarrow> json handler" where
  "update_package_settings x st headers org_slug package_name req =
     bind_a (authenticated_and_projected x st headers) (\<lambda>(_, user).
     bind_a (lift (account_registry_read st)) (\<lambda>read.
     bind_a (orm (\<lambda>t. package_with_org_read read t org_slug package_name)) (\<lambda>found.
     bind_a (lift (ok_or (not_found ''package'') (map_option fst found))) (\<lambda>current.
     bind_a (lift (account_registry_write st)) (\<lambda>write.
     bind_a (orm (\<lambda>t. update_package_for write t (us_id user) org_slug package_name (settings_patch req current))) (\<lambda>package.
       ret (package_value x package)))))))"

definition make_package_public :: "('x ext_scheme) \<Rightarrow> account_state \<Rightarrow> headers \<Rightarrow> string \<Rightarrow> string \<Rightarrow> json handler" where
  "make_package_public x st headers org_slug package_name =
     bind_a (authenticated_and_projected x st headers) (\<lambda>(_, user).
     bind_a (lift (account_registry_write st)) (\<lambda>write.
     bind_a (orm (\<lambda>t. make_public_for write t (us_id user) org_slug package_name)) (\<lambda>package.
       ret (package_value x package))))"

definition license_kind :: "license_request \<Rightarrow> string" where
  "license_kind req =
     (if lr_spdx_expression req \<noteq> None then ''spdx''
      else if lr_license_text req \<noteq> None \<or> lr_license_url req \<noteq> None then ''custom''
      else ''proprietary'')"

definition add_package_license ::
  "('x ext_scheme) \<Rightarrow> account_state \<Rightarrow> headers \<Rightarrow> string \<Rightarrow> string \<Rightarrow> license_request \<Rightarrow> json handler" where
  "add_package_license x st headers org_slug package_name req =
     bind_a (authenticated_and_projected x st headers) (\<lambda>(_, user).
     bind_a (lift (account_registry_write st)) (\<lambda>write.
     bind_a (orm (\<lambda>t. add_license_for write t (us_id user) org_slug package_name
         \<lparr>li_package_version_id = lr_package_version_id req, li_kind = license_kind req, li_spdx_id = lr_spdx_expression req,
          li_name = lr_license_name req, li_url = lr_license_url req, li_text_body = lr_license_text req,
          li_is_primary = lr_is_primary req\<rparr>)) (\<lambda>(i, package, license).
       ret (JObject [(''id'', juuid x i), (''package_id'', juuid x package),
         (''package_version_id'', jopt (juuid x) (li_package_version_id license)), (''kind'', JString (li_kind license)),
         (''spdx_id'', jopt JString (li_spdx_id license)), (''name'', jopt JString (li_name license)),
         (''url'', jopt JString (li_url license)), (''is_primary'', JBool (li_is_primary license))]))))"

definition upload_version :: "account_read \<Rightarrow> uuid \<Rightarrow> upload_request \<Rightarrow> uuid option handler" where
  "upload_version read package req =
     (case ur_package_version_id req of
        Some version_id \<Rightarrow> ret (Some version_id)
      | None \<Rightarrow> bind_a (orm (\<lambda>t. versions_for_package read t package)) (\<lambda>versions.
                  ret (map_option fst (List.find (\<lambda>v. snd v = ur_requested_version req) versions))))"

definition register_package_upload ::
  "('x ext_scheme) \<Rightarrow> account_state \<Rightarrow> headers \<Rightarrow> string \<Rightarrow> string \<Rightarrow> upload_request \<Rightarrow> json handler" where
  "register_package_upload x st headers org_slug package_name req =
     bind_a (authenticated_and_projected x st headers) (\<lambda>(_, user).
     let upload_status = normalize_upload_status (ur_status req) in
     bind_a (if upload_status \<in> {''verified'', ''failed'', ''aborted''} then bind_a utc_now (\<lambda>now. ret (Some now)) else ret None) (\<lambda>completed_at.
     bind_a (lift (account_registry_read st)) (\<lambda>read.
     bind_a (orm (\<lambda>t. package_with_org_read read t org_slug package_name)) (\<lambda>found.
     bind_a (lift (ok_or (not_found ''package'') (map_option fst found))) (\<lambda>package.
     bind_a (upload_version read (ke_id package) req) (\<lambda>version_id.
     bind_a (lift (account_registry_write st)) (\<lambda>write.
     bind_a (lift (transpose_opt normalize_archive_format (ur_format req))) (\<lambda>format.
     bind_a (orm (\<lambda>t. register_upload_for write t (us_id user) org_slug package_name
         \<lparr>up_package_version_id = version_id, up_requested_version = ur_requested_version req, up_status = upload_status,
          up_storage_backend = ur_storage_backend req, up_storage_key = ur_storage_key req, up_format = format,
          up_size_bytes = ur_size_bytes req, up_sha256 = ur_sha256 req, up_api_token_id = None,
          up_client_ip_hash = ur_client_ip_hash req, up_user_agent = ur_user_agent req, up_error = ur_error req,
          up_completed_at = completed_at\<rparr>)) (\<lambda>(i, owner, upload).
       ret (JObject [(''id'', juuid x i), (''package_id'', juuid x owner),
         (''package_version_id'', jopt (juuid x) (up_package_version_id upload)),
         (''requested_version'', JString (up_requested_version upload)), (''status'', JString (up_status upload)),
         (''storage_backend'', JString (up_storage_backend upload)), (''storage_key'', jopt JString (up_storage_key upload)),
         (''format'', jopt JString (up_format upload)), (''size_bytes'', jopt jint (up_size_bytes upload)),
         (''sha256'', jopt JString (up_sha256 upload)),
         (''completed_at'', jopt (\<lambda>t. JString (rfc3339 x t)) (up_completed_at upload))]))))))))))"

definition update_user_settings ::
  "('x ext_scheme) \<Rightarrow> account_state \<Rightarrow> headers \<Rightarrow> user_settings_input \<Rightarrow> json handler" where
  "update_user_settings x st headers input =
     bind_a (authenticated_and_projected x st headers) (\<lambda>(_, user).
     bind_a (lift (account_registry_write st)) (\<lambda>write.
     bind_a (orm (\<lambda>t. write_user_settings write t (us_id user) input)) (\<lambda>updated.
       ret (user_value x updated))))"

end
