(* ===== verification/AccountLaws.thy ===== *)
theory AccountLaws
  imports Account
begin

section \<open>What the account API promises\<close>

text \<open>The endpoints behind a sign-in, as one type of calls.\<close>

datatype account_call =
    Me
  | Home string
  | Search string
  | OrgDashboard string
  | ProjectSettings string string
  | PackageSettings string string
  | CreateOrg string string "string option"
  | InviteOrgMember string string string
  | CreateProject string create_project_input
  | InviteProjectMember string string string string
  | CreatePackage string package_request
  | UpdatePackage string string package_settings_request
  | MakePackagePublic string string
  | AddLicense string string license_request
  | RegisterUpload string string upload_request
  | UpdateUser user_settings_input

fun run_account :: "('x ext_scheme) \<Rightarrow> account_state \<Rightarrow> account_call \<Rightarrow> headers \<Rightarrow> json handler" where
  "run_account x st Me headers = me x st headers"
| "run_account x st (Home q) headers = home x st headers q"
| "run_account x st (Search q) headers = account_search x st headers q"
| "run_account x st (OrgDashboard org) headers = org_dashboard x st headers org"
| "run_account x st (ProjectSettings org project) headers = project_settings x st headers org project"
| "run_account x st (PackageSettings org name) headers = package_settings x st headers org name"
| "run_account x st (CreateOrg slug name description) headers = create_org x st headers slug name description"
| "run_account x st (InviteOrgMember org email role) headers = invite_org_member x st headers org email role"
| "run_account x st (CreateProject org input) headers = create_project x st headers org input"
| "run_account x st (InviteProjectMember org project email role) headers = invite_project_member x st headers org project email role"
| "run_account x st (CreatePackage org req) headers = create_package x st headers org req"
| "run_account x st (UpdatePackage org name req) headers = update_package_settings x st headers org name req"
| "run_account x st (MakePackagePublic org name) headers = make_package_public x st headers org name"
| "run_account x st (AddLicense org name req) headers = add_package_license x st headers org name req"
| "run_account x st (RegisterUpload org name req) headers = register_package_upload x st headers org name req"
| "run_account x st (UpdateUser input) headers = update_user_settings x st headers input"

lemmas account_handlers =
  me_def home_def account_search_def org_dashboard_def project_settings_def package_settings_def create_org_def
  invite_org_member_def create_project_def invite_project_member_def create_package_def update_package_settings_def
  make_package_public_def add_package_license_def register_package_upload_def update_user_settings_def

text \<open>Two write planes that answer alike whatever is asked of them for one user.\<close>

definition same_for :: "uuid \<Rightarrow> account_write \<Rightarrow> account_write \<Rightarrow> bool" where
  "same_for user a b \<longleftrightarrow>
     upsert_user_from_session a = upsert_user_from_session b
     \<and> (\<forall>t. write_org a t user = write_org b t user \<and> invite_org_member_for a t user = invite_org_member_for b t user
          \<and> create_project_for a t user = create_project_for b t user
          \<and> invite_project_member_for a t user = invite_project_member_for b t user
          \<and> create_package_for a t user = create_package_for b t user
          \<and> update_package_for a t user = update_package_for b t user
          \<and> make_public_for a t user = make_public_for b t user
          \<and> add_license_for a t user = add_license_for b t user
          \<and> register_upload_for a t user = register_upload_for b t user
          \<and> write_user_settings a t user = write_user_settings b t user)"

lemma same_forD:
  assumes "same_for user a b"
  shows "write_org b t user = write_org a t user" "invite_org_member_for b t user = invite_org_member_for a t user"
    "create_project_for b t user = create_project_for a t user"
    "invite_project_member_for b t user = invite_project_member_for a t user"
    "create_package_for b t user = create_package_for a t user" "update_package_for b t user = update_package_for a t user"
    "make_public_for b t user = make_public_for a t user" "add_license_for b t user = add_license_for a t user"
    "register_upload_for b t user = register_upload_for a t user" "write_user_settings b t user = write_user_settings a t user"
  using assms unfolding same_for_def by metis+

lemma bind_lift_Inr: "bind_a (lift (Inr a)) g = g a"
  by (intro ext) (simp add: bind_a_def lift_def)

lemma authenticated_first:
  "authenticated x st headers = Inl err \<Longrightarrow> bind_a (authenticated_and_projected x st headers) f e w = (Inl err, w)"
  by (simp add: authenticated_and_projected_def bind_a_def lift_def)

lemma projected:
  assumes "authenticated x st headers = Inr account" and "ac_write st = Some write"
    and "upsert_user_from_session write (tick w) (session account) = Inr user"
  shows "bind_a (authenticated_and_projected x st headers) f e w = f (account, user) e (w\<lparr>tick := Suc (tick w)\<rparr>)"
  using assms
  by (simp add: authenticated_and_projected_def bind_a_def lift_def account_registry_write_def orm_def map_err_def
      plane_read_def ret_def)

text \<open>C20. Every account call acts as the caller. Without a valid delegated account token a call fails with the
  authentication error and nothing is read or written; with one, the call depends on the write plane
  only through what that plane does for the user the token's session projects to: two planes that
  agree on this user cannot be told apart, so no call ever writes in another user's name.
\<close>

theorem account_calls_act_as_the_caller:
  "(authenticated x st headers = Inl err \<longrightarrow> run_account x st call headers e w = (Inl err, w))
   \<and> (authenticated x st headers = Inr account \<and> ac_write st = Some write
        \<and> upsert_user_from_session write (tick w) (session account) = Inr user \<and> same_for (us_id user) write write'
      \<longrightarrow> run_account x (st\<lparr>ac_write := Some write'\<rparr>) call headers e w = run_account x st call headers e w)"
proof (intro conjI impI)
  assume "authenticated x st headers = Inl err"
  then show "run_account x st call headers e w = (Inl err, w)"
    by (cases call) (simp_all only: run_account.simps account_handlers authenticated_first)
next
  assume h: "authenticated x st headers = Inr account \<and> ac_write st = Some write
        \<and> upsert_user_from_session write (tick w) (session account) = Inr user \<and> same_for (us_id user) write write'"
  let ?st = "st\<lparr>ac_write := Some write'\<rparr>"
  have auth: "authenticated x ?st headers = Inr account" using h by (simp add: authenticated_def)
  have upsert: "upsert_user_from_session write' (tick w) (session account) = Inr user"
    using h by (metis same_for_def)
  have here: "bind_a (authenticated_and_projected x ?st headers) f e w = f (account, user) e (w\<lparr>tick := Suc (tick w)\<rparr>)" for f
    by (rule projected [OF auth _ upsert]) simp
  have there: "bind_a (authenticated_and_projected x st headers) f e w = f (account, user) e (w\<lparr>tick := Suc (tick w)\<rparr>)" for f
    using h by (intro projected) blast+
  have read: "account_registry_read ?st = account_registry_read st"
    by (simp add: account_registry_read_def)
  have "same_for (us_id user) write write'" using h by blast
  note same = same_forD [OF this]
  have plane: "account_registry_write ?st = Inr write'" "account_registry_write st = Inr write"
    using h by (simp_all add: account_registry_write_def)
  show "run_account x ?st call headers e w = run_account x st call headers e w"
    by (cases call)
       (simp_all only: run_account.simps account_handlers here there read plane bind_lift_Inr same split_conv)
qed

text \<open>A role in an organisation, or in a project of it, at some moment.\<close>

definition role_in :: "account_read \<Rightarrow> uuid \<Rightarrow> uuid option \<Rightarrow> uuid \<Rightarrow> bool" where
  "role_in read org project user \<longleftrightarrow>
     (\<exists>t r. org_role read t org user = Inr (Some r)) \<or> (\<exists>p t r. project = Some p \<and> project_role read t p user = Inr (Some r))"

lemma strongest_role_Some:
  "strongest_role a b = Some r \<Longrightarrow> (a = Some r \<or> b = Some r)
     \<and> (\<forall>s. a = Some s \<or> b = Some s \<longrightarrow> role_rank s \<le> role_rank r)"
  by (auto simp: strongest_role_def split: option.splits if_splits)

lemma orm_Inr_iff: "orm f e w = (Inr a, w') \<longleftrightarrow> f (tick w) = Inr a \<and> w' = w\<lparr>tick := Suc (tick w)\<rparr>"
  by (simp add: orm_def plane_read_iff)

lemma case_orm_Inr:
  "(case v of None \<Rightarrow> ret None | Some p \<Rightarrow> orm (f p)) e w = (Inr r, w') \<longleftrightarrow>
     (v = None \<and> r = None \<and> w' = w) \<or> (\<exists>p. v = Some p \<and> f p (tick w) = Inr r \<and> w' = w\<lparr>tick := Suc (tick w)\<rparr>)"
  by (cases v) (auto simp: ret_def orm_Inr_iff)

lemma projected_Inr:
  "authenticated_and_projected x st headers e w = (Inr (account, user), w') \<Longrightarrow>
     authenticated x st headers = Inr account
     \<and> (\<exists>write t. ac_write st = Some write \<and> upsert_user_from_session write t (session account) = Inr user)"
  by (auto simp: authenticated_and_projected_def bind_a_Inr_iff lift_def account_registry_write_def orm_Inr_iff ret_def)

lemma strongest_role_in:
  assumes "org_role read t1 org user = Inr in_org" and "strongest_role in_org in_project = Some r"
    and "in_project = None \<or> (\<exists>p t2. project = Some p \<and> project_role read t2 p user = Inr in_project)"
  shows "role_in read org project user"
  using strongest_role_Some [OF assms(2)] assms(1,3) unfolding role_in_def by blast

lemma package_settings_Inr:
  assumes "package_settings x st headers org_slug package_name e w = (Inr v, w')" and "ac_read st = Some read"
  shows "\<exists>account user w1 t package org. authenticated_and_projected x st headers e w = (Inr (account, user), w1)
    \<and> package_with_org_read read t org_slug package_name = Inr (Some (package, org))
    \<and> role_in read (oe_id org) (ke_project_id package) (us_id user)"
  using assms
  by (auto simp: package_settings_def bind_a_Inr_iff lift_def account_registry_read_def orm_Inr_iff case_orm_Inr ret_def)
     (blast intro: strongest_role_in)+

lemma project_settings_Inr:
  assumes "project_settings x st headers org_slug project_slug e w = (Inr v, w')" and "ac_read st = Some read"
  shows "\<exists>account user w1 t t' project org. authenticated_and_projected x st headers e w = (Inr (account, user), w1)
    \<and> org_by_slug_read read t org_slug = Inr (Some org)
    \<and> project_by_org_and_slug read t' (oe_id org) project_slug = Inr (Some project)
    \<and> role_in read (oe_id org) (Some (pe_id project)) (us_id user)"
  using assms
  by (auto simp: project_settings_def bind_a_Inr_iff lift_def account_registry_read_def orm_Inr_iff ret_def)
     (blast intro: strongest_role_in)

lemma org_dashboard_Inr:
  assumes "org_dashboard x st headers org_slug e w = (Inr v, w')" and "ac_read st = Some read"
  shows "\<exists>account user w1 t org. authenticated_and_projected x st headers e w = (Inr (account, user), w1)
    \<and> org_by_slug_read read t org_slug = Inr (Some org) \<and> role_in read (oe_id org) None (us_id user)"
  using assms
  by (auto simp: org_dashboard_def bind_a_Inr_iff lift_def account_registry_read_def orm_Inr_iff ret_def role_in_def) blast

text \<open>C40. Settings and dashboards are for members. A reply of the package settings, the project settings or
  the organisation dashboard means that a delegated account token was presented and that the user its
  session projects to has a role in the organisation, or in the project the view belongs to; being
  public does not open a package's settings.
\<close>

theorem account_views_are_for_members:
  assumes "ac_read st = Some read"
  shows "(package_settings x st headers org_slug name e w = (Inr v, w') \<longrightarrow>
      (\<exists>account user w1 t package org. authenticated_and_projected x st headers e w = (Inr (account, user), w1)
        \<and> package_with_org_read read t org_slug name = Inr (Some (package, org))
        \<and> role_in read (oe_id org) (ke_project_id package) (us_id user)))
    \<and> (project_settings x st headers org_slug name e w = (Inr v, w') \<longrightarrow>
      (\<exists>account user w1 t t' project org. authenticated_and_projected x st headers e w = (Inr (account, user), w1)
        \<and> org_by_slug_read read t org_slug = Inr (Some org)
        \<and> project_by_org_and_slug read t' (oe_id org) name = Inr (Some project)
        \<and> role_in read (oe_id org) (Some (pe_id project)) (us_id user)))
    \<and> (org_dashboard x st headers org_slug e w = (Inr v, w') \<longrightarrow>
      (\<exists>account user w1 t org. authenticated_and_projected x st headers e w = (Inr (account, user), w1)
        \<and> org_by_slug_read read t org_slug = Inr (Some org) \<and> role_in read (oe_id org) None (us_id user)))"
  by (intro conjI impI package_settings_Inr [OF _ assms] project_settings_Inr [OF _ assms] org_dashboard_Inr [OF _ assms])

subsection \<open>A signed-in user of a concrete plane\<close>

definition user_1 :: user_summary where
  "user_1 = \<lparr>us_id = 1, us_subject = 5, us_realm = ''customer'', us_email = None, us_display_name = None, us_avatar_url = None,
     us_settings = JObject []\<rparr>"

definition org_e :: org_entity where
  "org_e = \<lparr>oe_id = 7, oe_slug = ''acme'', oe_name = ''Acme'', oe_description = None, oe_settings = JObject []\<rparr>"

definition refusing_plane :: account_write where
  "refusing_plane = \<lparr>upsert_user_from_session = (\<lambda>_ _. Inr user_1), write_org = (\<lambda>_ _ _ _ _. Inl (OrmOther [])),
     invite_org_member_for = (\<lambda>_ _ _ _. Inl (OrmOther [])), create_project_for = (\<lambda>_ _ _ _. Inl (OrmOther [])),
     invite_project_member_for = (\<lambda>_ _ _ _ _. Inl (OrmOther [])), create_package_for = (\<lambda>_ _ _ _. Inl (OrmOther [])),
     update_package_for = (\<lambda>_ _ _ _ _. Inl (OrmOther [])), make_public_for = (\<lambda>_ _ _ _. Inl (OrmOther [])),
     add_license_for = (\<lambda>_ _ _ _ _. Inl (OrmOther [])), register_upload_for = (\<lambda>_ _ _ _ _. Inl (OrmOther [])),
     write_user_settings = (\<lambda>_ _ _. Inl (OrmOther []))\<rparr>"

text \<open>A plane that differs from the first for every other user.\<close>

definition biased_plane :: account_write where
  "biased_plane = refusing_plane\<lparr>write_org := \<lambda>_ user _ _ _. if user = 1 then Inl (OrmOther []) else Inr org_e\<rparr>"

definition member_read :: account_read where
  "member_read = \<lparr>orgs_for_user = (\<lambda>_ _. Inr []), projects_for_org = (\<lambda>_ _ _. Inr []), packages_for_org = (\<lambda>_ _ _. Inr []),
     search_packages = (\<lambda>_ _ _ _. Inr []), search_registry = (\<lambda>_ _ _ _. Inr []), org_by_slug_read = (\<lambda>_ _. Inr (Some org_e)),
     org_role = (\<lambda>_ _ _. Inr (Some ''member'')), project_role = (\<lambda>_ _ _. Inr None),
     project_by_org_and_slug = (\<lambda>_ _ _. Inr None), package_with_org_read = (\<lambda>_ _ _. Inr None),
     versions_for_package = (\<lambda>_ _. Inr [])\<rparr>"

definition acstate_1 :: account_state where
  "acstate_1 = \<lparr>ac_read = Some member_read, ac_write = Some refusing_plane, ac_client = Some example_client, ac_audience = ''aud'',
     ac_application = ''w'', ac_public_url = None, ac_exchange = (\<lambda>_. Inl ClientUnauthorized)\<rparr>"

definition hdr_a :: headers where
  "hdr_a = [(''authorization'', ''Bearer zpkg_1'')]"

lemma acstate_1_sel [simp]: "ac_read acstate_1 = Some member_read" "ac_write acstate_1 = Some refusing_plane"
  by (simp_all add: acstate_1_def)

lemma authenticated_1: "authenticated toy_ext acstate_1 hdr_a = Inr example_identity"
  using example_account by (simp add: authenticated_def acstate_1_def hdr_a_def)

lemma upsert_1: "upsert_user_from_session refusing_plane t s = Inr user_1"
  by (simp add: refusing_plane_def)

theorem account_calls_act_as_the_caller_witness:
  "run_account toy_ext (acstate_1\<lparr>ac_write := Some biased_plane\<rparr>) (CreateOrg ''b'' ''B'' None) hdr_a calm (start db_1)
     = run_account toy_ext acstate_1 (CreateOrg ''b'' ''B'' None) hdr_a calm (start db_1)
   \<and> write_org biased_plane 0 2 ''b'' ''B'' None \<noteq> write_org refusing_plane 0 2 ''b'' ''B'' None"
proof -
  have same: "same_for (us_id user_1) refusing_plane biased_plane"
    by (simp add: same_for_def biased_plane_def refusing_plane_def user_1_def)
  have "write_org biased_plane 0 2 ''b'' ''B'' None \<noteq> write_org refusing_plane 0 2 ''b'' ''B'' None"
    by (simp add: biased_plane_def refusing_plane_def)
  moreover from account_calls_act_as_the_caller [THEN conjunct2, rule_format, of toy_ext acstate_1 hdr_a example_identity
      refusing_plane "start db_1" user_1 biased_plane]
  have "run_account toy_ext (acstate_1\<lparr>ac_write := Some biased_plane\<rparr>) (CreateOrg ''b'' ''B'' None) hdr_a calm (start db_1)
     = run_account toy_ext acstate_1 (CreateOrg ''b'' ''B'' None) hdr_a calm (start db_1)"
    using same authenticated_1 upsert_1 acstate_1_sel by blast
  ultimately show ?thesis by blast
qed

lemma dashboard_run:
  "\<exists>v w'. org_dashboard toy_ext acstate_1 hdr_a ''acme'' calm (start db_1) = (Inr v, w')"
  unfolding org_dashboard_def projected [OF authenticated_1 acstate_1_sel(2) upsert_1]
  by (simp add: bind_a_def lift_def account_registry_read_def orm_def map_err_def plane_read_def member_read_def
      projects_with_roles_def ret_def)

theorem account_views_are_for_members_witness:
  "(\<exists>v w'. org_dashboard toy_ext acstate_1 hdr_a ''acme'' calm (start db_1) = (Inr v, w'))
   \<and> (\<exists>user :: user_summary. role_in member_read 7 None (us_id user))"
proof -
  obtain v w' where run: "org_dashboard toy_ext acstate_1 hdr_a ''acme'' calm (start db_1) = (Inr v, w')"
    using dashboard_run by blast
  then obtain user :: user_summary and t org where "org_by_slug_read member_read t ''acme'' = Inr (Some org)"
      "role_in member_read (oe_id org) None (us_id user)"
    using account_views_are_for_members [OF acstate_1_sel(1), THEN conjunct2, THEN conjunct2] by blast
  moreover from this have "oe_id org = 7" by (auto simp: member_read_def org_e_def)
  ultimately show ?thesis using run by metis
qed

end
