(* ===== verification/Spec2Isabelle.thy ===== *)
theory Spec2Isabelle
  imports PackageIntake RegistryHost RateLimit Tokens AuditRoutes PublishSuccess ArtifactLaws Protobuf MessagePack Csv XmlLaws NegotiationLaws TextLaws GraphLaws DirectoryWalk EdgeFallback StorageRoutes Semantic AccountLaws
begin

text \<open>
  This development models the zpkg registry server: an HTTP service, written in Rust on axum and
  SeaORM, that stores published packages, serves them, and keeps an audit log of what was done to
  them. The theories translate the server's own logic from the files under \<^verbatim>\<open>src/\<close>; what the server
  only calls is a parameter. This theory imports the others and holds no definitions.

  \<^bold>\<open>How the server is put together, and where each part is modelled.\<close> A request meets the virtual-host
  boundary and the rate limiter, is authenticated and authorised, and reaches a handler that reads and
  writes the database, the artifact store and the canonical data plane.

  \<^item> \<^verbatim>\<open>Prelude\<close>: results and their combinators, ASCII and string helpers (splitting, trimming with
    Unicode white space, decimal printing and parsing), checked and saturating 64-bit arithmetic and
    the casts between \<open>u64\<close> and \<open>i64\<close> as words.
  \<^item> \<^verbatim>\<open>ApiError\<close> (\<^verbatim>\<open>error.rs\<close>), \<^verbatim>\<open>Database\<close> (\<^verbatim>\<open>entities/\<close>, \<^verbatim>\<open>migration/src\<close>): the error values, the rows of
    the seven tables, their keys, and the writes with the constraints the schema enforces.
  \<^item> \<^verbatim>\<open>World\<close>: the state of one request. A database with an open transaction, locks, the objects of the
    artifact store, the canonical plane's adopted versions and a step counter. Every statement first
    lets the other sessions act (\<open>peer\_db\<close>, \<open>peer\_objects\<close>), may be lost or left unacknowledged, and
    takes a tick; a handler is a function of the environment and the world (\<open>act\<close>). So every theorem about
    a handler holds for every interleaving and every failure, and says which rely it needs of the other
    sessions. \<^verbatim>\<open>External\<close>: the crates' functions (SHA-256, UUIDs, time stamps, contract names) as a record
    every definition takes.
  \<^item> \<^verbatim>\<open>RegistryHost\<close> (\<^verbatim>\<open>registry\_host.rs\<close>), \<^verbatim>\<open>RateLimit\<close> over \<^verbatim>\<open>F64\<close> (\<^verbatim>\<open>ratelimit.rs\<close>), \<^verbatim>\<open>PackageIntake\<close>
    (\<^verbatim>\<open>package\_intake.rs\<close>): the boundary, the token buckets with binary64 rounding, the admission decision.
  \<^item> \<^verbatim>\<open>Auth\<close> (\<^verbatim>\<open>auth.rs\<close>), \<^verbatim>\<open>Rbac\<close> (\<^verbatim>\<open>rbac.rs\<close>), \<^verbatim>\<open>Tokens\<close> (\<^verbatim>\<open>tokens.rs\<close>), \<^verbatim>\<open>Routes\<close> (\<^verbatim>\<open>routes/mod.rs\<close>): package tokens,
    delegated account and reader identities, roles, token administration, shared lookups.
  \<^item> \<^verbatim>\<open>AuditLog\<close>, \<^verbatim>\<open>AuditChain\<close> (\<^verbatim>\<open>audit.rs\<close>), \<^verbatim>\<open>AuditRoutes\<close> (\<^verbatim>\<open>routes/audit.rs\<close>): the hash chain, its append
    under the lock, its verification and the two endpoints.
  \<^item> \<^verbatim>\<open>Orgs\<close>, \<^verbatim>\<open>Yank\<close>, \<^verbatim>\<open>Keys\<close>, \<^verbatim>\<open>Mirrors\<close>, \<^verbatim>\<open>Signing\<close> (\<^verbatim>\<open>routes/orgs.rs\<close>, \<^verbatim>\<open>yank.rs\<close>, \<^verbatim>\<open>keys.rs\<close>, \<^verbatim>\<open>mirrors.rs\<close>,
    \<^verbatim>\<open>signing.rs\<close>): claiming a namespace, retiring a version, publisher keys, signed mirror indexes.
  \<^item> \<^verbatim>\<open>Storage\<close>, \<^verbatim>\<open>StorageLaws\<close> (\<^verbatim>\<open>storage.rs\<close>), \<^verbatim>\<open>StorageReport\<close> (\<^verbatim>\<open>storage\_report.rs\<close>), \<^verbatim>\<open>StorageRoutes\<close>
    (\<^verbatim>\<open>routes/storage.rs\<close>): the three backends step by step, and what is reported of them.
  \<^item> \<^verbatim>\<open>Verify\<close> (\<^verbatim>\<open>verify.rs\<close>), \<^verbatim>\<open>Contract\<close>, \<^verbatim>\<open>BinaryArtifact\<close>, \<^verbatim>\<open>BinaryLaws\<close>, \<^verbatim>\<open>DirectoryWalk\<close> (\<^verbatim>\<open>binary\_artifact.rs\<close>),
    \<^verbatim>\<open>Publish\<close>, \<^verbatim>\<open>PublishLaws\<close>, \<^verbatim>\<open>PublishEffect\<close>, \<^verbatim>\<open>PublishSuccess\<close> (\<^verbatim>\<open>routes/publish.rs\<close>): the publish pipeline with
    its tag check, the raw ZIP directory walk, the binary profile, the transaction and the mirror write.
  \<^item> \<^verbatim>\<open>Reads\<close>, \<^verbatim>\<open>ReadLaws\<close> (\<^verbatim>\<open>routes/packages.rs\<close>, \<^verbatim>\<open>list.rs\<close>, \<^verbatim>\<open>search.rs\<close>), \<^verbatim>\<open>Files\<close> (\<^verbatim>\<open>files.rs\<close>), \<^verbatim>\<open>Artifacts\<close>,
    \<^verbatim>\<open>ArtifactLaws\<close> (\<^verbatim>\<open>routes/artifacts.rs\<close>), \<^verbatim>\<open>Semantic\<close> (\<^verbatim>\<open>embeddings.rs\<close>, \<^verbatim>\<open>routes/semantic.rs\<close>): the read side.
  \<^item> \<^verbatim>\<open>Plane\<close>, \<^verbatim>\<open>Account\<close>, \<^verbatim>\<open>AccountLaws\<close> (\<^verbatim>\<open>routes/account.rs\<close>), \<^verbatim>\<open>EdgeFallback\<close> (\<^verbatim>\<open>edge\_fallback.rs\<close>): the account
    API over the canonical data plane, and the capabilities for the edge.
  \<^item> \<^verbatim>\<open>GraphTypes\<close>, \<^verbatim>\<open>GraphOut\<close>, \<^verbatim>\<open>Negotiation\<close>, \<^verbatim>\<open>GraphText\<close>, \<^verbatim>\<open>Graph\<close> (\<^verbatim>\<open>routes/graph.rs\<close>), \<^verbatim>\<open>Csv\<close>, \<^verbatim>\<open>Xml\<close>,
    \<^verbatim>\<open>MessagePack\<close>, \<^verbatim>\<open>Protobuf\<close>, \<^verbatim>\<open>GraphExports\<close> (\<^verbatim>\<open>routes/graph\_exports/\<close>), with \<^verbatim>\<open>NegotiationLaws\<close>, \<^verbatim>\<open>TextLaws\<close>,
    \<^verbatim>\<open>XmlLaws\<close>, \<^verbatim>\<open>GraphLaws\<close>: dependency graphs in ten representations.

  \<^bold>\<open>What the lemmas show.\<close> Integrity: every recorded version has its bytes under its digest, publishing is
  all or nothing, a success is recorded and mirrored, objects are never replaced, downloads and storage
  reports agree with the record, and the audit log always verifies and pins its history. Authority: who is
  authenticated, who may publish, manage, claim, read a private archive, a protected graph or an account
  view, and that account calls act for the caller only; the rows such a statement names are those of the
  request's own reads (\<open>read\_after\<close> of the lookups in \<^verbatim>\<open>Routes\<close>). Confinement: of the registry host, of archive
  paths and descriptors, of inflated bytes, of edge capabilities. Fidelity: the representations of a graph
  are read back, negotiation picks the best acceptable one, the graph served is the manifest's, and a
  cached one revalidates. Where the code promises a set of inputs, the set is specified on
  its own and proved to be the one accepted: the admissible requests of the intake policy (an inductive
  specification), the machine surface of a registry host, the files of a binary archive, the representable XML
  documents, the cells a spreadsheet would run. Errors: a refused graph cannot be told from an unknown one. Progress: an audit
  append takes effect when the database serves, and the loops over untrusted bytes end.

  \<^bold>\<open>Interfaces.\<close> \<open>keyed\_table\<close> is the contract of a table with unique keys; \<open>world\_invariant\<close> and its extensions
  \<open>store\_invariant\<close> and \<open>publish\_invariant\<close> are what an invariant has to keep step by step for a handler to keep
  it, and are interpreted for the schema, the audit chain, the quota, the immutability of versions, the
  objects of the store and the catalogue; \<open>verified\_store\<close> is what the publish route relies on of the store,
  \<open>scoped\_authorizer\<close> what the routes rely on of the two authorisers and its extension
  \<open>graded\_authorizer\<close> that a higher role (in the linear order of \<open>role\<close>) is never refused more, \<open>reader\_simulation\<close> what a decoder may
  assume of the budgeted reader, and \<open>monotone\_rounding\<close> what the limiter needs of binary64. The collection
  \<open>keep\_rules\<close> follows a handler's text; \<open>write\_rules\<close>, \<open>fit\_rules\<close>, \<open>piece\_writes\<close> and \<open>read\_back\<close> follow a writer's.

  \<^bold>\<open>Bounds and fuel.\<close> Loops are structural or have a measure. The readers used as references for MessagePack take the
  depth of the value as fuel, which is proved to be enough. The loops over an uploaded archive are run in
  \<^verbatim>\<open>DirectoryWalk\<close> within one iteration per 46 bytes (the fixed part of a header) and per 4 bytes (an extra
  field's header), plus one, and proved to agree with the unbounded ones. Retries have the source's limits.
  \<open>u64\<close> additions are checked or saturate where the source's do, casts to \<open>i64\<close> wrap.

  \<^bold>\<open>What is assumed.\<close> Hypotheses of theorems name documented behaviour: digests are hexadecimal, serialised
  literals are injective, other sessions take the audit lock when they append, do not delete artifacts or do not write the
  rows in question, a generated identifier is not in use, and the object store's refusals are not spelled like an absent key. Each property
  of the manifest with a hypothesis has a witness on a concrete world.

  \<^bold>\<open>Not modelled.\<close> The route table, layers, start-up, retries of connections and process commands (\<^verbatim>\<open>server.rs\<close>,
  \<^verbatim>\<open>main.rs\<close>, \<^verbatim>\<open>state.rs\<close>, \<^verbatim>\<open>account\_router.rs\<close>) are wiring and effects without a state of their own; configuration and
  flags (\<^verbatim>\<open>config.rs\<close>, \<^verbatim>\<open>flags.rs\<close>, \<open>from\_env\<close> of the limiter, \<open>from\_config\<close> of the store) read the environment through
  an external binding; the HTTP client of the introspection service (\<^verbatim>\<open>shared\_auth.rs\<close>) is a parameter of
  authentication; \<^verbatim>\<open>api\_docs.rs\<close> is static text. \<^verbatim>\<open>public\_intake.rs\<close>, \<^verbatim>\<open>metrics.rs\<close>, \<^verbatim>\<open>four\_transports.rs\<close> and
  \<^verbatim>\<open>web\_api\_plane.rs\<close> are not modules of the program. Of the migrations only the resulting schema is modelled.
  The archive, compression, signature, serialisation and data-plane crates, the contract crate and the forge
  are parameters. A file that the file-system store has written in part to its staging name, and a publication the
  canonical plane took without acknowledging it, are not states of the model. Memory exhaustion, tasks being cancelled and the timing of replies are outside the model.
\<close>

end
